(* ===== verification/Smrt_Prelude.thy ===== *)
theory Smrt_Prelude
  imports
    Main
    "HOL-Library.Char_ord"
    "HOL-Library.List_Lexorder"
    "HOL-Library.Product_Lexorder"
    "HOL-Library.Code_Target_Nat"
begin

text \<open>
  Shared ground of the development: the pieces of the Rust standard library the mirror's
  code leans on, written out once, with the lemmas every component uses.

  \<^item> strings (\<open>String\<close> / \<open>&str\<close>) are byte lists; the order on them is the lexicographic byte
    order, which is Rust's \<open>Ord\<close> for strings;
  \<^item> \<open>split\<close>, \<open>strip_prefix\<close>, \<open>trim\<close>, \<open>join\<close>, \<open>to_ascii_lowercase\<close>, \<open>parse::<u64>\<close>;
  \<^item> \<open>BTreeMap\<close> as a strictly sorted association list, behind the locale \<open>ordered_map\<close>;
  \<^item> the \<open>while let Some(x) = queue.pop()\<close> closure loop, behind the locale \<open>closure_loop\<close>.
  Letter case and white space are the ASCII ones: identifiers, loader names and version
  strings of this program are ASCII.
\<close>

named_theorems smrt_str "evaluation of the string operations"

type_synonym str = string

section \<open>Strings\<close>

definition starts_with :: "str \<Rightarrow> str \<Rightarrow> bool" where
  "starts_with s p \<longleftrightarrow> take (length p) s = p"

definition ends_with :: "str \<Rightarrow> str \<Rightarrow> bool" where
  "ends_with s p \<longleftrightarrow> length p \<le> length s \<and> drop (length s - length p) s = p"

definition strip_prefix :: "str \<Rightarrow> str \<Rightarrow> str option" where
  "strip_prefix p s = (if starts_with s p then Some (drop (length p) s) else None)"

definition strip_suffix :: "str \<Rightarrow> str \<Rightarrow> str option" where
  "strip_suffix p s = (if ends_with s p then Some (take (length s - length p) s) else None)"

text \<open>\<open>str::split\<close> on a set of separator characters; it never returns an empty list.\<close>

fun split_any :: "char list \<Rightarrow> str \<Rightarrow> str list" where
  "split_any cs [] = [[]]"
| "split_any cs (x # xs) =
     (if x \<in> set cs then [] # split_any cs xs
      else case split_any cs xs of [] \<Rightarrow> [[x]] | w # ws \<Rightarrow> (x # w) # ws)"

abbreviation split_on :: "char \<Rightarrow> str \<Rightarrow> str list" where
  "split_on c \<equiv> split_any [c]"

text \<open>\<open>s.split(c).next().unwrap_or(s)\<close>: everything before the first separator.\<close>

definition before :: "char \<Rightarrow> str \<Rightarrow> str" where
  "before c s = takeWhile (\<lambda>x. x \<noteq> c) s"

text \<open>\<open>s.splitn(2, c)\<close>: the head, and what follows the first separator if there is one.\<close>

definition split2 :: "char \<Rightarrow> str \<Rightarrow> str \<times> str option" where
  "split2 c s = (before c s,
     (case dropWhile (\<lambda>x. x \<noteq> c) s of [] \<Rightarrow> None | _ # r \<Rightarrow> Some r))"

definition is_space :: "char \<Rightarrow> bool" where
  "is_space c \<longleftrightarrow> (of_char c :: nat) \<in> {9, 10, 11, 12, 13, 32}"

definition trim :: "str \<Rightarrow> str" where
  "trim s = rev (dropWhile is_space (rev (dropWhile is_space s)))"

definition lower_char :: "char \<Rightarrow> char" where
  "lower_char c = (let n = (of_char c :: nat) in
     if 65 \<le> n \<and> n \<le> 90 then char_of (n + 32) else c)"

definition to_lower :: "str \<Rightarrow> str" where
  "to_lower s = map lower_char s"

definition eq_ignore_case :: "str \<Rightarrow> str \<Rightarrow> bool" where
  "eq_ignore_case a b \<longleftrightarrow> to_lower a = to_lower b"

fun join :: "str \<Rightarrow> str list \<Rightarrow> str" where
  "join sep [] = []"
| "join sep [x] = x"
| "join sep (x # y # xs) = x @ sep @ join sep (y # xs)"

lemma split_any_nonempty [simp]: "split_any cs s \<noteq> []"
  by (induction s) (auto split: list.splits)

lemma split_on_no_sep [simp]: "c \<notin> set s \<Longrightarrow> split_on c s = [s]"
  by (induction s) auto

lemma split_any_parts: "w \<in> set (split_any cs s) \<Longrightarrow> set w \<inter> set cs = {}"
proof (induction s arbitrary: w)
  case Nil
  then show ?case by simp
next
  case (Cons x xs)
  show ?case
  proof (cases "x \<in> set cs")
    case True
    with Cons show ?thesis by auto
  next
    case False
    obtain v vs where v: "split_any cs xs = v # vs"
      by (cases "split_any cs xs") auto
    with Cons.IH have "set v \<inter> set cs = {}" by simp
    moreover have "u \<in> set vs \<Longrightarrow> set u \<inter> set cs = {}" for u
      using Cons.IH v by simp
    ultimately show ?thesis
      using False Cons.prems v by auto
  qed
qed

lemma split_on_append:
  "c \<notin> set a \<Longrightarrow> split_on c (a @ c # b) = a # split_on c b"
  by (induction a) auto

lemma join_split_on: "join [c] (split_on c s) = s"
proof (induction s)
  case Nil
  then show ?case by simp
next
  case (Cons x xs)
  obtain w ws where w: "split_on c xs = w # ws"
    by (cases "split_on c xs") auto
  with Cons show ?case by (cases ws) auto
qed

lemma before_no_sep [simp]: "c \<notin> set s \<Longrightarrow> before c s = s"
  by (auto simp: before_def takeWhile_eq_all_conv)

lemma before_append [simp]: "c \<notin> set a \<Longrightarrow> before c (a @ c # b) = a"
  by (induction a) (auto simp: before_def)

lemma starts_with_append [simp]: "starts_with (p @ s) p"
  by (simp add: starts_with_def)

lemma starts_with_iff: "starts_with s p \<longleftrightarrow> (\<exists>r. s = p @ r)"
  by (metis append_eq_conv_conj append_take_drop_id starts_with_def)

lemma strip_prefix_append [simp]: "strip_prefix p (p @ s) = Some s"
  by (simp add: strip_prefix_def starts_with_def)

lemma strip_prefix_Some: "strip_prefix p s = Some r \<longleftrightarrow> s = p @ r"
  by (auto simp: strip_prefix_def starts_with_iff)

lemma trim_no_space [simp]: "\<forall>c \<in> set s. \<not> is_space c \<Longrightarrow> trim s = s"
proof -
  assume h: "\<forall>c \<in> set s. \<not> is_space c"
  then have "dropWhile is_space s = s"
    by (cases s) auto
  moreover have "dropWhile is_space (rev s) = rev s"
    using h by (metis dropWhile_eq_self_iff hd_in_set set_rev)
  ultimately show ?thesis by (simp add: trim_def)
qed

lemma to_lower_length [simp]: "length (to_lower s) = length s"
  by (simp add: to_lower_def)

section \<open>Decimal numbers\<close>

text \<open>\<open>u64::to_string\<close> and \<open>str::parse::<u64>\<close>. Rust accepts one leading \<open>+\<close>, refuses the empty
  string, any other character and every value from \<open>2^64\<close> on.\<close>

definition is_digit :: "char \<Rightarrow> bool" where
  "is_digit c \<longleftrightarrow> 48 \<le> (of_char c :: nat) \<and> (of_char c :: nat) \<le> 57"

definition digit_val :: "char \<Rightarrow> nat" where
  "digit_val c = of_char c - 48"

definition digits_val :: "str \<Rightarrow> nat" where
  "digits_val s = foldl (\<lambda>a c. 10 * a + digit_val c) 0 s"

definition parse_u64 :: "str \<Rightarrow> nat option" where
  "parse_u64 s =
     (let d = (case s of c # cs \<Rightarrow> if c = CHR ''+'' then cs else s | [] \<Rightarrow> [])
      in if d \<noteq> [] \<and> list_all is_digit d \<and> digits_val d < 2 ^ 64 then Some (digits_val d)
         else None)"

fun show_nat :: "nat \<Rightarrow> str" where
  "show_nat n = (if n < 10 then [char_of (48 + n)]
     else show_nat (n div 10) @ [char_of (48 + n mod 10)])"

declare show_nat.simps [simp del]

lemma digit_char [simp]:
  "d < 10 \<Longrightarrow> is_digit (char_of (48 + d))"
  "d < 10 \<Longrightarrow> digit_val (char_of (48 + d)) = d"
  by (simp_all add: is_digit_def digit_val_def)

lemma digits_val_snoc [simp]: "digits_val (s @ [c]) = 10 * digits_val s + digit_val c"
  by (simp add: digits_val_def)

lemma digits_val_Nil [simp]: "digits_val [] = 0"
  by (simp add: digits_val_def)

lemma show_nat_props:
  "show_nat n \<noteq> [] \<and> list_all is_digit (show_nat n) \<and> digits_val (show_nat n) = n"
proof (induction n rule: show_nat.induct)
  case (1 n)
  show ?case
  proof (cases "n < 10")
    case True
    then show ?thesis
      using digits_val_snoc [of "[]"] by (subst (1 2 3) show_nat.simps) simp
  next
    case False
    with 1 have "digits_val (show_nat (n div 10)) = n div 10"
      "list_all is_digit (show_nat (n div 10))" by auto
    with False show ?thesis
      by (subst (1 2 3) show_nat.simps) (simp del: digits_val_Nil)
  qed
qed

lemma show_nat_nonempty [simp]: "show_nat n \<noteq> []"
  using show_nat_props by blast

lemma show_nat_digits [simp]: "list_all is_digit (show_nat n)"
  using show_nat_props by blast

lemma digits_val_show [simp]: "digits_val (show_nat n) = n"
  using show_nat_props by blast

lemma is_digit_not [simp]:
  "\<not> is_digit CHR ''+''" "\<not> is_digit CHR ''.''" "\<not> is_digit CHR ''-''"
  by (simp_all add: is_digit_def)

lemma show_nat_no_sep:
  "\<not> is_digit c \<Longrightarrow> c \<notin> set (show_nat n)"
  using show_nat_digits [of n] by (auto simp: list_all_iff)

lemma show_nat_inject [simp]: "show_nat a = show_nat b \<longleftrightarrow> a = b"
  by (metis digits_val_show)

lemma parse_u64_digits:
  "d \<noteq> [] \<Longrightarrow> list_all is_digit d \<Longrightarrow> digits_val d < 2 ^ 64 \<Longrightarrow> parse_u64 d = Some (digits_val d)"
  by (cases d) (auto simp: parse_u64_def)

lemma parse_show_u64 [simp]: "n < 2 ^ 64 \<Longrightarrow> parse_u64 (show_nat n) = Some n"
  using parse_u64_digits [of "show_nat n"] by simp

lemma parse_u64_bound: "parse_u64 s = Some n \<Longrightarrow> n < 2 ^ 64"
  by (auto simp: parse_u64_def Let_def split: if_splits list.splits)

lemma parse_u64_Nil [simp]: "parse_u64 [] = None"
  by (simp add: parse_u64_def)

text \<open>\<open>bool::to_string\<close>\<close>

definition show_bool :: "bool \<Rightarrow> str" where
  "show_bool b = (if b then ''true'' else ''false'')"

lemma show_bool_inject [simp]: "show_bool a = show_bool b \<longleftrightarrow> a = b"
  by (simp add: show_bool_def)

section \<open>Wire vocabularies\<close>

text \<open>
  Every enum of the code that is stored or sent as a string has an \<open>as_str\<close> and a \<open>parse\<close>.
  The contract between the two: a value survives the trip, and only the strings \<open>as_str\<close>
  emits are accepted.
\<close>

locale wire_vocab =
  fixes as_str :: "'v \<Rightarrow> str"
    and parse :: "str \<Rightarrow> 'v option"
  assumes parse_as_str: "parse (as_str v) = Some v"
    and parse_sound: "parse s = Some v \<Longrightarrow> as_str v = s"
begin

lemma parse_iff: "parse s = Some v \<longleftrightarrow> s = as_str v"
  using parse_as_str parse_sound by blast

lemma as_str_inject: "as_str v = as_str w \<longleftrightarrow> v = w"
  by (metis option.inject parse_as_str)

lemma parse_None_iff: "parse s = None \<longleftrightarrow> s \<notin> range as_str"
  by (metis not_None_eq parse_iff rangeE rangeI)

lemma reencode: "map_option as_str (parse s) = (if s \<in> range as_str then Some s else None)"
  by (cases "parse s") (auto simp: parse_None_iff parse_iff)

end

section \<open>Hash maps and duplicate removal\<close>

text \<open>\<open>iter.collect::<HashMap<_,_>>()\<close>: of two pairs with one key the later wins.\<close>

definition hash_of :: "('k \<times> 'v) list \<Rightarrow> 'k \<Rightarrow> 'v option" where
  "hash_of kvs = map_of (rev kvs)"

lemma hash_of_Some: "hash_of kvs k = Some v \<Longrightarrow> (k, v) \<in> set kvs"
  by (auto simp: hash_of_def dest: map_of_SomeD)

lemma hash_of_None: "hash_of kvs k = None \<longleftrightarrow> k \<notin> fst ` set kvs"
  by (simp add: hash_of_def map_of_eq_None_iff)

lemma hash_of_distinct: "distinct (map fst kvs) \<Longrightarrow> (k, v) \<in> set kvs \<Longrightarrow> hash_of kvs k = Some v"
  unfolding hash_of_def by (rule map_of_is_SomeI) (simp_all add: rev_map [symmetric])

text \<open>\<open>Vec::dedup\<close> drops an element equal to the one before it.\<close>

fun dedup :: "'a list \<Rightarrow> 'a list" where
  "dedup (x # y # xs) = (if x = y then dedup (y # xs) else x # dedup (y # xs))"
| "dedup xs = xs"

lemma set_dedup [simp]: "set (dedup xs) = set xs"
  by (induction xs rule: dedup.induct) auto

lemma dedup_eq_Nil [simp]: "dedup xs = [] \<longleftrightarrow> xs = []"
  by (induction xs rule: dedup.induct) auto

lemma sorted_dedup:
  fixes xs :: "'a::linorder list"
  shows "sorted xs \<Longrightarrow> sorted (dedup xs) \<and> distinct (dedup xs)"
proof (induction xs rule: dedup.induct)
  case (1 x y xs)
  then have IH: "sorted (dedup (y # xs))" "distinct (dedup (y # xs))" by auto
  show ?case
  proof (cases "x = y")
    case True
    with IH show ?thesis by simp
  next
    case False
    with "1.prems" have "\<forall>z \<in> set (y # xs). x < z" by fastforce
    with IH False show ?thesis by (auto simp: less_imp_le)
  qed
qed auto

lemma find_mem: "find P xs = Some x \<Longrightarrow> x \<in> set xs \<and> P x"
  by (induction xs) (auto split: if_splits)

section \<open>Ordered maps\<close>

text \<open>
  The interface of \<open>BTreeMap\<close> the code relies on: insertion, \<open>entry().or_insert\<close>, iteration in
  key order. A client sees a finite map and its keys in increasing order.
\<close>

locale ordered_map =
  fixes lookup :: "'m \<Rightarrow> 'k::linorder \<Rightarrow> 'v option"
    and empty :: 'm
    and insert :: "'k \<Rightarrow> 'v \<Rightarrow> 'm \<Rightarrow> 'm"
    and entries :: "'m \<Rightarrow> ('k \<times> 'v) list"
    and invar :: "'m \<Rightarrow> bool"
  assumes lookup_empty: "lookup empty k = None"
    and lookup_insert: "lookup (insert k v m) = (lookup m)(k \<mapsto> v)"
    and invar_empty: "invar empty"
    and invar_insert: "invar m \<Longrightarrow> invar (insert k v m)"
    and entries_lookup: "map_of (entries m) = lookup m"
    and entries_sorted: "invar m \<Longrightarrow> sorted_wrt (<) (map fst (entries m))"
begin

definition or_insert :: "'k \<Rightarrow> 'v \<Rightarrow> 'm \<Rightarrow> 'm" where
  "or_insert k v m = (case lookup m k of None \<Rightarrow> insert k v m | Some _ \<Rightarrow> m)"

lemma lookup_or_insert:
  "lookup (or_insert k v m) k' =
     (if k' = k then (case lookup m k of None \<Rightarrow> Some v | Some w \<Rightarrow> Some w) else lookup m k')"
  by (auto simp: or_insert_def lookup_insert split: option.splits)

lemma invar_or_insert: "invar m \<Longrightarrow> invar (or_insert k v m)"
  by (simp add: or_insert_def invar_insert split: option.split)

lemma entries_iff: "invar m \<Longrightarrow> (k, v) \<in> set (entries m) \<longleftrightarrow> lookup m k = Some v"
  by (metis entries_lookup entries_sorted map_of_eq_Some_iff strict_sorted_iff)

lemma insert_idem: "lookup (insert k v (insert k v m)) = lookup (insert k v m)"
  by (simp add: lookup_insert)

end

fun bt_insert :: "'k::linorder \<Rightarrow> 'v \<Rightarrow> ('k \<times> 'v) list \<Rightarrow> ('k \<times> 'v) list" where
  "bt_insert k v [] = [(k, v)]"
| "bt_insert k v ((k', v') # m) =
     (if k < k' then (k, v) # (k', v') # m
      else if k = k' then (k, v) # m
      else (k', v') # bt_insert k v m)"

definition bt_ok :: "('k::linorder \<times> 'v) list \<Rightarrow> bool" where
  "bt_ok m \<longleftrightarrow> sorted_wrt (<) (map fst m)"

definition bt_or_insert :: "'k::linorder \<Rightarrow> 'v \<Rightarrow> ('k \<times> 'v) list \<Rightarrow> ('k \<times> 'v) list" where
  "bt_or_insert k v m = (case map_of m k of None \<Rightarrow> bt_insert k v m | Some _ \<Rightarrow> m)"

lemma map_of_bt_insert: "map_of (bt_insert k v m) = (map_of m)(k \<mapsto> v)"
  by (induction m) (auto simp: fun_eq_iff)

lemma fst_bt_insert: "fst ` set (bt_insert k v m) = Set.insert k (fst ` set m)"
  by (induction k v m rule: bt_insert.induct) auto

lemma bt_ok_insert: "bt_ok m \<Longrightarrow> bt_ok (bt_insert k v m)"
proof (induction k v m rule: bt_insert.induct)
  case (1 k v)
  then show ?case by (simp add: bt_ok_def)
next
  case (2 k v k' v' m)
  have "set (map fst (bt_insert k v m)) = Set.insert k (set (map fst m))"
    using fst_bt_insert [of k v m] by simp
  with 2 show ?case
    by (auto simp: bt_ok_def simp del: set_map)
qed

interpretation bt: ordered_map map_of "[]" bt_insert "\<lambda>m. m" bt_ok
  by unfold_locales (simp_all add: map_of_bt_insert bt_ok_insert, simp_all add: bt_ok_def)

lemma bt_or_insert_eq: "bt_or_insert = bt.or_insert"
  by (intro ext) (simp add: bt_or_insert_def bt.or_insert_def)

lemma map_of_bt_or_insert:
  "map_of (bt_or_insert k v m) k' =
     (if k' = k then (case map_of m k of None \<Rightarrow> Some v | Some w \<Rightarrow> Some w) else map_of m k')"
  by (simp only: bt_or_insert_eq bt.lookup_or_insert)

lemma bt_ok_or_insert: "bt_ok m \<Longrightarrow> bt_ok (bt_or_insert k v m)"
  by (simp only: bt_or_insert_eq bt.invar_or_insert)

end
