(* ===== verification/Closure_Loop.thy ===== *)
theory Closure_Loop
  imports Smrt_Prelude
begin

text \<open>
  The loop \<open>while let Some(x) = queue.pop() { if seen.insert(x) { queue.extend(succs(x)) } }\<close>,
  which the build (\<open>derive_required\<close>) and the dependency fill (\<open>prune_orphaned_pulled\<close>) both
  run. \<open>drain\<close> is the loop as written: \<open>Vec::pop\<close> takes from the end, \<open>extend\<close> appends, and a
  key without an entry has no successors. It terminates because only finitely many keys have
  successors. The locale \<open>closure_loop\<close> states what its two clients rely on: the result is
  the least set that holds the start and is closed under successors.
\<close>

definition succs :: "('a \<times> 'a list) list \<Rightarrow> 'a \<Rightarrow> 'a list" where
  "succs es x = (case map_of es x of None \<Rightarrow> [] | Some ys \<Rightarrow> ys)"

function drain :: "('a \<times> 'a list) list \<Rightarrow> 'a list \<Rightarrow> 'a list \<Rightarrow> 'a list" where
  "drain es queue seen =
     (if queue = [] then seen
      else let x = last queue; queue' = butlast queue in
        if x \<in> set seen then drain es queue' seen
        else drain es (queue' @ succs es x) (x # seen))"
  by pat_completeness auto

termination
proof (relation "measures [\<lambda>(es, q, seen). card (fst ` set es - set seen), \<lambda>(es, q, seen). length q]",
    goal_cases)
  case 1
  show ?case by simp
next
  case (2 es queue seen x queue')
  then show ?case by simp
next
  case (3 es queue seen x queue')
  show ?case
  proof (cases "x \<in> fst ` set es")
    case True
    then have "fst ` set es - set (x # seen) \<subset> fst ` set es - set seen"
      using 3 by auto
    then have "card (fst ` set es - set (x # seen)) < card (fst ` set es - set seen)"
      by (intro psubset_card_mono) auto
    then show ?thesis by simp
  next
    case False
    then have "succs es x = []"
      by (simp add: succs_def map_of_eq_None_iff [symmetric] del: map_of_eq_None_iff)
    moreover have "fst ` set es - set (x # seen) = fst ` set es - set seen"
      using False by auto
    ultimately show ?thesis using 3 by simp
  qed
qed

declare drain.simps [simp del]

inductive reaches :: "('a \<times> 'a list) list \<Rightarrow> 'a set \<Rightarrow> 'a \<Rightarrow> bool" for es S where
  start: "x \<in> S \<Longrightarrow> reaches es S x"
| step: "reaches es S x \<Longrightarrow> y \<in> set (succs es x) \<Longrightarrow> reaches es S y"

lemma reaches_mono: "reaches es S x \<Longrightarrow> S \<subseteq> T \<Longrightarrow> reaches es T x"
  by (induction rule: reaches.induct) (auto intro: reaches.intros)

lemma reaches_least:
  "reaches es S x \<Longrightarrow> S \<subseteq> C \<Longrightarrow> (\<And>u v. u \<in> C \<Longrightarrow> v \<in> set (succs es u) \<Longrightarrow> v \<in> C) \<Longrightarrow> x \<in> C"
  by (induction rule: reaches.induct) auto

lemma drain_starts: "set queue \<union> set seen \<subseteq> set (drain es queue seen)"
proof (induction es queue seen rule: drain.induct)
  case (1 es queue seen)
  show ?case
  proof (cases "queue = []")
    case True
    then show ?thesis by (subst drain.simps) simp
  next
    case False
    then have q: "set queue = insert (last queue) (set (butlast queue))"
      by (metis append_butlast_last_id rotate1.simps(2) list.simps(15) set_rotate1)
    show ?thesis
      using 1 False by (subst drain.simps) (auto simp: Let_def q)
  qed
qed

lemma drain_closed:
  assumes "u \<in> set (drain es queue seen)" and "v \<in> set (succs es u)"
    and "u \<notin> set seen"
  shows "v \<in> set (drain es queue seen)"
  using assms
proof (induction es queue seen rule: drain.induct)
  case (1 es queue seen)
  show ?case
  proof (cases "queue = []")
    case True
    with "1.prems" show ?thesis by (subst (asm) drain.simps) simp
  next
    case False
    let ?x = "last queue"
    show ?thesis
    proof (cases "?x \<in> set seen")
      case True
      have "drain es queue seen = drain es (butlast queue) seen"
        using False True by (subst drain.simps) (simp add: Let_def)
      then show ?thesis
        using "1.IH"(1) [OF False refl refl True] "1.prems" by simp
    next
      case new: False
      let ?d = "drain es (butlast queue @ succs es ?x) (?x # seen)"
      have d: "drain es queue seen = ?d"
        using False new by (subst drain.simps) (simp add: Let_def)
      show ?thesis
      proof (cases "u = ?x")
        case True
        with "1.prems" show ?thesis
          using drain_starts [of "butlast queue @ succs es ?x" "?x # seen" es] d by auto
      next
        case False
        then show ?thesis
          using "1.IH"(2) [OF \<open>queue \<noteq> []\<close> refl refl new] "1.prems" d by simp
      qed
    qed
  qed
qed

lemma drain_least:
  "x \<in> set (drain es queue seen) \<Longrightarrow> reaches es (set queue \<union> set seen) x"
proof (induction es queue seen rule: drain.induct)
  case (1 es queue seen)
  show ?case
  proof (cases "queue = []")
    case True
    with "1.prems" show ?thesis by (subst (asm) drain.simps) (auto intro: reaches.start)
  next
    case False
    let ?x = "last queue"
    have bl: "set (butlast queue) \<subseteq> set queue" by (meson in_set_butlastD subsetI)
    have lx: "?x \<in> set queue" using False by simp
    show ?thesis
    proof (cases "?x \<in> set seen")
      case True
      with False have "drain es queue seen = drain es (butlast queue) seen"
        by (subst drain.simps) (simp add: Let_def)
      then have "reaches es (set (butlast queue) \<union> set seen) x"
        using "1.IH"(1) [OF False refl refl True] "1.prems" by simp
      then show ?thesis by (rule reaches_mono) (use bl in auto)
    next
      case new: False
      have "drain es queue seen = drain es (butlast queue @ succs es ?x) (?x # seen)"
        using False new by (subst drain.simps) (simp add: Let_def)
      then have "reaches es (set (butlast queue @ succs es ?x) \<union> set (?x # seen)) x"
        using "1.IH"(2) [OF False refl refl new] "1.prems" by simp
      moreover have "reaches es (set queue \<union> set seen) z"
        if "z \<in> set (butlast queue @ succs es ?x) \<union> set (?x # seen)" for z
        using that bl lx by (auto intro: reaches.intros)
      ultimately show ?thesis
        by (elim reaches_least [where C = "Collect (reaches es (set queue \<union> set seen))", simplified])
          (auto intro: reaches.step)
    qed
  qed
qed

lemma drain_distinct: "distinct seen \<Longrightarrow> distinct (drain es queue seen)"
proof (induction es queue seen rule: drain.induct)
  case (1 es queue seen)
  then show ?case
    by (subst drain.simps) (auto simp: Let_def)
qed

section \<open>The interface\<close>

locale closure_loop =
  fixes run :: "('a \<times> 'a list) list \<Rightarrow> 'a list \<Rightarrow> 'a list \<Rightarrow> 'a list"
  assumes starts: "set queue \<union> set seen \<subseteq> set (run es queue seen)"
    and closed: "u \<in> set (run es queue seen) \<Longrightarrow> v \<in> set (succs es u) \<Longrightarrow> u \<notin> set seen \<Longrightarrow>
                   v \<in> set (run es queue seen)"
    and least: "x \<in> set (run es queue seen) \<Longrightarrow> reaches es (set queue \<union> set seen) x"
begin

text \<open>When the successors of what was seen at the start are queued too, the run computes
  exactly the reachable elements.\<close>

lemma run_reaches:
  assumes "\<And>u v. u \<in> set seen \<Longrightarrow> v \<in> set (succs es u) \<Longrightarrow> v \<in> set queue \<union> set seen"
  shows "set (run es queue seen) = {x. reaches es (set queue \<union> set seen) x}"
proof
  show "set (run es queue seen) \<subseteq> {x. reaches es (set queue \<union> set seen) x}"
    using least by blast
  show "{x. reaches es (set queue \<union> set seen) x} \<subseteq> set (run es queue seen)"
  proof
    fix x assume "x \<in> {x. reaches es (set queue \<union> set seen) x}"
    then have "reaches es (set queue \<union> set seen) x" by simp
    then show "x \<in> set (run es queue seen)"
    proof (rule reaches_least)
      show "set queue \<union> set seen \<subseteq> set (run es queue seen)" by (rule starts)
      fix u v assume "u \<in> set (run es queue seen)" "v \<in> set (succs es u)"
      then show "v \<in> set (run es queue seen)"
        using closed assms starts by blast
    qed
  qed
qed

corollary run_from_empty: "set (run es queue []) = {x. reaches es (set queue) x}"
  using run_reaches [of "[]" es queue] by simp

lemma run_mono:
  "set q \<subseteq> set q' \<Longrightarrow> set (run es q []) \<subseteq> set (run es q' [])"
  by (auto simp: run_from_empty elim: reaches_mono)

lemma run_induct:
  assumes "x \<in> set (run es queue seen)"
    and "\<And>y. y \<in> set queue \<union> set seen \<Longrightarrow> P y"
    and "\<And>y z. P y \<Longrightarrow> z \<in> set (succs es y) \<Longrightarrow> P z"
  shows "P x"
  using least [OF assms(1)] by (induction rule: reaches.induct) (use assms in auto)

end

interpretation cl: closure_loop drain
  by unfold_locales (fact drain_starts, erule (2) drain_closed, erule drain_least)

end
