(* ===== verification/Version_Order.thy ===== *)
theory Version_Order
  imports Smrt_Prelude
begin

text \<open>
  The contract behind every version comparison of the mirror: a version string is read as a
  list of numbers and two lists are compared position by position, missing trailing numbers
  counting as zero. \<open>pad_cmp\<close> is that comparison, \<open>nth0\<close> its abstract view as an infinite
  sequence. The locale \<open>version_order\<close> is what a client of a comparator may rely on; it is
  interpreted for the pack comparator (\<open>Pack_Version\<close>) and the range comparator (\<open>Semver\<close>).
\<close>

datatype ordering = OLess | OEqual | OGreater

definition cmp_nat :: "nat \<Rightarrow> nat \<Rightarrow> ordering" where
  "cmp_nat a b = (if a < b then OLess else if a = b then OEqual else OGreater)"

fun flip_ord :: "ordering \<Rightarrow> ordering" where
  "flip_ord OLess = OGreater"
| "flip_ord OEqual = OEqual"
| "flip_ord OGreater = OLess"

definition nth0 :: "nat list \<Rightarrow> nat \<Rightarrow> nat" where
  "nth0 xs i = (if i < length xs then xs ! i else 0)"

text \<open>\<open>Ord for Vec<u64>\<close>: first difference decides, then the shorter vector is the smaller.\<close>

fun vec_cmp :: "nat list \<Rightarrow> nat list \<Rightarrow> ordering" where
  "vec_cmp [] [] = OEqual"
| "vec_cmp [] (y # ys) = OLess"
| "vec_cmp (x # xs) [] = OGreater"
| "vec_cmp (x # xs) (y # ys) = (case cmp_nat x y of OEqual \<Rightarrow> vec_cmp xs ys | r \<Rightarrow> r)"

text \<open>The same with the shorter list padded by zeros.\<close>

fun pad_cmp :: "nat list \<Rightarrow> nat list \<Rightarrow> ordering" where
  "pad_cmp [] [] = OEqual"
| "pad_cmp [] (y # ys) = (case cmp_nat 0 y of OEqual \<Rightarrow> pad_cmp [] ys | r \<Rightarrow> r)"
| "pad_cmp (x # xs) [] = (case cmp_nat x 0 of OEqual \<Rightarrow> pad_cmp xs [] | r \<Rightarrow> r)"
| "pad_cmp (x # xs) (y # ys) = (case cmp_nat x y of OEqual \<Rightarrow> pad_cmp xs ys | r \<Rightarrow> r)"

definition seq_less :: "(nat \<Rightarrow> nat) \<Rightarrow> (nat \<Rightarrow> nat) \<Rightarrow> bool" where
  "seq_less f g \<longleftrightarrow> (\<exists>i. f i < g i \<and> (\<forall>j<i. f j = g j))"

lemma cmp_nat_simps [simp]:
  "cmp_nat a b = OLess \<longleftrightarrow> a < b" "cmp_nat a b = OEqual \<longleftrightarrow> a = b"
  "cmp_nat a b = OGreater \<longleftrightarrow> b < a"
  by (auto simp: cmp_nat_def)

lemma nth0_beyond: "length xs \<le> i \<Longrightarrow> nth0 xs i = 0"
  by (simp add: nth0_def)

lemma nth0_append_zeros [simp]: "nth0 (xs @ replicate n 0) = nth0 xs"
  by (auto simp: fun_eq_iff nth0_def nth_append)

lemma nth0_Cons: "nth0 (x # xs) i = (case i of 0 \<Rightarrow> x | Suc j \<Rightarrow> nth0 xs j)"
  by (auto simp: nth0_def split: nat.splits)

lemma seq_less_irrefl: "\<not> seq_less f f"
  by (simp add: seq_less_def)

lemma seq_less_trans: "seq_less f g \<Longrightarrow> seq_less g h \<Longrightarrow> seq_less f h"
  unfolding seq_less_def
proof (elim exE conjE)
  fix i j
  assume i: "f i < g i" "\<forall>k<i. f k = g k" and j: "g j < h j" "\<forall>k<j. g k = h k"
  consider "i < j" | "i = j" | "j < i" by linarith
  then show "\<exists>k. f k < h k \<and> (\<forall>l<k. f l = h l)"
  proof cases
    case 1
    then show ?thesis using i j by (intro exI [of _ i]) auto
  next
    case 2
    then show ?thesis using i j by (intro exI [of _ i]) auto
  next
    case 3
    then show ?thesis using i j by (intro exI [of _ j]) auto
  qed
qed

lemma seq_less_asym: "seq_less f g \<Longrightarrow> \<not> seq_less g f"
  using seq_less_trans seq_less_irrefl by blast

lemma seq_trichotomy: "f \<noteq> g \<Longrightarrow> seq_less f g \<or> seq_less g f"
proof -
  assume "f \<noteq> g"
  then have ex: "\<exists>i. f i \<noteq> g i" by auto
  define i where "i = (LEAST i. f i \<noteq> g i)"
  have ne: "f i \<noteq> g i" unfolding i_def using ex by (rule LeastI_ex)
  have eq: "\<forall>j<i. f j = g j" unfolding i_def using not_less_Least by blast
  show ?thesis
  proof (cases "f i < g i")
    case True
    with eq show ?thesis unfolding seq_less_def by blast
  next
    case False
    with ne have "g i < f i" by simp
    with eq show ?thesis unfolding seq_less_def by fastforce
  qed
qed

lemma seq_less_0:
  "seq_less f g \<longleftrightarrow> f 0 < g 0 \<or> f 0 = g 0 \<and> seq_less (\<lambda>i. f (Suc i)) (\<lambda>i. g (Suc i))"
proof
  assume "seq_less f g"
  then obtain i where i: "f i < g i" "\<forall>j<i. f j = g j" by (auto simp: seq_less_def)
  show "f 0 < g 0 \<or> f 0 = g 0 \<and> seq_less (\<lambda>i. f (Suc i)) (\<lambda>i. g (Suc i))"
  proof (cases i)
    case 0
    with i show ?thesis by simp
  next
    case (Suc k)
    with i(2) have "f 0 = g 0" "\<forall>j<k. f (Suc j) = g (Suc j)" by simp_all
    with i(1) Suc show ?thesis unfolding seq_less_def by blast
  qed
next
  assume "f 0 < g 0 \<or> f 0 = g 0 \<and> seq_less (\<lambda>i. f (Suc i)) (\<lambda>i. g (Suc i))"
  then show "seq_less f g"
  proof (elim disjE conjE)
    assume "f 0 < g 0"
    then show ?thesis unfolding seq_less_def by (intro exI [of _ 0]) simp
  next
    assume "f 0 = g 0" "seq_less (\<lambda>i. f (Suc i)) (\<lambda>i. g (Suc i))"
    then obtain i where "f 0 = g 0" "f (Suc i) < g (Suc i)" "\<forall>j<i. f (Suc j) = g (Suc j)"
      by (auto simp: seq_less_def)
    then show ?thesis
      unfolding seq_less_def by (intro exI [of _ "Suc i"]) (auto simp: less_Suc_eq_0_disj)
  qed
qed

lemma nth0_simps [simp]:
  "nth0 (x # xs) 0 = x" "nth0 (x # xs) (Suc i) = nth0 xs i" "nth0 [] 0 = 0"
  by (simp_all add: nth0_def)

lemma nth0_tl: "(\<lambda>i. nth0 (x # xs) (Suc i)) = nth0 xs" "(\<lambda>i. nth0 [] (Suc i)) = nth0 []"
  by (simp_all add: nth0_def fun_eq_iff)

lemma seq_less_nth0 [simp]:
  "seq_less (nth0 (x # xs)) (nth0 (y # ys)) \<longleftrightarrow> x < y \<or> x = y \<and> seq_less (nth0 xs) (nth0 ys)"
  "seq_less (nth0 []) (nth0 (y # ys)) \<longleftrightarrow> 0 < y \<or> 0 = y \<and> seq_less (nth0 []) (nth0 ys)"
  "seq_less (nth0 (x # xs)) (nth0 []) \<longleftrightarrow> x = 0 \<and> seq_less (nth0 xs) (nth0 [])"
  by (subst seq_less_0, simp only: nth0_simps nth0_tl not_less0 simp_thms)+

lemma nth0_eq_0: "f = (g :: nat \<Rightarrow> nat) \<longleftrightarrow> f 0 = g 0 \<and> (\<lambda>i. f (Suc i)) = (\<lambda>i. g (Suc i))"
  by (metis ext not0_implies_Suc)

lemma nth0_eq_simps [simp]:
  "nth0 (x # xs) = nth0 (y # ys) \<longleftrightarrow> x = y \<and> nth0 xs = nth0 ys"
  "nth0 [] = nth0 (y # ys) \<longleftrightarrow> 0 = y \<and> nth0 [] = nth0 ys"
  "nth0 (x # xs) = nth0 [] \<longleftrightarrow> x = 0 \<and> nth0 xs = nth0 []"
  by (subst nth0_eq_0, simp only: nth0_simps nth0_tl)+

lemma pad_cmp_OEqual: "pad_cmp xs ys = OEqual \<longleftrightarrow> nth0 xs = nth0 ys"
  by (induction xs ys rule: pad_cmp.induct) (auto simp: cmp_nat_def)

lemma pad_cmp_OLess: "pad_cmp xs ys = OLess \<longleftrightarrow> seq_less (nth0 xs) (nth0 ys)"
  by (induction xs ys rule: pad_cmp.induct) (auto simp: cmp_nat_def seq_less_irrefl)

lemma pad_cmp_OGreater: "pad_cmp xs ys = OGreater \<longleftrightarrow> seq_less (nth0 ys) (nth0 xs)"
  by (metis ordering.distinct ordering.exhaust pad_cmp_OEqual pad_cmp_OLess seq_less_asym
      seq_less_irrefl seq_trichotomy)

lemmas pad_cmp_iff = pad_cmp_OLess pad_cmp_OEqual pad_cmp_OGreater

lemma pad_cmp_flip: "pad_cmp ys xs = flip_ord (pad_cmp xs ys)"
  by (metis flip_ord.simps ordering.exhaust pad_cmp_iff)

lemma pad_cmp_cong:
  "nth0 xs = nth0 xs' \<Longrightarrow> nth0 ys = nth0 ys' \<Longrightarrow> pad_cmp xs ys = pad_cmp xs' ys'"
  by (metis ordering.exhaust pad_cmp_iff)

lemma vec_cmp_padded: "length xs = length ys \<Longrightarrow> vec_cmp xs ys = pad_cmp xs ys"
  by (induction xs ys rule: list_induct2) (simp_all split: ordering.splits)

section \<open>The interface\<close>

locale version_order =
  fixes key :: "'a \<Rightarrow> nat list option"
    and compare :: "'a \<Rightarrow> 'a \<Rightarrow> ordering option"
  assumes compare_key: "compare a b =
    (case (key a, key b) of (Some x, Some y) \<Rightarrow> Some (pad_cmp x y) | _ \<Rightarrow> None)"
begin

lemma answered_iff: "compare a b \<noteq> None \<longleftrightarrow> key a \<noteq> None \<and> key b \<noteq> None"
  by (auto simp: compare_key split: option.splits)

lemma refl: "key a \<noteq> None \<Longrightarrow> compare a a = Some OEqual"
  by (auto simp: compare_key pad_cmp_iff split: option.splits)

lemma flip: "compare b a = map_option flip_ord (compare a b)"
  by (cases "key a"; cases "key b") (simp_all add: compare_key, rule pad_cmp_flip)

lemma compare_Some:
  "compare a b = Some r \<longleftrightarrow> (\<exists>x y. key a = Some x \<and> key b = Some y \<and> r = pad_cmp x y)"
  by (auto simp: compare_key split: option.splits)

lemma less_trans:
  assumes "compare a b = Some OLess" and "compare b c = Some OLess"
  shows "compare a c = Some OLess"
proof -
  from assms obtain x y z where k: "key a = Some x" "key b = Some y" "key c = Some z"
    and l: "pad_cmp x y = OLess" "pad_cmp y z = OLess"
    by (force simp: compare_Some)
  from l have "pad_cmp x z = OLess"
    unfolding pad_cmp_OLess by (rule seq_less_trans)
  with k show ?thesis by (simp add: compare_key)
qed

lemma equal_trans:
  "compare a b = Some OEqual \<Longrightarrow> compare b c = r \<Longrightarrow> compare a c = r"
proof -
  assume h: "compare a b = Some OEqual" "compare b c = r"
  then obtain x y where k: "key a = Some x" "key b = Some y" "nth0 x = nth0 y"
    by (auto simp: compare_key pad_cmp_OEqual split: option.splits)
  have "pad_cmp x z = pad_cmp y z" for z by (rule pad_cmp_cong) (simp_all add: k)
  with h(2) k show ?thesis by (cases "key c") (simp_all add: compare_key)
qed

lemma not_less_trans:
  assumes "compare b a = Some r" "r \<noteq> OLess" "compare c b = Some s" "s \<noteq> OLess"
  shows "\<exists>t. compare c a = Some t \<and> t \<noteq> OLess"
proof -
  from assms obtain x y z where k: "key a = Some x" "key b = Some y" "key c = Some z"
    by (auto simp: compare_key split: option.splits)
  have "\<not> seq_less (nth0 y) (nth0 x)" "\<not> seq_less (nth0 z) (nth0 y)"
    using assms k by (auto simp: compare_key pad_cmp_iff)
  then have "\<not> seq_less (nth0 z) (nth0 x)"
    by (metis seq_less_trans seq_trichotomy)
  with k show ?thesis by (auto simp: compare_key pad_cmp_iff)
qed

lemma padding:
  "key a = Some x \<Longrightarrow> key b = Some (x @ replicate n 0) \<Longrightarrow> compare a b = Some OEqual"
  by (auto simp: compare_key pad_cmp_iff)

end

section \<open>Sorting by a comparator\<close>

text \<open>\<open>slice::sort_by\<close>, which is stable.\<close>

fun insert_by :: "('a \<Rightarrow> 'a \<Rightarrow> ordering) \<Rightarrow> 'a \<Rightarrow> 'a list \<Rightarrow> 'a list" where
  "insert_by cmp x [] = [x]"
| "insert_by cmp x (y # ys) =
     (if cmp x y = OGreater then y # insert_by cmp x ys else x # y # ys)"

definition sort_by :: "('a \<Rightarrow> 'a \<Rightarrow> ordering) \<Rightarrow> 'a list \<Rightarrow> 'a list" where
  "sort_by cmp xs = foldr (insert_by cmp) xs []"

definition cmp_str :: "str \<Rightarrow> str \<Rightarrow> ordering" where
  "cmp_str a b = (if a < b then OLess else if b < a then OGreater else OEqual)"

lemma set_insert_by [simp]: "set (insert_by cmp x ys) = insert x (set ys)"
  by (induction ys) auto

lemma set_sort_by [simp]: "set (sort_by cmp xs) = set xs"
  unfolding sort_by_def by (induction xs) auto

lemma length_insert_by [simp]: "length (insert_by cmp x ys) = Suc (length ys)"
  by (induction ys) auto

lemma length_sort_by [simp]: "length (sort_by cmp xs) = length xs"
  unfolding sort_by_def by (induction xs) auto

lemma sorted_insert_by:
  assumes flip: "\<And>a b. cmp b a = flip_ord (cmp a b)"
    and trans: "\<And>a b c. cmp a b \<noteq> OGreater \<Longrightarrow> cmp b c \<noteq> OGreater \<Longrightarrow> cmp a c \<noteq> OGreater"
  shows "sorted_wrt (\<lambda>a b. cmp a b \<noteq> OGreater) ys \<Longrightarrow>
    sorted_wrt (\<lambda>a b. cmp a b \<noteq> OGreater) (insert_by cmp x ys)"
proof (induction ys)
  case (Cons y ys)
  have "cmp y x \<noteq> OGreater" if "cmp x y = OGreater"
    using that by (simp add: flip [of y x])
  moreover have "cmp x z \<noteq> OGreater" if "cmp x y \<noteq> OGreater" "z \<in> set ys" for z
    using that Cons.prems trans [of x y z] by auto
  ultimately show ?case using Cons by auto
qed simp

lemma sorted_sort_by:
  assumes flip: "\<And>a b. cmp b a = flip_ord (cmp a b)"
    and trans: "\<And>a b c. cmp a b \<noteq> OGreater \<Longrightarrow> cmp b c \<noteq> OGreater \<Longrightarrow> cmp a c \<noteq> OGreater"
  shows "sorted_wrt (\<lambda>a b. cmp a b \<noteq> OGreater) (sort_by cmp xs)"
  unfolding sort_by_def
  by (induction xs) (auto intro: sorted_insert_by [OF flip trans])

end
