(* ===== verification/Pack_Version.thy ===== *)
theory Pack_Version
  imports Version_Order
begin

text \<open>
  \<open>src/src/domain/version.rs\<close>: the release channel of a build and the comparison of pack
  version strings. The comparator is shown to satisfy \<open>version_order\<close> on the numeric tuple of
  the string, for every string (a segment that is not a number reads as 0).
\<close>

datatype version_channel = Release | Beta | Alpha

fun channel_as_str :: "version_channel \<Rightarrow> str" where
  "channel_as_str Release = ''release''"
| "channel_as_str Beta = ''beta''"
| "channel_as_str Alpha = ''alpha''"

definition channel_parse :: "str \<Rightarrow> version_channel option" where
  "channel_parse s =
     (if s = ''release'' then Some Release
      else if s = ''beta'' then Some Beta
      else if s = ''alpha'' then Some Alpha
      else None)"

interpretation channel: wire_vocab channel_as_str channel_parse
proof
  show "channel_parse (channel_as_str v) = Some v" for v
    by (cases v) (simp_all add: channel_parse_def)
  show "channel_parse s = Some v \<Longrightarrow> channel_as_str v = s" for s v
    by (auto simp: channel_parse_def split: if_splits)
qed

definition legacy_version_channel :: "str \<Rightarrow> version_channel" where
  "legacy_version_channel version =
     (if starts_with version ''SNAPSHOT-'' then Beta else Release)"

definition pack_version_tuple :: "str \<Rightarrow> nat list" where
  "pack_version_tuple version =
     map (\<lambda>seg. case parse_u64 seg of None \<Rightarrow> 0 | Some n \<Rightarrow> n) (split_on CHR ''.'' version)"

text \<open>\<open>Vec::resize(n, 0)\<close>: truncates or pads.\<close>

definition resize :: "nat \<Rightarrow> nat list \<Rightarrow> nat list" where
  "resize n xs = take n xs @ replicate (n - length xs) 0"

definition compare_pack_versions :: "str \<Rightarrow> str \<Rightarrow> ordering" where
  "compare_pack_versions a b =
     (let at = pack_version_tuple a; bt = pack_version_tuple b;
          n = max (length at) (length bt)
      in vec_cmp (resize n at) (resize n bt))"

lemma resize_nth0 [simp]: "length xs \<le> n \<Longrightarrow> nth0 (resize n xs) = nth0 xs"
  by (simp add: resize_def)

lemma length_resize [simp]: "length (resize n xs) = n"
  by (simp add: resize_def min_def)

lemma compare_pack_versions_pad:
  "compare_pack_versions a b = pad_cmp (pack_version_tuple a) (pack_version_tuple b)"
  unfolding compare_pack_versions_def Let_def
  by (subst vec_cmp_padded, simp, rule pad_cmp_cong) simp_all

interpretation pv: version_order
  "\<lambda>s. Some (pack_version_tuple s)" "\<lambda>a b. Some (compare_pack_versions a b)"
  by unfold_locales (simp add: compare_pack_versions_pad)

lemma pack_version_tuple_show:
  "\<forall>n \<in> set ns. n < 2 ^ 64 \<Longrightarrow> ns \<noteq> [] \<Longrightarrow>
   pack_version_tuple (join ''.'' (map show_nat ns)) = ns"
proof (induction ns rule: induct_list012)
  case (2 n)
  have "CHR ''.'' \<notin> set (show_nat n)" by (rule show_nat_no_sep) simp
  with 2 show ?case by (simp add: pack_version_tuple_def)
next
  case (3 m n ns)
  have "CHR ''.'' \<notin> set (show_nat m)" by (rule show_nat_no_sep) simp
  with 3 show ?case
    by (simp add: pack_version_tuple_def split_on_append)
qed simp

section \<open>Properties\<close>

text \<open>comparing two pack versions compares the infinite sequences of their numbers, a missing
  trailing number counting as zero: Less exactly when the first difference is smaller.\<close>

theorem compare_pack_versions_spec:
  "compare_pack_versions a b =
     (let f = nth0 (pack_version_tuple a); g = nth0 (pack_version_tuple b)
      in if f = g then OEqual else if seq_less f g then OLess else OGreater)"
  by (cases "compare_pack_versions a b")
    (auto simp: compare_pack_versions_pad pad_cmp_iff Let_def seq_less_irrefl dest: seq_less_asym)

lemma compare_pack_versions_order:
  "compare_pack_versions b a = flip_ord (compare_pack_versions a b)"
  "compare_pack_versions a b = OLess \<Longrightarrow> compare_pack_versions b c = OLess \<Longrightarrow>
   compare_pack_versions a c = OLess"
  using pv.flip [of b a] pv.less_trans [of a b c] by simp_all

text \<open>a pack version printed from numbers compares by those numbers, so two-digit counters
  sort after single-digit ones.\<close>

theorem compare_printed_versions:
  assumes "ms \<noteq> []" "ns \<noteq> []" "\<forall>n \<in> set ms \<union> set ns. n < 2 ^ 64"
  shows "compare_pack_versions (join ''.'' (map show_nat ms)) (join ''.'' (map show_nat ns)) =
    pad_cmp ms ns"
  using assms by (simp add: compare_pack_versions_pad pack_version_tuple_show)

theorem compare_printed_versions_witness:
  "compare_pack_versions ''0.4.9'' ''0.4.10'' = OLess"
proof -
  have "join ''.'' (map show_nat [0, 4, 9]) = ''0.4.9''" "join ''.'' (map show_nat [0, 4, 10]) = ''0.4.10''"
    "pad_cmp [0, 4, 9] [0, 4, 10] = OLess"
    by code_simp+
  with compare_printed_versions [of "[0, 4, 9]" "[0, 4, 10]"] show ?thesis by simp
qed

end
