(* ===== verification/Semver.thy ===== *)
theory Semver
  imports Version_Order
begin

text \<open>
  \<open>src/src/registry/semver.rs\<close>: reading a plain dotted-numeric version, comparing two of them
  and deciding whether a version lies in a declared window. Anything that is not plainly
  numeric is answered with \<open>None\<close>.
\<close>

text \<open>\<open>parse\<close>: white space, build metadata after \<open>+\<close> and one leading \<open>v\<close> are dropped.\<close>

definition strip_v :: "str \<Rightarrow> str" where
  "strip_v s = (case s of c # cs \<Rightarrow> if c = CHR ''v'' \<or> c = CHR ''V'' then cs else s | [] \<Rightarrow> [])"

definition semver_parse :: "str \<Rightarrow> nat list option" where
  "semver_parse s =
     (let s = trim s; s = before CHR ''+'' s; s = strip_v s
      in if s = [] then None else those (map parse_u64 (split_on CHR ''.'' s)))"

definition get0 :: "nat list \<Rightarrow> nat \<Rightarrow> nat" where
  "get0 xs i = (if i < length xs then xs ! i else 0)"

text \<open>The loop over positions \<open>0..n\<close> of \<open>cmp\<close>; the list holds the positions still to visit.\<close>

fun cmp_loop :: "nat list \<Rightarrow> nat list \<Rightarrow> nat list \<Rightarrow> ordering" where
  "cmp_loop pa pb [] = OEqual"
| "cmp_loop pa pb (i # is) =
     (case cmp_nat (get0 pa i) (get0 pb i) of
        OEqual \<Rightarrow> cmp_loop pa pb is
      | ord \<Rightarrow> ord)"

definition semver_cmp :: "str \<Rightarrow> str \<Rightarrow> ordering option" where
  "semver_cmp a b =
     (case semver_parse a of None \<Rightarrow> None | Some pa \<Rightarrow>
      (case semver_parse b of None \<Rightarrow> None | Some pb \<Rightarrow>
        Some (cmp_loop pa pb [0..<max (length pa) (length pb)])))"

datatype range_op = Ge | Gt | Le | Lt | Eq | Lower

definition split_op :: "str \<Rightarrow> range_op \<times> str" where
  "split_op r =
     (case strip_prefix ''>='' r of Some rest \<Rightarrow> (Ge, rest) | None \<Rightarrow>
      (case strip_prefix ''<='' r of Some rest \<Rightarrow> (Le, rest) | None \<Rightarrow>
      (case strip_prefix ''=='' r of Some rest \<Rightarrow> (Eq, rest) | None \<Rightarrow>
      (case strip_prefix ''>'' r of Some rest \<Rightarrow> (Gt, rest) | None \<Rightarrow>
      (case strip_prefix ''<'' r of Some rest \<Rightarrow> (Lt, rest) | None \<Rightarrow>
      (case strip_prefix ''='' r of Some rest \<Rightarrow> (Eq, rest) | None \<Rightarrow>
      (case strip_prefix ''~'' r of Some rest \<Rightarrow> (Lower, rest) | None \<Rightarrow>
      (case strip_prefix ''^'' r of Some rest \<Rightarrow> (Lower, rest) | None \<Rightarrow>
      (Ge, r)))))))))"

text \<open>The two bound checks of \<open>interval\<close>: an empty bound is open, an incomparable one leaves
  the whole question unanswered (the \<open>?\<close> of the source).\<close>

definition check_lower :: "str \<Rightarrow> str \<Rightarrow> bool \<Rightarrow> bool option" where
  "check_lower version lo lower_inc =
     (if lo = [] then Some True
      else case semver_cmp version lo of
        None \<Rightarrow> None
      | Some OLess \<Rightarrow> Some False
      | Some OEqual \<Rightarrow> Some lower_inc
      | Some OGreater \<Rightarrow> Some True)"

definition check_upper :: "str \<Rightarrow> str \<Rightarrow> bool \<Rightarrow> bool option" where
  "check_upper version hi upper_inc =
     (if hi = [] then Some True
      else case semver_cmp version hi of
        None \<Rightarrow> None
      | Some OGreater \<Rightarrow> Some False
      | Some OEqual \<Rightarrow> Some upper_inc
      | Some OLess \<Rightarrow> Some True)"

definition interval :: "str \<Rightarrow> str \<Rightarrow> bool option" where
  "interval version r =
     (let lower_inc = starts_with r ''[''; upper_inc = ends_with r '']''
      in if \<not> (ends_with r '']'' \<or> ends_with r '')'') then None
         else let inner = take (length r - 2) (drop 1 r) in
           case split2 CHR '','' inner of
             (lo, None) \<Rightarrow> map_option (\<lambda>ord. ord = OEqual) (semver_cmp version (trim lo))
           | (lo, Some hi) \<Rightarrow>
               (let lo = trim lo; hi = trim hi in
                case check_lower version lo lower_inc of
                  None \<Rightarrow> None
                | Some False \<Rightarrow> Some False
                | Some True \<Rightarrow> check_upper version hi upper_inc))"

definition in_range :: "str \<Rightarrow> str \<Rightarrow> bool option" where
  "in_range version rng =
     (let r = trim rng in
      if r = [] \<or> r = ''*'' \<or> eq_ignore_case r ''any'' then None
      else if starts_with r ''['' \<or> starts_with r ''('' then interval version r
      else case split_op r of (op, bound) \<Rightarrow>
        map_option (\<lambda>ord. case op of
            Ge \<Rightarrow> ord \<noteq> OLess
          | Lower \<Rightarrow> ord \<noteq> OLess
          | Gt \<Rightarrow> ord = OGreater
          | Le \<Rightarrow> ord \<noteq> OGreater
          | Lt \<Rightarrow> ord = OLess
          | Eq \<Rightarrow> ord = OEqual)
          (semver_cmp version (trim bound)))"

section \<open>The comparator satisfies the contract\<close>

lemma get0_nth0: "get0 = nth0"
  by (intro ext) (simp add: get0_def nth0_def)

lemma cmp_loop_Suc:
  "cmp_loop (x # xs) (y # ys) (map Suc is) = cmp_loop xs ys is"
  "cmp_loop [] (y # ys) (map Suc is) = cmp_loop [] ys is"
  "cmp_loop (x # xs) [] (map Suc is) = cmp_loop xs [] is"
  by (induction "is") (simp_all add: get0_def split: ordering.split)

lemma cmp_loop_pad:
  "length pa \<le> n \<Longrightarrow> length pb \<le> n \<Longrightarrow> cmp_loop pa pb [0..<n] = pad_cmp pa pb"
proof (induction pa pb arbitrary: n rule: pad_cmp.induct)
  case 1
  have "cmp_loop [] [] is = OEqual" for "is"
    by (induction "is") (simp_all add: get0_def cmp_nat_def)
  then show ?case by simp
next
  case (2 y ys)
  then obtain k where "n = Suc k" by (cases n) auto
  with 2 show ?case
    by (simp add: upt_conv_Cons cmp_loop_Suc map_Suc_upt [symmetric] get0_def del: upt_Suc
        split: ordering.split)
next
  case (3 x xs)
  then obtain k where "n = Suc k" by (cases n) auto
  with 3 show ?case
    by (simp add: upt_conv_Cons cmp_loop_Suc map_Suc_upt [symmetric] get0_def del: upt_Suc
        split: ordering.split)
next
  case (4 x xs y ys)
  then obtain k where "n = Suc k" by (cases n) auto
  with 4 show ?case
    by (simp add: upt_conv_Cons cmp_loop_Suc map_Suc_upt [symmetric] get0_def del: upt_Suc
        split: ordering.split)
qed

interpretation sv: version_order semver_parse semver_cmp
  by unfold_locales (simp add: semver_cmp_def cmp_loop_pad split: option.split)

section \<open>Windows\<close>

text \<open>What a declared window means: a bound that is absent is open, one that is present is
  compared as numbers.\<close>

definition above :: "nat list \<Rightarrow> bool \<Rightarrow> nat list option \<Rightarrow> bool" where
  "above kv inc lo = (case lo of None \<Rightarrow> True
     | Some kl \<Rightarrow> seq_less (nth0 kl) (nth0 kv) \<or> inc \<and> nth0 kl = nth0 kv)"

definition below :: "nat list \<Rightarrow> bool \<Rightarrow> nat list option \<Rightarrow> bool" where
  "below kv inc hi = (case hi of None \<Rightarrow> True
     | Some kh \<Rightarrow> seq_less (nth0 kv) (nth0 kh) \<or> inc \<and> nth0 kv = nth0 kh)"

text \<open>A bound as a string: absent, or a version the mirror can read, with no comma and no
  surrounding white space.\<close>

definition bound_of :: "str \<Rightarrow> nat list option \<Rightarrow> bool" where
  "bound_of s k \<longleftrightarrow> CHR '','' \<notin> set s \<and> trim s = s \<and>
     (if s = [] then k = None else k \<noteq> None \<and> semver_parse s = k)"

definition maven :: "bool \<Rightarrow> str \<Rightarrow> str \<Rightarrow> bool \<Rightarrow> str" where
  "maven lower_inc lo hi upper_inc =
     (if lower_inc then CHR ''['' else CHR ''('') # lo @ CHR '','' # hi @
     [if upper_inc then CHR '']'' else CHR '')'']"

lemma trim_ends:
  "\<not> is_space a \<Longrightarrow> \<not> is_space b \<Longrightarrow> trim (a # s @ [b]) = a # s @ [b]"
  by (simp add: trim_def)

lemma bracket_not_space [simp]:
  "\<not> is_space CHR ''[''" "\<not> is_space CHR ''(''" "\<not> is_space CHR '']''" "\<not> is_space CHR '')''"
  by (simp_all add: is_space_def)

lemma trim_maven: "trim (maven li lo hi ui) = maven li lo hi ui"
  unfolding maven_def
  using trim_ends [of _ _ "lo @ CHR '','' # hi"] by simp

lemma maven_not_wild:
  "maven li lo hi ui \<noteq> []" "maven li lo hi ui \<noteq> ''*''"
  "\<not> eq_ignore_case (maven li lo hi ui) ''any''"
  "starts_with (maven li lo hi ui) ''['' = li"
  "starts_with (maven li lo hi ui) ''('' = (\<not> li)"
  by (simp_all add: maven_def eq_ignore_case_def to_lower_def lower_char_def starts_with_def)

lemma ends_with_snoc: "ends_with (s @ [c]) [d] \<longleftrightarrow> c = d"
  by (simp add: ends_with_def)

lemma maven_ends:
  "ends_with (maven li lo hi ui) '']'' = ui" "ends_with (maven li lo hi ui) '')'' = (\<not> ui)"
  using ends_with_snoc [of "(if li then CHR ''['' else CHR ''('') # lo @ CHR '','' # hi"]
  by (simp_all add: maven_def)

lemma maven_inner:
  "take (length (maven li lo hi ui) - 2) (drop (Suc 0) (maven li lo hi ui)) = lo @ CHR '','' # hi"
  by (simp add: maven_def)

lemma split2_comma: "c \<notin> set lo \<Longrightarrow> split2 c (lo @ c # hi) = (lo, Some hi)"
  by (induction lo) (auto simp: split2_def before_def)

lemma check_lower_above:
  "semver_parse v = Some kv \<Longrightarrow> bound_of lo kl \<Longrightarrow> check_lower v lo inc = Some (above kv inc kl)"
  by (auto simp: check_lower_def above_def bound_of_def sv.compare_key pad_cmp_iff seq_less_irrefl
      split: ordering.split if_splits dest: seq_less_asym)

lemma check_upper_below:
  "semver_parse v = Some kv \<Longrightarrow> bound_of hi kh \<Longrightarrow> check_upper v hi inc = Some (below kv inc kh)"
  by (auto simp: check_upper_def below_def bound_of_def sv.compare_key pad_cmp_iff seq_less_irrefl
      split: ordering.split if_splits dest: seq_less_asym)

section \<open>Properties\<close>

text \<open>a Maven interval whose bounds the mirror can read (either may be absent) is answered by
  exactly the numeric window it denotes, with each end inclusive or exclusive by its bracket.\<close>

theorem in_range_maven:
  assumes "semver_parse v = Some kv" and "bound_of lo kl" and "bound_of hi kh"
  shows "in_range v (maven li lo hi ui) = Some (above kv li kl \<and> below kv ui kh)"
proof -
  have "in_range v (maven li lo hi ui) = interval v (maven li lo hi ui)"
    by (cases li) (simp_all add: in_range_def trim_maven maven_not_wild)
  also have "\<dots> = (case check_lower v lo li of None \<Rightarrow> None | Some False \<Rightarrow> Some False
      | Some True \<Rightarrow> check_upper v hi ui)"
    using assms(2,3)
    by (simp add: interval_def maven_ends maven_not_wild maven_inner split2_comma bound_of_def
        split: option.split bool.split)
  finally show ?thesis
    using check_lower_above [OF assms(1,2)] check_upper_below [OF assms(1,3)]
    by (simp split: bool.split)
qed

theorem in_range_maven_witness:
  "in_range ''1.5.2'' (maven True ''1.5'' ''2.0'' False) = Some True"
proof -
  have "semver_parse ''1.5.2'' = Some [1, 5, 2]" "bound_of ''1.5'' (Some [1, 5])"
    "bound_of ''2.0'' (Some [2, 0])"
    by code_simp+
  from in_range_maven [OF this, of True False] show ?thesis
    by (simp add: above_def below_def)
qed

text \<open>a soft lower bound (bare, \<open>>=\<close>, \<open>~\<close> or \<open>^\<close>) never flags a newer version: once a version
  is in range, every readable version that is not older is in range too.\<close>

theorem soft_bound_upward_closed:
  assumes "in_range v r = Some True"
    and "\<not> starts_with (trim r) ''[''" "\<not> starts_with (trim r) ''(''"
    and "fst (split_op (trim r)) \<in> {Ge, Lower}"
    and "semver_cmp w v = Some s" "s \<noteq> OLess"
  shows "in_range w r = Some True"
proof -
  obtain op b where ob: "split_op (trim r) = (op, b)" by (cases "split_op (trim r)") auto
  with assms(1-4) obtain t where t: "semver_cmp v (trim b) = Some t" "t \<noteq> OLess"
    by (auto simp: in_range_def Let_def split: if_splits)
  from sv.not_less_trans [OF t assms(5,6)] obtain u where
    "semver_cmp w (trim b) = Some u" "u \<noteq> OLess" by blast
  with assms(1-4) ob show ?thesis
    by (auto simp: in_range_def Let_def split: if_splits)
qed

theorem soft_bound_upward_closed_witness: "in_range ''9.9.9'' ''^1.2.0'' = Some True"
  by (rule soft_bound_upward_closed [where v = "''1.2.1''" and s = OGreater]) code_simp+

lemma check_lower_parsed:
  "check_lower v lo inc = Some b \<Longrightarrow> lo \<noteq> [] \<Longrightarrow> semver_parse v \<noteq> None"
  by (auto simp: check_lower_def sv.compare_key split: option.splits if_splits)

lemma semver_parse_build: "CHR ''+'' \<notin> set v \<Longrightarrow> trim v = v \<Longrightarrow> trim (v @ CHR ''+'' # m) = v @ CHR ''+'' # m \<Longrightarrow>
  semver_parse (v @ CHR ''+'' # m) = semver_parse v"
  by (simp add: semver_parse_def)

lemma semver_cmp_parse_cong: "semver_parse v = semver_parse w \<Longrightarrow> semver_cmp v x = semver_cmp w x"
  by (simp add: semver_cmp_def)

text \<open>two versions that differ only in build metadata are answered alike, by the range check and
  by the comparison.\<close>

theorem build_metadata_ignored:
  assumes "CHR ''+'' \<notin> set v" and "trim v = v" and "trim (v @ CHR ''+'' # m) = v @ CHR ''+'' # m"
  shows "in_range (v @ CHR ''+'' # m) r = in_range v r \<and>
    semver_cmp (v @ CHR ''+'' # m) x = semver_cmp v x"
proof (intro conjI)
  note c = semver_cmp_parse_cong [OF semver_parse_build [OF assms]]
  show "semver_cmp (v @ CHR ''+'' # m) x = semver_cmp v x" by (rule c)
  show "in_range (v @ CHR ''+'' # m) r = in_range v r"
    by (simp only: in_range_def interval_def check_lower_def check_upper_def c)
qed

theorem build_metadata_ignored_witness:
  "in_range ''0.6.13+mc1.21.1'' ''[0.8.12,)'' = in_range ''0.6.13'' ''[0.8.12,)''"
  using build_metadata_ignored [of "''0.6.13''" "''mc1.21.1''" "''[0.8.12,)''"]
  by (simp add: trim_def is_space_def)

end
