(* ===== verification/Side_Axes.thy ===== *)
theory Side_Axes
  imports Smrt_Prelude
begin

text \<open>
  \<open>src/src/domain/side.rs\<close>: the side a mod runs on, its match policy, the presence class a
  launcher shows, and the reading of a Modrinth project's environment flags.
\<close>

datatype side_class = Client | Server | Both

datatype match_policy = MustMatch | Tolerant

datatype presence_class = PRequired | OptionalClient | OptionalServer | OptionalBoth | Coremod

fun side_as_str :: "side_class \<Rightarrow> str" where
  "side_as_str Client = ''client''"
| "side_as_str Server = ''server''"
| "side_as_str Both = ''both''"

definition side_parse :: "str \<Rightarrow> side_class option" where
  "side_parse s =
     (if s = ''client'' then Some Client
      else if s = ''server'' then Some Server
      else if s = ''both'' then Some Both
      else None)"

fun policy_as_str :: "match_policy \<Rightarrow> str" where
  "policy_as_str MustMatch = ''must_match''"
| "policy_as_str Tolerant = ''tolerant''"

definition policy_parse :: "str \<Rightarrow> match_policy option" where
  "policy_parse s =
     (if s = ''must_match'' then Some MustMatch
      else if s = ''tolerant'' then Some Tolerant
      else None)"

fun presence_as_str :: "presence_class \<Rightarrow> str" where
  "presence_as_str PRequired = ''required''"
| "presence_as_str OptionalClient = ''optional_client''"
| "presence_as_str OptionalServer = ''optional_server''"
| "presence_as_str OptionalBoth = ''optional_both''"
| "presence_as_str Coremod = ''coremod''"

interpretation side: wire_vocab side_as_str side_parse
proof
  show "side_parse (side_as_str v) = Some v" for v by (cases v) (simp_all add: side_parse_def)
  show "side_parse s = Some v \<Longrightarrow> side_as_str v = s" for s v
    by (auto simp: side_parse_def split: if_splits)
qed

interpretation policy: wire_vocab policy_as_str policy_parse
proof
  show "policy_parse (policy_as_str v) = Some v" for v by (cases v) (simp_all add: policy_parse_def)
  show "policy_parse s = Some v \<Longrightarrow> policy_as_str v = s" for s v
    by (auto simp: policy_parse_def split: if_splits)
qed

definition known_env :: "str \<Rightarrow> bool" where
  "known_env v \<longleftrightarrow> v = ''required'' \<or> v = ''optional'' \<or> v = ''unsupported''"

definition side_from_modrinth_env :: "str \<Rightarrow> str \<Rightarrow> (side_class \<times> match_policy) option" where
  "side_from_modrinth_env client server =
     (if \<not> known_env client \<or> \<not> known_env server then None
      else case (client = ''unsupported'', server = ''unsupported'') of
        (True, True) \<Rightarrow> None
      | (cu, su) \<Rightarrow>
          Some (if cu then Server else if su then Client else Both,
                if client = ''required'' \<and> server = ''required'' then MustMatch else Tolerant))"

lemma modrinth_env_cases:
  "side_from_modrinth_env c s = Some (sd, p) \<Longrightarrow>
     known_env c \<and> known_env s \<and>
     (sd = Server \<longleftrightarrow> c = ''unsupported'') \<and> (sd = Client \<longleftrightarrow> s = ''unsupported'') \<and>
     (p = MustMatch \<longleftrightarrow> c = ''required'' \<and> s = ''required'')"
  by (auto simp: side_from_modrinth_env_def split: if_splits bool.splits)

text \<open>environment flags never make a one-sided mod a must-match one, so a client-side mod can
  not seed the required set through the flags; and they answer exactly when both flags are
  known and not both are \<open>unsupported\<close>.\<close>

theorem modrinth_env_never_forces_client:
  "side_from_modrinth_env c s \<noteq> Some (Client, MustMatch) \<and>
   side_from_modrinth_env c s \<noteq> Some (Server, MustMatch) \<and>
   (side_from_modrinth_env c s = None \<longleftrightarrow>
      \<not> known_env c \<or> \<not> known_env s \<or> (c = ''unsupported'' \<and> s = ''unsupported''))"
  by (auto simp: side_from_modrinth_env_def split: bool.splits)

end
