(* ===== verification/Wire_Model.thy ===== *)
theory Wire_Model
  imports Pack_Version Side_Axes
begin

text \<open>
  The data of the mirror: the wire manifest (\<open>src/src/domain/manifest.rs\<close>) and the authored pack
  config (\<open>src/src/domain/pack.rs\<close>), as records with the source's fields. Fields carry a short
  prefix naming their struct. Unsigned integers that are only stored are natural numbers.
\<close>

section \<open>The manifest\<close>

record loader_spec =
  ls_name :: str
  ls_version :: str

record auth_spec =
  au_kind :: str
  au_server_id :: "str option"

record requirement =
  rq_filename :: str
  rq_version_range :: "str option"
  rq_optional :: bool

record display =
  dp_name :: "str option"
  dp_description :: "str option"
  dp_category :: "str option"
  dp_incompatible_with :: "str list"
  dp_license :: "str option"
  dp_url :: "str option"
  dp_icon_url :: "str option"
  dp_requires :: "requirement list"
  dp_presence :: "presence_class option"

definition display_default :: display where
  "display_default = \<lparr>dp_name = None, dp_description = None, dp_category = None,
     dp_incompatible_with = [], dp_license = None, dp_url = None, dp_icon_url = None,
     dp_requires = [], dp_presence = None\<rparr>"

text \<open>\<open>display.get_or_insert_with(Display::default)\<close>\<close>

definition display_or_default :: "display option \<Rightarrow> display" where
  "display_or_default d = (case d of None \<Rightarrow> display_default | Some x \<Rightarrow> x)"

datatype source =
    SModrinth (src_project_id: str) (src_version_id: str)
  | SSmrtCache (src_cache_url: str)
  | SSmrtStatic (src_static_url: str)

record mod_entry =
  me_filename :: str
  me_sha1 :: str
  me_size_bytes :: nat
  me_required :: bool
  me_default_enabled :: bool
  me_source :: source
  me_display :: "display option"
  me_slug :: "str option"

record asset_entry =
  ae_dest :: str
  ae_sha1 :: str
  ae_size_bytes :: nat
  ae_required :: bool
  ae_source :: source
  ae_display :: "display option"

record build_checks =
  bc_blocking :: "str list"
  bc_advisory :: "str list"
  bc_overridden :: bool

definition checks_is_empty :: "build_checks \<Rightarrow> bool" where
  "checks_is_empty c \<longleftrightarrow> bc_blocking c = [] \<and> bc_advisory c = []"

definition schema_version :: nat where
  "schema_version = 2"

record pack_manifest =
  pm_schema_version :: nat
  pm_pack_id :: str
  pm_pack_version :: str
  pm_channel :: "version_channel option"
  pm_changelog :: "str option"
  pm_changelog_i18n :: "(str \<times> str) list option"
  pm_generated_at :: str
  pm_fingerprint :: "str option"
  pm_checks :: "build_checks option"
  pm_built_from :: "str option"
  pm_minecraft :: str
  pm_loader :: loader_spec
  pm_java_major :: nat
  pm_auth :: "auth_spec option"
  pm_mods :: "mod_entry list"
  pm_assets :: "asset_entry list"

section \<open>The config\<close>

datatype pack_tier = Official | Community

datatype visibility = Draft | Unlisted | Published

record pack_meta =
  mt_icon_url :: "str option"
  mt_banner_url :: "str option"
  mt_gallery_urls :: "str list"
  mt_description_md :: "str option"

datatype source_decl =
    Modrinth (sd_project_id: str) (sd_version_id: str)
  | SmrtCache (sd_sha1: str)
  | SmrtStatic (sd_rel_path: str)

record declared_mod =
  dm_filename :: str
  dm_default_enabled :: bool
  dm_source :: source_decl
  dm_display :: "display option"
  dm_slug :: "str option"
  dm_pulled :: bool

record declared_asset =
  da_dest :: str
  da_required :: bool
  da_source :: source_decl
  da_display :: "display option"

record pack_config =
  cf_pack_id :: str
  cf_display_name :: str
  cf_tagline :: str
  cf_minecraft_version :: str
  cf_loader :: loader_spec
  cf_java_major :: nat
  cf_version :: "str option"
  cf_tags :: "str list"
  cf_featured :: bool
  cf_mods :: "declared_mod list"
  cf_assets :: "declared_asset list"
  cf_auth :: "auth_spec option"
  cf_pack_meta :: pack_meta
  cf_owner :: int
  cf_tier :: pack_tier
  cf_visibility :: visibility
  cf_fork_of :: "str option"

record pack_summary =
  ps_pack_id :: str
  ps_display_name :: str
  ps_tagline :: str
  ps_minecraft_version :: str
  ps_latest_pack_version :: str
  ps_tags :: "str list"
  ps_featured :: bool
  ps_icon_url :: "str option"
  ps_banner_url :: "str option"
  ps_gallery_urls :: "str list"
  ps_description_md :: "str option"
  ps_owner :: int
  ps_tier :: pack_tier
  ps_visibility :: visibility
  ps_fork_of :: "str option"
  ps_latest_built_at :: "str option"
  ps_latest_channel :: "version_channel option"

text \<open>\<open>make_pack_summary\<close> of \<open>src/src/authoring/build.rs\<close>.\<close>

definition make_pack_summary :: "pack_config \<Rightarrow> str \<Rightarrow> pack_summary" where
  "make_pack_summary cfg pack_version = \<lparr>
     ps_pack_id = cf_pack_id cfg,
     ps_display_name = cf_display_name cfg,
     ps_tagline = cf_tagline cfg,
     ps_minecraft_version = cf_minecraft_version cfg,
     ps_latest_pack_version = pack_version,
     ps_tags = cf_tags cfg,
     ps_featured = cf_featured cfg,
     ps_icon_url = mt_icon_url (cf_pack_meta cfg),
     ps_banner_url = mt_banner_url (cf_pack_meta cfg),
     ps_gallery_urls = mt_gallery_urls (cf_pack_meta cfg),
     ps_description_md = mt_description_md (cf_pack_meta cfg),
     ps_owner = cf_owner cfg,
     ps_tier = cf_tier cfg,
     ps_visibility = cf_visibility cfg,
     ps_fork_of = cf_fork_of cfg,
     ps_latest_built_at = None,
     ps_latest_channel = None\<rparr>"

section \<open>Operations on the config\<close>

text \<open>The part of a config a client authors: server-controlled fields are blanked and the rows the
  dependency fill manages are dropped. \<open>edit_rev\<close> hashes it; the hash (SHA-1 over the
  \<open>serde_json\<close> text) is a parameter.\<close>

definition edit_projection :: "pack_config \<Rightarrow> pack_config" where
  "edit_projection cfg = cfg\<lparr>
     cf_owner := 0,
     cf_tier := Official,
     cf_visibility := Published,
     cf_fork_of := None,
     cf_mods := filter (\<lambda>m. \<not> dm_pulled m) (cf_mods cfg)\<rparr>"

definition edit_rev :: "(pack_config \<Rightarrow> str) \<Rightarrow> pack_config \<Rightarrow> str" where
  "edit_rev sha1_json cfg = sha1_json (edit_projection cfg)"

definition with_authored_from :: "pack_config \<Rightarrow> pack_config \<Rightarrow> pack_config" where
  "with_authored_from self other = other\<lparr>
     cf_pack_id := cf_pack_id self,
     cf_owner := cf_owner self,
     cf_tier := cf_tier self,
     cf_visibility := cf_visibility self,
     cf_fork_of := cf_fork_of self\<rparr>"

text \<open>What is declared twice. The source renders the three cases as sentences; the model keeps the
  identity string it builds and the offending row.\<close>

datatype duplicate =
    DupIdentity str str
  | DupFilename str
  | DupDest str

fun declared_identity :: "source_decl \<Rightarrow> str" where
  "declared_identity (Modrinth p v) = ''modrinth project '' @ p"
| "declared_identity (SmrtCache s) = ''cache jar '' @ s"
| "declared_identity (SmrtStatic r) = ''static file '' @ r"

fun dup_mods :: "str list \<Rightarrow> str list \<Rightarrow> declared_mod list \<Rightarrow> duplicate option" where
  "dup_mods identities filenames [] = None"
| "dup_mods identities filenames (m # ms) =
     (let identity = declared_identity (dm_source m) in
      if identity \<in> set identities then Some (DupIdentity identity (dm_filename m))
      else if dm_filename m \<in> set filenames then Some (DupFilename (dm_filename m))
      else dup_mods (identity # identities) (dm_filename m # filenames) ms)"

fun dup_assets :: "str list \<Rightarrow> declared_asset list \<Rightarrow> duplicate option" where
  "dup_assets dests [] = None"
| "dup_assets dests (a # as) =
     (if da_dest a \<in> set dests then Some (DupDest (da_dest a))
      else dup_assets (da_dest a # dests) as)"

definition duplicate_declaration :: "pack_config \<Rightarrow> duplicate option" where
  "duplicate_declaration cfg =
     (case dup_mods [] [] (cf_mods cfg) of
        Some d \<Rightarrow> Some d
      | None \<Rightarrow> dup_assets [] (cf_assets cfg))"

lemma dup_mods_None:
  "dup_mods ids fns ms = None \<longleftrightarrow>
     distinct (map (declared_identity \<circ> dm_source) ms) \<and> distinct (map dm_filename ms) \<and>
     set (map (declared_identity \<circ> dm_source) ms) \<inter> set ids = {} \<and>
     set (map dm_filename ms) \<inter> set fns = {}"
  by (induction ids fns ms rule: dup_mods.induct) (auto simp: Let_def)

lemma dup_assets_None:
  "dup_assets ds as = None \<longleftrightarrow> distinct (map da_dest as) \<and> set (map da_dest as) \<inter> set ds = {}"
  by (induction ds "as" rule: dup_assets.induct) auto

lemma declared_identity_inject:
  "declared_identity s = declared_identity t \<longleftrightarrow>
     (case (s, t) of (Modrinth p _, Modrinth q _) \<Rightarrow> p = q
      | (SmrtCache a, SmrtCache b) \<Rightarrow> a = b
      | (SmrtStatic a, SmrtStatic b) \<Rightarrow> a = b
      | _ \<Rightarrow> False)"
  by (cases s; cases t) auto

lemma duplicate_None:
  "duplicate_declaration cfg = None \<longleftrightarrow>
     distinct (map (declared_identity \<circ> dm_source) (cf_mods cfg)) \<and>
     distinct (map dm_filename (cf_mods cfg)) \<and> distinct (map da_dest (cf_assets cfg))"
  using dup_mods_None [of "[]" "[]" "cf_mods cfg"] dup_assets_None [of "[]" "cf_assets cfg"]
  by (cases "dup_mods [] [] (cf_mods cfg)") (auto simp: duplicate_declaration_def)

section \<open>Properties\<close>

text \<open>a config passes the duplicate check exactly when no two mods share an artifact identity
  (the pinned version is not part of it), no two share a filename, and no two assets share a
  destination.\<close>

theorem duplicate_declaration_None_iff:
  "duplicate_declaration cfg = None \<longleftrightarrow>
     distinct (map (declared_identity \<circ> dm_source) (cf_mods cfg)) \<and>
     distinct (map dm_filename (cf_mods cfg)) \<and>
     distinct (map da_dest (cf_assets cfg))"
  by (rule duplicate_None)

text \<open>merging a proposal takes the authored half and nothing else: the edit revision is the
  offered one's up to the pack id, while ownership, tier, visibility, origin and identity stay
  the target's.\<close>

theorem merge_keeps_ownership:
  "edit_projection (with_authored_from self other) =
     (edit_projection other)\<lparr>cf_pack_id := cf_pack_id self\<rparr> \<and>
   cf_pack_id (with_authored_from self other) = cf_pack_id self \<and>
   cf_owner (with_authored_from self other) = cf_owner self \<and>
   cf_tier (with_authored_from self other) = cf_tier self \<and>
   cf_visibility (with_authored_from self other) = cf_visibility self \<and>
   cf_fork_of (with_authored_from self other) = cf_fork_of self"
  by (simp add: with_authored_from_def edit_projection_def)

end
