(* ===== verification/Manifest_Diff.thy ===== *)
theory Manifest_Diff
  imports Wire_Model
begin

text \<open>
  \<open>src/src/domain/diff.rs\<close>: the change summary between two published builds. Rows are matched by
  identity: the Modrinth project, else the curator slug, else the filename.
\<close>

record field_change =
  fc_from :: str
  fc_to :: str

record diff_entry =
  de_filename :: str
  de_version :: "str option"

record diff_update =
  du_filename :: str
  du_version_from :: "str option"
  du_version_to :: "str option"
  du_sha1_from :: str
  du_sha1_to :: str

record diff_toggle =
  dt_filename :: str
  dt_from :: bool
  dt_to :: bool

record pack_diff =
  pd_schema_version :: nat
  pd_pack_id :: str
  pd_from :: str
  pd_to :: str
  pd_content_changed :: bool
  pd_loader :: "field_change option"
  pd_minecraft :: "field_change option"
  pd_java :: "field_change option"
  pd_mods_added :: "diff_entry list"
  pd_mods_removed :: "diff_entry list"
  pd_mods_updated :: "diff_update list"
  pd_mods_toggled :: "diff_toggle list"
  pd_assets_added :: "diff_entry list"
  pd_assets_removed :: "diff_entry list"
  pd_assets_updated :: "diff_update list"

definition entry_identity :: "mod_entry \<Rightarrow> str" where
  "entry_identity m =
     (case me_source m of
        SModrinth p _ \<Rightarrow> ''m:'' @ p
      | _ \<Rightarrow> (case me_slug m of Some s \<Rightarrow> ''s:'' @ s | None \<Rightarrow> ''f:'' @ me_filename m))"

definition field_diff :: "str \<Rightarrow> str \<Rightarrow> field_change option" where
  "field_diff a b = (if a \<noteq> b then Some \<lparr>fc_from = a, fc_to = b\<rparr> else None)"

definition new_entry :: "str \<Rightarrow> diff_entry" where
  "new_entry f = \<lparr>de_filename = f, de_version = None\<rparr>"

definition new_update :: "str \<Rightarrow> str \<Rightarrow> str \<Rightarrow> diff_update" where
  "new_update f a b = \<lparr>du_filename = f, du_version_from = None, du_version_to = None,
     du_sha1_from = a, du_sha1_to = b\<rparr>"

text \<open>The loop over the \<open>to\<close> side's mods: its three buckets, in the order rows are pushed.\<close>

fun mod_buckets :: "(str \<Rightarrow> mod_entry option) \<Rightarrow> mod_entry list \<Rightarrow>
    diff_entry list \<times> diff_update list \<times> diff_toggle list" where
  "mod_buckets from_by_id [] = ([], [], [])"
| "mod_buckets from_by_id (m # ms) =
     (let (added, updated, toggled) = mod_buckets from_by_id ms in
      case from_by_id (entry_identity m) of
        None \<Rightarrow> (new_entry (me_filename m) # added, updated, toggled)
      | Some old \<Rightarrow>
          if me_sha1 old \<noteq> me_sha1 m
          then (added, new_update (me_filename m) (me_sha1 old) (me_sha1 m) # updated, toggled)
          else if me_default_enabled old \<noteq> me_default_enabled m
          then (added, updated, \<lparr>dt_filename = me_filename m, dt_from = me_default_enabled old,
                  dt_to = me_default_enabled m\<rparr> # toggled)
          else (added, updated, toggled))"

fun asset_buckets :: "(str \<Rightarrow> asset_entry option) \<Rightarrow> asset_entry list \<Rightarrow>
    diff_entry list \<times> diff_update list" where
  "asset_buckets from_assets [] = ([], [])"
| "asset_buckets from_assets (a # as) =
     (let (added, updated) = asset_buckets from_assets as in
      case from_assets (ae_dest a) of
        None \<Rightarrow> (new_entry (ae_dest a) # added, updated)
      | Some old \<Rightarrow>
          if ae_sha1 old \<noteq> ae_sha1 a
          then (added, new_update (ae_dest a) (ae_sha1 old) (ae_sha1 a) # updated)
          else (added, updated))"

definition diff_manifests :: "pack_manifest \<Rightarrow> pack_manifest \<Rightarrow> pack_diff" where
  "diff_manifests from to =
     (let from_by_id = hash_of (map (\<lambda>m. (entry_identity m, m)) (pm_mods from));
          to_ids = map entry_identity (pm_mods to);
          (added, updated, toggled) = mod_buckets from_by_id (pm_mods to);
          removed = map (\<lambda>m. new_entry (me_filename m))
            (filter (\<lambda>m. entry_identity m \<notin> set to_ids) (pm_mods from));
          from_assets = hash_of (map (\<lambda>a. (ae_dest a, a)) (pm_assets from));
          to_dests = map ae_dest (pm_assets to);
          (assets_added, assets_updated) = asset_buckets from_assets (pm_assets to);
          assets_removed = map (\<lambda>a. new_entry (ae_dest a))
            (filter (\<lambda>a. ae_dest a \<notin> set to_dests) (pm_assets from))
      in \<lparr>pd_schema_version = schema_version,
          pd_pack_id = pm_pack_id to,
          pd_from = pm_pack_version from,
          pd_to = pm_pack_version to,
          pd_content_changed = (case (pm_fingerprint from, pm_fingerprint to) of
              (Some a, Some b) \<Rightarrow> a \<noteq> b
            | _ \<Rightarrow> True),
          pd_loader = map_option
            (\<lambda>c. \<lparr>fc_from = ls_name (pm_loader from) @ '' '' @ fc_from c,
                  fc_to = ls_name (pm_loader to) @ '' '' @ fc_to c\<rparr>)
            (field_diff (ls_version (pm_loader from)) (ls_version (pm_loader to))),
          pd_minecraft = field_diff (pm_minecraft from) (pm_minecraft to),
          pd_java = field_diff (show_nat (pm_java_major from)) (show_nat (pm_java_major to)),
          pd_mods_added = added,
          pd_mods_removed = removed,
          pd_mods_updated = updated,
          pd_mods_toggled = toggled,
          pd_assets_added = assets_added,
          pd_assets_removed = assets_removed,
          pd_assets_updated = assets_updated\<rparr>)"

section \<open>Rows matched by a key\<close>

text \<open>The contract both halves of the diff meet: an arrival is a row whose key the other side does
  not carry, a departure the converse, and a move is a row of both whose content differs.\<close>

locale keyed_diff =
  fixes key :: "'e \<Rightarrow> str"
    and label :: "'e \<Rightarrow> str"
    and arrivals :: "'e list \<Rightarrow> 'e list \<Rightarrow> diff_entry list"
    and departures :: "'e list \<Rightarrow> 'e list \<Rightarrow> diff_entry list"
  assumes arrivals: "arrivals from to =
      map (\<lambda>e. new_entry (label e)) (filter (\<lambda>e. key e \<notin> key ` set from) to)"
    and departures: "departures from to =
      map (\<lambda>e. new_entry (label e)) (filter (\<lambda>e. key e \<notin> key ` set to) from)"
begin

lemma dual: "departures from to = arrivals to from"
  by (simp add: arrivals departures)

lemma self: "arrivals es es = []" "departures es es = []"
  by (auto simp: arrivals departures filter_empty_conv)

lemma arrivals_Nil_iff: "arrivals from to = [] \<longleftrightarrow> key ` set to \<subseteq> key ` set from"
  by (auto simp: arrivals filter_empty_conv)

lemma same_keys_iff:
  "arrivals from to = [] \<and> departures from to = [] \<longleftrightarrow> key ` set from = key ` set to"
  by (auto simp: dual arrivals_Nil_iff)

end

definition mod_arrivals :: "mod_entry list \<Rightarrow> mod_entry list \<Rightarrow> diff_entry list" where
  "mod_arrivals from to = fst (mod_buckets (hash_of (map (\<lambda>m. (entry_identity m, m)) from)) to)"

definition mod_departures :: "mod_entry list \<Rightarrow> mod_entry list \<Rightarrow> diff_entry list" where
  "mod_departures from to = map (\<lambda>m. new_entry (me_filename m))
     (filter (\<lambda>m. entry_identity m \<notin> set (map entry_identity to)) from)"

definition asset_arrivals :: "asset_entry list \<Rightarrow> asset_entry list \<Rightarrow> diff_entry list" where
  "asset_arrivals from to = fst (asset_buckets (hash_of (map (\<lambda>a. (ae_dest a, a)) from)) to)"

definition asset_departures :: "asset_entry list \<Rightarrow> asset_entry list \<Rightarrow> diff_entry list" where
  "asset_departures from to = map (\<lambda>a. new_entry (ae_dest a))
     (filter (\<lambda>a. ae_dest a \<notin> set (map ae_dest to)) from)"

lemma hash_of_keyed_None:
  "hash_of (map (\<lambda>m. (f m, m)) ms) k = None \<longleftrightarrow> k \<notin> f ` set ms"
  by (simp add: hash_of_None image_image)

lemma hash_of_keyed_Some:
  "distinct (map f ms) \<Longrightarrow> m \<in> set ms \<Longrightarrow> hash_of (map (\<lambda>m. (f m, m)) ms) (f m) = Some m"
  by (rule hash_of_distinct) (simp_all add: comp_def)

lemma hash_of_keyed_elem:
  "hash_of (map (\<lambda>m. (f m, m)) ms) k = Some m \<Longrightarrow> m \<in> set ms \<and> f m = k"
  by (auto dest!: hash_of_Some)

lemma fst_mod_buckets:
  "fst (mod_buckets from ms) =
     map (\<lambda>m. new_entry (me_filename m)) (filter (\<lambda>m. from (entry_identity m) = None) ms)"
  by (induction ms) (auto simp: Let_def split: prod.splits option.splits)

lemma fst_asset_buckets:
  "fst (asset_buckets from as) =
     map (\<lambda>a. new_entry (ae_dest a)) (filter (\<lambda>a. from (ae_dest a) = None) as)"
  by (induction "as") (auto simp: Let_def split: prod.splits option.splits)

interpretation md: keyed_diff entry_identity me_filename mod_arrivals mod_departures
  by unfold_locales
    (simp_all add: mod_arrivals_def mod_departures_def fst_mod_buckets hash_of_keyed_None)

interpretation ad: keyed_diff ae_dest ae_dest asset_arrivals asset_departures
  by unfold_locales
    (simp_all add: asset_arrivals_def asset_departures_def fst_asset_buckets hash_of_keyed_None)

lemma diff_manifests_rows:
  "pd_mods_added (diff_manifests from to) = mod_arrivals (pm_mods from) (pm_mods to)"
  "pd_mods_removed (diff_manifests from to) = mod_departures (pm_mods from) (pm_mods to)"
  "pd_assets_added (diff_manifests from to) = asset_arrivals (pm_assets from) (pm_assets to)"
  "pd_assets_removed (diff_manifests from to) = asset_departures (pm_assets from) (pm_assets to)"
  by (simp_all add: diff_manifests_def Let_def mod_arrivals_def mod_departures_def
      asset_arrivals_def asset_departures_def split: prod.split)

lemma diff_manifests_moves:
  "pd_mods_updated (diff_manifests from to) =
     fst (snd (mod_buckets (hash_of (map (\<lambda>m. (entry_identity m, m)) (pm_mods from))) (pm_mods to)))"
  "pd_mods_toggled (diff_manifests from to) =
     snd (snd (mod_buckets (hash_of (map (\<lambda>m. (entry_identity m, m)) (pm_mods from))) (pm_mods to)))"
  "pd_assets_updated (diff_manifests from to) =
     snd (asset_buckets (hash_of (map (\<lambda>a. (ae_dest a, a)) (pm_assets from))) (pm_assets to))"
  by (simp_all add: diff_manifests_def Let_def split: prod.split)

lemma mod_moves_Nil:
  "fst (snd (mod_buckets from ms)) = [] \<and> snd (snd (mod_buckets from ms)) = [] \<longleftrightarrow>
     (\<forall>m \<in> set ms. \<forall>old. from (entry_identity m) = Some old \<longrightarrow>
        me_sha1 old = me_sha1 m \<and> me_default_enabled old = me_default_enabled m)"
  by (induction ms) (auto simp: Let_def split: prod.splits option.splits)

lemma asset_moves_Nil:
  "snd (asset_buckets from as) = [] \<longleftrightarrow>
     (\<forall>a \<in> set as. \<forall>old. from (ae_dest a) = Some old \<longrightarrow> ae_sha1 old = ae_sha1 a)"
  by (induction "as") (auto simp: Let_def split: prod.splits option.splits)

section \<open>Properties\<close>

text \<open>reversing the direction of a diff exchanges arrivals and departures, for mods and for
  assets, whatever the two manifests hold.\<close>

theorem diff_manifests_dual:
  "pd_mods_removed (diff_manifests a b) = pd_mods_added (diff_manifests b a) \<and>
   pd_assets_removed (diff_manifests a b) = pd_assets_added (diff_manifests b a)"
  by (simp add: diff_manifests_rows md.dual ad.dual)

text \<open>between two manifests whose mods have distinct identities, the four mod buckets are all
  empty exactly when both carry the same mods by identity, each with the same artifact and the
  same install default: the update dialog is silent only when nothing a launcher installs moved.\<close>

theorem diff_silent_iff:
  assumes "distinct (map entry_identity (pm_mods from))"
  shows "pd_mods_added (diff_manifests from to) = [] \<and> pd_mods_removed (diff_manifests from to) = [] \<and>
      pd_mods_updated (diff_manifests from to) = [] \<and> pd_mods_toggled (diff_manifests from to) = []
    \<longleftrightarrow>
      entry_identity ` set (pm_mods from) = entry_identity ` set (pm_mods to) \<and>
      (\<forall>m \<in> set (pm_mods to). \<forall>old \<in> set (pm_mods from). entry_identity old = entry_identity m \<longrightarrow>
         me_sha1 old = me_sha1 m \<and> me_default_enabled old = me_default_enabled m)"
proof -
  let ?h = "hash_of (map (\<lambda>m. (entry_identity m, m)) (pm_mods from))"
  have h: "?h (entry_identity m) = Some old \<longleftrightarrow>
      old \<in> set (pm_mods from) \<and> entry_identity old = entry_identity m" for m old
    using hash_of_keyed_elem [of entry_identity "pm_mods from" "entry_identity m" old]
      hash_of_keyed_Some [OF assms, of old] by metis
  show ?thesis
    using md.same_keys_iff [of "pm_mods from" "pm_mods to"] mod_moves_Nil [of ?h "pm_mods to"]
    by (auto simp: diff_manifests_rows diff_manifests_moves h)
qed

definition example_entry_mod :: "str \<Rightarrow> str \<Rightarrow> mod_entry" where
  "example_entry_mod f sha = \<lparr>me_filename = f, me_sha1 = sha, me_size_bytes = 1, me_required = False,
     me_default_enabled = True, me_source = SModrinth f ''v'', me_display = None, me_slug = None\<rparr>"

definition example_manifest :: "mod_entry list \<Rightarrow> pack_manifest" where
  "example_manifest ms = \<lparr>pm_schema_version = schema_version, pm_pack_id = ''p'',
     pm_pack_version = ''0.0.1'', pm_channel = None, pm_changelog = None, pm_changelog_i18n = None,
     pm_generated_at = [], pm_fingerprint = None, pm_checks = None, pm_built_from = None,
     pm_minecraft = ''1.21.1'', pm_loader = \<lparr>ls_name = ''neoforge'', ls_version = ''21.1''\<rparr>,
     pm_java_major = 21, pm_auth = None, pm_mods = ms, pm_assets = []\<rparr>"

theorem diff_silent_iff_witness:
  "pd_mods_updated (diff_manifests (example_manifest [example_entry_mod ''a'' ''1'', example_entry_mod ''b'' ''2''])
     (example_manifest [example_entry_mod ''b'' ''2'', example_entry_mod ''a'' ''1''])) = []"
  using diff_silent_iff [of "example_manifest [example_entry_mod ''a'' ''1'', example_entry_mod ''b'' ''2'']"
      "example_manifest [example_entry_mod ''b'' ''2'', example_entry_mod ''a'' ''1'']"]
  by (simp add: example_manifest_def example_entry_mod_def entry_identity_def insert_commute)

end
