(* ===== verification/Registry_Model.thy ===== *)
theory Registry_Model
  imports Closure_Loop Wire_Model "HOL-Library.Word"
begin

text \<open>
  The mod-identity registry: its vocabulary (\<open>src/src/registry/model.rs\<close>), its tables
  (\<open>src/src/registry/schema\<close>) as lists of rows in row-id order, and the read queries the
  resolver, the classifier and the dependency fill run (\<open>src/src/registry/queries.rs\<close>), one
  definition per query. \<open>query_row(..).optional()\<close> is the first matching row; text columns
  compared \<open>COLLATE NOCASE\<close> are compared without ASCII case. A cell decoded from JSON
  (\<open>mc_versions\<close>) is stored decoded. A failing database is not modelled.
\<close>

section \<open>Vocabulary\<close>

datatype rel_source = SrcCurator | SrcAuthored | SrcJarMeta | SrcModrinth | SrcInferred | SrcHarvested

fun rel_source_as_str :: "rel_source \<Rightarrow> str" where
  "rel_source_as_str SrcCurator = ''curator''"
| "rel_source_as_str SrcAuthored = ''authored''"
| "rel_source_as_str SrcJarMeta = ''jar-meta''"
| "rel_source_as_str SrcModrinth = ''modrinth''"
| "rel_source_as_str SrcInferred = ''inferred''"
| "rel_source_as_str SrcHarvested = ''harvested''"

fun rel_source_rank :: "rel_source \<Rightarrow> int" where
  "rel_source_rank SrcCurator = 100"
| "rel_source_rank SrcAuthored = 90"
| "rel_source_rank SrcJarMeta = 50"
| "rel_source_rank SrcModrinth = 40"
| "rel_source_rank SrcInferred = 10"
| "rel_source_rank SrcHarvested = 10"

definition is_precious :: "rel_source \<Rightarrow> bool" where
  "is_precious s \<longleftrightarrow> s = SrcCurator \<or> s = SrcAuthored"

definition rel_source_parse :: "str \<Rightarrow> rel_source option" where
  "rel_source_parse s =
     (if s = ''curator'' then Some SrcCurator
      else if s = ''authored'' then Some SrcAuthored
      else if s = ''jar-meta'' then Some SrcJarMeta
      else if s = ''modrinth'' then Some SrcModrinth
      else if s = ''inferred'' then Some SrcInferred
      else if s = ''harvested'' then Some SrcHarvested
      else None)"

datatype rel_kind = Requires | Conflicts | OptionalDep | Provides | Recommends

fun rel_kind_as_str :: "rel_kind \<Rightarrow> str" where
  "rel_kind_as_str Requires = ''requires''"
| "rel_kind_as_str Conflicts = ''conflicts''"
| "rel_kind_as_str OptionalDep = ''optional_dep''"
| "rel_kind_as_str Provides = ''provides''"
| "rel_kind_as_str Recommends = ''recommends''"

definition rel_kind_parse :: "str \<Rightarrow> rel_kind option" where
  "rel_kind_parse s =
     (if s = ''requires'' then Some Requires
      else if s = ''conflicts'' then Some Conflicts
      else if s = ''optional_dep'' then Some OptionalDep
      else if s = ''provides'' then Some Provides
      else if s = ''recommends'' then Some Recommends
      else None)"

datatype severity = Soft | Hard

fun severity_as_str :: "severity \<Rightarrow> str" where
  "severity_as_str Hard = ''hard''"
| "severity_as_str Soft = ''soft''"

definition severity_parse :: "str \<Rightarrow> severity option" where
  "severity_parse s =
     (if s = ''hard'' then Some Hard else if s = ''soft'' then Some Soft else None)"

text \<open>\<open>Severity\<close> derives \<open>Ord\<close> in declaration order.\<close>

instantiation severity :: linorder
begin

definition less_eq_severity :: "severity \<Rightarrow> severity \<Rightarrow> bool" where
  "less_eq_severity a b \<longleftrightarrow> a = Soft \<or> b = Hard"

definition less_severity :: "severity \<Rightarrow> severity \<Rightarrow> bool" where
  "less_severity a b \<longleftrightarrow> a = Soft \<and> b = Hard"

instance
proof
  fix x y z :: severity
  show "x < y \<longleftrightarrow> x \<le> y \<and> \<not> y \<le> x" "x \<le> x" "x \<le> y \<or> y \<le> x"
    "x \<le> y \<Longrightarrow> y \<le> z \<Longrightarrow> x \<le> z" "x \<le> y \<Longrightarrow> y \<le> x \<Longrightarrow> x = y"
    by (cases x; cases y; cases z; simp add: less_eq_severity_def less_severity_def)+
qed

end

interpretation rsrc: wire_vocab rel_source_as_str rel_source_parse
proof
  show "rel_source_parse (rel_source_as_str v) = Some v" for v
    by (cases v) (simp_all add: rel_source_parse_def)
  show "rel_source_parse s = Some v \<Longrightarrow> rel_source_as_str v = s" for s v
    by (auto simp: rel_source_parse_def split: if_splits)
qed

interpretation rkind: wire_vocab rel_kind_as_str rel_kind_parse
proof
  show "rel_kind_parse (rel_kind_as_str v) = Some v" for v
    by (cases v) (simp_all add: rel_kind_parse_def)
  show "rel_kind_parse s = Some v \<Longrightarrow> rel_kind_as_str v = s" for s v
    by (auto simp: rel_kind_parse_def split: if_splits)
qed

interpretation rsev: wire_vocab severity_as_str severity_parse
proof
  show "severity_parse (severity_as_str v) = Some v" for v
    by (cases v) (simp_all add: severity_parse_def)
  show "severity_parse s = Some v \<Longrightarrow> severity_as_str v = s" for s v
    by (auto simp: severity_parse_def split: if_splits)
qed

section \<open>Tables\<close>

record mods_row =
  md_id :: int
  md_slug :: "str option"
  md_canonical_name :: "str option"
  md_client_env :: "str option"
  md_server_env :: "str option"

record alias_row =
  al_mod_id :: int
  al_source :: str
  al_key :: str

record mod_version_row =
  mv_id :: int
  mv_mod_id :: int
  mv_version :: str
  mv_sha1 :: str
  mv_size_bytes :: int
  mv_filename :: "str option"
  mv_mc_versions :: "str list option"
  mv_source :: str
  mv_modrinth_version_id :: "str option"
  mv_class_digest :: "64 word list option"

record relation_cells =
  rc_from_mod_id :: int
  rc_from_mod_version_id :: "int option"
  rc_target :: str
  rc_version_range :: "str option"
  rc_kind :: str
  rc_severity :: "str option"
  rc_source :: str
  rc_confidence :: int

record jar_class_row =
  jc_kind :: str
  jc_side :: "str option"
  jc_match_policy :: "str option"
  jc_side_confidence :: "str option"

record registry =
  rg_mods :: "mods_row list"
  rg_aliases :: "alias_row list"
  rg_versions :: "mod_version_row list"
  rg_targets :: "(int \<times> str) list"
  rg_relations :: "relation_cells list"
  rg_jar_class :: "(str \<times> jar_class_row) list"
  rg_loader_parent :: "(str \<times> str) list"
  rg_loader_provides :: "(str \<times> str) list"
  rg_packages :: "(int \<times> str) list"
  rg_mixin_needs :: "(int \<times> str \<times> str) list"

definition empty_registry :: registry where
  "empty_registry = \<lparr>rg_mods = [], rg_aliases = [], rg_versions = [], rg_targets = [],
     rg_relations = [], rg_jar_class = [], rg_loader_parent = [], rg_loader_provides = [],
     rg_packages = [], rg_mixin_needs = []\<rparr>"

text \<open>One edge as the resolver reads it.\<close>

record relation_row =
  rl_target :: str
  rl_version_range :: "str option"
  rl_kind :: rel_kind
  rl_severity :: "severity option"
  rl_source :: rel_source
  rl_confidence :: int

section \<open>Queries\<close>

definition jar_class_for_sha1 :: "registry \<Rightarrow> str \<Rightarrow> jar_class_row option" where
  "jar_class_for_sha1 rg sha = map_of (rg_jar_class rg) sha"

definition sha1_for_mod_version :: "registry \<Rightarrow> int \<Rightarrow> str option" where
  "sha1_for_mod_version rg mv =
     map_option mv_sha1 (find (\<lambda>v. mv_id v = mv) (rg_versions rg))"

definition newest_sha1_for_mod :: "registry \<Rightarrow> int \<Rightarrow> str option" where
  "newest_sha1_for_mod rg mid =
     map_option mv_sha1 (find (\<lambda>v. mv_mod_id v = mid) (rev (sort_key mv_id (rg_versions rg))))"

definition mod_id_for_alias :: "registry \<Rightarrow> str \<Rightarrow> str \<Rightarrow> int option" where
  "mod_id_for_alias rg source key =
     map_option al_mod_id (find (\<lambda>a. al_source a = source \<and> al_key a = key) (rg_aliases rg))"

definition modid_for_mod :: "registry \<Rightarrow> int \<Rightarrow> str option" where
  "modid_for_mod rg mid =
     map_option al_key (find (\<lambda>a. al_mod_id a = mid \<and> al_source a = ''modid'') (rg_aliases rg))"

definition modrinth_id_for_mod :: "registry \<Rightarrow> int \<Rightarrow> str option" where
  "modrinth_id_for_mod rg mid =
     map_option al_key (find (\<lambda>a. al_mod_id a = mid \<and> al_source a = ''modrinth'') (rg_aliases rg))"

text \<open>The recursive query over \<open>loader_parent\<close>: the loader itself and everything it inherits from.\<close>

definition parent_edges :: "(str \<times> str) list \<Rightarrow> (str \<times> str list) list" where
  "parent_edges lp = map (\<lambda>(c, _). (c, map snd (filter (\<lambda>(c', _). c' = c) lp))) lp"

definition loader_chain :: "registry \<Rightarrow> str \<Rightarrow> str list" where
  "loader_chain rg loader = drain (parent_edges (rg_loader_parent rg)) [to_lower loader] []"

definition loader_provided_capabilities :: "registry \<Rightarrow> str \<Rightarrow> str list" where
  "loader_provided_capabilities rg loader =
     map snd (filter (\<lambda>(l, _). l = to_lower loader) (rg_loader_provides rg))"

definition targets_for_artifact :: "registry \<Rightarrow> int \<Rightarrow> str list" where
  "targets_for_artifact rg mv = sort (map snd (filter (\<lambda>(m, _). m = mv) (rg_targets rg)))"

definition owner_mod_for_prefix :: "registry \<Rightarrow> str \<Rightarrow> int option" where
  "owner_mod_for_prefix rg prefix =
     (case take 2 (remdups (map fst (filter (\<lambda>(_, p). p = prefix) (rg_packages rg)))) of
        [m] \<Rightarrow> Some m
      | _ \<Rightarrow> None)"

definition mod_id_for_selector :: "registry \<Rightarrow> str \<Rightarrow> int option" where
  "mod_id_for_selector rg sel =
     (let sel = before CHR ''@'' sel in
      case strip_prefix ''modrinth:'' sel of
        Some pid \<Rightarrow> mod_id_for_alias rg ''modrinth'' pid
      | None \<Rightarrow> map_option al_mod_id
          (find (\<lambda>a. al_source a = ''modid'' \<and> eq_ignore_case (al_key a) sel) (rg_aliases rg)))"

definition artifact_by_sha1 :: "registry \<Rightarrow> str \<Rightarrow> (int \<times> int \<times> str) option" where
  "artifact_by_sha1 rg sha =
     map_option (\<lambda>v. (mv_id v, mv_mod_id v, mv_version v))
       (find (\<lambda>v. mv_sha1 v = sha) (rg_versions rg))"

definition version_by_modrinth_version_id :: "registry \<Rightarrow> str \<Rightarrow> str option" where
  "version_by_modrinth_version_id rg vid =
     map_option mv_version (find (\<lambda>v. mv_modrinth_version_id v = Some vid) (rg_versions rg))"

definition mod_version_id_for_modrinth_version_id :: "registry \<Rightarrow> str \<Rightarrow> int option" where
  "mod_version_id_for_modrinth_version_id rg vid =
     map_option mv_id (find (\<lambda>v. mv_modrinth_version_id v = Some vid) (rg_versions rg))"

text \<open>A row whose kind or source cell is not in the vocabulary is skipped.\<close>

definition decode_relation :: "relation_cells \<Rightarrow> relation_row option" where
  "decode_relation r =
     (case (rel_kind_parse (rc_kind r), rel_source_parse (rc_source r)) of
        (Some k, Some s) \<Rightarrow> Some \<lparr>rl_target = rc_target r, rl_version_range = rc_version_range r,
            rl_kind = k, rl_severity = Option.bind (rc_severity r) severity_parse, rl_source = s,
            rl_confidence = rc_confidence r\<rparr>
      | _ \<Rightarrow> None)"

definition relations_for_artifact :: "registry \<Rightarrow> int \<Rightarrow> int \<Rightarrow> relation_row list" where
  "relations_for_artifact rg mv from_mod =
     List.map_filter decode_relation
       (sort_key (\<lambda>r. - rc_confidence r)
         (filter (\<lambda>r. rc_from_mod_version_id r = Some mv \<or>
                      rc_from_mod_version_id r = None \<and> rc_from_mod_id r = from_mod)
           (rg_relations rg)))"

definition mixin_needs :: "registry \<Rightarrow> int \<Rightarrow> (str \<times> str) list" where
  "mixin_needs rg mv = sort (map snd (filter (\<lambda>(m, _). m = mv) (rg_mixin_needs rg)))"

section \<open>Class digests\<close>

text \<open>\<open>class_hash\<close> of \<open>src/src/registry/upsert.rs\<close>: 64-bit FNV-1a, the product wrapping.\<close>

definition class_hash :: "str \<Rightarrow> 64 word" where
  "class_hash name =
     foldl (\<lambda>h b. (xor h (of_nat (of_char b))) * 0x100000001b3) 0xcbf29ce484222325 name"

text \<open>The binary search of \<open>artifact_has_class\<close> over the sorted digest. A record is the big-endian
  form of one hash, so comparing records bytewise is comparing the hashes.\<close>

function digest_search :: "64 word list \<Rightarrow> 64 word \<Rightarrow> nat \<Rightarrow> nat \<Rightarrow> bool" where
  "digest_search d want lo hi =
     (if lo < hi then
        let mid = (lo + hi) div 2 in
        if d ! mid < want then digest_search d want (mid + 1) hi
        else if want < d ! mid then digest_search d want lo mid
        else True
      else False)"
  by pat_completeness auto
termination by (relation "measure (\<lambda>(d, w, lo, hi). hi - lo)") auto

declare digest_search.simps [simp del]

definition artifact_has_class :: "registry \<Rightarrow> int \<Rightarrow> str \<Rightarrow> bool option" where
  "artifact_has_class rg mv name =
     (case Option.bind (find (\<lambda>v. mv_id v = mv) (rg_versions rg)) mv_class_digest of
        None \<Rightarrow> None
      | Some d \<Rightarrow>
          if d = [] then None
          else Some (digest_search d (class_hash name) 0 (length d)))"

lemma digest_search_correct:
  "sorted d \<Longrightarrow> hi \<le> length d \<Longrightarrow> digest_search d w lo hi \<longleftrightarrow> (\<exists>i. lo \<le> i \<and> i < hi \<and> d ! i = w)"
proof (induction d w lo hi rule: digest_search.induct)
  case (1 d w lo hi)
  define m where "m = (lo + hi) div 2"
  show ?case
  proof (cases "lo < hi")
    case False
    then show ?thesis by (subst digest_search.simps) auto
  next
    case True
    then have m: "lo \<le> m" "m < hi" by (auto simp: m_def)
    have mono: "i \<le> j \<Longrightarrow> j < hi \<Longrightarrow> d ! i \<le> d ! j" for i j
      using "1.prems" by (intro sorted_nth_mono) auto
    consider (lt) "d ! m < w" | (gt) "w < d ! m" | (eq) "d ! m = w" by fastforce
    then show ?thesis
    proof cases
      case lt
      have ge: "Suc m \<le> i" if "i < hi" "d ! i = w" for i
        using that m lt mono [of i m] by (metis leD linorder_not_less not_less_eq_eq)
      have "digest_search d w lo hi = digest_search d w (m + 1) hi"
        using True lt by (subst digest_search.simps) (simp add: Let_def m_def)
      also have "\<dots> \<longleftrightarrow> (\<exists>i. m + 1 \<le> i \<and> i < hi \<and> d ! i = w)"
        using "1.IH"(1) [OF True m_def] lt "1.prems" by simp
      also have "\<dots> \<longleftrightarrow> (\<exists>i. lo \<le> i \<and> i < hi \<and> d ! i = w)"
        using ge m by (metis Suc_eq_plus1 Suc_leD le_trans)
      finally show ?thesis .
    next
      case gt
      have le: "i < m" if "i < hi" "d ! i = w" for i
        using that m gt mono [of m i] by (metis leD linorder_not_less)
      have "digest_search d w lo hi = digest_search d w lo m"
        using True gt by (subst digest_search.simps) (simp add: Let_def m_def less_not_sym)
      also have "\<dots> \<longleftrightarrow> (\<exists>i. lo \<le> i \<and> i < m \<and> d ! i = w)"
        using "1.IH"(2) [OF True m_def] gt m "1.prems" by (simp add: less_not_sym)
      also have "\<dots> \<longleftrightarrow> (\<exists>i. lo \<le> i \<and> i < hi \<and> d ! i = w)"
        using le m by (metis less_trans)
      finally show ?thesis .
    next
      case eq
      with True have "digest_search d w lo hi"
        by (subst digest_search.simps) (simp add: Let_def m_def)
      with eq m show ?thesis by blast
    qed
  qed
qed

section \<open>Lemmas\<close>

lemma succs_parent_edges: "set (succs (parent_edges lp) c) = {p. (c, p) \<in> set lp}"
proof -
  have "map_of (map (\<lambda>(c, _). (c, f c)) xs) c = (if c \<in> fst ` set xs then Some (f c) else None)"
    for f :: "str \<Rightarrow> str list" and xs :: "(str \<times> str) list"
    by (induction xs) auto
  note m = this [of "\<lambda>c. map snd (filter (\<lambda>(c', _). c' = c) lp)" lp]
  show ?thesis
    by (auto simp: succs_def parent_edges_def m image_iff split: if_splits)
qed

lemma loader_chain_reaches:
  "set (loader_chain rg l) =
     {x. reaches (parent_edges (rg_loader_parent rg)) {to_lower l} x}"
  by (simp add: loader_chain_def cl.run_from_empty)

lemma selector_drops_window:
  "CHR ''@'' \<notin> set s \<Longrightarrow> mod_id_for_selector rg (s @ CHR ''@'' # w) = mod_id_for_selector rg s"
  by (simp add: mod_id_for_selector_def)

lemma relations_sorted: "sorted (map (\<lambda>r. - rl_confidence r) (relations_for_artifact rg mv m))"
proof -
  have "sorted (map (\<lambda>r. - rl_confidence r) (List.map_filter decode_relation rs))"
    if "sorted (map (\<lambda>r. - rc_confidence r) rs)" for rs
  proof -
    have c: "decode_relation r = Some x \<Longrightarrow> rl_confidence x = rc_confidence r" for r x
      by (auto simp: decode_relation_def split: option.splits)
    have "x \<in> set (List.map_filter decode_relation ss) \<Longrightarrow>
        \<exists>r \<in> set ss. rl_confidence x = rc_confidence r" for x ss
      by (induction ss) (auto simp: List.map_filter_simps split: option.splits dest: c)
    with that show ?thesis
      by (induction rs) (fastforce simp: List.map_filter_simps c split: option.splits)+
  qed
  then show ?thesis by (simp add: relations_for_artifact_def)
qed

section \<open>Properties\<close>

text \<open>the loaders a pack natively runs are exactly the loader itself, in lower case, and every
  ancestor in the inheritance table.\<close>

theorem loader_chain_ancestors:
  "set (loader_chain rg l) = {x. (to_lower l, x) \<in> (set (rg_loader_parent rg))\<^sup>*}"
proof -
  let ?es = "parent_edges (rg_loader_parent rg)"
  have "reaches ?es {to_lower l} x \<longleftrightarrow> (to_lower l, x) \<in> (set (rg_loader_parent rg))\<^sup>*" for x
  proof
    assume "reaches ?es {to_lower l} x"
    then show "(to_lower l, x) \<in> (set (rg_loader_parent rg))\<^sup>*"
      by induction (auto simp: succs_parent_edges intro: rtrancl_into_rtrancl)
  next
    assume "(to_lower l, x) \<in> (set (rg_loader_parent rg))\<^sup>*"
    then show "reaches ?es {to_lower l} x"
      by induction (auto simp: succs_parent_edges intro: reaches.intros)
  qed
  then show ?thesis by (simp add: loader_chain_reaches)
qed

text \<open>asking whether an artifact carries a class: over a sorted, non-empty digest the binary
  search answers membership of the hash, and a missing or empty digest is never answered "no".\<close>

theorem artifact_has_class_correct:
  assumes "find (\<lambda>v. mv_id v = mv) (rg_versions rg) = Some v"
    and "\<And>d. mv_class_digest v = Some d \<Longrightarrow> sorted d"
  shows "artifact_has_class rg mv name =
    (case mv_class_digest v of
       None \<Rightarrow> None
     | Some d \<Rightarrow> if d = [] then None else Some (class_hash name \<in> set d))"
  using assms digest_search_correct [where lo = 0 and hi = "length d" and d = d for d]
  by (auto simp: artifact_has_class_def in_set_conv_nth split: option.split)

theorem artifact_has_class_correct_witness:
  "artifact_has_class (empty_registry\<lparr>rg_versions := [\<lparr>mv_id = 7, mv_mod_id = 1, mv_version = ''1'',
     mv_sha1 = ''aa'', mv_size_bytes = 1, mv_filename = None, mv_mc_versions = None, mv_source = ''cache'',
     mv_modrinth_version_id = None, mv_class_digest = Some [1, class_hash ''a'']\<rparr>]\<rparr>) 7 ''a'' = Some True"
proof -
  have "sorted [1, class_hash ''a'']" by (simp add: class_hash_def)
  then show ?thesis
    by (subst artifact_has_class_correct) (auto simp: empty_registry_def)
qed

end
