(* ===== verification/Classify.thy ===== *)
theory Classify
  imports Registry_Model
begin

text \<open>
  The decision layer of \<open>src/src/registry/classify.rs\<close>: which of the three sources (the jar's
  kind, the Modrinth environment flags, the bytecode verdict) decides an artifact's side and
  match policy, with both raw verdicts kept on the result.
\<close>

datatype provenance = JarKind | ModrinthEnv | Bytecode | Unclassified

fun provenance_as_str :: "provenance \<Rightarrow> str" where
  "provenance_as_str JarKind = ''jar-kind''"
| "provenance_as_str ModrinthEnv = ''modrinth-env''"
| "provenance_as_str Bytecode = ''bytecode''"
| "provenance_as_str Unclassified = ''unclassified''"

record classification =
  cn_side :: "side_class option"
  cn_policy :: "match_policy option"
  cn_kind :: "str option"
  cn_provenance :: provenance
  cn_bytecode_side :: "side_class option"
  cn_bytecode_policy :: "match_policy option"
  cn_side_confidence :: "str option"
  cn_optional_both :: bool

definition non_mod_kind :: "str option \<Rightarrow> bool" where
  "non_mod_kind k \<longleftrightarrow> k = Some ''coremod'' \<or> k = Some ''library''"

definition is_non_mod :: "classification \<Rightarrow> bool" where
  "is_non_mod c \<longleftrightarrow> non_mod_kind (cn_kind c)"

definition side_disagreement :: "classification \<Rightarrow> (side_class \<times> side_class) option" where
  "side_disagreement c =
     (case (cn_provenance c, cn_side c, cn_bytecode_side c) of
        (ModrinthEnv, Some win, Some bc) \<Rightarrow> if win \<noteq> bc then Some (win, bc) else None
      | _ \<Rightarrow> None)"

definition client_verdict_is_soft :: "classification \<Rightarrow> bool" where
  "client_verdict_is_soft c \<longleftrightarrow>
     cn_side c = Some Client \<and> cn_provenance c = Bytecode \<and> cn_side_confidence c = Some ''low''"

definition mod_env :: "registry \<Rightarrow> int option \<Rightarrow> (str option \<times> str option) option" where
  "mod_env rg mod_id =
     Option.bind mod_id (\<lambda>i.
       map_option (\<lambda>m. (md_client_env m, md_server_env m)) (find (\<lambda>m. md_id m = i) (rg_mods rg)))"

definition env_verdict :: "(str option \<times> str option) option \<Rightarrow> (side_class \<times> match_policy) option" where
  "env_verdict env =
     (case env of Some (Some c, Some s) \<Rightarrow> side_from_modrinth_env c s | _ \<Rightarrow> None)"

definition classify_artifact :: "registry \<Rightarrow> int option \<Rightarrow> str option \<Rightarrow> classification" where
  "classify_artifact rg mod_id sha =
     (let jar = Option.bind sha (jar_class_for_sha1 rg);
          bytecode_side = Option.bind (Option.bind jar jc_side) side_parse;
          bytecode_confidence = Option.bind jar jc_side_confidence;
          bytecode_policy = Option.bind (Option.bind jar jc_match_policy) policy_parse;
          kind = map_option jc_kind jar;
          env = mod_env rg mod_id;
          modrinth = env_verdict env;
          optional_both = (env = Some (Some ''optional'', Some ''optional''));
          base = \<lparr>cn_side = None, cn_policy = None, cn_kind = kind, cn_provenance = Unclassified,
            cn_bytecode_side = bytecode_side, cn_bytecode_policy = bytecode_policy,
            cn_side_confidence = None, cn_optional_both = False\<rparr>
      in if non_mod_kind kind then base\<lparr>cn_provenance := JarKind\<rparr>
         else case modrinth of
           Some (side, policy) \<Rightarrow>
             base\<lparr>cn_side := Some side, cn_policy := Some policy, cn_provenance := ModrinthEnv,
               cn_side_confidence := Some ''high'', cn_optional_both := optional_both\<rparr>
         | None \<Rightarrow>
             if bytecode_side \<noteq> None \<or> bytecode_policy \<noteq> None
             then base\<lparr>cn_side := bytecode_side, cn_policy := bytecode_policy,
                    cn_provenance := Bytecode, cn_side_confidence := bytecode_confidence\<rparr>
             else base)"

lemma classify_jar_facts:
  "classify_artifact rg m sha = c \<Longrightarrow>
     cn_kind c = map_option jc_kind (Option.bind sha (jar_class_for_sha1 rg)) \<and>
     cn_bytecode_side c =
       Option.bind (Option.bind (Option.bind sha (jar_class_for_sha1 rg)) jc_side) side_parse \<and>
     cn_bytecode_policy c =
       Option.bind (Option.bind (Option.bind sha (jar_class_for_sha1 rg)) jc_match_policy) policy_parse"
  by (auto simp: classify_artifact_def Let_def split: option.split prod.split)

lemma classify_non_mod:
  "is_non_mod (classify_artifact rg m sha) \<Longrightarrow>
     cn_side (classify_artifact rg m sha) = None \<and> cn_policy (classify_artifact rg m sha) = None"
  by (auto simp: classify_artifact_def is_non_mod_def Let_def split: option.splits if_splits)

lemma classify_optional_both:
  assumes "cn_optional_both (classify_artifact rg m sha)"
  shows "cn_policy (classify_artifact rg m sha) = Some Tolerant"
proof -
  have "mod_env rg m = Some (Some ''optional'', Some ''optional'')"
    using assms by (auto simp: classify_artifact_def Let_def split: option.splits if_splits)
  moreover from this have "env_verdict (mod_env rg m) = Some (Both, Tolerant)"
    by (simp add: env_verdict_def side_from_modrinth_env_def known_env_def)
  ultimately show ?thesis
    using assms by (simp add: classify_artifact_def Let_def split: if_splits)
qed

section \<open>Properties\<close>

text \<open>the source priority. A jar that is not a mod is decided by its kind and has no verdict;
  otherwise usable Modrinth flags decide, with high confidence; otherwise the bytecode verdict;
  otherwise nothing.\<close>

theorem classify_priority:
  "let c = classify_artifact rg m sha; e = env_verdict (mod_env rg m) in
   (cn_provenance c, cn_side c, cn_policy c) =
     (if is_non_mod c then (JarKind, None, None)
      else case e of Some (s, p) \<Rightarrow> (ModrinthEnv, Some s, Some p)
      | None \<Rightarrow> if cn_bytecode_side c = None \<and> cn_bytecode_policy c = None
                then (Unclassified, None, None)
                else (Bytecode, cn_bytecode_side c, cn_bytecode_policy c))"
  by (auto simp: classify_artifact_def is_non_mod_def Let_def split: option.split)

text \<open>a soft client verdict is only ever the bytecode classifier's: the flags being usable
  makes the verdict hard, and a disagreement is reported exactly when the flags won against a
  different bytecode side.\<close>

theorem soft_verdict_and_disagreement:
  "let c = classify_artifact rg m sha; e = env_verdict (mod_env rg m) in
   (client_verdict_is_soft c \<longrightarrow> e = None \<and> \<not> is_non_mod c \<and> cn_bytecode_side c = Some Client) \<and>
   (side_disagreement c = Some (w, l) \<longleftrightarrow>
      \<not> is_non_mod c \<and> (\<exists>p. e = Some (w, p)) \<and> cn_bytecode_side c = Some l \<and> w \<noteq> l)"
  by (auto simp: classify_artifact_def is_non_mod_def client_verdict_is_soft_def
      side_disagreement_def Let_def split: option.splits if_splits)

definition example_registry :: registry where
  "example_registry = empty_registry\<lparr>
     rg_mods := [\<lparr>md_id = 1, md_slug = None, md_canonical_name = None,
       md_client_env = Some ''required'', md_server_env = Some ''unsupported''\<rparr>],
     rg_jar_class := [(''aa'', \<lparr>jc_kind = ''mod'', jc_side = Some ''both'',
       jc_match_policy = Some ''must_match'', jc_side_confidence = None\<rparr>),
       (''bb'', \<lparr>jc_kind = ''mod'', jc_side = Some ''client'',
       jc_match_policy = Some ''tolerant'', jc_side_confidence = Some ''low''\<rparr>)]\<rparr>"

lemmas example_registry_eval =
  example_registry_def empty_registry_def classify_artifact_def mod_env_def env_verdict_def
  jar_class_for_sha1_def side_from_modrinth_env_def known_env_def side_parse_def policy_parse_def
  non_mod_kind_def Let_def

theorem soft_verdict_and_disagreement_witness:
  "client_verdict_is_soft (classify_artifact example_registry None (Some ''bb'')) \<and>
   env_verdict (mod_env example_registry None) = None \<and>
   side_disagreement (classify_artifact example_registry (Some 1) (Some ''aa'')) = Some (Client, Both)"
proof -
  have "client_verdict_is_soft (classify_artifact example_registry None (Some ''bb''))"
    by (simp add: example_registry_eval client_verdict_is_soft_def)
  moreover from this have "env_verdict (mod_env example_registry None) = None"
    using soft_verdict_and_disagreement [of example_registry None "Some ''bb''"] by (simp add: Let_def)
  moreover have "side_disagreement (classify_artifact example_registry (Some 1) (Some ''aa'')) = Some (Client, Both)"
    by (simp add: example_registry_eval side_disagreement_def)
  ultimately show ?thesis by simp
qed

end
