(* ===== verification/Required.thy ===== *)
theory Required
  imports Classify
begin

text \<open>
  \<open>derive_required\<close> of \<open>src/src/authoring/build.rs\<close>: which entries of a manifest are locked for
  every player. The \<open>HashMap\<close> of classifications is a map from filenames. Entries are referred to
  by index, as in the source; the work list is \<open>drain\<close>. The result is the entries with the
  required flag, the default-enabled flag and the presence class set, or the filename of the
  client mod the build refuses to lock.
\<close>

type_synonym classes = "str \<Rightarrow> classification option"

section \<open>The derivation\<close>

definition side_of :: "classes \<Rightarrow> mod_entry \<Rightarrow> side_class option" where
  "side_of cls m = Option.bind (cls (me_filename m)) cn_side"

definition class_holds :: "(classification \<Rightarrow> bool) \<Rightarrow> classes \<Rightarrow> mod_entry \<Rightarrow> bool" where
  "class_holds p cls m = (case cls (me_filename m) of None \<Rightarrow> False | Some c \<Rightarrow> p c)"

abbreviation non_mod :: "classes \<Rightarrow> mod_entry \<Rightarrow> bool" where
  "non_mod \<equiv> class_holds is_non_mod"

abbreviation soft_client :: "classes \<Rightarrow> mod_entry \<Rightarrow> bool" where
  "soft_client \<equiv> class_holds client_verdict_is_soft"

abbreviation must_match :: "classes \<Rightarrow> mod_entry \<Rightarrow> bool" where
  "must_match \<equiv> class_holds (\<lambda>c. cn_policy c = Some MustMatch)"

definition file_index :: "mod_entry list \<Rightarrow> str \<Rightarrow> nat option" where
  "file_index ms = hash_of (zip (map me_filename ms) [0..<length ms])"

definition opt_out_server :: "classes \<Rightarrow> mod_entry list \<Rightarrow> mod_entry list" where
  "opt_out_server cls ms =
     map (\<lambda>m. if side_of cls m = Some Server then m\<lparr>me_default_enabled := False\<rparr> else m) ms"

definition lockable :: "classes \<Rightarrow> mod_entry \<Rightarrow> bool" where
  "lockable cls m =
     (case cls (me_filename m) of
        Some c \<Rightarrow> if cn_optional_both c then False
                  else cn_side c \<noteq> Some Client \<or> client_verdict_is_soft c
      | None \<Rightarrow> True)"

definition requires_of :: "mod_entry \<Rightarrow> requirement list" where
  "requires_of m = (case me_display m of None \<Rightarrow> [] | Some d \<Rightarrow> dp_requires d)"

definition hard_deps :: "classes \<Rightarrow> mod_entry list \<Rightarrow> mod_entry \<Rightarrow> nat list" where
  "hard_deps cls ms m =
     filter (\<lambda>i. lockable cls (ms ! i))
       (List.map_filter (\<lambda>r. file_index ms (rq_filename r))
         (filter (\<lambda>r. \<not> rq_optional r) (requires_of m)))"

definition is_seed :: "classes \<Rightarrow> mod_entry \<Rightarrow> bool" where
  "is_seed cls m \<longleftrightarrow> me_default_enabled m \<and> \<not> non_mod cls m \<and> must_match cls m"

definition seeds :: "classes \<Rightarrow> mod_entry list \<Rightarrow> nat list" where
  "seeds cls ms = filter (\<lambda>i. is_seed cls (ms ! i)) [0..<length ms]"

definition walk_start :: "classes \<Rightarrow> mod_entry list \<Rightarrow> nat list" where
  "walk_start cls ms =
     concat (map (\<lambda>i. hard_deps cls ms (ms ! i))
       (filter (\<lambda>i. me_default_enabled (ms ! i) \<or> i \<in> set (seeds cls ms)) [0..<length ms]))"

definition dep_edges :: "classes \<Rightarrow> mod_entry list \<Rightarrow> (nat \<times> nat list) list" where
  "dep_edges cls ms = map (\<lambda>i. (i, hard_deps cls ms (ms ! i))) [0..<length ms]"

definition required_walk :: "classes \<Rightarrow> mod_entry list \<Rightarrow> nat list" where
  "required_walk cls ms = drain (dep_edges cls ms) (walk_start cls ms) (seeds cls ms)"

text \<open>The pass over the required entries: server-side mods and jars that are not mods leave, a
  client mod stays only on the soft verdict and is an error otherwise.\<close>

fun settle :: "classes \<Rightarrow> mod_entry list \<Rightarrow> nat list \<Rightarrow> nat list \<Rightarrow> str + nat list" where
  "settle cls ms [] req = Inr req"
| "settle cls ms (i # is) req =
     (if i \<notin> set req then settle cls ms is req
      else if side_of cls (ms ! i) = Some Server \<or> non_mod cls (ms ! i)
        then settle cls ms is (removeAll i req)
      else if side_of cls (ms ! i) = Some Client then
        (if soft_client cls (ms ! i) then settle cls ms is req else Inl (me_filename (ms ! i)))
      else settle cls ms is req)"

definition presence_of :: "classification option \<Rightarrow> bool \<Rightarrow> presence_class option" where
  "presence_of c required =
     (case c of
        Some c \<Rightarrow>
          if is_non_mod c then Some Coremod
          else if cn_side c = Some Client \<and> \<not> required then Some OptionalClient
          else if cn_side c = Some Server then Some OptionalServer
          else if required then Some PRequired
          else if cn_side c = Some Both then Some OptionalBoth
          else None
      | None \<Rightarrow> if required then Some PRequired else None)"

definition set_presence :: "presence_class option \<Rightarrow> display option \<Rightarrow> display option" where
  "set_presence p d =
     (case p of
        Some x \<Rightarrow> Some ((display_or_default d)\<lparr>dp_presence := Some x\<rparr>)
      | None \<Rightarrow> map_option (\<lambda>d. d\<lparr>dp_presence := None\<rparr>) d)"

definition finish_entry :: "classes \<Rightarrow> bool \<Rightarrow> mod_entry \<Rightarrow> mod_entry" where
  "finish_entry cls r m = m\<lparr>me_required := r,
     me_display := set_presence (presence_of (cls (me_filename m)) r) (me_display m)\<rparr>"

definition derive_required :: "classes \<Rightarrow> mod_entry list \<Rightarrow> str + mod_entry list" where
  "derive_required cls ms0 =
     (let ms = opt_out_server cls ms0 in
      case settle cls ms [0..<length ms] (required_walk cls ms) of
        Inl e \<Rightarrow> Inl e
      | Inr req \<Rightarrow> Inr (map (\<lambda>i. finish_entry cls (i \<in> set req) (ms ! i)) [0..<length ms]))"

section \<open>The walk\<close>

lemma file_index_Some: "file_index ms f = Some i \<Longrightarrow> i < length ms \<and> me_filename (ms ! i) = f"
  unfolding file_index_def by (drule hash_of_Some) (auto simp: in_set_zip)

lemma length_opt_out [simp]: "length (opt_out_server cls ms) = length ms"
  by (simp add: opt_out_server_def)

lemma opt_out_nth:
  "i < length ms \<Longrightarrow> opt_out_server cls ms ! i =
     (if side_of cls (ms ! i) = Some Server then (ms ! i)\<lparr>me_default_enabled := False\<rparr> else ms ! i)"
  by (simp add: opt_out_server_def)

lemma side_of_update [simp]:
  "side_of cls (m\<lparr>me_default_enabled := b\<rparr>) = side_of cls m"
  by (simp add: side_of_def)

lemma class_holds_update [simp]:
  "class_holds p cls (m\<lparr>me_default_enabled := b\<rparr>) = class_holds p cls m"
  by (simp add: class_holds_def)

lemma hard_deps_iff:
  "j \<in> set (hard_deps cls ms m) \<longleftrightarrow>
     lockable cls (ms ! j) \<and>
     (\<exists>r \<in> set (requires_of m). \<not> rq_optional r \<and> file_index ms (rq_filename r) = Some j)"
proof -
  have "set (List.map_filter f xs) = {y. \<exists>x \<in> set xs. f x = Some y}"
    for f :: "requirement \<Rightarrow> nat option" and xs
    by (induction xs) (auto simp: List.map_filter_simps split: option.splits)
  then show ?thesis by (auto simp: hard_deps_def)
qed

lemma hard_deps_props:
  "j \<in> set (hard_deps cls ms m) \<Longrightarrow> j < length ms \<and> lockable cls (ms ! j)"
  by (auto simp: hard_deps_iff dest: file_index_Some)

lemma succs_dep_edges:
  "succs (dep_edges cls ms) i = (if i < length ms then hard_deps cls ms (ms ! i) else [])"
proof -
  have "map_of (map (\<lambda>i. (i, f i)) xs) i = (if i \<in> set xs then Some (f i) else None)"
    for f :: "nat \<Rightarrow> nat list" and xs
    by (induction xs) auto
  then show ?thesis by (simp add: succs_def dep_edges_def)
qed

lemma seeds_iff: "i \<in> set (seeds cls ms) \<longleftrightarrow> i < length ms \<and> is_seed cls (ms ! i)"
  by (auto simp: seeds_def)

lemma walk_start_iff:
  "j \<in> set (walk_start cls ms) \<longleftrightarrow>
     (\<exists>i < length ms. me_default_enabled (ms ! i) \<and> j \<in> set (hard_deps cls ms (ms ! i)))"
  by (auto simp: walk_start_def seeds_iff is_seed_def)

lemma required_walk_reaches:
  "set (required_walk cls ms) =
     {i. reaches (dep_edges cls ms) (set (walk_start cls ms) \<union> set (seeds cls ms)) i}"
  unfolding required_walk_def
  by (rule cl.run_reaches) (auto simp: succs_dep_edges walk_start_iff seeds_iff is_seed_def)

lemma walk_lockable:
  "i \<in> set (required_walk cls ms) \<Longrightarrow>
     i < length ms \<and> (i \<in> set (seeds cls ms) \<or> lockable cls (ms ! i))"
  unfolding required_walk_def
  by (erule cl.run_induct)
    (auto simp: seeds_iff walk_start_iff succs_dep_edges dest: hard_deps_props split: if_splits)

lemma not_lockable:
  "side_of cls m = Some Client \<Longrightarrow> \<not> soft_client cls m \<Longrightarrow> \<not> lockable cls m"
  by (auto simp: side_of_def class_holds_def lockable_def split: option.splits bind_splits)

section \<open>The settling pass\<close>

definition leaves :: "classes \<Rightarrow> mod_entry \<Rightarrow> bool" where
  "leaves cls m \<longleftrightarrow> side_of cls m = Some Server \<or> non_mod cls m"

definition refused :: "classes \<Rightarrow> mod_entry \<Rightarrow> bool" where
  "refused cls m \<longleftrightarrow> \<not> leaves cls m \<and> side_of cls m = Some Client \<and> \<not> soft_client cls m"

lemma settle_Inr:
  "settle cls ms is req = Inr out \<Longrightarrow> distinct is \<Longrightarrow>
     set out = set req - {i \<in> set is. leaves cls (ms ! i)} \<and>
     (\<forall>i \<in> set is \<inter> set req. \<not> refused cls (ms ! i))"
  by (induction cls ms "is" req rule: settle.induct)
    (auto simp: leaves_def refused_def split: if_splits)

lemma settle_Inl:
  "distinct is \<Longrightarrow> settle cls ms is req = Inl f \<Longrightarrow>
     \<exists>i \<in> set is \<inter> set req. refused cls (ms ! i) \<and> me_filename (ms ! i) = f"
  by (induction cls ms "is" req rule: settle.induct)
    (auto simp: leaves_def refused_def split: if_splits)

lemma refused_is_seed:
  assumes "i \<in> set (required_walk cls ms)" and "refused cls (ms ! i)"
  shows "i \<in> set (seeds cls ms)"
  using walk_lockable [OF assms(1)] assms(2) not_lockable by (auto simp: refused_def)

lemma derive_required_Inr:
  assumes "derive_required cls ms0 = Inr out"
  shows "out = map (\<lambda>i. finish_entry cls
      (i \<in> set (required_walk cls (opt_out_server cls ms0)) \<and> \<not> leaves cls (opt_out_server cls ms0 ! i))
      (opt_out_server cls ms0 ! i)) [0..<length ms0]"
proof -
  let ?ms = "opt_out_server cls ms0"
  obtain req where r: "settle cls ?ms [0..<length ?ms] (required_walk cls ?ms) = Inr req"
    and out: "out = map (\<lambda>i. finish_entry cls (i \<in> set req) (?ms ! i)) [0..<length ?ms]"
    using assms by (auto simp: derive_required_def Let_def split: sum.splits)
  from settle_Inr [OF r] walk_lockable have "i < length ?ms \<Longrightarrow>
      i \<in> set req \<longleftrightarrow> i \<in> set (required_walk cls ?ms) \<and> \<not> leaves cls (?ms ! i)" for i
    by auto
  with out show ?thesis by simp
qed

lemma derive_required_nth:
  "derive_required cls ms = Inr out \<Longrightarrow> i < length ms \<Longrightarrow>
     out ! i = finish_entry cls
       (i \<in> set (required_walk cls (opt_out_server cls ms)) \<and> \<not> leaves cls (opt_out_server cls ms ! i))
       (opt_out_server cls ms ! i)"
  by (drule derive_required_Inr) simp

lemma derive_required_length: "derive_required cls ms = Inr out \<Longrightarrow> length out = length ms"
  by (drule derive_required_Inr) simp

lemma derive_required_not_refused:
  assumes "derive_required cls ms = Inr out"
    and "i \<in> set (required_walk cls (opt_out_server cls ms))"
  shows "\<not> refused cls (opt_out_server cls ms ! i)"
proof -
  let ?ms = "opt_out_server cls ms"
  obtain req where r: "settle cls ?ms [0..<length ?ms] (required_walk cls ?ms) = Inr req"
    using assms by (auto simp: derive_required_def Let_def split: sum.splits)
  show ?thesis using settle_Inr [OF r] assms(2) walk_lockable [OF assms(2)] by auto
qed

lemma derive_required_Inl:
  "(\<exists>f. derive_required cls ms = Inl f) \<longleftrightarrow>
     (\<exists>i \<in> set (required_walk cls (opt_out_server cls ms)). refused cls (opt_out_server cls ms ! i))"
proof (cases "derive_required cls ms")
  case (Inl f)
  then have "settle cls (opt_out_server cls ms) [0..<length (opt_out_server cls ms)]
      (required_walk cls (opt_out_server cls ms)) = Inl f"
    by (simp add: derive_required_def Let_def split: sum.splits)
  from settle_Inl [OF _ this] Inl show ?thesis by auto
next
  case (Inr out)
  then show ?thesis using derive_required_not_refused by fastforce
qed

lemma finish_entry_simps [simp]:
  "me_filename (finish_entry cls r m) = me_filename m"
  "me_default_enabled (finish_entry cls r m) = me_default_enabled m"
  "me_required (finish_entry cls r m) = r"
  "requires_of (finish_entry cls r m) = requires_of m"
  "side_of cls (finish_entry cls r m) = side_of cls m"
  "class_holds p cls (finish_entry cls r m) = class_holds p cls m"
  "leaves cls (finish_entry cls r m) = leaves cls m"
  "is_seed cls (finish_entry cls r m) = is_seed cls m"
  "lockable cls (finish_entry cls r m) = lockable cls m"
  by (auto simp: finish_entry_def set_presence_def requires_of_def display_or_default_def
      display_default_def side_of_def class_holds_def leaves_def is_seed_def lockable_def
      split: option.split)

lemma leaves_opt_out [simp]:
  "i < length ms \<Longrightarrow> leaves cls (opt_out_server cls ms ! i) = leaves cls (ms ! i)"
  by (simp add: opt_out_nth leaves_def)

lemma is_seed_opt_out:
  "i < length ms \<Longrightarrow>
     is_seed cls (opt_out_server cls ms ! i) \<longleftrightarrow> is_seed cls (ms ! i) \<and> side_of cls (ms ! i) \<noteq> Some Server"
  by (simp add: opt_out_nth is_seed_def)

lemma finish_entry_twice [simp]:
  "finish_entry cls r (finish_entry cls r m) = finish_entry cls r m"
  by (cases m; cases "me_display m")
    (auto simp: finish_entry_def set_presence_def display_or_default_def split: option.split)

text \<open>The derivation reads the filename, the default-enabled flag and the requirements of an entry
  and nothing else, so a finished manifest derives the same walk.\<close>

lemma walk_cong:
  assumes "length ms' = length ms"
    and "\<And>i. i < length ms \<Longrightarrow> me_filename (ms' ! i) = me_filename (ms ! i) \<and>
      me_default_enabled (ms' ! i) = me_default_enabled (ms ! i) \<and>
      requires_of (ms' ! i) = requires_of (ms ! i)"
  shows "set (required_walk cls ms') = set (required_walk cls ms)"
proof -
  have fns: "map me_filename ms' = map me_filename ms"
    using assms by (intro nth_equalityI) auto
  have idx: "file_index ms' = file_index ms"
    using assms(1) fns by (simp add: file_index_def)
  have lock: "i < length ms \<Longrightarrow> lockable cls (ms' ! i) = lockable cls (ms ! i)"
    and seed: "i < length ms \<Longrightarrow> is_seed cls (ms' ! i) = is_seed cls (ms ! i)" for i
    using assms(2) [of i] by (auto simp: lockable_def is_seed_def class_holds_def)
  have hd: "set (hard_deps cls ms' (ms' ! i)) = set (hard_deps cls ms (ms ! i))" if "i < length ms" for i
  proof -
    have "file_index ms f = Some j \<Longrightarrow> lockable cls (ms' ! j) = lockable cls (ms ! j)" for f j
      using lock file_index_Some by blast
    with assms(2) [OF that] idx show ?thesis by (auto simp: hard_deps_iff)
  qed
  have ss: "set (succs (dep_edges cls ms') i) = set (succs (dep_edges cls ms) i)" for i
    using hd assms(1) by (cases "i < length ms") (simp_all add: succs_dep_edges)
  have "set (walk_start cls ms') = set (walk_start cls ms)"
    using hd assms by (simp add: set_eq_iff walk_start_iff cong: conj_cong)
  moreover have "set (seeds cls ms') = set (seeds cls ms)"
    using seed assms by (simp add: set_eq_iff seeds_iff cong: conj_cong)
  ultimately have st: "set (walk_start cls ms') \<union> set (seeds cls ms') = set (walk_start cls ms) \<union> set (seeds cls ms)"
    by simp
  have "reaches (dep_edges cls ms') S i = reaches (dep_edges cls ms) S i" for S i
  proof
    show "reaches (dep_edges cls ms') S i \<Longrightarrow> reaches (dep_edges cls ms) S i"
      by (induction rule: reaches.induct) (auto simp: ss intro: reaches.intros)
    show "reaches (dep_edges cls ms) S i \<Longrightarrow> reaches (dep_edges cls ms') S i"
      by (induction rule: reaches.induct) (auto simp: ss [symmetric] intro: reaches.intros)
  qed
  then show ?thesis by (simp add: required_walk_reaches st)
qed

section \<open>Properties\<close>

text \<open>C3: what the build locks. An entry of a derived manifest is required exactly when the walk
  along hard edges into lockable entries reaches it, from the default-enabled must-match mods and
  the hard dependencies of every default-enabled mod, and it is neither server-side nor a jar that
  is not a mod.\<close>

theorem required_iff_reached:
  assumes "derive_required cls ms = Inr out" and "i < length ms"
  shows "me_required (out ! i) \<longleftrightarrow>
    (let es = opt_out_server cls ms in
     reaches (dep_edges cls es)
       ({j. j < length ms \<and> is_seed cls (es ! j)} \<union>
        {j. \<exists>k < length ms. me_default_enabled (es ! k) \<and> j \<in> set (hard_deps cls es (es ! k))}) i) \<and>
    side_of cls (ms ! i) \<noteq> Some Server \<and> \<not> non_mod cls (ms ! i)"
proof -
  let ?es = "opt_out_server cls ms"
  have "set (walk_start cls ?es) \<union> set (seeds cls ?es) =
    {j. j < length ms \<and> is_seed cls (?es ! j)} \<union>
    {j. \<exists>k < length ms. me_default_enabled (?es ! k) \<and> j \<in> set (hard_deps cls ?es (?es ! k))}"
    by (auto simp: walk_start_iff seeds_iff)
  moreover have "me_required (out ! i) \<longleftrightarrow> i \<in> set (required_walk cls ?es) \<and> \<not> leaves cls (ms ! i)"
    using derive_required_nth [OF assms] assms(2) by simp
  ultimately show ?thesis
    by (simp add: required_walk_reaches leaves_def Let_def)
qed

text \<open>C4: the client invariant. No derived manifest locks a server-side mod, a jar that is not a
  mod, or a client-side mod whose verdict is anything but the low-confidence bytecode one.\<close>

theorem never_locks_client:
  assumes "derive_required cls ms = Inr out" and "m \<in> set out" and "me_required m"
  shows "side_of cls m \<noteq> Some Server \<and> \<not> non_mod cls m \<and>
    (side_of cls m = Some Client \<longrightarrow> soft_client cls m)"
proof -
  let ?es = "opt_out_server cls ms"
  from assms(2) obtain i where i: "i < length ms" "m = out ! i"
    using derive_required_length [OF assms(1)] by (auto simp: in_set_conv_nth)
  from derive_required_nth [OF assms(1) i(1)] i assms(3)
  have w: "i \<in> set (required_walk cls ?es)" "\<not> leaves cls (?es ! i)"
    and m: "side_of cls m = side_of cls (?es ! i)" "\<And>p. class_holds p cls m = class_holds p cls (?es ! i)"
    by auto
  from derive_required_not_refused [OF assms(1) w(1)] w(2) m show ?thesis
    by (auto simp: refused_def leaves_def)
qed

lemma derive_required_Inl_iff:
  "(\<exists>f. derive_required cls ms = Inl f) \<longleftrightarrow>
     (\<exists>m \<in> set ms. is_seed cls m \<and> side_of cls m = Some Client \<and> \<not> soft_client cls m)"
proof -
  let ?es = "opt_out_server cls ms"
  have nth: "is_seed cls (?es ! i) \<and> refused cls (?es ! i) \<longleftrightarrow>
      is_seed cls (ms ! i) \<and> side_of cls (ms ! i) = Some Client \<and> \<not> soft_client cls (ms ! i)"
    if "i < length ms" for i
    using that by (auto simp: is_seed_opt_out refused_def opt_out_nth leaves_def is_seed_def split: if_splits)
  have walk: "i \<in> set (seeds cls ?es) \<Longrightarrow> i \<in> set (required_walk cls ?es)" for i
    by (simp add: required_walk_reaches reaches.start)
  have "(\<exists>f. derive_required cls ms = Inl f) \<longleftrightarrow>
      (\<exists>i < length ms. is_seed cls (?es ! i) \<and> refused cls (?es ! i))"
  proof -
    have "i \<in> set (required_walk cls ?es) \<and> refused cls (?es ! i) \<longleftrightarrow>
        i < length ms \<and> is_seed cls (?es ! i) \<and> refused cls (?es ! i)" for i
    proof -
      have "i \<in> set (seeds cls ?es) \<longleftrightarrow> i < length ms \<and> is_seed cls (?es ! i)"
        by (simp add: seeds_iff)
      then show ?thesis using refused_is_seed [of i cls ?es] walk [of i] by blast
    qed
    then show ?thesis unfolding derive_required_Inl by blast
  qed
  also have "\<dots> \<longleftrightarrow> (\<exists>i < length ms. is_seed cls (ms ! i) \<and> side_of cls (ms ! i) = Some Client \<and>
      \<not> soft_client cls (ms ! i))"
    using nth by blast
  also have "\<dots> \<longleftrightarrow> (\<exists>m \<in> set ms. is_seed cls m \<and> side_of cls m = Some Client \<and> \<not> soft_client cls m)"
    by (metis in_set_conv_nth)
  finally show ?thesis .
qed

text \<open>the backstop fires only for an inconsistent classification. The derivation fails exactly
  when a default-enabled mod is itself classified must-match and confidently client-side: no chain
  of dependencies can make it fail.\<close>

theorem derive_required_fails_iff:
  "(\<exists>f. derive_required cls ms = Inl f) \<longleftrightarrow>
     (\<exists>m \<in> set ms. is_seed cls m \<and> side_of cls m = Some Client \<and> \<not> soft_client cls m)"
  by (rule derive_required_Inl_iff)

text \<open>a mod that its own Modrinth flags declare optional on both sides is never locked, whatever
  depends on it, when the classes are the decision layer's.\<close>

theorem optional_both_never_required:
  assumes "derive_required cls ms = Inr out" and "m \<in> set out"
    and "cls (me_filename m) = Some (classify_artifact rg mid sha)"
    and "cn_optional_both (classify_artifact rg mid sha)"
  shows "\<not> me_required m"
proof
  assume r: "me_required m"
  let ?es = "opt_out_server cls ms" and ?c = "classify_artifact rg mid sha"
  from assms(2) obtain i where i: "i < length ms" "m = out ! i"
    using derive_required_length [OF assms(1)] by (auto simp: in_set_conv_nth)
  from derive_required_nth [OF assms(1) i(1)] i r
  have w: "i \<in> set (required_walk cls ?es)" and fn: "me_filename (?es ! i) = me_filename m"
    by auto
  have "cn_policy ?c = Some Tolerant"
    by (rule classify_optional_both [OF assms(4)])
  then have "\<not> is_seed cls (?es ! i)"
    using assms(3) fn by (simp add: is_seed_def class_holds_def)
  moreover have "\<not> lockable cls (?es ! i)"
    using assms(3,4) fn by (simp add: lockable_def)
  ultimately show False using walk_lockable [OF w] by (simp add: seeds_iff)
qed

lemma derive_required_stable:
  assumes "derive_required cls ms = Inr out"
  shows "derive_required cls out = Inr out"
proof -
  let ?es = "opt_out_server cls ms" and ?eo = "opt_out_server cls out"
  note len = derive_required_length [OF assms] and nth = derive_required_nth [OF assms]
  have eo: "?eo = out"
    using nth len by (intro nth_equalityI) (auto simp: opt_out_nth)
  have walk: "set (required_walk cls ?eo) = set (required_walk cls ?es)"
    unfolding eo using nth len by (intro walk_cong) auto
  have "\<not> refused cls (?eo ! i)" if "i \<in> set (required_walk cls ?eo)" for i
  proof -
    from that walk have w: "i \<in> set (required_walk cls ?es)" by simp
    with walk_lockable [OF w] nth [of i] derive_required_not_refused [OF assms w]
    show ?thesis unfolding eo by (simp add: refused_def)
  qed
  then obtain out' where o: "derive_required cls out = Inr out'"
    using derive_required_Inl [of cls out] by (cases "derive_required cls out") auto
  have "out' = out"
  proof (rule nth_equalityI)
    show "length out' = length out" by (rule derive_required_length [OF o])
    fix i assume "i < length out'"
    then have i: "i < length out" "i < length ms"
      using derive_required_length [OF o] len by auto
    show "out' ! i = out ! i"
      using derive_required_nth [OF o i(1)] nth [OF i(2)] walk eo by simp
  qed
  with o show ?thesis by simp
qed

text \<open>the derivation is a normal form. Deriving a derived manifest again changes nothing, so no
  flag or presence class of an earlier build lingers.\<close>

theorem derive_required_idem:
  assumes "derive_required cls ms = Inr out"
  shows "derive_required cls out = Inr out"
  using assms by (rule derive_required_stable)

text \<open>the presence class a launcher reads agrees with the lock: an entry of a derived manifest
  says \<open>required\<close> exactly when it is required, and every server-side entry ships opted out.\<close>

theorem presence_agrees:
  assumes "derive_required cls ms = Inr out" and "m \<in> set out"
  shows "(me_required m \<longleftrightarrow> Option.bind (me_display m) dp_presence = Some PRequired) \<and>
    (side_of cls m = Some Server \<longrightarrow> \<not> me_default_enabled m)"
proof -
  let ?es = "opt_out_server cls ms"
  from assms(2) obtain i where i: "i < length ms" "m = out ! i"
    using derive_required_length [OF assms(1)] by (auto simp: in_set_conv_nth)
  obtain r where m: "m = finish_entry cls r (?es ! i)" and r: "r \<longrightarrow> \<not> leaves cls (?es ! i)"
    using derive_required_nth [OF assms(1) i(1)] i by auto
  have "Option.bind (me_display m) dp_presence = presence_of (cls (me_filename m)) r"
    unfolding m by (cases "me_display (?es ! i)") (auto simp: finish_entry_def set_presence_def split: option.split)
  moreover have "r \<longleftrightarrow> presence_of (cls (me_filename m)) r = Some PRequired"
    using r unfolding m
    by (auto simp: presence_of_def leaves_def side_of_def class_holds_def split: option.split)
  moreover have "side_of cls m = Some Server \<Longrightarrow> \<not> me_default_enabled m"
    using opt_out_nth [OF i(1), of cls] unfolding m by (simp split: if_splits)
  ultimately show ?thesis unfolding m by simp
qed

section \<open>A worked pack\<close>

text \<open>A content mod with an optional and a hard dependency, a client-side mod a hard edge points at, a
  server-side mod, and a coremod.\<close>

definition example_entry :: "str \<Rightarrow> bool \<Rightarrow> requirement list \<Rightarrow> mod_entry" where
  "example_entry f e rs = \<lparr>me_filename = f, me_sha1 = f, me_size_bytes = 1, me_required = False,
     me_default_enabled = e, me_source = SSmrtCache f,
     me_display = (if rs = [] then None else Some (display_default\<lparr>dp_requires := rs\<rparr>)),
     me_slug = None\<rparr>"

definition example_class :: "side_class option \<Rightarrow> match_policy option \<Rightarrow> str \<Rightarrow> classification" where
  "example_class s p k = \<lparr>cn_side = s, cn_policy = p, cn_kind = Some k, cn_provenance = Bytecode,
     cn_bytecode_side = s, cn_bytecode_policy = p, cn_side_confidence = None,
     cn_optional_both = False\<rparr>"

definition example_pack :: "mod_entry list" where
  "example_pack =
     [example_entry ''content'' True [\<lparr>rq_filename = ''lib'', rq_version_range = None, rq_optional = False\<rparr>,
        \<lparr>rq_filename = ''map'', rq_version_range = None, rq_optional = False\<rparr>],
      example_entry ''lib'' False [], example_entry ''map'' True [],
      example_entry ''srv'' True [], example_entry ''core'' True [], example_entry ''jei'' False []]"

definition example_classes :: classes where
  "example_classes = map_of
     [(''content'', example_class (Some Both) (Some MustMatch) ''mod''),
      (''map'', example_class (Some Client) (Some Tolerant) ''mod''),
      (''srv'', example_class (Some Server) (Some Tolerant) ''mod''),
      (''core'', example_class None None ''coremod''),
      (''jei'', classify_artifact (empty_registry\<lparr>rg_mods := [\<lparr>md_id = 1, md_slug = None,
         md_canonical_name = None, md_client_env = Some ''optional'',
         md_server_env = Some ''optional''\<rparr>]\<rparr>) (Some 1) None)]"

definition example_derived :: "mod_entry list" where
  "example_derived = (case derive_required example_classes example_pack of Inr out \<Rightarrow> out | Inl _ \<Rightarrow> [])"

lemma example_derives: "derive_required example_classes example_pack = Inr example_derived"
  by code_simp

lemma example_required: "map me_required example_derived = [True, True, False, False, False, False]"
  by code_simp

lemma example_length: "length example_derived = 6" "length example_pack = 6"
  by code_simp+

theorem required_iff_reached_witness:
  "me_required (example_derived ! 1) \<and>
   reaches (dep_edges example_classes (opt_out_server example_classes example_pack))
     ({j. j < length example_pack \<and> is_seed example_classes (opt_out_server example_classes example_pack ! j)} \<union>
      {j. \<exists>k < length example_pack. me_default_enabled (opt_out_server example_classes example_pack ! k) \<and>
         j \<in> set (hard_deps example_classes (opt_out_server example_classes example_pack)
                 (opt_out_server example_classes example_pack ! k))}) 1"
proof -
  have "me_required (example_derived ! 1)" by code_simp
  with required_iff_reached [OF example_derives, of 1] show ?thesis
    by (simp add: example_length Let_def)
qed

theorem never_locks_client_witness:
  "side_of example_classes (example_derived ! 1) \<noteq> Some Server"
proof -
  have "example_derived ! 1 \<in> set example_derived" by (simp add: example_length)
  moreover have "me_required (example_derived ! 1)" by code_simp
  ultimately show ?thesis using never_locks_client [OF example_derives] by blast
qed

theorem optional_both_never_required_witness:
  "me_filename (example_derived ! 5) = ''jei'' \<and> \<not> me_required (example_derived ! 5)"
proof -
  have f: "me_filename (example_derived ! 5) = ''jei''" by code_simp
  have "\<not> me_required (example_derived ! 5)"
  proof (rule optional_both_never_required [OF example_derives])
    show "example_derived ! 5 \<in> set example_derived" by (simp add: example_length)
    show "example_classes (me_filename (example_derived ! 5)) = Some (classify_artifact
        (empty_registry\<lparr>rg_mods := [\<lparr>md_id = 1, md_slug = None, md_canonical_name = None,
         md_client_env = Some ''optional'', md_server_env = Some ''optional''\<rparr>]\<rparr>) (Some 1) None)"
      unfolding f by (simp add: example_classes_def)
  qed code_simp
  with f show ?thesis by simp
qed

theorem derive_required_idem_witness:
  "derive_required example_classes example_derived = Inr example_derived"
  by (rule derive_required_idem [OF example_derives])

theorem presence_agrees_witness:
  "Option.bind (me_display (example_derived ! 1)) dp_presence = Some PRequired \<and>
   \<not> me_default_enabled (example_derived ! 3)"
proof -
  have "example_derived ! 1 \<in> set example_derived" "example_derived ! 3 \<in> set example_derived"
    by (simp_all add: example_length)
  moreover have "me_required (example_derived ! 1)" "side_of example_classes (example_derived ! 3) = Some Server"
    by code_simp+
  ultimately show ?thesis using presence_agrees [OF example_derives] by blast
qed

text \<open>The walk passes through a server-side entry before the settling pass drops it: an enabled mod's
  hard edge to a server-side mod locks what only the server-side mod needs.\<close>

definition server_chain :: "mod_entry list" where
  "server_chain =
     [example_entry ''content'' True [\<lparr>rq_filename = ''srv'', rq_version_range = None, rq_optional = False\<rparr>],
      example_entry ''srv'' True [\<lparr>rq_filename = ''lib'', rq_version_range = None, rq_optional = False\<rparr>],
      example_entry ''lib'' False []]"

lemma server_dependency_locked:
  "map_sum id (map me_required) (derive_required example_classes server_chain) = Inr [True, False, True]"
  by code_simp

end
