(* ===== verification/Paths.thy ===== *)
theory Paths
  imports Smrt_Prelude "HOL-Library.Sublist"
begin

text \<open>
  The identifiers that reach the file system (\<open>src/src/storage.rs\<close>, helpers at its end) and the
  published URLs of the same artifacts (\<open>src/src/authoring/sources.rs\<close>). A path is the list of
  its segments below the storage root; \<open>join_path\<close> is \<open>Path::join\<close>, where an absolute argument
  replaces the base.
\<close>

section \<open>Validators\<close>

definition is_upper :: "char \<Rightarrow> bool" where
  "is_upper c \<longleftrightarrow> 65 \<le> (of_char c :: nat) \<and> (of_char c :: nat) \<le> 90"

definition is_lower :: "char \<Rightarrow> bool" where
  "is_lower c \<longleftrightarrow> 97 \<le> (of_char c :: nat) \<and> (of_char c :: nat) \<le> 122"

definition is_alnum :: "char \<Rightarrow> bool" where
  "is_alnum c \<longleftrightarrow> is_digit c \<or> is_upper c \<or> is_lower c"

definition is_hexdigit :: "char \<Rightarrow> bool" where
  "is_hexdigit c \<longleftrightarrow> is_digit c \<or>
     65 \<le> (of_char c :: nat) \<and> (of_char c :: nat) \<le> 70 \<or>
     97 \<le> (of_char c :: nat) \<and> (of_char c :: nat) \<le> 102"

definition is_hex :: "str \<Rightarrow> bool" where
  "is_hex s \<longleftrightarrow> s \<noteq> [] \<and> list_all is_hexdigit s"

definition sha1_shard :: "str \<Rightarrow> str" where
  "sha1_shard sha1 = (if 2 \<le> length sha1 then take 2 sha1 else sha1)"

definition is_flat_id :: "str \<Rightarrow> bool" where
  "is_flat_id s \<longleftrightarrow>
     s \<noteq> [] \<and> length s \<le> 64 \<and> \<not> starts_with s ''.'' \<and>
     list_all (\<lambda>c. is_alnum c \<or> c = CHR ''-'' \<or> c = CHR ''_'' \<or> c = CHR ''.'') s"

definition is_safe_id :: "str \<Rightarrow> bool" where
  "is_safe_id s =
     (case strip_prefix ''u/'' s of
        Some rest \<Rightarrow>
          (case split2 CHR ''/'' rest of
             (uid, Some pack) \<Rightarrow> uid \<noteq> [] \<and> list_all is_digit uid \<and> is_flat_id pack
           | (_, None) \<Rightarrow> False)
      | None \<Rightarrow> s \<noteq> ''u'' \<and> is_flat_id s)"

definition is_safe_version :: "str \<Rightarrow> bool" where
  "is_safe_version s = is_safe_id s"

definition is_commit_id :: "str \<Rightarrow> bool" where
  "is_commit_id s \<longleftrightarrow> length s = 40 \<and> list_all is_hexdigit s"

definition is_safe_job_id :: "str \<Rightarrow> bool" where
  "is_safe_job_id s \<longleftrightarrow>
     s \<noteq> [] \<and> length s \<le> 64 \<and>
     list_all (\<lambda>c. is_hexdigit c \<and> \<not> is_upper c \<or> c = CHR ''-'') s"

definition is_safe_rel_path :: "str \<Rightarrow> bool" where
  "is_safe_rel_path rel \<longleftrightarrow>
     \<not> (rel = [] \<or> length rel > 512) \<and>
     \<not> (starts_with rel ''/'' \<or> CHR 0x5C \<in> set rel) \<and>
     list_all (\<lambda>segment. segment \<noteq> [] \<and> \<not> starts_with segment ''.'' \<and>
        list_all (\<lambda>c. is_alnum c \<or> c \<in> set ''-_. ()+,[]'') segment)
       (split_on CHR ''/'' rel)"

text \<open>The guard of \<open>resolve_mod\<close> on a mod's filename.\<close>

definition safe_mod_filename :: "str \<Rightarrow> bool" where
  "safe_mod_filename f \<longleftrightarrow>
     \<not> (f = [] \<or> starts_with f ''.'' \<or> CHR ''/'' \<in> set f \<or> CHR 0x5C \<in> set f)"

section \<open>Paths and URLs\<close>

type_synonym path = "str list"

definition components :: "str \<Rightarrow> path" where
  "components s = filter (\<lambda>c. c \<noteq> [] \<and> c \<noteq> ''.'') (split_on CHR ''/'' s)"

definition join_path :: "path \<Rightarrow> str \<Rightarrow> path" where
  "join_path p s = (if starts_with s ''/'' then components s else p @ components s)"

definition cache_jar_path_in :: "str \<Rightarrow> path option" where
  "cache_jar_path_in sha1 =
     (if length sha1 \<noteq> 40 \<or> \<not> is_hex sha1 then None
      else Some (join_path (join_path (join_path [] ''cache'') (sha1_shard sha1)) (sha1 @ ''.jar'')))"

definition pack_dir :: "str \<Rightarrow> path" where
  "pack_dir pack_id = join_path (join_path [] ''packs'') pack_id"

text \<open>\<open>pack_static_path\<close>; the two refusals are both \<open>None\<close>.\<close>

definition pack_static_path :: "str \<Rightarrow> str \<Rightarrow> path option" where
  "pack_static_path pack_id rel_path =
     (if \<not> is_safe_id pack_id then None
      else if \<not> is_safe_rel_path rel_path then None
      else Some (join_path (join_path (pack_dir pack_id) ''static'') rel_path))"

text \<open>The sharing lookup of the HTTP layer: \<open>Storage::cache_jar_path\<close>.\<close>

definition cache_jar_path :: "str \<Rightarrow> str \<Rightarrow> path option" where
  "cache_jar_path pfx sha1 =
     (if \<not> is_hex pfx \<or> length pfx \<noteq> 2 then None
      else if \<not> starts_with sha1 pfx then None
      else cache_jar_path_in sha1)"

definition trim_end_slash :: "str \<Rightarrow> str" where
  "trim_end_slash s = rev (dropWhile (\<lambda>c. c = CHR ''/'') (rev s))"

definition cache_url :: "str \<Rightarrow> str \<Rightarrow> str" where
  "cache_url base sha1 =
     trim_end_slash base @ ''/v1/cache/'' @ sha1_shard sha1 @ ''/'' @ sha1 @ ''.jar''"

text \<open>\<open>enc\<close> stands for \<open>url_encode_segment\<close> (the \<open>percent-encoding\<close> crate).\<close>

definition static_url :: "(str \<Rightarrow> str) \<Rightarrow> str \<Rightarrow> str \<Rightarrow> str \<Rightarrow> str" where
  "static_url enc base pack_id rel_path =
     (let pack_enc = enc pack_id;
          rel_enc = join ''/'' (map enc (split_on CHR ''/'' rel_path))
      in trim_end_slash base @ ''/v1/packs/'' @ pack_enc @ ''/static/'' @ rel_enc)"

section \<open>Lemmas\<close>

lemma char_class_not_slash [simp]:
  "\<not> is_alnum CHR ''/''" "\<not> is_hexdigit CHR ''/''" "\<not> is_digit CHR ''/''"
  by (simp_all add: is_alnum_def is_hexdigit_def is_digit_def is_upper_def is_lower_def)

lemma components_segment:
  "CHR ''/'' \<notin> set s \<Longrightarrow> s \<noteq> [] \<Longrightarrow> s \<noteq> ''.'' \<Longrightarrow> components s = [s]"
  by (simp add: components_def)

lemma flat_id_segment:
  "is_flat_id s \<Longrightarrow> s \<noteq> [] \<and> CHR ''/'' \<notin> set s \<and> \<not> starts_with s ''.''"
  by (auto simp: is_flat_id_def list_all_iff)

lemma not_dot: "\<not> starts_with s ''.'' \<Longrightarrow> s \<noteq> ''.'' \<and> s \<noteq> ''..''"
  by (auto simp: starts_with_def)

lemma digits_segment: "list_all is_digit s \<Longrightarrow> CHR ''/'' \<notin> set s \<and> \<not> starts_with s ''.''"
  by (cases s) (auto simp: starts_with_def list_all_iff)

lemma hex_segment: "list_all is_hexdigit s \<Longrightarrow> CHR ''/'' \<notin> set s"
  by (auto simp: list_all_iff)

lemma split2_Cons:
  "split2 c (x # s) = (if x = c then ([], Some s) else (x # fst (split2 c s), snd (split2 c s)))"
  by (simp add: split2_def before_def)

lemma split2_Some: "split2 c s = (a, Some b) \<longleftrightarrow> s = a @ c # b \<and> c \<notin> set a"
proof (induction s arbitrary: a)
  case Nil
  then show ?case by (simp add: split2_def)
next
  case (Cons x s)
  then show ?case by (cases a) (auto simp: split2_Cons prod_eq_iff)
qed

text \<open>A safe id is one plain segment other than \<open>u\<close>, or three: \<open>u\<close>, a number and a plain one.\<close>

lemma safe_id_cases:
  "is_safe_id s \<longleftrightarrow>
     (is_flat_id s \<and> s \<noteq> ''u'') \<or>
     (\<exists>uid pack. s = ''u/'' @ uid @ CHR ''/'' # pack \<and> uid \<noteq> [] \<and> list_all is_digit uid \<and> is_flat_id pack)"
proof (cases "strip_prefix ''u/'' s")
  case None
  then have "s \<noteq> ''u/'' @ r" for r by (auto simp: strip_prefix_def starts_with_def split: if_splits)
  with None show ?thesis by (auto simp: is_safe_id_def)
next
  case (Some rest)
  then have s: "s = ''u/'' @ rest" by (simp add: strip_prefix_Some)
  then have nf: "\<not> is_flat_id s" by (auto dest: flat_id_segment)
  have "is_safe_id s \<longleftrightarrow>
      (\<exists>uid pack. split2 CHR ''/'' rest = (uid, Some pack) \<and> uid \<noteq> [] \<and> list_all is_digit uid \<and> is_flat_id pack)"
    using Some by (auto simp: is_safe_id_def split: prod.split option.split)
  also have "\<dots> \<longleftrightarrow> (\<exists>uid pack. rest = uid @ CHR ''/'' # pack \<and> uid \<noteq> [] \<and> list_all is_digit uid \<and> is_flat_id pack)"
    using digits_segment by (auto simp: split2_Some)
  finally show ?thesis using s nf by simp
qed

definition plain_segment :: "str \<Rightarrow> bool" where
  "plain_segment c \<longleftrightarrow> c \<noteq> [] \<and> c \<noteq> ''..'' \<and> CHR ''/'' \<notin> set c"

lemma flat_id_plain: "is_flat_id s \<Longrightarrow> plain_segment s \<and> s \<noteq> ''.''"
  using flat_id_segment [of s] not_dot [of s] by (simp add: plain_segment_def)

lemma safe_id_facts:
  assumes "is_safe_id s"
  shows safe_id_split: "components s = split_on CHR ''/'' s"
    and safe_id_plain: "list_all plain_segment (split_on CHR ''/'' s)"
    and safe_id_shape: "length (split_on CHR ''/'' s) = 1 \<and> hd (split_on CHR ''/'' s) \<noteq> ''u'' \<or>
      length (split_on CHR ''/'' s) = 3 \<and> hd (split_on CHR ''/'' s) = ''u''"
proof -
  have "components s = split_on CHR ''/'' s \<and> list_all plain_segment (split_on CHR ''/'' s) \<and>
      (length (split_on CHR ''/'' s) = 1 \<and> hd (split_on CHR ''/'' s) \<noteq> ''u'' \<or>
       length (split_on CHR ''/'' s) = 3 \<and> hd (split_on CHR ''/'' s) = ''u'')"
    using assms
  proof (unfold safe_id_cases, elim disjE exE conjE)
    assume "is_flat_id s" "s \<noteq> ''u''"
    then show ?thesis
      using flat_id_plain [of s] flat_id_segment [of s] by (simp add: components_def)
  next
    fix uid pack
    assume h: "s = ''u/'' @ uid @ CHR ''/'' # pack" "uid \<noteq> []" "list_all is_digit uid" "is_flat_id pack"
    then have sp: "split_on CHR ''/'' s = [''u'', uid, pack]"
      using flat_id_segment [of pack] digits_segment [of uid] by (simp add: split_on_append)
    have "plain_segment uid \<and> uid \<noteq> ''.''"
      using h digits_segment [of uid] not_dot [of uid] by (simp add: plain_segment_def)
    with sp flat_id_plain [OF h(4)] h(2) show ?thesis
      by (simp add: components_def plain_segment_def)
  qed
  then show "components s = split_on CHR ''/'' s" "list_all plain_segment (split_on CHR ''/'' s)"
    "length (split_on CHR ''/'' s) = 1 \<and> hd (split_on CHR ''/'' s) \<noteq> ''u'' \<or>
      length (split_on CHR ''/'' s) = 3 \<and> hd (split_on CHR ''/'' s) = ''u''"
    by blast+
qed

lemma safe_id_relative: "is_safe_id s \<Longrightarrow> \<not> starts_with s ''/''"
  by (cases s) (auto simp: safe_id_cases starts_with_def is_flat_id_def)

lemma pack_dir_safe: "is_safe_id s \<Longrightarrow> pack_dir s = ''packs'' # split_on CHR ''/'' s"
  using safe_id_relative [of s] safe_id_split [of s]
  by (simp add: pack_dir_def join_path_def components_def starts_with_def)

lemma rel_path_facts:
  assumes "is_safe_rel_path rel"
  shows rel_path_split: "components rel = split_on CHR ''/'' rel"
    and rel_path_plain: "list_all plain_segment (split_on CHR ''/'' rel)"
proof -
  have "plain_segment c \<and> c \<noteq> ''.''" if "c \<in> set (split_on CHR ''/'' rel)" for c
    using that assms not_dot [of c] split_any_parts [OF that]
    by (simp add: is_safe_rel_path_def list_all_iff plain_segment_def)
  then show "list_all plain_segment (split_on CHR ''/'' rel)" "components rel = split_on CHR ''/'' rel"
    by (auto simp: list_all_iff components_def plain_segment_def intro: filter_True)
qed

lemma static_path_safe:
  "pack_static_path pid rel = Some p \<longleftrightarrow>
     is_safe_id pid \<and> is_safe_rel_path rel \<and>
     p = pack_dir pid @ [''static''] @ split_on CHR ''/'' rel"
proof -
  have "components ''static'' = [''static'']" by (simp add: components_def)
  moreover have "is_safe_rel_path rel \<Longrightarrow> \<not> starts_with rel ''/''"
    by (simp add: is_safe_rel_path_def)
  ultimately show ?thesis
    using rel_path_split [of rel]
    by (simp add: pack_static_path_def join_path_def eq_commute [of p] starts_with_def)
qed

lemma split_on_inject: "split_on c a = split_on c b \<longleftrightarrow> a = b"
  by (metis join_split_on)

lemma cache_path_eq:
  "length sha1 = 40 \<Longrightarrow> is_hex sha1 \<Longrightarrow>
     cache_jar_path_in sha1 = Some [''cache'', sha1_shard sha1, sha1 @ ''.jar'']"
  using hex_segment [of sha1] 
  by (cases sha1; cases "tl sha1")
    (auto simp: cache_jar_path_in_def is_hex_def sha1_shard_def join_path_def components_def
      starts_with_def)

section \<open>Properties\<close>

lemma pack_dir_prefix:
  assumes "is_safe_id a" "is_safe_id b" "prefix (pack_dir a @ xs) (pack_dir b @ ys)"
  shows "a = b"
proof -
  let ?a = "split_on CHR ''/'' a" and ?b = "split_on CHR ''/'' b"
  have p: "prefix (?a @ xs) (?b @ ys)" using assms by (simp add: pack_dir_safe)
  have la: "length ?a = 1 \<and> hd ?a \<noteq> ''u'' \<or> length ?a = 3 \<and> hd ?a = ''u''"
    and lb: "length ?b = 1 \<and> hd ?b \<noteq> ''u'' \<or> length ?b = 3 \<and> hd ?b = ''u''"
    by (rule safe_id_shape [OF assms(1)], rule safe_id_shape [OF assms(2)])
  have "hd u = hd w" if "prefix (u @ xs) (w @ ys)" "u \<noteq> []" "w \<noteq> []" for u w :: path
    using that by (cases u; cases w) simp_all
  from this [OF p] have "hd ?a = hd ?b" by simp
  with la lb have len: "length ?a = length ?b" by auto
  have "u = w" if "prefix (u @ xs) (w @ ys)" "length u = length w" for u w :: path
    using that by (auto simp: prefix_def)
  from this [OF p len] have "?a = ?b" .
  then show ?thesis by (simp add: split_on_inject)
qed

text \<open>a pack's files stay its own. Two different pack ids never name nested directories, so an
  operation on one pack's directory cannot reach another pack; the community namespace \<open>u\<close>
  cannot be taken by an official pack.\<close>

theorem packs_disjoint:
  assumes "is_safe_id a" "is_safe_id b" "a \<noteq> b"
  shows "\<not> prefix (pack_dir a) (pack_dir b)"
  using pack_dir_prefix [OF assms(1,2), of "[]" "[]"] assms(3) by auto

theorem packs_disjoint_witness:
  "\<not> prefix (pack_dir ''industrial'') (pack_dir ''u/42/industrial'')"
  by (rule packs_disjoint) code_simp+



text \<open>the published URL of a cache jar names the file the mirror stores it in, and different
  hashes are stored apart.\<close>

theorem cache_url_is_layout:
  assumes "cache_jar_path_in sha1 = Some p"
  shows "cache_url base sha1 = trim_end_slash base @ ''/v1/'' @ join ''/'' p \<and>
    (cache_jar_path_in sha1' = Some p \<longrightarrow> sha1' = sha1) \<and>
    cache_jar_path (sha1_shard sha1) sha1 = Some p"
proof -
  have h: "length sha1 = 40" "is_hex sha1" using assms by (auto simp: cache_jar_path_in_def split: if_splits)
  then have p: "p = [''cache'', sha1_shard sha1, sha1 @ ''.jar'']" using assms by (simp add: cache_path_eq)
  have "sha1' = sha1" if "cache_jar_path_in sha1' = Some p"
  proof -
    from that have "length sha1' = 40" "is_hex sha1'"
      by (auto simp: cache_jar_path_in_def split: if_splits)
    from cache_path_eq [OF this] that p show ?thesis by simp
  qed
  moreover have "is_hex (sha1_shard sha1) \<and> length (sha1_shard sha1) = 2 \<and> starts_with sha1 (sha1_shard sha1)"
    using h by (auto simp: sha1_shard_def is_hex_def list_all_iff starts_with_def dest: in_set_takeD)
  ultimately show ?thesis
    using assms p by (simp add: cache_url_def cache_jar_path_def)
qed

theorem cache_url_is_layout_witness:
  "cache_url ''https://m/'' (replicate 40 CHR ''a'') =
     ''https://m/v1/cache/aa/'' @ replicate 40 CHR ''a'' @ ''.jar''"
proof -
  have "cache_jar_path_in (replicate 40 CHR ''a'') =
      Some [''cache'', ''aa'', replicate 40 CHR ''a'' @ ''.jar'']" by code_simp
  from cache_url_is_layout [OF this, of "''https://m/''"] show ?thesis
    by (simp add: trim_end_slash_def)
qed

end
