(* ===== verification/Sources.thy ===== *)
theory Sources
  imports Registry_Model Paths
begin

text \<open>
  Source resolution (\<open>src/src/authoring/sources.rs\<close>): a declared mod or asset becomes a wire entry.
  The Modrinth API is not under \<open>src/\<close>: it is the parameter \<open>fetch\<close>, a function of the project, the
  version and the state of the network, which returns an answer and the next state. The disk is
  two maps from paths (the size of a file, its bytes), \<open>sha1\<close> and the URL encoder are functions.
  Every refusal of the source is a constructor of \<open>resolve_error\<close>.
\<close>

record version_file =
  vf_sha1 :: str
  vf_url :: str
  vf_filename :: str
  vf_primary :: bool
  vf_size :: nat

record mr_dependency =
  dn_project_id :: "str option"
  dn_version_id :: "str option"
  dn_dependency_type :: str
  dn_file_name :: "str option"

record mr_version =
  vr_id :: str
  vr_project_id :: str
  vr_name :: str
  vr_version_number :: str
  vr_version_type :: str
  vr_game_versions :: "str list"
  vr_loaders :: "str list"
  vr_files :: "version_file list"
  vr_dependencies :: "mr_dependency list"

definition primary_file :: "mr_version \<Rightarrow> version_file option" where
  "primary_file v =
     (case find vf_primary (vr_files v) of
        Some f \<Rightarrow> Some f
      | None \<Rightarrow> (case vr_files v of [] \<Rightarrow> None | f # _ \<Rightarrow> Some f))"

type_synonym 'n fetch = "str \<Rightarrow> str \<Rightarrow> 'n \<Rightarrow> (str + mr_version) \<times> 'n"

type_synonym version_memo = "((str \<times> str) \<times> mr_version) list"

record 'n resolver =
  rs_memo :: version_memo
  rs_net :: 'n
  rs_fell_back :: "str list"

record disk =
  dk_size :: "path \<Rightarrow> nat option"
  dk_bytes :: "path \<Rightarrow> str option"

datatype resolve_error =
    UnsafeFilename
  | NoFile str str
  | Upstream str
  | NoCacheJar str
  | InvalidSha1 str
  | StaticMod
  | UnsafeDest
  | NoStatic str
  | CacheAsset

text \<open>\<open>ModrinthCache::get_or_fetch\<close>: an answer is kept for the build, a failure is not.\<close>

definition get_or_fetch :: "'n fetch \<Rightarrow> str \<Rightarrow> str \<Rightarrow> 'n resolver \<Rightarrow> (str + mr_version) \<times> 'n resolver" where
  "get_or_fetch fetch project_id version_id st =
     (let key = (project_id, version_id) in
      case map_of (rs_memo st) key of
        Some v \<Rightarrow> (Inr v, st)
      | None \<Rightarrow>
          (case fetch project_id version_id (rs_net st) of
             (Inl e, n) \<Rightarrow> (Inl e, st\<lparr>rs_net := n\<rparr>)
           | (Inr v, n) \<Rightarrow> (Inr v, st\<lparr>rs_net := n, rs_memo := (key, v) # rs_memo st\<rparr>)))"

definition as_u64 :: "int \<Rightarrow> nat" where
  "as_u64 i = nat (i mod 2 ^ 64)"

definition modrinth_file_by_version_id :: "registry \<Rightarrow> str \<Rightarrow> (str \<times> nat) option" where
  "modrinth_file_by_version_id rg vid =
     map_option (\<lambda>v. (mv_sha1 v, as_u64 (mv_size_bytes v)))
       (find (\<lambda>v. mv_modrinth_version_id v = Some vid) (rg_versions rg))"

definition resolve_mod_source ::
  "'n fetch \<Rightarrow> disk \<Rightarrow> registry \<Rightarrow> str \<Rightarrow> str \<Rightarrow> source_decl \<Rightarrow> 'n resolver \<Rightarrow>
   (resolve_error + (str \<times> nat \<times> source)) \<times> 'n resolver" where
  "resolve_mod_source fetch disk rg base filename src st =
     (case src of
        Modrinth p v \<Rightarrow>
          (case get_or_fetch fetch p v st of
             (Inr ver, st) \<Rightarrow>
               (case primary_file ver of
                  None \<Rightarrow> (Inl (NoFile p v), st)
                | Some f \<Rightarrow> (Inr (vf_sha1 f, vf_size f, SModrinth p v), st))
           | (Inl upstream, st) \<Rightarrow>
               (case modrinth_file_by_version_id rg v of
                  None \<Rightarrow> (Inl (Upstream upstream), st)
                | Some (sha1, sz) \<Rightarrow>
                    (Inr (sha1, sz, SModrinth p v),
                     st\<lparr>rs_fell_back := rs_fell_back st @ [filename]\<rparr>)))
      | SmrtCache sha1 \<Rightarrow>
          (case cache_jar_path_in sha1 of
             None \<Rightarrow> (Inl (InvalidSha1 sha1), st)
           | Some p \<Rightarrow>
               (case dk_size disk p of
                  None \<Rightarrow> (Inl (NoCacheJar sha1), st)
                | Some n \<Rightarrow> (Inr (sha1, n, SSmrtCache (cache_url base sha1)), st)))
      | SmrtStatic _ \<Rightarrow> (Inl StaticMod, st))"

definition resolve_mod ::
  "'n fetch \<Rightarrow> disk \<Rightarrow> registry \<Rightarrow> str \<Rightarrow> declared_mod \<Rightarrow> 'n resolver \<Rightarrow>
   (resolve_error + mod_entry) \<times> 'n resolver" where
  "resolve_mod fetch disk rg base decl st =
     (if \<not> safe_mod_filename (dm_filename decl) then (Inl UnsafeFilename, st)
      else case resolve_mod_source fetch disk rg base (dm_filename decl) (dm_source decl) st of
        (Inl e, st) \<Rightarrow> (Inl e, st)
      | (Inr (sha1, sz, src), st) \<Rightarrow>
          (Inr \<lparr>me_filename = dm_filename decl, me_sha1 = sha1, me_size_bytes = sz,
             me_required = False, me_default_enabled = dm_default_enabled decl, me_source = src,
             me_display = dm_display decl, me_slug = dm_slug decl\<rparr>, st))"

text \<open>The authoring layer's own static lookup checks the relative path but not the pack id.\<close>

definition static_asset_path :: "str \<Rightarrow> str \<Rightarrow> path option" where
  "static_asset_path pack_id rel_path =
     (if \<not> is_safe_rel_path rel_path then None
      else Some (join_path (join_path (join_path (join_path [] ''packs'') pack_id) ''static'') rel_path))"

definition resolve_asset ::
  "'n fetch \<Rightarrow> disk \<Rightarrow> (str \<Rightarrow> str) \<Rightarrow> (str \<Rightarrow> str) \<Rightarrow> str \<Rightarrow> str \<Rightarrow> declared_asset \<Rightarrow> 'n resolver \<Rightarrow>
   (resolve_error + asset_entry) \<times> 'n resolver" where
  "resolve_asset fetch disk sha1_hex enc base pack_id decl st =
     (if \<not> is_safe_rel_path (da_dest decl) then (Inl UnsafeDest, st)
      else
        let entry = (\<lambda>sha1 sz src. \<lparr>ae_dest = da_dest decl, ae_sha1 = sha1, ae_size_bytes = sz,
               ae_required = da_required decl, ae_source = src, ae_display = da_display decl\<rparr>)
        in case da_source decl of
          Modrinth p v \<Rightarrow>
            (case get_or_fetch fetch p v st of
               (Inl e, st) \<Rightarrow> (Inl (Upstream e), st)
             | (Inr ver, st) \<Rightarrow>
                 (case primary_file ver of
                    None \<Rightarrow> (Inl (NoFile p v), st)
                  | Some f \<Rightarrow> (Inr (entry (vf_sha1 f) (vf_size f) (SModrinth p v)), st)))
        | SmrtStatic rel \<Rightarrow>
            (case static_asset_path pack_id rel of
               None \<Rightarrow> (Inl (NoStatic rel), st)
             | Some path \<Rightarrow>
                 (case dk_bytes disk path of
                    None \<Rightarrow> (Inl (NoStatic rel), st)
                  | Some bytes \<Rightarrow>
                      (Inr (entry (sha1_hex bytes) (length bytes)
                        (SSmrtStatic (static_url enc base pack_id rel))), st)))
        | SmrtCache _ \<Rightarrow> (Inl CacheAsset, st))"

section \<open>Lemmas\<close>

lemma resolve_mod_entry:
  "resolve_mod fetch disk rg base decl st = (Inr m, st') \<Longrightarrow>
     me_filename m = dm_filename decl \<and> me_default_enabled m = dm_default_enabled decl \<and>
     \<not> me_required m \<and> me_display m = dm_display decl \<and> me_slug m = dm_slug decl \<and>
     safe_mod_filename (me_filename m)"
  by (auto simp: resolve_mod_def split: if_splits sum.splits prod.splits)

lemma resolve_asset_entry:
  "resolve_asset fetch disk sha1_hex enc base pid decl st = (Inr a, st') \<Longrightarrow>
     ae_dest a = da_dest decl \<and> ae_required a = da_required decl \<and> is_safe_rel_path (ae_dest a)"
  by (auto simp: resolve_asset_def Let_def split: if_splits sum.splits prod.splits option.splits
      source_decl.splits)

lemma memo_kept:
  "map_of (rs_memo st) k = Some v \<Longrightarrow>
     map_of (rs_memo (snd (get_or_fetch fetch p q st))) k = Some v"
  by (auto simp: get_or_fetch_def Let_def split: option.splits sum.splits prod.splits)

lemma answered_is_memoised:
  "get_or_fetch fetch p q st = (Inr v, st') \<Longrightarrow> map_of (rs_memo st') (p, q) = Some v"
  by (auto simp: get_or_fetch_def Let_def split: option.splits sum.splits prod.splits)

section \<open>Properties\<close>

definition upstream_down :: "'n fetch \<Rightarrow> bool" where
  "upstream_down fetch \<longleftrightarrow> (\<forall>p v n. \<exists>e n'. fetch p v n = (Inl e, n'))"

text \<open>an outage does not stop a pinned mod. When upstream cannot answer and nothing is
  remembered, a Modrinth mod with a safe filename resolves exactly when the registry has recorded
  its version, to the recorded file, and the build is told it fell back.\<close>

theorem outage_falls_back:
  assumes "upstream_down fetch"
    and "safe_mod_filename (dm_filename decl)" and "dm_source decl = Modrinth p v"
    and "map_of (rs_memo st) (p, v) = None"
  shows "(case modrinth_file_by_version_id rg v of
     None \<Rightarrow> \<exists>e. fst (resolve_mod fetch disk rg base decl st) = Inl (Upstream e) \<and>
               rs_fell_back (snd (resolve_mod fetch disk rg base decl st)) = rs_fell_back st
   | Some (sha1, sz) \<Rightarrow>
       \<exists>m. fst (resolve_mod fetch disk rg base decl st) = Inr m \<and> me_sha1 m = sha1 \<and>
           me_size_bytes m = sz \<and> me_source m = SModrinth p v \<and>
           rs_fell_back (snd (resolve_mod fetch disk rg base decl st)) = rs_fell_back st @ [dm_filename decl])"
proof -
  obtain e n' where "fetch p v (rs_net st) = (Inl e, n')" using assms(1) unfolding upstream_down_def by blast
  with assms(2-) show ?thesis
    by (auto simp: resolve_mod_def resolve_mod_source_def get_or_fetch_def split: option.split)
qed

text \<open>within one build a pin has one answer. Once upstream has answered for a version, every later
  question about it gets that answer and leaves the network alone, whatever was asked in between.\<close>

theorem pin_answered_once:
  assumes "get_or_fetch fetch p v st = (Inr r, st1)"
  shows "get_or_fetch fetch p v (snd (get_or_fetch fetch q w st1)) =
    (Inr r, snd (get_or_fetch fetch q w st1))"
  using memo_kept [OF answered_is_memoised [OF assms], of fetch q w]
  by (simp add: get_or_fetch_def [of _ p v])

definition fetch_down :: "unit fetch" where
  "fetch_down p v n = (Inl ''down'', n)"

definition fetch_up :: "nat fetch" where
  "fetch_up p v n = (Inr \<lparr>vr_id = v, vr_project_id = p, vr_name = show_nat n, vr_version_number = show_nat n,
     vr_version_type = ''release'', vr_game_versions = [], vr_loaders = [], vr_files = [],
     vr_dependencies = []\<rparr>, n + 1)"

definition known_version :: registry where
  "known_version = empty_registry\<lparr>rg_versions := [\<lparr>mv_id = 1, mv_mod_id = 1, mv_version = ''4.16.1'',
     mv_sha1 = ''aa'', mv_size_bytes = 4242, mv_filename = Some ''jei.jar'', mv_mc_versions = None,
     mv_source = ''modrinth'', mv_modrinth_version_id = Some ''V'', mv_class_digest = None\<rparr>]\<rparr>"

definition jei :: declared_mod where
  "jei = \<lparr>dm_filename = ''jei.jar'', dm_default_enabled = True, dm_source = Modrinth ''P'' ''V'',
     dm_display = None, dm_slug = None, dm_pulled = False\<rparr>"

theorem outage_falls_back_witness:
  "\<exists>m. fst (resolve_mod fetch_down \<lparr>dk_size = Map.empty, dk_bytes = Map.empty\<rparr> known_version ''b'' jei
        \<lparr>rs_memo = [], rs_net = (), rs_fell_back = []\<rparr>) = Inr m \<and> me_size_bytes m = 4242"
proof -
  have f: "safe_mod_filename (dm_filename jei)" by code_simp
  have k: "modrinth_file_by_version_id known_version ''V'' = Some (''aa'', 4242)"
    by (simp add: modrinth_file_by_version_id_def known_version_def empty_registry_def as_u64_def)
  from outage_falls_back [where fetch = fetch_down and decl = jei and p = "''P''" and v = "''V''" and
      st = "\<lparr>rs_memo = [], rs_net = (), rs_fell_back = []\<rparr>" and rg = known_version and
      disk = "\<lparr>dk_size = Map.empty, dk_bytes = Map.empty\<rparr>" and base = "''b''"] f k
  show ?thesis by (auto simp: fetch_down_def jei_def upstream_down_def)
qed

theorem pin_answered_once_witness:
  "get_or_fetch fetch_up ''P'' ''V'' (snd (get_or_fetch fetch_up ''Q'' ''W''
      (snd (get_or_fetch fetch_up ''P'' ''V'' \<lparr>rs_memo = [], rs_net = 0, rs_fell_back = []\<rparr>)))) =
   (fst (get_or_fetch fetch_up ''P'' ''V'' \<lparr>rs_memo = [], rs_net = 0, rs_fell_back = []\<rparr>),
    snd (get_or_fetch fetch_up ''Q'' ''W''
      (snd (get_or_fetch fetch_up ''P'' ''V'' \<lparr>rs_memo = [], rs_net = 0, rs_fell_back = []\<rparr>))))"
proof -
  let ?s = "get_or_fetch fetch_up ''P'' ''V'' \<lparr>rs_memo = [], rs_net = 0, rs_fell_back = []\<rparr>"
  obtain r where "?s = (Inr r, snd ?s)" by (simp add: get_or_fetch_def fetch_up_def)
  from pin_answered_once [OF this, of "''Q''" "''W''"] this show ?thesis
    by (metis fst_conv)
qed

end
