(* ===== verification/Build.thy ===== *)
theory Build
  imports Required Sources "HOL-Library.Multiset"
begin

text \<open>
  The build pass of \<open>src/src/authoring/build.rs\<close>: the version a build gets, the content
  fingerprint, and \<open>build_manifest\<close>, which resolves every source of a config, collects the
  failures, derives the required set (\<open>Required\<close>) and assembles the manifest. The clock, the
  listing of the manifests directory, SHA-1 and the parameters of \<open>Sources\<close> are arguments.
\<close>

section \<open>Versions\<close>

datatype version_error = EmptyVersion | EmptyBody | BadSegment str

text \<open>\<open>validate_pack_version\<close>; \<open>None\<close> is \<open>Ok(())\<close>.\<close>

definition validate_pack_version :: "str \<Rightarrow> version_error option" where
  "validate_pack_version v =
     (if v = [] then Some EmptyVersion
      else
        let body = (case strip_prefix ''SNAPSHOT-'' v of None \<Rightarrow> v | Some b \<Rightarrow> b) in
        if body = [] then Some EmptyBody
        else map_option BadSegment
          (find (\<lambda>seg. seg = [] \<or> \<not> list_all is_digit seg) (split_any ''-.'' body)))"

text \<open>The counter a published version carries for a base.\<close>

definition counter_of :: "str \<Rightarrow> str \<Rightarrow> nat option" where
  "counter_of base v =
     Option.bind (strip_prefix base v) (\<lambda>r. Option.bind (strip_prefix ''.'' r) parse_u64)"

text \<open>\<open>n + 1\<close> on \<open>u64\<close>, which wraps in a release build.\<close>

definition next_auto_version :: "str \<Rightarrow> str list \<Rightarrow> str" where
  "next_auto_version base existing =
     (let next = (case List.map_filter (counter_of base) existing of
          [] \<Rightarrow> 0
        | n # ns \<Rightarrow> (foldl max n ns + 1) mod 2 ^ 64)
      in base @ ''.'' @ show_nat next)"

definition existing_versions :: "str list \<Rightarrow> str list" where
  "existing_versions files =
     filter (\<lambda>stem. stem \<noteq> ''latest'') (List.map_filter (strip_suffix ''.json'') files)"

definition resolve_auto_version :: "pack_config \<Rightarrow> str list \<Rightarrow> version_error + str" where
  "resolve_auto_version cfg files =
     (let base = (case cf_version cfg of None \<Rightarrow> ''0.0'' | Some b \<Rightarrow> b);
          resolved = next_auto_version base (existing_versions files)
      in case validate_pack_version resolved of Some e \<Rightarrow> Inl e | None \<Rightarrow> Inr resolved)"

section \<open>The content fingerprint\<close>

abbreviation tabbed :: "str list \<Rightarrow> str" where
  "tabbed \<equiv> join [CHR 0x09]"

definition mod_fields :: "mod_entry \<Rightarrow> str list" where
  "mod_fields m = [''mod'', me_filename m, me_sha1 m, show_bool (me_required m),
     show_bool (me_default_enabled m)]"

definition asset_fields :: "asset_entry \<Rightarrow> str list" where
  "asset_fields a = [''asset'', ae_dest a, ae_sha1 a, show_bool (ae_required a)]"

definition fingerprint_fields ::
  "str \<Rightarrow> loader_spec \<Rightarrow> nat \<Rightarrow> mod_entry list \<Rightarrow> asset_entry list \<Rightarrow> str list list" where
  "fingerprint_fields minecraft loader java mods assets =
     [[''mc'', minecraft], [''loader'', ls_name loader, ls_version loader], [''java'', show_nat java]] @
     map mod_fields mods @ map asset_fields assets"

definition content_fingerprint ::
  "(str \<Rightarrow> str) \<Rightarrow> str \<Rightarrow> loader_spec \<Rightarrow> nat \<Rightarrow> mod_entry list \<Rightarrow> asset_entry list \<Rightarrow> str" where
  "content_fingerprint sha1_hex minecraft loader java mods assets =
     sha1_hex (join [CHR 0x0A]
       (sort (map tabbed (fingerprint_fields minecraft loader java mods assets))))"

section \<open>The pass\<close>

datatype build_error =
    BadVersion version_error
  | Unresolved "(str \<times> resolve_error) list" nat
  | ClientLocked str

record built =
  bu_manifest :: pack_manifest
  bu_resolved_from_registry :: "str list"

text \<open>The two loops of \<open>build_manifest\<close>: an entry or a named failure per declaration, in order.\<close>

fun resolve_all ::
  "('d \<Rightarrow> 'n resolver \<Rightarrow> (resolve_error + 'e) \<times> 'n resolver) \<Rightarrow> ('d \<Rightarrow> str) \<Rightarrow> 'd list \<Rightarrow>
   'n resolver \<Rightarrow> ('e list \<times> (str \<times> resolve_error) list) \<times> 'n resolver" where
  "resolve_all f name [] st = (([], []), st)"
| "resolve_all f name (d # ds) st =
     (case f d st of
        (r, st) \<Rightarrow>
          (case resolve_all f name ds st of
             ((es, fs), st) \<Rightarrow>
               (case r of
                  Inr e \<Rightarrow> ((e # es, fs), st)
                | Inl x \<Rightarrow> ((es, (name d, x) # fs), st))))"

record 'n build_env =
  be_fetch :: "'n fetch"
  be_disk :: disk
  be_sha1 :: "str \<Rightarrow> str"
  be_enc :: "str \<Rightarrow> str"
  be_registry :: registry
  be_mirror_base :: str
  be_now :: str
  be_manifests :: "str list"

definition build_manifest ::
  "'n build_env \<Rightarrow> 'n \<Rightarrow> pack_config \<Rightarrow> str option \<Rightarrow> version_channel \<Rightarrow> str option \<Rightarrow>
   (str \<times> str) list option \<Rightarrow> classes \<Rightarrow> build_error + built" where
  "build_manifest env net cfg pack_version channel changelog changelog_i18n cls =
     (case (case pack_version of
              Some v \<Rightarrow> (case validate_pack_version v of Some e \<Rightarrow> Inl e | None \<Rightarrow> Inr v)
            | None \<Rightarrow> resolve_auto_version cfg (be_manifests env)) of
        Inl e \<Rightarrow> Inl (BadVersion e)
      | Inr version \<Rightarrow>
          (case resolve_all (resolve_mod (be_fetch env) (be_disk env) (be_registry env) (be_mirror_base env))
                  dm_filename (cf_mods cfg) \<lparr>rs_memo = [], rs_net = net, rs_fell_back = []\<rparr> of
             ((mods, failed_mods), st) \<Rightarrow>
          (case resolve_all (resolve_asset (be_fetch env) (be_disk env) (be_sha1 env) (be_enc env)
                  (be_mirror_base env) (cf_pack_id cfg)) da_dest (cf_assets cfg) st of
             ((assets, failed_assets), st) \<Rightarrow>
          if failed_mods @ failed_assets \<noteq> [] then
            Inl (Unresolved (failed_mods @ failed_assets) (length (cf_mods cfg) + length (cf_assets cfg)))
          else case derive_required cls (sort_key me_filename mods) of
            Inl f \<Rightarrow> Inl (ClientLocked f)
          | Inr mods \<Rightarrow>
              (let assets = sort_key ae_dest assets;
                   fingerprint = content_fingerprint (be_sha1 env) (cf_minecraft_version cfg)
                     (cf_loader cfg) (cf_java_major cfg) mods assets
               in Inr \<lparr>bu_manifest = \<lparr>pm_schema_version = schema_version,
                    pm_pack_id = cf_pack_id cfg, pm_pack_version = version,
                    pm_channel = Some channel, pm_changelog = changelog,
                    pm_changelog_i18n = changelog_i18n, pm_generated_at = be_now env,
                    pm_fingerprint = Some fingerprint, pm_checks = None, pm_built_from = None,
                    pm_minecraft = cf_minecraft_version cfg, pm_loader = cf_loader cfg,
                    pm_java_major = cf_java_major cfg, pm_auth = cf_auth cfg,
                    pm_mods = mods, pm_assets = assets\<rparr>,
                  bu_resolved_from_registry = rs_fell_back st\<rparr>))))"

section \<open>Lemmas on versions\<close>

lemma counter_of_show: "n < 2 ^ 64 \<Longrightarrow> counter_of base (base @ ''.'' @ show_nat n) = Some n"
proof -
  have "strip_prefix ''.'' (CHR ''.'' # show_nat n) = Some (show_nat n)"
    using strip_prefix_append [of "''.''" "show_nat n"] by simp
  then show "n < 2 ^ 64 \<Longrightarrow> ?thesis" by (simp add: counter_of_def)
qed

lemma in_map_filter: "y \<in> set (List.map_filter f xs) \<longleftrightarrow> (\<exists>x \<in> set xs. f x = Some y)"
  by (induction xs) (auto simp: List.map_filter_simps split: option.splits)

lemma foldl_max: "x \<le> foldl max x xs \<and> (\<forall>y \<in> set xs. y \<le> foldl max x xs) \<and> foldl max x xs \<in> insert x (set xs)"
  for x :: nat
proof (induction xs arbitrary: x)
  case (Cons y ys)
  from Cons [of "max x y"] show ?case by (auto simp: max_def split: if_splits)
qed simp

lemma next_auto_version_counter:
  assumes "\<forall>v \<in> set existing. counter_of base v \<noteq> Some (2 ^ 64 - 1)"
  shows "\<exists>n. next_auto_version base existing = base @ ''.'' @ show_nat n \<and> n < 2 ^ 64 \<and>
    (\<forall>v \<in> set existing. \<forall>k. counter_of base v = Some k \<longrightarrow> k < n)"
proof (cases "List.map_filter (counter_of base) existing")
  case Nil
  then have "counter_of base v \<noteq> Some k" if "v \<in> set existing" for v k
    using that in_map_filter [of k "counter_of base" existing] by auto
  with Nil show ?thesis
    by (intro exI [of _ 0]) (auto simp: next_auto_version_def)
next
  case (Cons n ns)
  let ?m = "foldl max n ns"
  have "?m \<in> set (List.map_filter (counter_of base) existing)"
    using foldl_max [of n ns] Cons by auto
  then obtain v where "v \<in> set existing" "counter_of base v = Some ?m"
    by (auto simp: in_map_filter)
  with assms have m: "?m < 2 ^ 64 - 1"
    using parse_u64_bound by (fastforce simp: counter_of_def bind_eq_Some_conv)
  have "k \<le> ?m" if "v \<in> set existing" "counter_of base v = Some k" for v k
    using that foldl_max [of n ns] Cons in_map_filter [of k "counter_of base" existing] by auto
  with m Cons show ?thesis
    by (intro exI [of _ "?m + 1"]) (fastforce simp: next_auto_version_def)
qed

lemma split_any_append:
  "c \<in> set cs \<Longrightarrow> split_any cs (a @ c # b) = split_any cs a @ split_any cs b"
  by (induction a) (auto split: list.splits)

lemma split_any_no_sep: "set s \<inter> set cs = {} \<Longrightarrow> split_any cs s = [s]"
  by (induction s) auto

lemma split_show_nat: "split_any ''-.'' (show_nat n) = [show_nat n]"
  using show_nat_no_sep [of "CHR ''-''" n] show_nat_no_sep [of "CHR ''.''" n]
  by (intro split_any_no_sep) auto

definition version_body :: "str \<Rightarrow> str" where
  "version_body v = (case strip_prefix ''SNAPSHOT-'' v of None \<Rightarrow> v | Some b \<Rightarrow> b)"

definition good_segment :: "str \<Rightarrow> bool" where
  "good_segment seg \<longleftrightarrow> seg \<noteq> [] \<and> list_all is_digit seg"

lemma validate_None:
  "validate_pack_version v = None \<longleftrightarrow>
     v \<noteq> [] \<and> list_all good_segment (split_any ''-.'' (version_body v))"
  by (auto simp: validate_pack_version_def version_body_def Let_def find_None_iff list_all_iff
      good_segment_def)

lemma starts_with_snapshot:
  "starts_with (base @ CHR ''.'' # s) ''SNAPSHOT-'' \<longleftrightarrow> starts_with base ''SNAPSHOT-''"
proof
  assume "starts_with (base @ CHR ''.'' # s) ''SNAPSHOT-''"
  then obtain r where r: "base @ CHR ''.'' # s = ''SNAPSHOT-'' @ r" by (auto simp: starts_with_iff)
  then obtain us where "base = ''SNAPSHOT-'' @ us \<or> base @ us = ''SNAPSHOT-'' \<and> CHR ''.'' # s = us @ r"
    unfolding append_eq_append_conv2 by auto
  then show "starts_with base ''SNAPSHOT-''"
  proof
    assume h: "base @ us = ''SNAPSHOT-'' \<and> CHR ''.'' # s = us @ r"
    show ?thesis
    proof (cases us)
      case Nil
      with h show ?thesis by (auto simp: starts_with_def)
    next
      case (Cons u us')
      with h have "u = CHR ''.''" by simp
      with Cons have "CHR ''.'' \<in> set (base @ us)" by simp
      moreover have "CHR ''.'' \<notin> set ''SNAPSHOT-''" by simp
      ultimately show ?thesis using h by metis
    qed
  qed (simp add: starts_with_def)
qed (auto simp: starts_with_iff)

lemma version_body_append:
  "version_body (base @ CHR ''.'' # s) = version_body base @ CHR ''.'' # s"
  using starts_with_snapshot [of base s]
  by (auto simp: version_body_def strip_prefix_def starts_with_iff)

lemma split_good: "list_all good_segment (split_any ''-.'' b) \<Longrightarrow> b \<noteq> []"
  by (auto simp: good_segment_def)

lemma validate_append:
  "validate_pack_version (base @ ''.'' @ show_nat n) = None \<longleftrightarrow> validate_pack_version base = None"
proof -
  have "split_any ''-.'' (version_body base @ CHR ''.'' # show_nat n) =
      split_any ''-.'' (version_body base) @ [show_nat n]"
    by (simp add: split_any_append split_show_nat)
  moreover have "good_segment (show_nat n)" by (simp add: good_segment_def)
  moreover have "list_all good_segment (split_any ''-.'' (version_body base)) \<Longrightarrow> base \<noteq> []"
    by (auto simp: version_body_def strip_prefix_def starts_with_def good_segment_def)
  ultimately show ?thesis
    by (auto simp: validate_None version_body_append)
qed

lemma parse_u64_no_dot: "parse_u64 s = Some k \<Longrightarrow> CHR ''.'' \<notin> set s"
proof -
  assume "parse_u64 s = Some k"
  then obtain d where "list_all is_digit d" "s = d \<or> s = CHR ''+'' # d"
    by (cases s) (auto simp: parse_u64_def Let_def split: if_splits)
  then show ?thesis using is_digit_not(2) by (auto simp: list_all_iff simp del: is_digit_not)
qed

lemma split_on_last: "CHR ''.'' \<notin> set s \<Longrightarrow> split_on CHR ''.'' (b @ CHR ''.'' # s) = split_on CHR ''.'' b @ [s]"
  by (simp add: split_any_append)

lemma pack_version_tuple_counter:
  assumes "counter_of base v = Some k"
  shows "pack_version_tuple v = pack_version_tuple base @ [k]"
proof -
  from assms obtain s where v: "v = base @ CHR ''.'' # s" and k: "parse_u64 s = Some k"
    by (auto simp: counter_of_def bind_eq_Some_conv strip_prefix_Some)
  have "CHR ''.'' \<notin> set s" by (rule parse_u64_no_dot [OF k])
  then show ?thesis unfolding v pack_version_tuple_def by (simp add: split_on_last k)
qed

lemma pad_cmp_snoc: "k < n \<Longrightarrow> pad_cmp (t @ [k]) (t @ [n]) = OLess"
  by (induction t) (auto simp: cmp_nat_def)

section \<open>Lemmas on the fingerprint\<close>

lemma split_on_join:
  "xs \<noteq> [] \<Longrightarrow> \<forall>x \<in> set xs. c \<notin> set x \<Longrightarrow> split_on c (join [c] xs) = xs"
  by (induction xs rule: induct_list012) (auto simp: split_on_append)

definition plain_text :: "str \<Rightarrow> bool" where
  "plain_text s \<longleftrightarrow> CHR 0x09 \<notin> set s \<and> CHR 0x0A \<notin> set s"

lemma set_join: "set (join sep xs) \<subseteq> set sep \<union> (\<Union>x \<in> set xs. set x)"
  by (induction sep xs rule: join.induct) auto

lemma show_nat_plain: "plain_text (show_nat n)"
  using show_nat_no_sep [of "CHR 0x09" n] show_nat_no_sep [of "CHR 0x0A" n]
  by (simp add: plain_text_def is_digit_def)

lemma show_bool_plain: "plain_text (show_bool b)"
  by (simp add: show_bool_def plain_text_def)

lemma fingerprint_plain:
  assumes "plain_text minecraft" "plain_text (ls_name loader)" "plain_text (ls_version loader)"
    "\<forall>m \<in> set mods. plain_text (me_filename m) \<and> plain_text (me_sha1 m)"
    "\<forall>a \<in> set assets. plain_text (ae_dest a) \<and> plain_text (ae_sha1 a)"
  shows "\<forall>fs \<in> set (fingerprint_fields minecraft loader java mods assets).
    fs \<noteq> [] \<and> (\<forall>f \<in> set fs. plain_text f)"
proof -
  have tags: "plain_text ''mc''" "plain_text ''loader''" "plain_text ''java''" "plain_text ''mod''"
    "plain_text ''asset''" by (simp_all add: plain_text_def)
  show ?thesis
    using assms show_nat_plain [of java] show_bool_plain tags
    by (auto simp: fingerprint_fields_def mod_fields_def asset_fields_def)
qed

lemma lines_recovered:
  assumes "join [CHR 0x0A] (sort (map tabbed xss)) = join [CHR 0x0A] (sort (map tabbed yss))"
    and x: "xss \<noteq> []" "\<forall>fs \<in> set xss. fs \<noteq> [] \<and> (\<forall>f \<in> set fs. plain_text f)"
    and y: "yss \<noteq> []" "\<forall>fs \<in> set yss. fs \<noteq> [] \<and> (\<forall>f \<in> set fs. plain_text f)"
  shows "mset xss = mset yss"
proof -
  have nl: "CHR 0x0A \<notin> set (tabbed fs)" if "\<forall>f \<in> set fs. plain_text f" for fs
    using set_join [of "[CHR 0x09]" fs] that by (auto simp: plain_text_def)
  have lines: "split_on CHR 0x0A (join [CHR 0x0A] (sort (map tabbed zss))) = sort (map tabbed zss)"
    if "zss \<noteq> []" "\<forall>fs \<in> set zss. fs \<noteq> [] \<and> (\<forall>f \<in> set fs. plain_text f)" for zss
  proof (rule split_on_join)
    have "set (sort (map tabbed zss)) \<noteq> {}" using that(1) by simp
    then show "sort (map tabbed zss) \<noteq> []" by (metis set_empty)
    show "\<forall>l \<in> set (sort (map tabbed zss)). CHR 0x0A \<notin> set l" using that(2) nl by auto
  qed
  from lines [OF x] lines [OF y] assms(1) have "sort (map tabbed xss) = sort (map tabbed yss)" by metis
  then have m: "mset (map tabbed xss) = mset (map tabbed yss)" by (metis mset_sort)
  have untab: "map (split_on CHR 0x09) (map tabbed zss) = zss"
    if "\<forall>fs \<in> set zss. fs \<noteq> [] \<and> (\<forall>f \<in> set fs. plain_text f)" for zss
    using that by (auto simp: plain_text_def intro!: map_idI split_on_join)
  from m have "image_mset (split_on CHR 0x09) (mset (map tabbed xss)) =
      image_mset (split_on CHR 0x09) (mset (map tabbed yss))" by simp
  then show ?thesis
    unfolding mset_map [symmetric] by (simp only: untab [OF x(2)] untab [OF y(2)])
qed

lemma tagged:
  "filter_mset (\<lambda>r. hd r = ''mc'') (mset (fingerprint_fields mc ld jv ms as)) = {#[''mc'', mc]#}"
  "filter_mset (\<lambda>r. hd r = ''loader'') (mset (fingerprint_fields mc ld jv ms as)) =
     {#[''loader'', ls_name ld, ls_version ld]#}"
  "filter_mset (\<lambda>r. hd r = ''java'') (mset (fingerprint_fields mc ld jv ms as)) = {#[''java'', show_nat jv]#}"
  "filter_mset (\<lambda>r. hd r = ''mod'') (mset (fingerprint_fields mc ld jv ms as)) = mset (map mod_fields ms)"
  "filter_mset (\<lambda>r. hd r = ''asset'') (mset (fingerprint_fields mc ld jv ms as)) = mset (map asset_fields as)"
  by (simp_all add: mset_filter [symmetric] fingerprint_fields_def filter_map comp_def mod_fields_def
      asset_fields_def del: mset_filter mset_map)

lemma fingerprint_fields_mset:
  "mset (fingerprint_fields mc ld jv ms as) = mset (fingerprint_fields mc' ld' jv' ms' as') \<longleftrightarrow>
     mc = mc' \<and> ld = ld' \<and> jv = jv' \<and> mset (map mod_fields ms) = mset (map mod_fields ms') \<and>
     mset (map asset_fields as) = mset (map asset_fields as')" (is "?l \<longleftrightarrow> ?r")
proof
  assume ?l
  then have f: "filter_mset P (mset (fingerprint_fields mc ld jv ms as)) =
      filter_mset P (mset (fingerprint_fields mc' ld' jv' ms' as'))" for P by simp
  from f [of "\<lambda>r. hd r = ''mc''"] f [of "\<lambda>r. hd r = ''loader''"] f [of "\<lambda>r. hd r = ''java''"]
    f [of "\<lambda>r. hd r = ''mod''"] f [of "\<lambda>r. hd r = ''asset''"]
  show ?r by (simp only: tagged) simp
next
  assume ?r
  then show ?l by (auto simp: fingerprint_fields_def simp flip: mset_map)
qed

section \<open>Lemmas on the pass\<close>

lemma resolve_all_length:
  "resolve_all f name ds st = ((es, fs), st') \<Longrightarrow> length es + length fs = length ds"
  by (induction ds arbitrary: st es fs) (auto split: prod.splits sum.splits)

lemma resolve_all_entries:
  "resolve_all f name ds st = ((es, []), st') \<Longrightarrow> list_all2 (\<lambda>d e. \<exists>s s'. f d s = (Inr e, s')) ds es"
  by (induction ds arbitrary: st es) (auto split: prod.splits sum.splits)

lemma resolve_all_failures:
  "resolve_all f name ds st = ((es, fs), st') \<Longrightarrow> x \<in> set fs \<Longrightarrow>
     \<exists>d \<in> set ds. name d = fst x \<and> (\<exists>s s'. f d s = (Inl (snd x), s'))"
  by (induction ds arbitrary: st es fs) (auto split: prod.splits sum.splits, blast+)

lemma resolve_all_reports:
  "resolve_all f name ds st = ((es, fs), st') \<Longrightarrow> d \<in> set ds \<Longrightarrow> (\<And>s. fst (f d s) = Inl x) \<Longrightarrow>
     (name d, x) \<in> set fs"
proof (induction ds arbitrary: st es fs st')
  case (Cons c ds)
  obtain r s1 where r: "f c st = (r, s1)" by (cases "f c st")
  obtain es1 fs1 s2 where rest: "resolve_all f name ds s1 = ((es1, fs1), s2)"
    by (metis prod.exhaust)
  have "(name d, x) \<in> set fs1" if "d \<in> set ds" using Cons.IH [OF rest that Cons.prems(3)] .
  moreover have "r = Inl x" if "d = c" using Cons.prems(3) [of st] that r by simp
  ultimately show ?case
    using Cons.prems(1,2) r rest by (auto split: sum.splits)
qed simp

definition resolve_sources ::
  "'n build_env \<Rightarrow> 'n \<Rightarrow> pack_config \<Rightarrow> (mod_entry list \<times> asset_entry list) \<times> (str \<times> resolve_error) list \<times> 'n resolver" where
  "resolve_sources env net cfg =
     (case resolve_all (resolve_mod (be_fetch env) (be_disk env) (be_registry env) (be_mirror_base env))
             dm_filename (cf_mods cfg) \<lparr>rs_memo = [], rs_net = net, rs_fell_back = []\<rparr> of
        ((mods, f1), st) \<Rightarrow>
      (case resolve_all (resolve_asset (be_fetch env) (be_disk env) (be_sha1 env) (be_enc env)
             (be_mirror_base env) (cf_pack_id cfg)) da_dest (cf_assets cfg) st of
        ((assets, f2), st) \<Rightarrow> ((mods, assets), f1 @ f2, st)))"

definition chosen_version :: "'n build_env \<Rightarrow> pack_config \<Rightarrow> str option \<Rightarrow> version_error + str" where
  "chosen_version env cfg pack_version =
     (case pack_version of
        Some v \<Rightarrow> (case validate_pack_version v of Some e \<Rightarrow> Inl e | None \<Rightarrow> Inr v)
      | None \<Rightarrow> resolve_auto_version cfg (be_manifests env))"

lemma chosen_version_valid: "chosen_version env cfg pv = Inr v \<Longrightarrow> validate_pack_version v = None"
  by (auto simp: chosen_version_def resolve_auto_version_def Let_def split: option.splits)

text \<open>The pass seen as its three stages.\<close>

lemma build_manifest_Inr:
  assumes "build_manifest env net cfg pv ch cl ci cls = Inr b"
  obtains mods assets st out where
    "resolve_sources env net cfg = ((mods, assets), [], st)"
    "derive_required cls (sort_key me_filename mods) = Inr out"
    "pm_mods (bu_manifest b) = out" "pm_assets (bu_manifest b) = sort_key ae_dest assets"
    "bu_resolved_from_registry b = rs_fell_back st"
    "chosen_version env cfg pv = Inr (pm_pack_version (bu_manifest b))"
    "pm_fingerprint (bu_manifest b) = Some (content_fingerprint (be_sha1 env) (cf_minecraft_version cfg)
        (cf_loader cfg) (cf_java_major cfg) (pm_mods (bu_manifest b)) (pm_assets (bu_manifest b)))"
    "pm_minecraft (bu_manifest b) = cf_minecraft_version cfg" "pm_loader (bu_manifest b) = cf_loader cfg"
    "pm_java_major (bu_manifest b) = cf_java_major cfg"
  using assms
  by (auto simp: build_manifest_def resolve_sources_def chosen_version_def Let_def
      split: sum.splits prod.splits if_splits)

lemma build_manifest_Unresolved:
  "build_manifest env net cfg pv ch cl ci cls = Inl (Unresolved fs n) \<Longrightarrow>
     \<exists>ms st. resolve_sources env net cfg = (ms, fs, st) \<and> fs \<noteq> [] \<and>
       n = length (cf_mods cfg) + length (cf_assets cfg)"
  by (auto simp: build_manifest_def resolve_sources_def chosen_version_def Let_def
      split: sum.splits prod.splits if_splits)

lemma build_manifest_stages:
  assumes "chosen_version env cfg pv = Inr v" "resolve_sources env net cfg = ((mods, assets), [], st)"
    "derive_required cls (sort_key me_filename mods) = Inr out"
  shows "\<exists>b. build_manifest env net cfg pv ch cl ci cls = Inr b \<and> bu_resolved_from_registry b = rs_fell_back st"
  using assms
  by (auto simp: build_manifest_def resolve_sources_def chosen_version_def Let_def
      split: sum.splits prod.splits if_splits option.splits)

lemma derive_required_filenames:
  "derive_required cls ms = Inr out \<Longrightarrow> map me_filename out = map me_filename ms"
  using derive_required_length derive_required_nth
  by (fastforce intro: nth_equalityI simp: opt_out_nth)

section \<open>Properties\<close>

text \<open>an automatic version is never reissued and always outranks. As long as no published
  counter is the largest 64-bit number, the next version of a base is not among the published ones,
  and every published version of that base compares less than it.\<close>

theorem next_auto_version_fresh:
  assumes "\<forall>v \<in> set existing. counter_of base v \<noteq> Some (2 ^ 64 - 1)"
  shows "next_auto_version base existing \<notin> set existing \<and>
    (\<forall>v \<in> set existing. counter_of base v \<noteq> None \<longrightarrow>
       compare_pack_versions v (next_auto_version base existing) = OLess)"
proof -
  obtain n where n: "next_auto_version base existing = base @ ''.'' @ show_nat n" "n < 2 ^ 64"
    and max: "\<forall>v \<in> set existing. \<forall>k. counter_of base v = Some k \<longrightarrow> k < n"
    using next_auto_version_counter [OF assms] by blast
  have c: "counter_of base (next_auto_version base existing) = Some n"
    unfolding n(1) by (rule counter_of_show [OF n(2)])
  have "compare_pack_versions v (next_auto_version base existing) = OLess"
    if "v \<in> set existing" "counter_of base v = Some k" for v k
    using max that pad_cmp_snoc [of k n "pack_version_tuple base"]
    by (simp add: compare_pack_versions_pad pack_version_tuple_counter [OF that(2)]
        pack_version_tuple_counter [OF c])
  with c max show ?thesis by blast
qed

theorem next_auto_version_fresh_witness:
  "next_auto_version ''0.4'' [''0.4.9'', ''0.4.10'', ''0.5.3''] = ''0.4.11'' \<and>
   compare_pack_versions ''0.4.9'' ''0.4.11'' = OLess"
proof -
  have n: "next_auto_version ''0.4'' [''0.4.9'', ''0.4.10'', ''0.5.3''] = ''0.4.11''" by code_simp
  have "\<forall>v \<in> set [''0.4.9'', ''0.4.10'', ''0.5.3'']. counter_of ''0.4'' v \<noteq> Some (2 ^ 64 - 1)"
    by code_simp
  from next_auto_version_fresh [OF this] have
    "counter_of ''0.4'' ''0.4.9'' \<noteq> None \<longrightarrow> compare_pack_versions ''0.4.9'' ''0.4.11'' = OLess"
    unfolding n by simp
  moreover have "counter_of ''0.4'' ''0.4.9'' \<noteq> None" by code_simp
  ultimately show ?thesis using n by blast
qed

text \<open>the automatic version is accepted exactly when the config's base is: numbering neither
  repairs nor spoils a base.\<close>

theorem auto_version_valid_iff:
  "validate_pack_version (next_auto_version base existing) = None \<longleftrightarrow> validate_pack_version base = None"
  unfolding next_auto_version_def Let_def by (rule validate_append)

text \<open>the fingerprint of a build depends on the set of its entries and not on their order, and
  with a collision-free hash and fields free of tabs and line breaks it determines that content: the
  baseline and, up to order, each entry's name, hash and install flags.\<close>

theorem fingerprint_faithful:
  assumes "inj sha1_hex"
    and "plain_text mc" "plain_text (ls_name ld)" "plain_text (ls_version ld)"
      "\<forall>m \<in> set ms. plain_text (me_filename m) \<and> plain_text (me_sha1 m)"
      "\<forall>a \<in> set as. plain_text (ae_dest a) \<and> plain_text (ae_sha1 a)"
    and "plain_text mc'" "plain_text (ls_name ld')" "plain_text (ls_version ld')"
      "\<forall>m \<in> set ms'. plain_text (me_filename m) \<and> plain_text (me_sha1 m)"
      "\<forall>a \<in> set as'. plain_text (ae_dest a) \<and> plain_text (ae_sha1 a)"
  shows "content_fingerprint sha1_hex mc ld jv ms as = content_fingerprint sha1_hex mc' ld' jv' ms' as' \<longleftrightarrow>
    mc = mc' \<and> ld = ld' \<and> jv = jv' \<and> mset (map mod_fields ms) = mset (map mod_fields ms') \<and>
    mset (map asset_fields as) = mset (map asset_fields as')"
  unfolding fingerprint_fields_mset [symmetric]
proof
  assume "content_fingerprint sha1_hex mc ld jv ms as = content_fingerprint sha1_hex mc' ld' jv' ms' as'"
  then have "join [CHR 0x0A] (sort (map tabbed (fingerprint_fields mc ld jv ms as))) =
      join [CHR 0x0A] (sort (map tabbed (fingerprint_fields mc' ld' jv' ms' as')))"
    unfolding content_fingerprint_def by (rule injD [OF assms(1)])
  then show "mset (fingerprint_fields mc ld jv ms as) = mset (fingerprint_fields mc' ld' jv' ms' as')"
    by (rule lines_recovered [OF _ _ fingerprint_plain [OF assms(2-6)] _ fingerprint_plain [OF assms(7-11)]])
      (simp_all add: fingerprint_fields_def)
next
  assume "mset (fingerprint_fields mc ld jv ms as) = mset (fingerprint_fields mc' ld' jv' ms' as')"
  then have "mset (map tabbed (fingerprint_fields mc ld jv ms as)) =
      mset (map tabbed (fingerprint_fields mc' ld' jv' ms' as'))" by simp
  then have "sort (map tabbed (fingerprint_fields mc ld jv ms as)) =
      sort (map tabbed (fingerprint_fields mc' ld' jv' ms' as'))"
    by (metis sorted_list_of_multiset_mset)
  then show "content_fingerprint sha1_hex mc ld jv ms as = content_fingerprint sha1_hex mc' ld' jv' ms' as'"
    by (simp add: content_fingerprint_def)
qed

theorem fingerprint_faithful_witness:
  "content_fingerprint id ''1.12.2'' \<lparr>ls_name = ''forge'', ls_version = ''14''\<rparr> 8
       [example_entry ''a'' True [], example_entry ''b'' True []] [] =
   content_fingerprint id ''1.12.2'' \<lparr>ls_name = ''forge'', ls_version = ''14''\<rparr> 8
       [example_entry ''b'' True [], example_entry ''a'' True []] []"
  by (rule fingerprint_faithful [THEN iffD2])
    (simp_all add: mod_fields_def example_entry_def plain_text_def)


definition example_env :: "unit build_env" where
  "example_env = \<lparr>be_fetch = fetch_down, be_disk = \<lparr>dk_size = Map.empty, dk_bytes = Map.empty\<rparr>,
     be_sha1 = (\<lambda>s. s), be_enc = (\<lambda>s. s), be_registry = known_version, be_mirror_base = ''https://m'',
     be_now = ''now'', be_manifests = [''0.4.0.json'', ''latest'']\<rparr>"

definition example_config :: "declared_mod list \<Rightarrow> pack_config" where
  "example_config ms = \<lparr>cf_pack_id = ''sky'', cf_display_name = ''Sky'', cf_tagline = [],
     cf_minecraft_version = ''1.12.2'', cf_loader = \<lparr>ls_name = ''forge'', ls_version = ''14''\<rparr>,
     cf_java_major = 8, cf_version = Some ''0.4'', cf_tags = [], cf_featured = False, cf_mods = ms,
     cf_assets = [], cf_auth = None, cf_pack_meta = \<lparr>mt_icon_url = None, mt_banner_url = None,
     mt_gallery_urls = [], mt_description_md = None\<rparr>, cf_owner = 1, cf_tier = Official,
     cf_visibility = Draft, cf_fork_of = None\<rparr>"

definition bad_mods :: "declared_mod list" where
  "bad_mods = [jei\<lparr>dm_filename := ''../x.jar''\<rparr>, jei, jei\<lparr>dm_filename := ''y.jar'', dm_source := SmrtStatic ''y''\<rparr>]"

definition bad_failures :: "(str \<times> resolve_error) list" where
  "bad_failures = [(''../x.jar'', UnsafeFilename), (''y.jar'', StaticMod)]"


text \<open>C20: what a successful build publishes. Its version is valid; its mods are the declared ones sorted
  by filename with every filename safe, its assets likewise by destination; the required flags
  are already in normal form; and its fingerprint is the fingerprint of what it holds.\<close>

theorem built_manifest_contents:
  assumes "build_manifest env net cfg pv ch cl ci cls = Inr b"
  shows "validate_pack_version (pm_pack_version (bu_manifest b)) = None \<and>
    sorted (map me_filename (pm_mods (bu_manifest b))) \<and> sorted (map ae_dest (pm_assets (bu_manifest b))) \<and>
    mset (map me_filename (pm_mods (bu_manifest b))) = mset (map dm_filename (cf_mods cfg)) \<and>
    mset (map ae_dest (pm_assets (bu_manifest b))) = mset (map da_dest (cf_assets cfg)) \<and>
    (\<forall>e \<in> set (pm_mods (bu_manifest b)). safe_mod_filename (me_filename e)) \<and>
    (\<forall>a \<in> set (pm_assets (bu_manifest b)). is_safe_rel_path (ae_dest a)) \<and>
    derive_required cls (pm_mods (bu_manifest b)) = Inr (pm_mods (bu_manifest b)) \<and>
    pm_fingerprint (bu_manifest b) = Some (content_fingerprint (be_sha1 env)
      (pm_minecraft (bu_manifest b)) (pm_loader (bu_manifest b)) (pm_java_major (bu_manifest b))
      (pm_mods (bu_manifest b)) (pm_assets (bu_manifest b)))"
proof -
  obtain mods assets st out where r: "resolve_sources env net cfg = ((mods, assets), [], st)"
    and d: "derive_required cls (sort_key me_filename mods) = Inr out"
    and b: "pm_mods (bu_manifest b) = out" "pm_assets (bu_manifest b) = sort_key ae_dest assets"
      "chosen_version env cfg pv = Inr (pm_pack_version (bu_manifest b))"
      "pm_fingerprint (bu_manifest b) = Some (content_fingerprint (be_sha1 env)
        (pm_minecraft (bu_manifest b)) (pm_loader (bu_manifest b)) (pm_java_major (bu_manifest b))
        (pm_mods (bu_manifest b)) (pm_assets (bu_manifest b)))"
    using build_manifest_Inr [OF assms] by metis
  have fn: "map me_filename out = map me_filename (sort_key me_filename mods)"
    by (rule derive_required_filenames [OF d])
  from r obtain st1 where
    m: "resolve_all (resolve_mod (be_fetch env) (be_disk env) (be_registry env) (be_mirror_base env))
        dm_filename (cf_mods cfg) \<lparr>rs_memo = [], rs_net = net, rs_fell_back = []\<rparr> = ((mods, []), st1)"
    and a: "resolve_all (resolve_asset (be_fetch env) (be_disk env) (be_sha1 env) (be_enc env)
        (be_mirror_base env) (cf_pack_id cfg)) da_dest (cf_assets cfg) st1 = ((assets, []), st)"
    by (auto simp: resolve_sources_def split: prod.splits)
  have "list_all2 (\<lambda>d e. me_filename e = dm_filename d \<and> safe_mod_filename (me_filename e)) (cf_mods cfg) mods"
    using resolve_all_entries [OF m] by (rule list_all2_mono) (auto dest: resolve_mod_entry)
  then have ms: "map me_filename mods = map dm_filename (cf_mods cfg)"
    "\<forall>e \<in> set mods. safe_mod_filename (me_filename e)"
    by (induction rule: list_all2_induct) auto
  have "list_all2 (\<lambda>d e. ae_dest e = da_dest d \<and> is_safe_rel_path (ae_dest e)) (cf_assets cfg) assets"
    using resolve_all_entries [OF a] by (rule list_all2_mono) (auto dest: resolve_asset_entry)
  then have as: "map ae_dest assets = map da_dest (cf_assets cfg)"
    "\<forall>e \<in> set assets. is_safe_rel_path (ae_dest e)"
    by (induction rule: list_all2_induct) auto
  have "set (map me_filename out) = me_filename ` set mods" using fn by simp
  then have safe: "\<forall>e \<in> set out. safe_mod_filename (me_filename e)" using ms(2) by (metis imageE imageI list.set_map)
  have "mset (map me_filename out) = mset (map me_filename mods)"
    unfolding fn by (metis mset_map mset_sort)
  moreover have "mset (map ae_dest (sort_key ae_dest assets)) = mset (map ae_dest assets)"
    by (metis mset_map mset_sort)
  moreover have "sorted (map me_filename out)" unfolding fn by simp
  ultimately show ?thesis
    using b chosen_version_valid [OF b(3)] derive_required_stable [OF d] safe ms(1) as
    by (simp del: mset_map)
qed

definition mod_available :: "disk \<Rightarrow> registry \<Rightarrow> declared_mod \<Rightarrow> bool" where
  "mod_available disk rg m \<longleftrightarrow> safe_mod_filename (dm_filename m) \<and>
     (case dm_source m of
        Modrinth p v \<Rightarrow> modrinth_file_by_version_id rg v \<noteq> None
      | SmrtCache s \<Rightarrow> (case cache_jar_path_in s of None \<Rightarrow> False | Some p \<Rightarrow> dk_size disk p \<noteq> None)
      | SmrtStatic _ \<Rightarrow> False)"

definition asset_available :: "disk \<Rightarrow> str \<Rightarrow> declared_asset \<Rightarrow> bool" where
  "asset_available disk pack_id a \<longleftrightarrow> is_safe_rel_path (da_dest a) \<and>
     (case da_source a of
        SmrtStatic rel \<Rightarrow> (case static_asset_path pack_id rel of None \<Rightarrow> False | Some p \<Rightarrow> dk_bytes disk p \<noteq> None)
      | _ \<Rightarrow> False)"

definition from_modrinth :: "declared_mod \<Rightarrow> bool" where
  "from_modrinth m = (case dm_source m of Modrinth _ _ \<Rightarrow> True | _ \<Rightarrow> False)"

lemma resolve_mod_outage:
  assumes "upstream_down fetch" and "rs_memo st = []" and "mod_available disk rg m"
  shows "\<exists>e st'. resolve_mod fetch disk rg base m st = (Inr e, st') \<and> rs_memo st' = [] \<and>
    rs_fell_back st' = rs_fell_back st @ (if from_modrinth m then [dm_filename m] else [])"
proof (cases "dm_source m")
  case (Modrinth p v)
  obtain e n' where "fetch p v (rs_net st) = (Inl e, n')" using assms(1) unfolding upstream_down_def by blast
  with Modrinth assms(2,3) show ?thesis
    by (auto simp: resolve_mod_def resolve_mod_source_def get_or_fetch_def mod_available_def from_modrinth_def)
next
  case (SmrtCache s)
  with assms(2,3) show ?thesis
    by (auto simp: resolve_mod_def resolve_mod_source_def mod_available_def from_modrinth_def
        split: option.splits)
qed (use assms in \<open>simp add: mod_available_def\<close>)

lemma resolve_mods_outage:
  assumes "upstream_down fetch"
  shows "rs_memo st = [] \<Longrightarrow> \<forall>m \<in> set ms. mod_available disk rg m \<Longrightarrow>
    \<exists>es st'. resolve_all (resolve_mod fetch disk rg base) dm_filename ms st = ((es, []), st') \<and>
      rs_memo st' = [] \<and> rs_fell_back st' = rs_fell_back st @ map dm_filename (filter from_modrinth ms)"
proof (induction ms arbitrary: st)
  case (Cons m ms)
  then obtain e st1 where r: "resolve_mod fetch disk rg base m st = (Inr e, st1)" "rs_memo st1 = []"
    "rs_fell_back st1 = rs_fell_back st @ (if from_modrinth m then [dm_filename m] else [])"
    using resolve_mod_outage [where base = base, OF assms Cons.prems(1), of disk rg m] by auto
  from Cons.IH [OF r(2)] Cons.prems(2) r show ?case by fastforce
qed simp

lemma resolve_assets_available:
  "\<forall>a \<in> set as. asset_available disk pid a \<Longrightarrow>
    \<exists>es. resolve_all (resolve_asset fetch disk sha enc base pid) da_dest as st = ((es, []), st)"
proof (induction "as" arbitrary: st)
  case (Cons a "as")
  then have "\<exists>e. resolve_asset fetch disk sha enc base pid a st = (Inr e, st)"
    by (auto simp: asset_available_def resolve_asset_def Let_def split: source_decl.splits option.splits)
  then obtain e where e: "resolve_asset fetch disk sha enc base pid a st = (Inr e, st)" by blast
  obtain es where "resolve_all (resolve_asset fetch disk sha enc base pid) da_dest as st = ((es, []), st)"
    using Cons.IH [of st] Cons.prems by auto
  with e show ?case by simp
qed simp

text \<open>a pack that has been built before keeps building through an outage. With upstream answering
  nothing, a config whose Modrinth pins the registry has recorded, whose cache jars and static
  files are on disk and whose names are safe builds, provided its version is acceptable and no
  default-enabled mod is classified must-match and confidently client-side; and the build names
  exactly the mods it took from the registry.\<close>

theorem outage_build_succeeds:
  assumes "upstream_down (be_fetch env)"
    and "chosen_version env cfg pv = Inr version"
    and "\<forall>m \<in> set (cf_mods cfg). mod_available (be_disk env) (be_registry env) m"
    and "\<forall>a \<in> set (cf_assets cfg). asset_available (be_disk env) (cf_pack_id cfg) a"
    and "\<forall>e. is_seed cls e \<and> side_of cls e = Some Client \<longrightarrow> soft_client cls e"
  shows "\<exists>b. build_manifest env net cfg pv ch cl ci cls = Inr b \<and>
    bu_resolved_from_registry b = map dm_filename (filter from_modrinth (cf_mods cfg))"
proof -
  let ?st = "\<lparr>rs_memo = [], rs_net = net, rs_fell_back = []\<rparr>"
  obtain mods st where m: "resolve_all (resolve_mod (be_fetch env) (be_disk env) (be_registry env)
      (be_mirror_base env)) dm_filename (cf_mods cfg) ?st = ((mods, []), st)"
    and fb: "rs_fell_back st = map dm_filename (filter from_modrinth (cf_mods cfg))"
    using resolve_mods_outage [where base = "be_mirror_base env" and st = ?st, OF assms(1) _ assms(3)]
    by auto
  obtain assets where "resolve_all (resolve_asset (be_fetch env) (be_disk env) (be_sha1 env) (be_enc env)
      (be_mirror_base env) (cf_pack_id cfg)) da_dest (cf_assets cfg) st = ((assets, []), st)"
    using resolve_assets_available [OF assms(4)] by blast
  with m have src: "resolve_sources env net cfg = ((mods, assets), [], st)"
    by (simp add: resolve_sources_def)
  obtain out where "derive_required cls (sort_key me_filename mods) = Inr out"
    using assms(5) derive_required_Inl_iff [of cls "sort_key me_filename mods"]
    by (cases "derive_required cls (sort_key me_filename mods)") auto
  from build_manifest_stages [OF assms(2) src this] fb show ?thesis by simp
qed

definition good_mods :: "declared_mod list" where
  "good_mods = [jei\<lparr>dm_filename := ''z.jar''\<rparr>, jei]"

lemma good_build:
  "\<exists>b. build_manifest example_env () (example_config good_mods) None Release None None (\<lambda>_. None) = Inr b \<and>
     map me_filename (pm_mods (bu_manifest b)) = [''jei.jar'', ''z.jar''] \<and>
     pm_pack_version (bu_manifest b) = ''0.4.1''"
proof -
  have "(case build_manifest example_env () (example_config good_mods) None Release None None (\<lambda>_. None) of
      Inl _ \<Rightarrow> False | Inr b \<Rightarrow> map me_filename (pm_mods (bu_manifest b)) = [''jei.jar'', ''z.jar''] \<and>
     pm_pack_version (bu_manifest b) = ''0.4.1'')"
    by code_simp
  then show ?thesis by (auto split: sum.splits)
qed

theorem built_manifest_contents_witness:
  "\<exists>b. build_manifest example_env () (example_config good_mods) None Release None None (\<lambda>_. None) = Inr b \<and>
     sorted (map me_filename (pm_mods (bu_manifest b))) \<and>
     mset (map me_filename (pm_mods (bu_manifest b))) = {#''jei.jar'', ''z.jar''#}"
  using good_build built_manifest_contents by force

theorem outage_build_succeeds_witness:
  "\<exists>b. build_manifest example_env () (example_config good_mods) None Release None None (\<lambda>_. None) = Inr b \<and>
     bu_resolved_from_registry b = [''z.jar'', ''jei.jar'']"
proof -
  have "upstream_down (be_fetch example_env)"
    by (simp add: example_env_def fetch_down_def upstream_down_def)
  moreover have "\<exists>v. chosen_version example_env (example_config good_mods) None = Inr v"
    using good_build by (auto elim: build_manifest_Inr)
  moreover have "\<forall>m \<in> set (cf_mods (example_config good_mods)). mod_available (be_disk example_env) (be_registry example_env) m"
    by code_simp
  moreover have "\<forall>a \<in> set (cf_assets (example_config good_mods)). asset_available (be_disk example_env) (cf_pack_id (example_config good_mods)) a"
    by (simp add: example_config_def)
  moreover have "map dm_filename (filter from_modrinth (cf_mods (example_config good_mods))) = [''z.jar'', ''jei.jar'']"
    by code_simp
  ultimately show ?thesis
    using outage_build_succeeds [of example_env "example_config good_mods" None _ "\<lambda>_. None"]
    by (auto simp: side_of_def)
qed

end
