(* ===== verification/Placement.thy ===== *)
theory Placement
  imports Classify
begin

text \<open>
  First half of \<open>src/src/authoring/resolve.rs\<close>: placing a pack's declared mods on the registry
  graph, the selectors that never name a missing mod, the classification of a whole pack, the
  downgrade of an inferred edge, and the graph the panel draws of one pack.
\<close>

section \<open>Selectors\<close>

definition is_loader_dep :: "str \<Rightarrow> bool" where
  "is_loader_dep target \<longleftrightarrow>
     to_lower (before CHR ''@'' target) \<in>
       {''forge'', ''minecraftforge'', ''mod_minecraftforge'', ''fml'', ''forgemodloader'',
        ''neoforge'', ''fabric'', ''fabricloader'', ''cleanroom'', ''quilt''}"

definition fabric_api :: "str list" where
  "fabric_api = [''modrinth:P7dR8mSH'', ''fabric-api'']"

definition forgified_fabric_api :: "str list" where
  "forgified_fabric_api = [''modrinth:Aqlf1Shp'', ''fabric_api'']"

section \<open>Placing\<close>

record present =
  pr_filename :: str
  pr_default_enabled :: bool
  pr_mod_id :: int
  pr_version :: "str option"
  pr_mod_version_id :: "int option"
  pr_sha1 :: "str option"

record placed_mods =
  pl_present :: "present list"
  pl_unresolved :: "str list"
  pl_non_mods :: "str list"
  pl_pinned_projects :: "str list"

definition no_placed :: placed_mods where
  "no_placed = \<lparr>pl_present = [], pl_unresolved = [], pl_non_mods = [], pl_pinned_projects = []\<rparr>"

text \<open>Where one declaration lands: the body of the loop of \<open>place_mods\<close>.\<close>

datatype placement =
    OnGraph present
  | Unidentified str
  | NonMod str
  | Pinned str
  | NotAMod

definition place_mod :: "registry \<Rightarrow> declared_mod \<Rightarrow> placement" where
  "place_mod rg m =
     (let at = (\<lambda>mod_id version mv sha. OnGraph \<lparr>pr_filename = dm_filename m,
            pr_default_enabled = dm_default_enabled m, pr_mod_id = mod_id, pr_version = version,
            pr_mod_version_id = mv, pr_sha1 = sha\<rparr>)
      in case dm_source m of
        SmrtCache sha \<Rightarrow>
          (case artifact_by_sha1 rg sha of
             Some (mv, mid, ver) \<Rightarrow> at mid (Some ver) (Some mv) (Some sha)
           | None \<Rightarrow>
               (case jar_class_for_sha1 rg sha of
                  Some jc \<Rightarrow> if jc_kind jc \<noteq> ''mod'' then NonMod (dm_filename m)
                             else Unidentified (dm_filename m)
                | None \<Rightarrow> Unidentified (dm_filename m)))
      | Modrinth pid vid \<Rightarrow>
          (case mod_id_for_alias rg ''modrinth'' pid of
             Some mid \<Rightarrow>
               (let mv = mod_version_id_for_modrinth_version_id rg vid in
                at mid (version_by_modrinth_version_id rg vid) mv
                  (Option.bind mv (sha1_for_mod_version rg)))
           | None \<Rightarrow> Pinned pid)
      | SmrtStatic _ \<Rightarrow> NotAMod)"

fun place_all :: "registry \<Rightarrow> declared_mod list \<Rightarrow> placed_mods \<Rightarrow> placed_mods" where
  "place_all rg [] pl = pl"
| "place_all rg (m # ms) pl = place_all rg ms
     (case place_mod rg m of
        OnGraph p \<Rightarrow> pl\<lparr>pl_present := pl_present pl @ [p]\<rparr>
      | Unidentified f \<Rightarrow> pl\<lparr>pl_unresolved := pl_unresolved pl @ [f]\<rparr>
      | NonMod f \<Rightarrow> pl\<lparr>pl_non_mods := pl_non_mods pl @ [f]\<rparr>
      | Pinned pid \<Rightarrow> pl\<lparr>pl_pinned_projects := pl_pinned_projects pl @ [pid]\<rparr>
      | NotAMod \<Rightarrow> pl)"

definition place_mods :: "registry \<Rightarrow> pack_config \<Rightarrow> placed_mods" where
  "place_mods rg cfg = place_all rg (cf_mods cfg) no_placed"

text \<open>\<open>by_mod_id.entry(id).or_insert(i)\<close>: the first declaration of a mod is the one found.\<close>

definition by_mod_id :: "present list \<Rightarrow> int \<Rightarrow> nat option" where
  "by_mod_id ps = map_of (zip (map pr_mod_id ps) [0..<length ps])"

definition target_index :: "registry \<Rightarrow> present list \<Rightarrow> str \<Rightarrow> nat option" where
  "target_index rg ps target = Option.bind (mod_id_for_selector rg target) (by_mod_id ps)"

definition bridged_api_provided :: "registry \<Rightarrow> present list \<Rightarrow> str list" where
  "bridged_api_provided rg ps =
     (if list_ex (\<lambda>selector. target_index rg ps selector \<noteq> None) forgified_fabric_api
      then fabric_api else [])"

section \<open>Classes\<close>

text \<open>\<open>classify_pack\<close>: the map of classifications by filename, as its insertions in order. A later
  insertion of a filename replaces an earlier one, and the second loop inserts only what is absent.\<close>

definition classify_present :: "registry \<Rightarrow> present list \<Rightarrow> (str \<times> classification) list" where
  "classify_present rg ps =
     map (\<lambda>p. (pr_filename p, classify_artifact rg (Some (pr_mod_id p)) (pr_sha1 p))) ps"

fun classify_rest ::
  "registry \<Rightarrow> declared_mod list \<Rightarrow> (str \<times> classification) list \<Rightarrow> (str \<times> classification) list" where
  "classify_rest rg [] out = out"
| "classify_rest rg (m # ms) out = classify_rest rg ms
     (if dm_filename m \<in> fst ` set out then out
      else case dm_source m of
        SmrtCache sha \<Rightarrow>
          (let c = classify_artifact rg None (Some sha) in
           if cn_kind c \<noteq> None then out @ [(dm_filename m, c)] else out)
      | _ \<Rightarrow> out)"

definition classify_pack :: "registry \<Rightarrow> pack_config \<Rightarrow> str \<Rightarrow> classification option" where
  "classify_pack rg cfg =
     hash_of (classify_rest rg (cf_mods cfg) (classify_present rg (pl_present (place_mods rg cfg))))"

definition inferred_edge_downgraded :: "rel_source \<Rightarrow> classification option \<Rightarrow> bool" where
  "inferred_edge_downgraded edge_source target_class \<longleftrightarrow>
     edge_source = SrcInferred \<and> Option.bind target_class cn_side \<noteq> None"

definition classify_target_mod :: "registry \<Rightarrow> int \<Rightarrow> classification" where
  "classify_target_mod rg mod_id = classify_artifact rg (Some mod_id) (newest_sha1_for_mod rg mod_id)"

text \<open>The edges of one placed mod, most confident first. An artifact that was never read has the
  mod-level edges only: \<open>-1\<close> is no row's id.\<close>

definition edges_of :: "registry \<Rightarrow> present \<Rightarrow> relation_row list" where
  "edges_of rg p =
     relations_for_artifact rg (case pr_mod_version_id p of None \<Rightarrow> -1 | Some mv \<Rightarrow> mv) (pr_mod_id p)"

text \<open>Keeping the first element of each key, the \<open>HashSet::insert\<close> guard of both walks.\<close>

fun first_by :: "('a \<Rightarrow> 'k) \<Rightarrow> 'k list \<Rightarrow> 'a list \<Rightarrow> 'a list" where
  "first_by f seen [] = []"
| "first_by f seen (x # xs) =
     (if f x \<in> set seen then first_by f seen xs else x # first_by f (f x # seen) xs)"

section \<open>The graph of one pack\<close>

record graph_node =
  gn_mod_id :: int
  gn_name :: str
  gn_modid :: "str option"
  gn_modrinth :: bool

record graph_edge =
  ge_from_mod_id :: int
  ge_to_mod_id :: "int option"
  ge_target :: str
  ge_kind :: str
  ge_severity :: "str option"
  ge_source :: str

definition show_int :: "int \<Rightarrow> str" where
  "show_int i = (if i < 0 then CHR ''-'' # show_nat (nat (- i)) else show_nat (nat i))"

text \<open>\<open>graph_node_for\<close>; \<open>None\<close> is the failed query of a mod that has no row.\<close>

definition graph_node_for :: "registry \<Rightarrow> int \<Rightarrow> graph_node option" where
  "graph_node_for rg mid =
     map_option (\<lambda>r.
       let modid = modid_for_mod rg mid in
       \<lparr>gn_mod_id = mid,
        gn_name = (case md_canonical_name r of Some n \<Rightarrow> n
          | None \<Rightarrow> (case md_slug r of Some s \<Rightarrow> s
          | None \<Rightarrow> (case modid of Some m \<Rightarrow> m | None \<Rightarrow> CHR ''#'' # show_int mid))),
        gn_modid = modid,
        gn_modrinth = (modrinth_id_for_mod rg mid \<noteq> None)\<rparr>)
     (find (\<lambda>r. md_id r = mid) (rg_mods rg))"

definition graph_edges :: "registry \<Rightarrow> present list \<Rightarrow> graph_edge list" where
  "graph_edges rg ps =
     concat (map (\<lambda>p. map (\<lambda>e. \<lparr>ge_from_mod_id = pr_mod_id p,
         ge_to_mod_id = (case mod_id_for_selector rg (rl_target e) of
             Some t \<Rightarrow> if t \<in> pr_mod_id ` set ps then Some t else None
           | None \<Rightarrow> None),
         ge_target = rl_target e, ge_kind = rel_kind_as_str (rl_kind e),
         ge_severity = map_option severity_as_str (rl_severity e),
         ge_source = rel_source_as_str (rl_source e)\<rparr>) (edges_of rg p)) ps)"

definition pack_graph :: "registry \<Rightarrow> pack_config \<Rightarrow> (graph_node list \<times> graph_edge list) option" where
  "pack_graph rg cfg =
     (let ps = pl_present (place_mods rg cfg) in
      map_option (\<lambda>nodes. (nodes, graph_edges rg ps))
        (those (map (\<lambda>p. graph_node_for rg (pr_mod_id p)) (first_by pr_mod_id [] ps))))"

section \<open>Lemmas\<close>

lemma place_all_append:
  "pl_present (place_all rg ms pl) =
     pl_present pl @ List.map_filter (\<lambda>m. case place_mod rg m of OnGraph p \<Rightarrow> Some p | _ \<Rightarrow> None) ms \<and>
   pl_unresolved (place_all rg ms pl) =
     pl_unresolved pl @ List.map_filter (\<lambda>m. case place_mod rg m of Unidentified f \<Rightarrow> Some f | _ \<Rightarrow> None) ms \<and>
   pl_non_mods (place_all rg ms pl) =
     pl_non_mods pl @ List.map_filter (\<lambda>m. case place_mod rg m of NonMod f \<Rightarrow> Some f | _ \<Rightarrow> None) ms \<and>
   pl_pinned_projects (place_all rg ms pl) =
     pl_pinned_projects pl @ List.map_filter (\<lambda>m. case place_mod rg m of Pinned p \<Rightarrow> Some p | _ \<Rightarrow> None) ms"
  by (induction ms arbitrary: pl) (auto simp: List.map_filter_simps split: placement.split)

lemma place_mods_eq:
  "pl_present (place_mods rg cfg) =
     List.map_filter (\<lambda>m. case place_mod rg m of OnGraph p \<Rightarrow> Some p | _ \<Rightarrow> None) (cf_mods cfg)"
  "pl_unresolved (place_mods rg cfg) =
     List.map_filter (\<lambda>m. case place_mod rg m of Unidentified f \<Rightarrow> Some f | _ \<Rightarrow> None) (cf_mods cfg)"
  "pl_non_mods (place_mods rg cfg) =
     List.map_filter (\<lambda>m. case place_mod rg m of NonMod f \<Rightarrow> Some f | _ \<Rightarrow> None) (cf_mods cfg)"
  "pl_pinned_projects (place_mods rg cfg) =
     List.map_filter (\<lambda>m. case place_mod rg m of Pinned p \<Rightarrow> Some p | _ \<Rightarrow> None) (cf_mods cfg)"
  using place_all_append [of rg "cf_mods cfg" no_placed] by (simp_all add: place_mods_def no_placed_def)

lemma by_mod_id_Some:
  "by_mod_id ps mid = Some i \<Longrightarrow>
     i < length ps \<and> pr_mod_id (ps ! i) = mid \<and> (\<forall>j < i. pr_mod_id (ps ! j) \<noteq> mid)"
proof -
  have "map_of (zip ks [n..<n + length ks]) k = Some i \<Longrightarrow>
      n \<le> i \<and> i < n + length ks \<and> ks ! (i - n) = k \<and> (\<forall>j < i - n. ks ! j \<noteq> k)"
    for ks :: "int list" and n k
  proof (induction ks arbitrary: n)
    case (Cons x ks)
    have z: "zip (x # ks) [n..<n + length (x # ks)] = (x, n) # zip ks [Suc n..<Suc n + length ks]"
      by (simp add: upt_rec)
    show ?case
    proof (cases "x = k")
      case True
      with Cons.prems z show ?thesis by simp
    next
      case False
      with Cons.prems z have "map_of (zip ks [Suc n..<Suc n + length ks]) k = Some i"
        by (metis map_of_Cons_code(2))
      from Cons.IH [OF this] False obtain d where d: "i = Suc n + d" "d < length ks" "ks ! d = k"
        "\<forall>j < d. ks ! j \<noteq> k"
        by (metis add_diff_cancel_left' le_iff_add nat_add_left_cancel_less)
      then have "\<forall>j < Suc d. (x # ks) ! j \<noteq> k"
        using False by (auto simp: less_Suc_eq_0_disj)
      with d show ?thesis by simp
    qed
  qed simp
  from this [of "map pr_mod_id ps" 0 mid] show "by_mod_id ps mid = Some i \<Longrightarrow> ?thesis"
    by (auto simp: by_mod_id_def)
qed

lemma by_mod_id_None: "by_mod_id ps mid = None \<longleftrightarrow> mid \<notin> pr_mod_id ` set ps"
  by (simp add: by_mod_id_def map_of_eq_None_iff set_map [symmetric] del: set_map)

lemma first_by_subset: "set (first_by f seen xs) \<subseteq> set xs"
  by (induction f seen xs rule: first_by.induct) auto

lemma first_by_keys: "f ` set (first_by f seen xs) = f ` set xs - set seen"
  by (induction f seen xs rule: first_by.induct) auto

lemma first_by_distinct: "distinct (map f (first_by f seen xs))"
proof (induction f seen xs rule: first_by.induct)
  case (2 f seen x xs)
  then show ?case using first_by_keys [of f "f x # seen" xs] by auto
qed simp

text \<open>An element kept under a coarse key is kept under every finer one.\<close>

lemma first_by_finer:
  "x \<in> set (first_by f seen xs) \<Longrightarrow> (\<And>y z. g y = g z \<Longrightarrow> f y = f z) \<Longrightarrow>
     (\<And>y. g y \<in> set seen' \<Longrightarrow> f y \<in> set seen) \<Longrightarrow> x \<in> set (first_by g seen' xs)"
proof (induction xs arbitrary: seen seen')
  case Nil
  from Nil.prems(1) show ?case by simp
next
  case (Cons y ys)
  show ?case
  proof (cases "f y \<in> set seen")
    case True
    with Cons.prems(1) have x: "x \<in> set (first_by f seen ys)" by simp
    have "x \<in> set (first_by g seen' ys)" by (rule Cons.IH [OF x Cons.prems(2,3)])
    moreover have "x \<in> set (first_by g (g y # seen') ys)"
    proof (rule Cons.IH [OF x Cons.prems(2)])
      fix z assume "g z \<in> set (g y # seen')"
      then show "f z \<in> set seen"
        using Cons.prems(2) [of z y] Cons.prems(3) [of z] True by auto
    qed
    ultimately show ?thesis by simp
  next
    case False
    then have ny: "g y \<notin> set seen'" using Cons.prems(3) by blast
    from False Cons.prems(1) consider "x = y" | "x \<in> set (first_by f (f y # seen) ys)" by auto
    then show ?thesis
    proof cases
      case 1
      with ny show ?thesis by simp
    next
      case 2
      have "x \<in> set (first_by g (g y # seen') ys)"
      proof (rule Cons.IH [OF 2 Cons.prems(2)])
        fix z assume "g z \<in> set (g y # seen')"
        then show "f z \<in> set (f y # seen)"
          using Cons.prems(2) [of z y] Cons.prems(3) [of z] by auto
      qed
      with ny show ?thesis by simp
    qed
  qed
qed

section \<open>Properties\<close>

text \<open>placement loses nothing: every declaration is placed, unidentified, not a mod, a valid pin, or
  a static file, so the five groups add up to the declared mods, and a placed mod keeps its
  declared filename and default.\<close>

theorem placement_partition:
  "length (pl_present (place_mods rg cfg)) + length (pl_unresolved (place_mods rg cfg)) +
   length (pl_non_mods (place_mods rg cfg)) + length (pl_pinned_projects (place_mods rg cfg)) +
   length (filter (\<lambda>m. place_mod rg m = NotAMod) (cf_mods cfg)) = length (cf_mods cfg) \<and>
   set (map (\<lambda>p. (pr_filename p, pr_default_enabled p)) (pl_present (place_mods rg cfg)))
     \<subseteq> set (map (\<lambda>m. (dm_filename m, dm_default_enabled m)) (cf_mods cfg))"
proof -
  have len: "length (List.map_filter (\<lambda>m. case place_mod rg m of OnGraph p \<Rightarrow> Some p | _ \<Rightarrow> None) ms) +
    length (List.map_filter (\<lambda>m. case place_mod rg m of Unidentified f \<Rightarrow> Some f | _ \<Rightarrow> None) ms) +
    length (List.map_filter (\<lambda>m. case place_mod rg m of NonMod f \<Rightarrow> Some f | _ \<Rightarrow> None) ms) +
    length (List.map_filter (\<lambda>m. case place_mod rg m of Pinned p \<Rightarrow> Some p | _ \<Rightarrow> None) ms) +
    length (filter (\<lambda>m. place_mod rg m = NotAMod) ms) = length ms" for ms
    by (induction ms) (auto simp: List.map_filter_simps split: placement.split)
  have on: "place_mod rg m = OnGraph p \<Longrightarrow> pr_filename p = dm_filename m \<and> pr_default_enabled p = dm_default_enabled m"
    for m p
    by (auto simp: place_mod_def Let_def split: source_decl.splits option.splits if_splits)
  have "p \<in> set (List.map_filter (\<lambda>m. case place_mod rg m of OnGraph p \<Rightarrow> Some p | _ \<Rightarrow> None) ms) \<Longrightarrow>
      \<exists>m \<in> set ms. place_mod rg m = OnGraph p" for p ms
    by (induction ms) (auto simp: List.map_filter_simps split: placement.splits)
  with on show ?thesis using len [of "cf_mods cfg"] by (fastforce simp: place_mods_eq)
qed

end
