(* ===== verification/Resolve.thy ===== *)
theory Resolve
  imports Placement Semver
begin

text \<open>
  The resolve pass of \<open>src/src/authoring/resolve.rs\<close>: the walk over every placed mod's
  authoritative edges, with one definition per relation kind, and the report built from it. The
  walk's state is a record with one field per accumulator of \<open>resolve_pack\<close>; \<open>BTreeMap\<close>s are
  strictly sorted association lists, \<open>BTreeSet\<close>s sorted lists without duplicates. The class
  memo of the source caches a function of the registry, so it is that function here.
\<close>

section \<open>The report\<close>

record missing_dep =
  ms_target :: str
  ms_needed_by :: "str list"
  ms_version_range :: "str option"
  ms_source :: str
  ms_reason :: "str option"

record active_conflict =
  ac_a :: str
  ac_b :: str
  ac_hard :: bool
  ac_source :: str

record mixin_gap =
  mg_filename :: str
  mg_config :: str
  mg_needed :: str
  mg_owner :: str

record capability_overlap =
  co_capability :: str
  co_mods :: "str list"

record version_issue =
  vi_target :: str
  vi_filename :: str
  vi_present_version :: str
  vi_required_range :: str
  vi_needed_by :: "str list"

record loader_version_issue =
  li_filename :: str
  li_loader :: str
  li_pack_version :: str
  li_required_range :: str

record loader_mismatch =
  lm_filename :: str
  lm_artifact_loaders :: "str list"
  lm_pack_loader :: str
  lm_bridged_by :: "str option"

record side_conflict =
  sc_filename :: str
  sc_modrinth_side :: str
  sc_bytecode_side :: str

record forced_client_edge =
  fe_filename :: str
  fe_needed_by :: "str list"
  fe_source :: str

record resolve_report =
  rr_declared_mods :: nat
  rr_resolved_mods :: nat
  rr_missing :: "missing_dep list"
  rr_conflicts :: "active_conflict list"
  rr_optional_conflicts :: "active_conflict list"
  rr_overlaps :: "capability_overlap list"
  rr_version_issues :: "version_issue list"
  rr_loader_version_issues :: "loader_version_issue list"
  rr_loader_mismatch :: "loader_mismatch list"
  rr_mixin_gaps :: "mixin_gap list"
  rr_loader_bridged :: "loader_mismatch list"
  rr_unresolved :: "str list"
  rr_version_windows_unchecked :: nat
  rr_coremods :: "str list"
  rr_unclassified :: "str list"
  rr_side_disagreements :: "side_conflict list"
  rr_forced_client_attempts :: "forced_client_edge list"
  rr_server_side :: "str list"
  rr_suggestions :: "str list"

section \<open>The walk\<close>

record walk =
  wk_missing :: "(str \<times> missing_dep) list"
  wk_conflicts :: "active_conflict list"
  wk_optional_conflicts :: "active_conflict list"
  wk_conflict_seen :: "(nat \<times> nat) list"
  wk_provides :: "(str \<times> str list) list"
  wk_version_issues :: "version_issue list"
  wk_forced_client :: "(str \<times> forced_client_edge) list"
  wk_suggestions :: "str list"
  wk_unchecked :: nat

definition walk_start_state :: walk where
  "walk_start_state = \<lparr>wk_missing = [], wk_conflicts = [], wk_optional_conflicts = [],
     wk_conflict_seen = [], wk_provides = [], wk_version_issues = [], wk_forced_client = [],
     wk_suggestions = [], wk_unchecked = 0\<rparr>"

text \<open>What the walk knows besides its state: the registry, the placed mods, the pinned projects.\<close>

record world =
  wd_registry :: registry
  wd_present :: "present list"
  wd_pinned :: "str list"

text \<open>\<open>class_of\<close>: a placed mod is classified by the artifact its first declaration ships, any other by
  its newest one.\<close>

definition class_of :: "world \<Rightarrow> int \<Rightarrow> classification" where
  "class_of w mid =
     (case by_mod_id (wd_present w) mid of
        Some i \<Rightarrow> classify_artifact (wd_registry w) (Some mid) (pr_sha1 (wd_present w ! i))
      | None \<Rightarrow> classify_target_mod (wd_registry w) mid)"

abbreviation target_of :: "world \<Rightarrow> str \<Rightarrow> nat option" where
  "target_of w \<equiv> target_index (wd_registry w) (wd_present w)"

definition edge_downgraded :: "world \<Rightarrow> relation_row \<Rightarrow> bool" where
  "edge_downgraded w e =
     (case mod_id_for_selector (wd_registry w) (rl_target e) of
        None \<Rightarrow> False
      | Some tid \<Rightarrow> inferred_edge_downgraded (rl_source e) (Some (class_of w tid)))"

definition pin_covers :: "world \<Rightarrow> str \<Rightarrow> bool" where
  "pin_covers w target =
     (case strip_prefix ''modrinth:'' target of
        None \<Rightarrow> False
      | Some pid \<Rightarrow> before CHR ''@'' pid \<in> set (wd_pinned w))"

definition note_missing :: "present \<Rightarrow> relation_row \<Rightarrow> walk \<Rightarrow> walk" where
  "note_missing a e st =
     (let t = rl_target e;
          fresh = \<lparr>ms_target = t, ms_needed_by = [], ms_version_range = rl_version_range e,
            ms_source = rel_source_as_str (rl_source e),
            ms_reason = (if starts_with t ''external:'' then Some ''external'' else None)\<rparr>;
          d = (case map_of (wk_missing st) t of None \<Rightarrow> fresh | Some d \<Rightarrow> d)
      in st\<lparr>wk_missing := bt_insert t (d\<lparr>ms_needed_by := ms_needed_by d @ [pr_filename a]\<rparr>) (wk_missing st)\<rparr>)"

definition note_forced_client :: "world \<Rightarrow> present \<Rightarrow> present \<Rightarrow> relation_row \<Rightarrow> walk \<Rightarrow> walk" where
  "note_forced_client w a b e st =
     (if rl_source e \<noteq> SrcInferred \<and> cn_side (class_of w (pr_mod_id b)) = Some Client \<and>
         cn_side (class_of w (pr_mod_id a)) \<noteq> Some Client
      then
        let fresh = \<lparr>fe_filename = pr_filename b, fe_needed_by = [],
              fe_source = rel_source_as_str (rl_source e)\<rparr>;
            f = (case map_of (wk_forced_client st) (pr_filename b) of None \<Rightarrow> fresh | Some f \<Rightarrow> f)
        in st\<lparr>wk_forced_client := bt_insert (pr_filename b)
             (f\<lparr>fe_needed_by := fe_needed_by f @ [pr_filename a]\<rparr>) (wk_forced_client st)\<rparr>
      else st)"

definition check_window :: "present \<Rightarrow> present \<Rightarrow> relation_row \<Rightarrow> walk \<Rightarrow> walk" where
  "check_window a b e st =
     (case rl_version_range e of
        None \<Rightarrow> st
      | Some rng \<Rightarrow>
          (case Option.bind (pr_version b) (\<lambda>v. in_range v rng) of
             Some True \<Rightarrow> st
           | Some False \<Rightarrow> st\<lparr>wk_version_issues := wk_version_issues st @
               [\<lparr>vi_target = rl_target e, vi_filename = pr_filename b,
                 vi_present_version = (case pr_version b of None \<Rightarrow> [] | Some v \<Rightarrow> v),
                 vi_required_range = rng, vi_needed_by = [pr_filename a]\<rparr>]\<rparr>
           | None \<Rightarrow> st\<lparr>wk_unchecked := wk_unchecked st + 1\<rparr>))"

definition walk_requires :: "world \<Rightarrow> present \<Rightarrow> relation_row \<Rightarrow> walk \<Rightarrow> walk" where
  "walk_requires w a e st =
     (if edge_downgraded w e then st
      else case target_of w (rl_target e) of
        Some bi \<Rightarrow>
          (let b = wd_present w ! bi in check_window a b e (note_forced_client w a b e st))
      | None \<Rightarrow>
          if is_loader_dep (rl_target e) then st
          else if pin_covers w (rl_target e) then st
          else note_missing a e st)"

definition walk_conflicts :: "world \<Rightarrow> nat \<Rightarrow> relation_row \<Rightarrow> walk \<Rightarrow> walk" where
  "walk_conflicts w ai e st =
     (case target_of w (rl_target e) of
        None \<Rightarrow> st
      | Some bi \<Rightarrow>
          (let a = wd_present w ! ai; b = wd_present w ! bi;
               pair = (if ai < bi then (ai, bi) else (bi, ai)) in
           if pair \<in> set (wk_conflict_seen st) then st
           else
             let c = \<lparr>ac_a = pr_filename a, ac_b = pr_filename b,
                   ac_hard = (rl_severity e \<noteq> Some Soft), ac_source = rel_source_as_str (rl_source e)\<rparr>;
                 st = st\<lparr>wk_conflict_seen := pair # wk_conflict_seen st\<rparr>
             in if pr_default_enabled a \<and> pr_default_enabled b
                then st\<lparr>wk_conflicts := wk_conflicts st @ [c]\<rparr>
                else st\<lparr>wk_optional_conflicts := wk_optional_conflicts st @ [c]\<rparr>))"

definition walk_provides :: "present \<Rightarrow> relation_row \<Rightarrow> walk \<Rightarrow> walk" where
  "walk_provides a e st =
     (let old = (case map_of (wk_provides st) (rl_target e) of None \<Rightarrow> [] | Some fs \<Rightarrow> fs)
      in st\<lparr>wk_provides := bt_insert (rl_target e) (insort_insert (pr_filename a) old) (wk_provides st)\<rparr>)"

definition walk_recommends :: "world \<Rightarrow> relation_row \<Rightarrow> walk \<Rightarrow> walk" where
  "walk_recommends w e st =
     (if target_of w (rl_target e) = None \<and> \<not> is_loader_dep (rl_target e)
      then st\<lparr>wk_suggestions := insort_insert (rl_target e) (wk_suggestions st)\<rparr>
      else st)"

definition walk_edge :: "world \<Rightarrow> nat \<Rightarrow> relation_row \<Rightarrow> walk \<Rightarrow> walk" where
  "walk_edge w ai e st =
     (let a = wd_present w ! ai in
      case rl_kind e of
        Requires \<Rightarrow> walk_requires w a e st
      | Conflicts \<Rightarrow> walk_conflicts w ai e st
      | Provides \<Rightarrow> walk_provides a e st
      | Recommends \<Rightarrow> walk_recommends w e st
      | OptionalDep \<Rightarrow> st)"

text \<open>The authoritative edges of the \<open>ai\<close>-th placed mod: the first edge of each target.\<close>

definition authoritative :: "world \<Rightarrow> nat \<Rightarrow> relation_row list" where
  "authoritative w ai = first_by rl_target [] (edges_of (wd_registry w) (wd_present w ! ai))"

definition walk_steps :: "world \<Rightarrow> (nat \<times> relation_row) list" where
  "walk_steps w =
     concat (map (\<lambda>ai. map (Pair ai) (authoritative w ai)) [0..<length (wd_present w)])"

definition walk_all :: "world \<Rightarrow> walk" where
  "walk_all w = fold (\<lambda>(ai, e). walk_edge w ai e) (walk_steps w) walk_start_state"

section \<open>What answers a missing target\<close>

definition answered :: "world \<Rightarrow> str \<Rightarrow> walk \<Rightarrow> str \<Rightarrow> bool" where
  "answered w loader st target \<longleftrightarrow>
     target \<in> fst ` set (wk_provides st) \<or>
     before CHR ''@'' target \<in> set (loader_provided_capabilities (wd_registry w) loader) \<or>
     before CHR ''@'' target \<in> set (bridged_api_provided (wd_registry w) (wd_present w))"

definition missing_rows :: "world \<Rightarrow> str \<Rightarrow> walk \<Rightarrow> missing_dep list" where
  "missing_rows w loader st =
     sort_key ms_target
       (map (\<lambda>(_, d). d\<lparr>ms_needed_by := sort (ms_needed_by d)\<rparr>)
         (filter (\<lambda>(t, _). \<not> answered w loader st t) (wk_missing st)))"

section \<open>Loader eligibility\<close>

text \<open>\<open>None\<close>: never read, or native. Otherwise the row, bridged or not.\<close>

definition bridge_for :: "walk \<Rightarrow> str \<Rightarrow> str option" where
  "bridge_for st t =
     (case map_of (wk_provides st) (''loader:'' @ to_lower t) of
        Some (f # _) \<Rightarrow> Some f
      | _ \<Rightarrow> None)"

fun find_map :: "('a \<Rightarrow> 'b option) \<Rightarrow> 'a list \<Rightarrow> 'b option" where
  "find_map f [] = None"
| "find_map f (x # xs) = (case f x of None \<Rightarrow> find_map f xs | Some y \<Rightarrow> Some y)"

definition loader_row :: "world \<Rightarrow> str \<Rightarrow> walk \<Rightarrow> present \<Rightarrow> loader_mismatch option" where
  "loader_row w loader st a =
     (case pr_mod_version_id a of
        None \<Rightarrow> None
      | Some mv \<Rightarrow>
          (let targets = targets_for_artifact (wd_registry w) mv in
           if targets = [] then None
           else if list_ex (\<lambda>t. t = ''any'' \<or> to_lower t \<in> set (loader_chain (wd_registry w) loader)) targets
             then None
           else Some \<lparr>lm_filename = pr_filename a, lm_artifact_loaders = targets,
                  lm_pack_loader = loader, lm_bridged_by = find_map (bridge_for st) targets\<rparr>))"

definition loader_rows :: "world \<Rightarrow> str \<Rightarrow> walk \<Rightarrow> loader_mismatch list" where
  "loader_rows w loader st = List.map_filter (loader_row w loader st) (wd_present w)"

section \<open>Mixin gaps\<close>

definition starts_with_segment :: "str \<Rightarrow> str \<Rightarrow> bool" where
  "starts_with_segment name pfx \<longleftrightarrow>
     name = pfx \<or> (starts_with name pfx \<and> length pfx < length name \<and> name ! length pfx = CHR ''/'')"

definition common_roots :: "str list" where
  "common_roots =
     [''com'', ''net'', ''org'', ''io'', ''me'', ''dev'', ''gnu'', ''cpw'', ''cn'', ''ru'', ''pl'', ''fr'', ''de'', ''eu'',
      ''co'', ''uk'', ''tv'', ''xyz'', ''info'', ''mod'', ''mods'', ''cc'', ''gg'', ''app'', ''team'', ''site'', ''moe'', ''su'']"

definition stop_prefixes :: "str list" where
  "stop_prefixes =
     [''java'', ''javax'', ''jdk'', ''sun'', ''com/sun'', ''kotlin'', ''scala'', ''groovy'', ''net/minecraft'',
      ''net/minecraftforge'', ''cpw/mods/fml'', ''cpw/mods/modlauncher'', ''net/neoforged'', ''net/fabricmc'',
      ''org/quiltmc'', ''com/mojang'', ''org/lwjgl'', ''org/lwjglx'', ''com/ibm/icu'', ''org/apache'', ''org/slf4j'',
      ''org/objectweb/asm'', ''org/ow2/asm'', ''org/spongepowered'', ''com/google'', ''io/netty'', ''it/unimi/dsi'',
      ''gnu/trove'', ''org/joml'', ''com/typesafe'', ''oshi'', ''org/jline'', ''joptsimple'', ''org/checkerframework'',
      ''org/intellij'', ''org/jetbrains'', ''javassist'', ''paulscode'', ''com/jcraft'']"

definition is_platform :: "str \<Rightarrow> bool" where
  "is_platform binary = list_ex (starts_with_segment binary) stop_prefixes"

text \<open>\<open>rfind('/')\<close> and the slice before it: all segments but the last, joined again.\<close>

definition package_prefix :: "str \<Rightarrow> str option" where
  "package_prefix binary =
     (let segs = butlast (split_on CHR ''/'' binary) in
      if segs = [] \<or> segs = [[]] then None
      else
        let depth = (if hd segs \<in> set common_roots then 3 else 2)
        in Some (join ''/'' (take depth segs)))"

text \<open>Collecting \<open>by_mod\<close> keeps the last declaration of a mod.\<close>

definition gap_for :: "world \<Rightarrow> present \<Rightarrow> str \<times> str \<Rightarrow> mixin_gap option" where
  "gap_for w p cn =
     (case cn of (config, needed) \<Rightarrow>
      if is_platform needed then None
      else case package_prefix needed of None \<Rightarrow> None
      | Some pfx \<Rightarrow>
      (case owner_mod_for_prefix (wd_registry w) pfx of None \<Rightarrow> None
      | Some owner_mod \<Rightarrow>
      if owner_mod = pr_mod_id p then None
      else case hash_of (map (\<lambda>p. (pr_mod_id p, p)) (wd_present w)) owner_mod of None \<Rightarrow> None
      | Some owner \<Rightarrow>
      (case pr_mod_version_id owner of None \<Rightarrow> None
      | Some owner_mv \<Rightarrow>
      if artifact_has_class (wd_registry w) owner_mv needed = Some False
      then Some \<lparr>mg_filename = pr_filename p, mg_config = config, mg_needed = needed,
             mg_owner = pr_filename owner\<rparr>
      else None)))"

definition mixin_gaps_of :: "world \<Rightarrow> mixin_gap list" where
  "mixin_gaps_of w =
     sort_key (\<lambda>g. (mg_filename g, mg_needed g))
       (concat (map (\<lambda>p. case pr_mod_version_id p of None \<Rightarrow> []
          | Some mv \<Rightarrow> List.map_filter (gap_for w p) (mixin_needs (wd_registry w) mv)) (wd_present w)))"

section \<open>The report of a pack\<close>

definition world_of :: "registry \<Rightarrow> pack_config \<Rightarrow> world" where
  "world_of rg cfg = (let pl = place_mods rg cfg in
     \<lparr>wd_registry = rg, wd_present = pl_present pl, wd_pinned = pl_pinned_projects pl\<rparr>)"

definition sided :: "world \<Rightarrow> present list" where
  "sided w = filter (\<lambda>p. \<not> is_non_mod (class_of w (pr_mod_id p))) (wd_present w)"

definition resolve_pack :: "registry \<Rightarrow> pack_config \<Rightarrow> resolve_report" where
  "resolve_pack rg cfg =
     (let pl = place_mods rg cfg; w = world_of rg cfg; st = walk_all w;
          loader = ls_name (cf_loader cfg); rows = loader_rows w loader st
      in \<lparr>rr_declared_mods = length (cf_mods cfg),
          rr_resolved_mods = length (pl_present pl) + length (pl_pinned_projects pl),
          rr_missing = missing_rows w loader st,
          rr_conflicts = sort_key (\<lambda>c. (ac_a c, ac_b c)) (wk_conflicts st),
          rr_optional_conflicts = sort_key (\<lambda>c. (ac_a c, ac_b c)) (wk_optional_conflicts st),
          rr_overlaps = map (\<lambda>(c, fns). \<lparr>co_capability = c, co_mods = fns\<rparr>)
            (filter (\<lambda>(_, fns). 2 \<le> length fns) (wk_provides st)),
          rr_version_issues = sort_key (\<lambda>v. (vi_filename v, vi_target v)) (wk_version_issues st),
          rr_loader_version_issues = [],
          rr_loader_mismatch = sort_key lm_filename (filter (\<lambda>r. lm_bridged_by r = None) rows),
          rr_mixin_gaps = mixin_gaps_of w,
          rr_loader_bridged = sort_key lm_filename (filter (\<lambda>r. lm_bridged_by r \<noteq> None) rows),
          rr_unresolved = dedup (sort (pl_unresolved pl)),
          rr_version_windows_unchecked = wk_unchecked st,
          rr_coremods = sort (pl_non_mods pl @
            map pr_filename (filter (\<lambda>p. is_non_mod (class_of w (pr_mod_id p))) (pl_present pl))),
          rr_unclassified = sort (map pr_filename
            (filter (\<lambda>p. cn_policy (class_of w (pr_mod_id p)) = None) (sided w))),
          rr_side_disagreements = sort_key sc_filename
            (List.map_filter (\<lambda>p. map_option (\<lambda>(win, bc). \<lparr>sc_filename = pr_filename p,
                sc_modrinth_side = side_as_str win, sc_bytecode_side = side_as_str bc\<rparr>)
              (side_disagreement (class_of w (pr_mod_id p)))) (sided w)),
          rr_forced_client_attempts =
            map (\<lambda>(_, f). f\<lparr>fe_needed_by := dedup (sort (fe_needed_by f))\<rparr>) (wk_forced_client st),
          rr_server_side = sort (map pr_filename
            (filter (\<lambda>p. cn_side (class_of w (pr_mod_id p)) = Some Server) (sided w))),
          rr_suggestions = wk_suggestions st\<rparr>)"

section \<open>Lemmas on the walk\<close>

definition misses :: "world \<Rightarrow> relation_row \<Rightarrow> bool" where
  "misses w e \<longleftrightarrow> rl_kind e = Requires \<and> \<not> edge_downgraded w e \<and> target_of w (rl_target e) = None \<and>
     \<not> is_loader_dep (rl_target e) \<and> \<not> pin_covers w (rl_target e)"

abbreviation run_steps :: "world \<Rightarrow> (nat \<times> relation_row) list \<Rightarrow> walk" where
  "run_steps w xs \<equiv> fold (\<lambda>(ai, e). walk_edge w ai e) xs walk_start_state"

lemmas walk_edge_defs =
  walk_edge_def walk_requires_def walk_conflicts_def walk_provides_def walk_recommends_def
  check_window_def note_forced_client_def note_missing_def Let_def

lemma check_window_frame [simp]:
  "wk_missing (check_window a b e st) = wk_missing st"
  "wk_provides (check_window a b e st) = wk_provides st"
  "wk_conflicts (check_window a b e st) = wk_conflicts st"
  "wk_optional_conflicts (check_window a b e st) = wk_optional_conflicts st"
  "wk_conflict_seen (check_window a b e st) = wk_conflict_seen st"
  by (simp_all add: check_window_def split: option.split bool.split)

lemma note_forced_client_frame [simp]:
  "wk_missing (note_forced_client w a b e st) = wk_missing st"
  "wk_provides (note_forced_client w a b e st) = wk_provides st"
  "wk_conflicts (note_forced_client w a b e st) = wk_conflicts st"
  "wk_optional_conflicts (note_forced_client w a b e st) = wk_optional_conflicts st"
  "wk_conflict_seen (note_forced_client w a b e st) = wk_conflict_seen st"
  by (simp_all add: note_forced_client_def Let_def)

lemma note_missing_frame [simp]:
  "wk_provides (note_missing a e st) = wk_provides st"
  "wk_conflicts (note_missing a e st) = wk_conflicts st"
  "wk_optional_conflicts (note_missing a e st) = wk_optional_conflicts st"
  "wk_conflict_seen (note_missing a e st) = wk_conflict_seen st"
  by (simp_all add: note_missing_def Let_def)

lemma walk_edge_missing:
  "wk_missing (walk_edge w ai e st) =
     (if misses w e then wk_missing (note_missing (wd_present w ! ai) e st) else wk_missing st)"
  by (cases "rl_kind e")
    (auto simp: misses_def walk_edge_def walk_requires_def walk_conflicts_def walk_provides_def
      walk_recommends_def Let_def split: option.split)

lemma walk_edge_provides:
  "wk_provides (walk_edge w ai e st) =
     (if rl_kind e = Provides then wk_provides (walk_provides (wd_present w ! ai) e st) else wk_provides st)"
  by (cases "rl_kind e")
    (auto simp: walk_edge_def walk_requires_def walk_conflicts_def walk_recommends_def Let_def
      split: option.split)

lemma run_steps_snoc: "run_steps w (xs @ [(ai, e)]) = walk_edge w ai e (run_steps w xs)"
  by simp

definition missing_steps :: "world \<Rightarrow> str \<Rightarrow> (nat \<times> relation_row) list \<Rightarrow> (nat \<times> relation_row) list" where
  "missing_steps w t = filter (\<lambda>(ai, e). misses w e \<and> rl_target e = t)"

definition missing_entry :: "world \<Rightarrow> str \<Rightarrow> (nat \<times> relation_row) list \<Rightarrow> missing_dep" where
  "missing_entry w t steps = \<lparr>ms_target = t,
     ms_needed_by = map (\<lambda>(ai, _). pr_filename (wd_present w ! ai)) steps,
     ms_version_range = rl_version_range (snd (hd steps)),
     ms_source = rel_source_as_str (rl_source (snd (hd steps))),
     ms_reason = (if starts_with t ''external:'' then Some ''external'' else None)\<rparr>"

lemma missing_after:
  "map_of (wk_missing (run_steps w xs)) t =
     (if missing_steps w t xs = [] then None else Some (missing_entry w t (missing_steps w t xs)))"
proof (induction xs rule: rev_induct)
  case Nil
  then show ?case by (simp add: walk_start_state_def missing_steps_def)
next
  case (snoc x xs)
  obtain ai e where x: "x = (ai, e)" by (cases x)
  show ?case
  proof (cases "misses w e \<and> rl_target e = t")
    case True
    then show ?thesis
      unfolding x run_steps_snoc walk_edge_missing
      using snoc by (auto simp: note_missing_def Let_def map_of_bt_insert missing_steps_def
          missing_entry_def hd_append split: if_splits)
  next
    case False
    then show ?thesis
      unfolding x run_steps_snoc walk_edge_missing
      using snoc by (auto simp: note_missing_def Let_def map_of_bt_insert missing_steps_def)
  qed
qed

lemma missing_ok: "bt_ok (wk_missing (run_steps w xs))"
proof (induction xs rule: rev_induct)
  case Nil
  then show ?case by (simp add: walk_start_state_def bt_ok_def)
next
  case (snoc x xs)
  then show ?case
    by (cases x) (simp add: walk_edge_missing note_missing_def Let_def bt_ok_insert)
qed

lemma provides_after:
  "set (case map_of (wk_provides (run_steps w xs)) t of None \<Rightarrow> [] | Some fs \<Rightarrow> fs) =
     {pr_filename (wd_present w ! ai) | ai e. (ai, e) \<in> set xs \<and> rl_kind e = Provides \<and> rl_target e = t} \<and>
   map_of (wk_provides (run_steps w xs)) t \<noteq> Some []"
proof (induction xs rule: rev_induct)
  case Nil
  then show ?case by (simp add: walk_start_state_def)
next
  case (snoc x xs)
  obtain ai e where x: "x = (ai, e)" by (cases x)
  show ?case
  proof (cases "rl_kind e = Provides \<and> rl_target e = t")
    case True
    have "insort_insert f l \<noteq> []" for f :: str and l
      by (metis insertI1 list.set(1) set_insort_insert empty_iff)
    with True snoc show ?thesis
      unfolding x run_steps_snoc walk_edge_provides
      by (auto simp: walk_provides_def Let_def map_of_bt_insert set_insort_insert)
  next
    case False
    with snoc show ?thesis
      unfolding x run_steps_snoc walk_edge_provides
      by (auto simp: walk_provides_def Let_def map_of_bt_insert)
  qed
qed

lemma provides_keys:
  "t \<in> fst ` set (wk_provides (run_steps w xs)) \<longleftrightarrow>
     (\<exists>ai e. (ai, e) \<in> set xs \<and> rl_kind e = Provides \<and> rl_target e = t)"
proof -
  have "t \<in> fst ` set (wk_provides (run_steps w xs)) \<longleftrightarrow> map_of (wk_provides (run_steps w xs)) t \<noteq> None"
    by (simp add: map_of_eq_None_iff)
  also have "\<dots> \<longleftrightarrow> set (case map_of (wk_provides (run_steps w xs)) t of None \<Rightarrow> [] | Some fs \<Rightarrow> fs) \<noteq> {}"
    using conjunct2 [OF provides_after, of w xs t]
    by (cases "map_of (wk_provides (run_steps w xs)) t") auto
  also have "\<dots> \<longleftrightarrow> (\<exists>ai e. (ai, e) \<in> set xs \<and> rl_kind e = Provides \<and> rl_target e = t)"
    unfolding conjunct1 [OF provides_after] by blast
  finally show ?thesis .
qed

lemma in_walk_steps:
  "(ai, e) \<in> set (walk_steps w) \<longleftrightarrow> ai < length (wd_present w) \<and> e \<in> set (authoritative w ai)"
  by (auto simp: walk_steps_def)

lemma in_missing_rows:
  "d \<in> set (missing_rows w loader (run_steps w xs)) \<longleftrightarrow>
     (\<exists>t. missing_steps w t xs \<noteq> [] \<and> \<not> answered w loader (run_steps w xs) t \<and>
       d = (missing_entry w t (missing_steps w t xs))\<lparr>ms_needed_by :=
             sort (ms_needed_by (missing_entry w t (missing_steps w t xs)))\<rparr>)"
proof -
  have "(t, d') \<in> set (wk_missing (run_steps w xs)) \<longleftrightarrow>
      missing_steps w t xs \<noteq> [] \<and> d' = missing_entry w t (missing_steps w t xs)" for t d'
    unfolding bt.entries_iff [OF missing_ok] missing_after by auto
  then show ?thesis by (auto simp: missing_rows_def image_iff)
qed

lemma answered_walk:
  "answered w loader (walk_all w) t \<longleftrightarrow>
     (\<exists>ai < length (wd_present w). \<exists>e \<in> set (authoritative w ai). rl_kind e = Provides \<and> rl_target e = t) \<or>
     before CHR ''@'' t \<in> set (loader_provided_capabilities (wd_registry w) loader) \<or>
     before CHR ''@'' t \<in> set (bridged_api_provided (wd_registry w) (wd_present w))"
  unfolding answered_def walk_all_def provides_keys in_walk_steps by blast

text \<open>Conflicts: every pair is recorded once, and what is recorded is a pair of placed mods.\<close>

definition conflict_of :: "world \<Rightarrow> nat \<times> nat \<Rightarrow> active_conflict \<Rightarrow> bool" where
  "conflict_of w p c \<longleftrightarrow>
     fst p \<le> snd p \<and> snd p < length (wd_present w) \<and>
     ((ac_a c, ac_b c) = (pr_filename (wd_present w ! fst p), pr_filename (wd_present w ! snd p)) \<or>
      (ac_a c, ac_b c) = (pr_filename (wd_present w ! snd p), pr_filename (wd_present w ! fst p)))"

definition both_on :: "world \<Rightarrow> nat \<times> nat \<Rightarrow> bool" where
  "both_on w p \<longleftrightarrow> pr_default_enabled (wd_present w ! fst p) \<and> pr_default_enabled (wd_present w ! snd p)"

definition conflicts_ok :: "world \<Rightarrow> walk \<Rightarrow> bool" where
  "conflicts_ok w st \<longleftrightarrow>
     distinct (wk_conflict_seen st) \<and>
     list_all2 (conflict_of w) (filter (both_on w) (rev (wk_conflict_seen st))) (wk_conflicts st) \<and>
     list_all2 (conflict_of w) (filter (\<lambda>p. \<not> both_on w p) (rev (wk_conflict_seen st)))
       (wk_optional_conflicts st)"

lemma target_index_Some: "target_index rg ps t = Some i \<Longrightarrow> i < length ps"
  by (auto simp: target_index_def bind_eq_Some_conv dest: by_mod_id_Some)

lemma walk_edge_conflicts_frame:
  "rl_kind e \<noteq> Conflicts \<Longrightarrow>
     wk_conflict_seen (walk_edge w ai e st) = wk_conflict_seen st \<and>
     wk_conflicts (walk_edge w ai e st) = wk_conflicts st \<and>
     wk_optional_conflicts (walk_edge w ai e st) = wk_optional_conflicts st"
  by (cases "rl_kind e")
    (auto simp: walk_edge_def walk_requires_def walk_provides_def walk_recommends_def Let_def
      split: option.split)

lemma walk_conflicts_ok:
  assumes "ai < length (wd_present w)" and "conflicts_ok w st"
  shows "conflicts_ok w (walk_conflicts w ai e st)"
proof (cases "target_of w (rl_target e)")
  case None
  with assms show ?thesis by (simp add: walk_conflicts_def)
next
  case (Some bi)
  then have bi: "bi < length (wd_present w)" by (rule target_index_Some)
  let ?p = "if ai < bi then (ai, bi) else (bi, ai)"
  let ?c = "\<lparr>ac_a = pr_filename (wd_present w ! ai), ac_b = pr_filename (wd_present w ! bi),
     ac_hard = (rl_severity e \<noteq> Some Soft), ac_source = rel_source_as_str (rl_source e)\<rparr>"
  have c: "conflict_of w ?p ?c" using assms(1) bi by (auto simp: conflict_of_def)
  have on: "both_on w ?p \<longleftrightarrow> pr_default_enabled (wd_present w ! ai) \<and> pr_default_enabled (wd_present w ! bi)"
    by (auto simp: both_on_def)
  show ?thesis
  proof (cases "?p \<in> set (wk_conflict_seen st)")
    case True
    then have "walk_conflicts w ai e st = st" unfolding walk_conflicts_def Some by (simp add: Let_def)
    with assms show ?thesis by simp
  next
    case False
    then show ?thesis
      using assms(2) c on unfolding walk_conflicts_def Some
      by (auto simp: Let_def conflicts_ok_def intro!: list_all2_appendI)
  qed
qed

lemma run_conflicts_ok:
  "\<forall>(ai, e) \<in> set xs. ai < length (wd_present w) \<Longrightarrow> conflicts_ok w (run_steps w xs)"
proof (induction xs rule: rev_induct)
  case Nil
  then show ?case by (simp add: conflicts_ok_def walk_start_state_def)
next
  case (snoc x xs)
  obtain ai e where x: "x = (ai, e)" by (cases x)
  from snoc have IH: "conflicts_ok w (run_steps w xs)" and ai: "ai < length (wd_present w)"
    by (auto simp: x)
  show ?case
  proof (cases "rl_kind e = Conflicts")
    case True
    then show ?thesis
      unfolding x run_steps_snoc using walk_conflicts_ok [OF ai IH, of e]
      by (simp add: walk_edge_def Let_def)
  next
    case False
    then show ?thesis
      unfolding x run_steps_snoc using walk_edge_conflicts_frame [OF False, of w ai "run_steps w xs"] IH
      by (simp add: conflicts_ok_def)
  qed
qed

section \<open>Properties\<close>

definition requirers :: "world \<Rightarrow> str \<Rightarrow> str set" where
  "requirers w t = {pr_filename (wd_present w ! ai) | ai e.
     ai < length (wd_present w) \<and> e \<in> set (authoritative w ai) \<and> misses w e \<and> rl_target e = t}"

definition provided :: "world \<Rightarrow> str \<Rightarrow> bool" where
  "provided w t \<longleftrightarrow> (\<exists>ai < length (wd_present w). \<exists>e \<in> set (authoritative w ai).
     rl_kind e = Provides \<and> rl_target e = t)"

lemma rr_missing_eq:
  "rr_missing (resolve_pack rg cfg) =
     missing_rows (world_of rg cfg) (ls_name (cf_loader cfg)) (walk_all (world_of rg cfg))"
  by (simp add: resolve_pack_def Let_def)

lemma requirers_steps:
  "requirers w t = set (ms_needed_by (missing_entry w t (missing_steps w t (walk_steps w))))"
  "requirers w t = {} \<longleftrightarrow> missing_steps w t (walk_steps w) = []"
proof -
  have s: "(ai, e) \<in> set (missing_steps w t (walk_steps w)) \<longleftrightarrow>
      ai < length (wd_present w) \<and> e \<in> set (authoritative w ai) \<and> misses w e \<and> rl_target e = t" for ai e
    by (auto simp: missing_steps_def in_walk_steps)
  have "requirers w t = (\<lambda>(ai, _). pr_filename (wd_present w ! ai)) ` set (missing_steps w t (walk_steps w))"
  proof (intro set_eqI iffI)
    fix f assume "f \<in> requirers w t"
    then obtain ai e where "f = pr_filename (wd_present w ! ai)" "(ai, e) \<in> set (missing_steps w t (walk_steps w))"
      by (auto simp: requirers_def s)
    then show "f \<in> (\<lambda>(ai, _). pr_filename (wd_present w ! ai)) ` set (missing_steps w t (walk_steps w))"
      by (intro image_eqI [of _ _ "(ai, e)"]) simp_all
  next
    fix f assume "f \<in> (\<lambda>(ai, _). pr_filename (wd_present w ! ai)) ` set (missing_steps w t (walk_steps w))"
    then obtain ai e where "f = pr_filename (wd_present w ! ai)" "(ai, e) \<in> set (missing_steps w t (walk_steps w))"
      by auto
    then show "f \<in> requirers w t" unfolding s requirers_def by blast
  qed
  then show "requirers w t = set (ms_needed_by (missing_entry w t (missing_steps w t (walk_steps w))))"
    "requirers w t = {} \<longleftrightarrow> missing_steps w t (walk_steps w) = []"
    by (simp_all add: missing_entry_def)
qed

text \<open>C6: what the report calls missing. A target is in the report, with exactly its requirers, when
  some placed mod's authoritative edge requires it and is not downgraded, no placed mod and no pin
  covers it and it is not the loader, and neither a placed mod's capability, the loader's own
  nor a bridged API answers it. The rows are sorted by target.\<close>

theorem missing_reported_iff:
  "((\<exists>d \<in> set (rr_missing (resolve_pack rg cfg)). ms_target d = t \<and>
       set (ms_needed_by d) = requirers (world_of rg cfg) t) \<longleftrightarrow>
    requirers (world_of rg cfg) t \<noteq> {} \<and> \<not> provided (world_of rg cfg) t \<and>
    before CHR ''@'' t \<notin> set (loader_provided_capabilities rg (ls_name (cf_loader cfg))) \<and>
    before CHR ''@'' t \<notin> set (bridged_api_provided rg (pl_present (place_mods rg cfg)))) \<and>
   (t \<in> ms_target ` set (rr_missing (resolve_pack rg cfg)) \<longleftrightarrow>
    (\<exists>d \<in> set (rr_missing (resolve_pack rg cfg)). ms_target d = t \<and>
       set (ms_needed_by d) = requirers (world_of rg cfg) t)) \<and>
   sorted (map ms_target (rr_missing (resolve_pack rg cfg)))"
proof -
  let ?w = "world_of rg cfg" and ?l = "ls_name (cf_loader cfg)"
  let ?e = "\<lambda>t. missing_entry ?w t (missing_steps ?w t (walk_steps ?w))"
  have rows: "d \<in> set (rr_missing (resolve_pack rg cfg)) \<longleftrightarrow>
      (\<exists>t. requirers ?w t \<noteq> {} \<and> \<not> answered ?w ?l (walk_all ?w) t \<and>
        d = (?e t)\<lparr>ms_needed_by := sort (ms_needed_by (?e t))\<rparr>)" for d
    unfolding rr_missing_eq requirers_steps(2) walk_all_def by (rule in_missing_rows)
  have tgt: "ms_target (?e t) = t" for t by (simp add: missing_entry_def)
  have w: "wd_registry ?w = rg" "wd_present ?w = pl_present (place_mods rg cfg)"
    by (simp_all add: world_of_def Let_def)
  have iff: "(\<exists>d \<in> set (rr_missing (resolve_pack rg cfg)). ms_target d = t \<and>
      set (ms_needed_by d) = requirers ?w t) \<longleftrightarrow> requirers ?w t \<noteq> {} \<and> \<not> answered ?w ?l (walk_all ?w) t"
    unfolding Bex_def rows using tgt requirers_steps(1) by fastforce
  have mem: "t \<in> ms_target ` set (rr_missing (resolve_pack rg cfg)) \<longleftrightarrow>
      requirers ?w t \<noteq> {} \<and> \<not> answered ?w ?l (walk_all ?w) t"
    unfolding image_iff Bex_def rows using tgt by fastforce
  have "sorted (map ms_target (rr_missing (resolve_pack rg cfg)))"
    unfolding rr_missing_eq missing_rows_def by simp
  with iff mem show ?thesis
    unfolding answered_walk provided_def w by blast
qed

text \<open>a conflict between two placed mods is reported once. There is a duplicate-free list of
  pairs of placed mods such that the live conflicts are, up to order, one for each pair with both
  mods in the default install, and the optional ones one for each other pair.\<close>

theorem conflicts_reported_once:
  "\<exists>pairs. distinct pairs \<and>
     (\<exists>cs. set cs = set (rr_conflicts (resolve_pack rg cfg)) \<and>
        length cs = length (rr_conflicts (resolve_pack rg cfg)) \<and>
        list_all2 (conflict_of (world_of rg cfg)) (filter (both_on (world_of rg cfg)) pairs) cs) \<and>
     (\<exists>cs. set cs = set (rr_optional_conflicts (resolve_pack rg cfg)) \<and>
        length cs = length (rr_optional_conflicts (resolve_pack rg cfg)) \<and>
        list_all2 (conflict_of (world_of rg cfg)) (filter (\<lambda>p. \<not> both_on (world_of rg cfg) p) pairs) cs)"
proof -
  let ?w = "world_of rg cfg"
  have "conflicts_ok ?w (walk_all ?w)"
    unfolding walk_all_def by (rule run_conflicts_ok) (auto simp: in_walk_steps)
  then have "distinct (rev (wk_conflict_seen (walk_all ?w)))"
    "list_all2 (conflict_of ?w) (filter (both_on ?w) (rev (wk_conflict_seen (walk_all ?w)))) (wk_conflicts (walk_all ?w))"
    "list_all2 (conflict_of ?w) (filter (\<lambda>p. \<not> both_on ?w p) (rev (wk_conflict_seen (walk_all ?w))))
      (wk_optional_conflicts (walk_all ?w))"
    by (simp_all add: conflicts_ok_def)
  moreover have "rr_conflicts (resolve_pack rg cfg) = sort_key (\<lambda>c. (ac_a c, ac_b c)) (wk_conflicts (walk_all ?w))"
    "rr_optional_conflicts (resolve_pack rg cfg) =
      sort_key (\<lambda>c. (ac_a c, ac_b c)) (wk_optional_conflicts (walk_all ?w))"
    by (simp_all add: resolve_pack_def Let_def)
  ultimately show ?thesis
    by (intro exI [of _ "rev (wk_conflict_seen (walk_all ?w))"] conjI exI [of _ "wk_conflicts (walk_all ?w)"]
        exI [of _ "wk_optional_conflicts (walk_all ?w)"]) simp_all
qed

lemma find_map_None: "find_map f xs = None \<longleftrightarrow> (\<forall>x \<in> set xs. f x = None)"
  by (induction xs) (auto split: option.split)

lemma in_loader_rows:
  "r \<in> set (loader_rows w loader st) \<longleftrightarrow> (\<exists>p \<in> set (wd_present w). loader_row w loader st p = Some r)"
proof -
  have "r \<in> set (List.map_filter f xs) \<longleftrightarrow> (\<exists>p \<in> set xs. f p = Some r)" for f :: "present \<Rightarrow> _" and xs
    by (induction xs) (auto simp: List.map_filter_simps split: option.splits)
  then show ?thesis by (simp add: loader_rows_def)
qed

lemma bridge_for_None:
  "bridge_for (walk_all w) t = None \<longleftrightarrow> \<not> provided w (''loader:'' @ to_lower t)"
proof -
  let ?k = "''loader:'' @ to_lower t"
  have "bridge_for (walk_all w) t = None \<longleftrightarrow> map_of (wk_provides (walk_all w)) ?k = None"
    using conjunct2 [OF provides_after, of w "walk_steps w" ?k]
    by (auto simp: bridge_for_def walk_all_def split: option.splits list.splits)
  also have "\<dots> \<longleftrightarrow> ?k \<notin> fst ` set (wk_provides (walk_all w))" by (rule map_of_eq_None_iff)
  finally show ?thesis
    unfolding walk_all_def provides_keys in_walk_steps provided_def by blast
qed

definition foreign :: "registry \<Rightarrow> str \<Rightarrow> present \<Rightarrow> bool" where
  "foreign rg loader p \<longleftrightarrow>
     (\<exists>mv. pr_mod_version_id p = Some mv \<and> targets_for_artifact rg mv \<noteq> [] \<and>
       \<not> list_ex (\<lambda>t. t = ''any'' \<or> to_lower t \<in> set (loader_chain rg loader)) (targets_for_artifact rg mv))"

definition has_bridge :: "world \<Rightarrow> present \<Rightarrow> bool" where
  "has_bridge w p \<longleftrightarrow>
     (\<exists>mv. pr_mod_version_id p = Some mv \<and>
       list_ex (\<lambda>t. provided w (''loader:'' @ to_lower t)) (targets_for_artifact (wd_registry w) mv))"

lemma loader_row_cases:
  "loader_row w loader (walk_all w) p = Some r \<Longrightarrow>
     foreign (wd_registry w) loader p \<and> lm_filename r = pr_filename p \<and>
     (lm_bridged_by r = None \<longleftrightarrow> \<not> has_bridge w p)"
  by (auto simp: loader_row_def Let_def foreign_def has_bridge_def find_map_None bridge_for_None
      list_ex_iff split: option.splits if_splits)

lemma loader_row_foreign:
  "foreign (wd_registry w) loader p \<Longrightarrow> \<exists>r. loader_row w loader (walk_all w) p = Some r"
  by (auto simp: loader_row_def Let_def foreign_def)

lemma loader_sets:
  "lm_filename ` set (rr_loader_mismatch (resolve_pack rg cfg)) =
     {pr_filename p | p. p \<in> set (pl_present (place_mods rg cfg)) \<and>
        foreign rg (ls_name (cf_loader cfg)) p \<and> \<not> has_bridge (world_of rg cfg) p} \<and>
   lm_filename ` set (rr_loader_bridged (resolve_pack rg cfg)) =
     {pr_filename p | p. p \<in> set (pl_present (place_mods rg cfg)) \<and>
        foreign rg (ls_name (cf_loader cfg)) p \<and> has_bridge (world_of rg cfg) p}"
proof -
  let ?w = "world_of rg cfg" and ?l = "ls_name (cf_loader cfg)"
  let ?rows = "loader_rows ?w ?l (walk_all ?w)"
  have w: "wd_registry ?w = rg" "wd_present ?w = pl_present (place_mods rg cfg)"
    by (simp_all add: world_of_def Let_def)
  have eq: "lm_filename ` {r \<in> set ?rows. (lm_bridged_by r = None) = b} =
      {pr_filename p | p. p \<in> set (wd_present ?w) \<and> foreign (wd_registry ?w) ?l p \<and> (\<not> has_bridge ?w p) = b}" for b
  proof (intro set_eqI iffI)
    fix f assume "f \<in> lm_filename ` {r \<in> set ?rows. (lm_bridged_by r = None) = b}"
    then obtain r p where "f = lm_filename r" "p \<in> set (wd_present ?w)"
      "loader_row ?w ?l (walk_all ?w) p = Some r" "(lm_bridged_by r = None) = b"
      by (auto simp: in_loader_rows)
    with loader_row_cases [OF this(3)]
    show "f \<in> {pr_filename p | p. p \<in> set (wd_present ?w) \<and> foreign (wd_registry ?w) ?l p \<and> (\<not> has_bridge ?w p) = b}"
      by (intro CollectI exI [of _ p]) simp
  next
    fix f assume "f \<in> {pr_filename p | p. p \<in> set (wd_present ?w) \<and> foreign (wd_registry ?w) ?l p \<and> (\<not> has_bridge ?w p) = b}"
    then obtain p where p: "f = pr_filename p" "p \<in> set (wd_present ?w)" "foreign (wd_registry ?w) ?l p"
      "(\<not> has_bridge ?w p) = b" by blast
    from loader_row_foreign [OF p(3)] obtain r where r: "loader_row ?w ?l (walk_all ?w) p = Some r" by blast
    then have "r \<in> set ?rows" using p(2) in_loader_rows by blast
    with p loader_row_cases [OF r] show "f \<in> lm_filename ` {r \<in> set ?rows. (lm_bridged_by r = None) = b}"
      by (intro image_eqI [of _ _ r]) simp_all
  qed
  have "set (rr_loader_mismatch (resolve_pack rg cfg)) = {r \<in> set ?rows. (lm_bridged_by r = None) = True}"
    "set (rr_loader_bridged (resolve_pack rg cfg)) = {r \<in> set ?rows. (lm_bridged_by r = None) = False}"
    by (simp_all add: resolve_pack_def Let_def)
  with eq [of True] eq [of False] show ?thesis unfolding w by simp
qed

lemmas mismatch_set = conjunct1 [OF loader_sets]


text \<open>an artifact the pack's loader cannot run is called a mismatch exactly when nothing present
  bridges one of its loaders: a row of the mismatch list is a placed artifact with known loaders,
  none of them the universal one or in the loader's ancestry, and no placed mod providing any of
  them; the bridged list holds the others.\<close>

theorem loader_mismatch_iff_unbridged:
  "lm_filename ` set (rr_loader_mismatch (resolve_pack rg cfg)) =
     {pr_filename p | p. p \<in> set (pl_present (place_mods rg cfg)) \<and>
        foreign rg (ls_name (cf_loader cfg)) p \<and> \<not> has_bridge (world_of rg cfg) p} \<and>
   lm_filename ` set (rr_loader_bridged (resolve_pack rg cfg)) =
     {pr_filename p | p. p \<in> set (pl_present (place_mods rg cfg)) \<and>
        foreign rg (ls_name (cf_loader cfg)) p \<and> has_bridge (world_of rg cfg) p}"
  by (rule loader_sets)

text \<open>The gate's inputs as functions of the walk, for evaluation.\<close>

lemma resolve_pack_gate_fields:
  "rr_loader_mismatch (resolve_pack rg cfg) = sort_key lm_filename (filter (\<lambda>r. lm_bridged_by r = None)
     (loader_rows (world_of rg cfg) (ls_name (cf_loader cfg)) (walk_all (world_of rg cfg))))"
  "rr_mixin_gaps (resolve_pack rg cfg) = mixin_gaps_of (world_of rg cfg)"
  "rr_version_issues (resolve_pack rg cfg) =
     sort_key (\<lambda>v. (vi_filename v, vi_target v)) (wk_version_issues (walk_all (world_of rg cfg)))"
  "rr_loader_version_issues (resolve_pack rg cfg) = []"
  "rr_unresolved (resolve_pack rg cfg) = dedup (sort (pl_unresolved (place_mods rg cfg)))"
  by (simp_all add: resolve_pack_def Let_def)

lemmas resolve_pack_fields = rr_missing_eq resolve_pack_gate_fields

end
