(* ===== verification/Gate.thy ===== *)
theory Gate
  imports Resolve
begin

text \<open>
  The publish gate (\<open>src/src/authoring/gate.rs\<close>): a resolve report becomes the blocking and the
  advisory lines of a build. The sentences are the source's.
\<close>

definition declared :: "str \<Rightarrow> bool" where
  "declared source \<longleftrightarrow> \<not> (source = ''inferred'' \<or> source = ''harvested'')"

definition missing_line :: "missing_dep \<Rightarrow> str" where
  "missing_line m =
     (let window = (case ms_version_range m of None \<Rightarrow> [] | Some r \<Rightarrow> '' '' @ r);
          reason = (if ms_reason m = Some ''external''
            then '' (it lives outside both Modrinth and the mirror)'' else [])
      in ''unmet hard dependency: '' @ ms_target m @ window @ '' -- required by '' @
         join '', '' (ms_needed_by m) @ '' ('' @ ms_source m @ '')'' @ reason)"

definition guessed_line :: "missing_dep \<Rightarrow> str" where
  "guessed_line m = missing_line m @
     ''; derived from bytecode, so it may be an optional integration rather than a dependency''"

definition loader_line :: "loader_mismatch \<Rightarrow> str" where
  "loader_line l = lm_filename l @ '' is built for '' @ join ''/'' (lm_artifact_loaders l) @
     '' -- this pack runs '' @ lm_pack_loader l @ '' and nothing present bridges it''"

definition gap_line :: "mixin_gap \<Rightarrow> str" where
  "gap_line g = mg_filename g @ '' patches '' @ mg_needed g @ '', which the '' @ mg_owner g @
     '' in this pack no longer has ('' @ mg_config g @ '')''"

definition conflict_word :: "active_conflict \<Rightarrow> str" where
  "conflict_word c = (if ac_hard c then ''incompatible'' else ''discouraged together'')"

definition conflict_line :: "active_conflict \<Rightarrow> str" where
  "conflict_line c = ac_a c @ '' and '' @ ac_b c @ '' are marked '' @ conflict_word c @ '' ('' @
     ac_source c @ ''), and both are enabled by default''"

definition optional_conflict_line :: "active_conflict \<Rightarrow> str" where
  "optional_conflict_line c = ac_a c @ '' and '' @ ac_b c @ '' are marked '' @ conflict_word c @ '' ('' @
     ac_source c @ ''); one ships opted out, so it only bites if that one is enabled''"

definition version_line :: "version_issue \<Rightarrow> str" where
  "version_line v = vi_filename v @ '' ships '' @ vi_present_version v @ '' for '' @ vi_target v @
     '', outside the '' @ vi_required_range v @ '' that '' @ join '', '' (vi_needed_by v) @ '' declares''"

definition loader_version_line :: "loader_version_issue \<Rightarrow> str" where
  "loader_version_line l = li_filename l @ '' needs '' @ li_loader l @ '' '' @ li_required_range l @
     '', and this pack pins '' @ li_pack_version l"

definition forced_line :: "forced_client_edge \<Rightarrow> str" where
  "forced_line f = fe_filename f @ '' is client-side, and '' @ join '', '' (fe_needed_by f) @
     '' declares a hard dependency on it ('' @ fe_source f @
     '') -- a client mod is never force-installed, so that dependency is not enforced''"

definition unresolved_lines :: "str list \<Rightarrow> str list" where
  "unresolved_lines us =
     (if us \<noteq> [] then
        [''not identified in the registry, so nothing above was checked for '' @
         show_nat (length us) @ '': '' @ join '', '' us]
      else [])"

definition check :: "resolve_report \<Rightarrow> build_checks" where
  "check r = \<lparr>
     bc_blocking =
       map missing_line (filter (\<lambda>m. declared (ms_source m)) (rr_missing r)) @
       map loader_line (rr_loader_mismatch r) @
       map gap_line (rr_mixin_gaps r) @
       map version_line (rr_version_issues r) @
       map loader_version_line (rr_loader_version_issues r),
     bc_advisory =
       map guessed_line (filter (\<lambda>m. \<not> declared (ms_source m)) (rr_missing r)) @
       map conflict_line (rr_conflicts r) @
       map optional_conflict_line (rr_optional_conflicts r) @
       map forced_line (rr_forced_client_attempts r) @
       unresolved_lines (rr_unresolved r),
     bc_overridden = False\<rparr>"

section \<open>Properties\<close>

lemma check_blocks_iff:
  "(bc_blocking (check r) = [] \<longleftrightarrow>
      list_all (\<lambda>m. \<not> declared (ms_source m)) (rr_missing r) \<and> rr_loader_mismatch r = [] \<and>
      rr_mixin_gaps r = [] \<and> rr_version_issues r = [] \<and> rr_loader_version_issues r = []) \<and>
   length (bc_blocking (check r)) + length (bc_advisory (check r)) =
      length (rr_missing r) + length (rr_loader_mismatch r) + length (rr_mixin_gaps r) +
      length (rr_version_issues r) + length (rr_loader_version_issues r) + length (rr_conflicts r) +
      length (rr_optional_conflicts r) + length (rr_forced_client_attempts r) +
      (if rr_unresolved r = [] then 0 else 1)"
proof -
  have "length (filter P xs) + length (filter (\<lambda>m. \<not> P m) xs) = length xs" for P and xs :: "missing_dep list"
    by (rule sum_length_filter_compl)
  note this [of "\<lambda>m. declared (ms_source m)" "rr_missing r", symmetric]
  then show ?thesis
    by (auto simp: check_def unresolved_lines_def filter_empty_conv list_all_iff)
qed

text \<open>the cut. A report blocks a publish exactly when it has an unmet dependency something declared,
  an unbridged foreign artifact, a mixin gap, or a dependency or loader outside a declared window;
  and every finding of those lists and of the advisory ones is one line.\<close>

theorem gate_blocks_iff:
  "(bc_blocking (check r) = [] \<longleftrightarrow>
      list_all (\<lambda>m. \<not> declared (ms_source m)) (rr_missing r) \<and> rr_loader_mismatch r = [] \<and>
      rr_mixin_gaps r = [] \<and> rr_version_issues r = [] \<and> rr_loader_version_issues r = []) \<and>
   length (bc_blocking (check r)) + length (bc_advisory (check r)) =
      length (rr_missing r) + length (rr_loader_mismatch r) + length (rr_mixin_gaps r) +
      length (rr_version_issues r) + length (rr_loader_version_issues r) + length (rr_conflicts r) +
      length (rr_optional_conflicts r) + length (rr_forced_client_attempts r) +
      (if rr_unresolved r = [] then 0 else 1)"
  by (rule check_blocks_iff)

text \<open>C5: what passing means for a pack. When the gate lets a resolved pack through, every foreign
  artifact has a bridge, and an unmet dependency that is left is one whose first requirer, in the
  order of the config, only inferred it.\<close>

theorem gate_pass_means:
  assumes "bc_blocking (check (resolve_pack rg cfg)) = []"
  shows "(\<forall>p \<in> set (pl_present (place_mods rg cfg)).
      foreign rg (ls_name (cf_loader cfg)) p \<longrightarrow> has_bridge (world_of rg cfg) p) \<and>
    (\<forall>d \<in> set (rr_missing (resolve_pack rg cfg)). \<exists>ai e.
       hd (missing_steps (world_of rg cfg) (ms_target d) (walk_steps (world_of rg cfg))) = (ai, e) \<and>
       (rl_source e = SrcInferred \<or> rl_source e = SrcHarvested))"
proof (intro conjI ballI impI)
  from assms have lm: "rr_loader_mismatch (resolve_pack rg cfg) = []"
    and ms: "list_all (\<lambda>m. \<not> declared (ms_source m)) (rr_missing (resolve_pack rg cfg))"
    using check_blocks_iff by blast+
  have sets: "lm_filename ` set (rr_loader_mismatch (resolve_pack rg cfg)) =
     {pr_filename p | p. p \<in> set (pl_present (place_mods rg cfg)) \<and>
        foreign rg (ls_name (cf_loader cfg)) p \<and> \<not> has_bridge (world_of rg cfg) p}"
    by (rule mismatch_set)
  show "has_bridge (world_of rg cfg) p" if "p \<in> set (pl_present (place_mods rg cfg))"
    "foreign rg (ls_name (cf_loader cfg)) p" for p
    using sets that lm by auto
  fix d assume d: "d \<in> set (rr_missing (resolve_pack rg cfg))"
  let ?w = "world_of rg cfg"
  obtain t where "d = (missing_entry ?w t (missing_steps ?w t (walk_steps ?w)))\<lparr>ms_needed_by :=
      sort (ms_needed_by (missing_entry ?w t (missing_steps ?w t (walk_steps ?w))))\<rparr>"
    using d unfolding rr_missing_eq walk_all_def in_missing_rows by blast
  then have t: "ms_target d = t"
    "ms_source d = rel_source_as_str (rl_source (snd (hd (missing_steps ?w t (walk_steps ?w)))))"
    by (simp_all add: missing_entry_def)
  have nd: "\<not> declared (ms_source d)" using ms d by (simp add: list_all_iff)
  obtain ai e where h: "hd (missing_steps ?w t (walk_steps ?w)) = (ai, e)" by (cases "hd (missing_steps ?w t (walk_steps ?w))")
  have "rl_source e = SrcInferred \<or> rl_source e = SrcHarvested"
    using nd t(2) h by (cases "rl_source e") (simp_all add: declared_def)
  with h t(1) show "\<exists>ai e. hd (missing_steps ?w (ms_target d) (walk_steps ?w)) = (ai, e) \<and>
      (rl_source e = SrcInferred \<or> rl_source e = SrcHarvested)" by blast
qed

section \<open>A worked pack\<close>

text \<open>Two cached jars require the same absent mod, one by its own metadata, one only by the mirror's
  reading of the bytecode.\<close>

definition example_artifact :: "int \<Rightarrow> str \<Rightarrow> mod_version_row" where
  "example_artifact i sha = \<lparr>mv_id = i, mv_mod_id = i, mv_version = ''1.0'', mv_sha1 = sha,
     mv_size_bytes = 1, mv_filename = None, mv_mc_versions = None, mv_source = ''harvested'',
     mv_modrinth_version_id = None, mv_class_digest = None\<rparr>"

definition example_requires :: "int \<Rightarrow> str \<Rightarrow> str \<Rightarrow> relation_cells" where
  "example_requires i target source = \<lparr>rc_from_mod_id = i, rc_from_mod_version_id = Some i,
     rc_target = target, rc_version_range = None, rc_kind = ''requires'', rc_severity = None,
     rc_source = source, rc_confidence = 10\<rparr>"

definition example_graph :: registry where
  "example_graph = empty_registry\<lparr>
     rg_versions := [example_artifact 1 ''a1'', example_artifact 2 ''b2''],
     rg_relations := [example_requires 1 ''core'' ''inferred'', example_requires 2 ''core'' ''jar-meta'']\<rparr>"

definition example_mod :: "str \<Rightarrow> str \<Rightarrow> declared_mod" where
  "example_mod f sha = \<lparr>dm_filename = f, dm_default_enabled = True, dm_source = SmrtCache sha,
     dm_display = None, dm_slug = None, dm_pulled = False\<rparr>"

definition example_pack_config :: "declared_mod list \<Rightarrow> pack_config" where
  "example_pack_config ms = \<lparr>cf_pack_id = ''p'', cf_display_name = ''P'', cf_tagline = [],
     cf_minecraft_version = ''1.12.2'', cf_loader = \<lparr>ls_name = ''forge'', ls_version = ''14''\<rparr>,
     cf_java_major = 8, cf_version = None, cf_tags = [], cf_featured = False, cf_mods = ms,
     cf_assets = [], cf_auth = None, cf_pack_meta = \<lparr>mt_icon_url = None, mt_banner_url = None,
     mt_gallery_urls = [], mt_description_md = None\<rparr>, cf_owner = 1, cf_tier = Official,
     cf_visibility = Draft, cf_fork_of = None\<rparr>"

abbreviation guessed_first :: pack_config where
  "guessed_first \<equiv> example_pack_config [example_mod ''a.jar'' ''a1'', example_mod ''b.jar'' ''b2'']"

abbreviation declared_first :: pack_config where
  "declared_first \<equiv> example_pack_config [example_mod ''b.jar'' ''b2'', example_mod ''a.jar'' ''a1'']"

text \<open>The source kept on a missing dependency is its first requirer's, not its most authoritative one's:
  the same pack passes or is blocked by the order of its config.\<close>

lemma declared_miss_hidden_by_order:
  "bc_blocking (check (resolve_pack example_graph guessed_first)) = [] \<and>
   bc_blocking (check (resolve_pack example_graph declared_first)) \<noteq> []"
proof -
  have "list_all (\<lambda>m. \<not> declared (ms_source m)) (rr_missing (resolve_pack example_graph guessed_first))"
    unfolding resolve_pack_fields by code_simp
  moreover have "rr_loader_mismatch (resolve_pack example_graph guessed_first) = []"
    unfolding resolve_pack_fields by code_simp
  moreover have "rr_mixin_gaps (resolve_pack example_graph guessed_first) = []"
    unfolding resolve_pack_fields by code_simp
  moreover have "rr_version_issues (resolve_pack example_graph guessed_first) = []"
    unfolding resolve_pack_fields by code_simp
  moreover have "rr_loader_version_issues (resolve_pack example_graph guessed_first) = []"
    by (rule resolve_pack_gate_fields)
  moreover have "\<not> list_all (\<lambda>m. \<not> declared (ms_source m)) (rr_missing (resolve_pack example_graph declared_first))"
    unfolding resolve_pack_fields by code_simp
  ultimately show ?thesis using check_blocks_iff by blast
qed

theorem gate_pass_means_witness:
  "(\<exists>d \<in> set (rr_missing (resolve_pack example_graph guessed_first)). ms_target d = ''core'') \<and>
   (\<exists>ai e. hd (missing_steps (world_of example_graph guessed_first) ''core''
        (walk_steps (world_of example_graph guessed_first))) = (ai, e) \<and>
      (rl_source e = SrcInferred \<or> rl_source e = SrcHarvested))"
proof -
  have b: "bc_blocking (check (resolve_pack example_graph guessed_first)) = []"
    by (rule conjunct1 [OF declared_miss_hidden_by_order])
  have "map ms_target (rr_missing (resolve_pack example_graph guessed_first)) = [''core'']"
    unfolding resolve_pack_fields by code_simp
  then have "''core'' \<in> set (map ms_target (rr_missing (resolve_pack example_graph guessed_first)))"
    by (simp only: list.set_intros)
  then obtain d where d': "''core'' = ms_target d" and d: "d \<in> set (rr_missing (resolve_pack example_graph guessed_first))"
    unfolding set_map by (rule imageE)
  note h = bspec [OF conjunct2 [OF gate_pass_means [OF b]] d, unfolded d' [symmetric]]
  have "\<exists>d \<in> set (rr_missing (resolve_pack example_graph guessed_first)). ms_target d = ''core''"
    by (rule bexI [OF _ d]) (rule d' [symmetric])
  then show ?thesis using h by (rule conjI)
qed

definition example_edge :: "int \<Rightarrow> str \<Rightarrow> str \<Rightarrow> str option \<Rightarrow> relation_cells" where
  "example_edge i target kind sev = (example_requires i target ''jar-meta'')\<lparr>rc_kind := kind, rc_severity := sev\<rparr>"

text \<open>A capability a placed mod provides answers the bare selector only: the same selector with a
  version suffix stays missing, where the loader's capabilities are compared without the suffix.\<close>

lemma versioned_capability_stays_missing:
  "map ms_target (rr_missing (resolve_pack (example_graph\<lparr>rg_relations :=
      [example_edge 1 ''cap@1.0'' ''requires'' None, example_edge 2 ''cap'' ''provides'' None]\<rparr>) guessed_first)) =
   [''cap@1.0'']"
  unfolding resolve_pack_fields by code_simp

text \<open>A pair that both sides mark is reported with the intensity of the side declared first: a hard
  incompatibility can be shown as advice.\<close>

lemma conflict_intensity_by_order:
  "map ac_hard (wk_conflicts (walk_all (world_of (example_graph\<lparr>
      rg_aliases := [\<lparr>al_mod_id = 1, al_source = ''modid'', al_key = ''a''\<rparr>,
                     \<lparr>al_mod_id = 2, al_source = ''modid'', al_key = ''b''\<rparr>],
      rg_relations := [example_edge 1 ''b'' ''conflicts'' (Some ''soft''),
                       example_edge 2 ''a'' ''conflicts'' (Some ''hard'')]\<rparr>) guessed_first))) = [False]"
  by code_simp

end
