(* ===== verification/Fill_Plan.thy ===== *)
theory Fill_Plan
  imports Resolve
begin

text \<open>
  \<open>dependency_fill_plan\<close> of \<open>src/src/authoring/resolve.rs\<close>: the hard dependencies a save would
  pull in, the edges between mods that are present, and the suggestions. It walks the same edges
  as the resolve pass under a finer guard (kind and target instead of target alone) and without
  the capabilities placed mods provide; \<open>fill_covers_missing\<close> states how the two agree.
\<close>

record missing_target =
  tg_selector :: str
  tg_version_range :: "str option"
  tg_pinned_version :: "str option"

record fill_plan =
  fp_missing :: "missing_target list"
  fp_requires :: "(str \<times> str) list"
  fp_suggested :: "str list"

record fill_walk =
  fw_missing :: "(str \<times> str option) list"
  fw_requires :: "(str \<times> str) list"
  fw_suggested :: "str list"

definition fill_edges :: "world \<Rightarrow> present \<Rightarrow> relation_row list" where
  "fill_edges w a = first_by (\<lambda>e. (rl_kind e, rl_target e)) [] (edges_of (wd_registry w) a)"

text \<open>Answered by the loader or by a bridged API, or downgraded: the edge contributes nothing.\<close>

definition fill_skips :: "world \<Rightarrow> str \<Rightarrow> relation_row \<Rightarrow> bool" where
  "fill_skips w loader e \<longleftrightarrow>
     is_loader_dep (rl_target e) \<or>
     before CHR ''@'' (rl_target e) \<in> set (loader_provided_capabilities (wd_registry w) loader) \<or>
     before CHR ''@'' (rl_target e) \<in> set (bridged_api_provided (wd_registry w) (wd_present w)) \<or>
     (case mod_id_for_selector (wd_registry w) (rl_target e) of
        None \<Rightarrow> False
      | Some tid \<Rightarrow> inferred_edge_downgraded (rl_source e) (Some (classify_target_mod (wd_registry w) tid)))"

definition fill_edge :: "world \<Rightarrow> str \<Rightarrow> present \<Rightarrow> relation_row \<Rightarrow> fill_walk \<Rightarrow> fill_walk" where
  "fill_edge w loader a e st =
     (if rl_kind e = Recommends then
        (if target_of w (rl_target e) = None \<and> \<not> is_loader_dep (rl_target e)
         then st\<lparr>fw_suggested := insort_insert (rl_target e) (fw_suggested st)\<rparr> else st)
      else if rl_kind e \<noteq> Requires then st
      else if fill_skips w loader e then st
      else case target_of w (rl_target e) of
        Some bi \<Rightarrow> st\<lparr>fw_requires := fw_requires st @ [(pr_filename a, pr_filename (wd_present w ! bi))]\<rparr>
      | None \<Rightarrow>
          if pin_covers w (rl_target e) then st
          else st\<lparr>fw_missing := bt_or_insert (rl_target e) (rl_version_range e) (fw_missing st)\<rparr>)"

definition fill_steps :: "world \<Rightarrow> (present \<times> relation_row) list" where
  "fill_steps w = concat (map (\<lambda>a. map (Pair a) (fill_edges w a)) (wd_present w))"

definition dependency_fill_plan :: "registry \<Rightarrow> pack_config \<Rightarrow> fill_plan" where
  "dependency_fill_plan rg cfg =
     (let w = world_of rg cfg;
          st = fold (\<lambda>(a, e). fill_edge w (ls_name (cf_loader cfg)) a e) (fill_steps w)
                 \<lparr>fw_missing = [], fw_requires = [], fw_suggested = []\<rparr>
      in \<lparr>fp_missing = map (\<lambda>(s, r). \<lparr>tg_selector = s, tg_version_range = r, tg_pinned_version = None\<rparr>)
            (fw_missing st),
          fp_requires = fw_requires st, fp_suggested = fw_suggested st\<rparr>)"

section \<open>Lemmas\<close>

definition fill_misses :: "world \<Rightarrow> str \<Rightarrow> relation_row \<Rightarrow> bool" where
  "fill_misses w loader e \<longleftrightarrow> rl_kind e = Requires \<and> \<not> fill_skips w loader e \<and>
     target_of w (rl_target e) = None \<and> \<not> pin_covers w (rl_target e)"

lemma fill_edge_missing:
  "fst ` set (fw_missing (fill_edge w loader a e st)) =
     (if fill_misses w loader e then insert (rl_target e) (fst ` set (fw_missing st))
      else fst ` set (fw_missing st))"
proof -
  have "fst ` set (bt_or_insert k v m) = insert k (fst ` set m)" for k :: str and v :: "str option" and m
    by (auto simp: bt_or_insert_def fst_bt_insert map_of_eq_None_iff
        split: option.split dest: map_of_SomeD intro: rev_image_eqI)
  then show ?thesis
    by (auto simp: fill_edge_def fill_misses_def split: option.split)
qed

lemma fill_missing_targets:
  "tg_selector ` set (fp_missing (dependency_fill_plan rg cfg)) =
     {rl_target e | a e. (a, e) \<in> set (fill_steps (world_of rg cfg)) \<and>
        fill_misses (world_of rg cfg) (ls_name (cf_loader cfg)) e}"
proof -
  let ?w = "world_of rg cfg" and ?l = "ls_name (cf_loader cfg)"
  have "fst ` set (fw_missing (fold (\<lambda>(a, e). fill_edge ?w ?l a e) xs st)) =
      fst ` set (fw_missing st) \<union> {rl_target e | a e. (a, e) \<in> set xs \<and> fill_misses ?w ?l e}" for xs st
  proof (induction xs arbitrary: st)
    case (Cons x xs)
    then show ?case by (cases x) (auto simp: fill_edge_missing)
  qed simp
  from this [of "fill_steps ?w" "\<lparr>fw_missing = [], fw_requires = [], fw_suggested = []\<rparr>"]
  show ?thesis by (simp add: dependency_fill_plan_def Let_def image_image case_prod_beta)
qed

section \<open>Properties\<close>

text \<open>the save's fill and the resolve report agree in the direction that matters: whatever the
  report calls missing is a candidate of the fill plan.\<close>

theorem fill_covers_missing:
  "ms_target ` set (rr_missing (resolve_pack rg cfg)) \<subseteq>
     tg_selector ` set (fp_missing (dependency_fill_plan rg cfg))"
proof
  fix t assume "t \<in> ms_target ` set (rr_missing (resolve_pack rg cfg))"
  let ?w = "world_of rg cfg" and ?l = "ls_name (cf_loader cfg)"
  have wd: "wd_registry ?w = rg" "wd_present ?w = pl_present (place_mods rg cfg)"
    by (simp_all add: world_of_def Let_def)
  obtain d where d: "d \<in> set (rr_missing (resolve_pack rg cfg))" "t = ms_target d"
    using \<open>t \<in> _\<close> by auto
  then obtain t' where t': "missing_steps ?w t' (walk_steps ?w) \<noteq> []" "\<not> answered ?w ?l (walk_all ?w) t'"
    "ms_target d = t'"
    unfolding rr_missing_eq walk_all_def in_missing_rows by (auto simp: missing_entry_def)
  then have nt: "t' = t" using d(2) by simp
  from t'(1) obtain ai e where s: "(ai, e) \<in> set (walk_steps ?w)" "misses ?w e" "rl_target e = t"
    unfolding missing_steps_def nt by (auto simp: filter_empty_conv)
  then have ai: "ai < length (wd_present ?w)" and e: "e \<in> set (authoritative ?w ai)"
    by (simp_all add: in_walk_steps)
  have "e \<in> set (fill_edges ?w (wd_present ?w ! ai))"
    unfolding fill_edges_def
    by (rule first_by_finer [OF e [unfolded authoritative_def]]) auto
  with ai have st: "(wd_present ?w ! ai, e) \<in> set (fill_steps ?w)"
    by (auto simp: fill_steps_def)
  have tid: "class_of ?w tid = classify_target_mod (wd_registry ?w) tid"
    if "mod_id_for_selector (wd_registry ?w) (rl_target e) = Some tid" for tid
    using s(2) that by (simp add: misses_def target_index_def class_of_def)
  have "\<not> fill_skips ?w ?l e"
    using s(2,3) t'(2) nt tid
    by (auto simp: fill_skips_def misses_def answered_def edge_downgraded_def split: option.splits)
  with s have "fill_misses ?w ?l e" by (simp add: fill_misses_def misses_def)
  with st s(3) show "t \<in> tg_selector ` set (fp_missing (dependency_fill_plan rg cfg))"
    unfolding fill_missing_targets by blast
qed

end
