(* ===== verification/Depfill.thy ===== *)
theory Depfill
  imports Fill_Plan Sources
begin

text \<open>
  The dependency fill of a config save (\<open>src/src/authoring/depfill.rs\<close>): pull the missing hard
  dependencies in, from Modrinth first and the mirror's cache second, record the dependency graph
  in \<open>display.requires\<close>, drop the pulled entries nothing reaches any more; and the merge that runs
  before it. Modrinth's three endpoints are the fields of \<open>upstream\<close>, each a function of the state
  of the network that returns the next one. The loop runs at most eight passes, as in the source.
\<close>

record 'n upstream =
  up_version :: "'n fetch"
  up_versions_by_ids :: "str list \<Rightarrow> 'n \<Rightarrow> (str + (str \<times> mr_version) list) \<times> 'n"
  up_project_versions :: "str \<Rightarrow> str \<Rightarrow> 'n \<Rightarrow> (str + mr_version list) \<times> 'n"

text \<open>What the fill carries between requests: the network and the version cache, and the map of
  versions read off the wire.\<close>

record 'n filler =
  fl_resolver :: "'n resolver"
  fl_read :: "(str \<times> mr_version) list"

definition max_passes :: nat where
  "max_passes = 8"

section \<open>Identity\<close>

fun source_identity :: "source_decl \<Rightarrow> str" where
  "source_identity (Modrinth p v) = ''m:'' @ p"
| "source_identity (SmrtCache s) = ''c:'' @ s"
| "source_identity (SmrtStatic r) = ''s:'' @ r"

definition already_present :: "pack_config \<Rightarrow> declared_mod \<Rightarrow> bool" where
  "already_present cfg decl \<longleftrightarrow>
     (if list_ex (\<lambda>m. dm_filename m = dm_filename decl) (cf_mods cfg) then True
      else case dm_source decl of
        Modrinth p _ \<Rightarrow> list_ex (\<lambda>m. case dm_source m of Modrinth q _ \<Rightarrow> q = p | _ \<Rightarrow> False) (cf_mods cfg)
      | SmrtCache s \<Rightarrow> list_ex (\<lambda>m. case dm_source m of SmrtCache t \<Rightarrow> t = s | _ \<Rightarrow> False) (cf_mods cfg)
      | SmrtStatic _ \<Rightarrow> False)"

definition merge_pulled :: "pack_config \<Rightarrow> pack_config \<Rightarrow> pack_config" where
  "merge_pulled saved incoming =
     (let here = map (\<lambda>m. source_identity (dm_source m)) (cf_mods incoming) @
                    map (\<lambda>m. ''f:'' @ dm_filename m) (cf_mods incoming)
      in incoming\<lparr>cf_mods := cf_mods incoming @
           filter (\<lambda>m. dm_pulled m \<and> source_identity (dm_source m) \<notin> set here \<and>
                       ''f:'' @ dm_filename m \<notin> set here) (cf_mods saved)\<rparr>)"

section \<open>Dependencies read off the wire\<close>

record wire_dep =
  wi_requirer :: str
  wi_project_id :: str
  wi_version_id :: "str option"

definition unharvested_pins :: "registry \<Rightarrow> pack_config \<Rightarrow> (str \<times> str \<times> str) list" where
  "unharvested_pins rg cfg =
     filter (\<lambda>(_, _, vid). mod_version_id_for_modrinth_version_id rg vid = None)
       (List.map_filter (\<lambda>m. case dm_source m of
            Modrinth p v \<Rightarrow> Some (dm_filename m, p, v) | _ \<Rightarrow> None) (cf_mods cfg))"

definition pin_deps :: "(str \<times> mr_version) list \<Rightarrow> str \<times> str \<times> str \<Rightarrow> wire_dep list" where
  "pin_deps read pin =
     (case pin of (requirer, pid, vid) \<Rightarrow>
      (case map_of read vid of
         None \<Rightarrow> []
       | Some v \<Rightarrow> List.map_filter (\<lambda>dep.
           if dn_dependency_type dep \<noteq> ''required'' then None
           else case dn_project_id dep of
             None \<Rightarrow> None
           | Some target \<Rightarrow>
               if target = [] then None
               else if target = pid then None
               else Some \<lparr>wi_requirer = requirer, wi_project_id = target,
                      wi_version_id = dn_version_id dep\<rparr>) (vr_dependencies v)))"

definition wire_deps ::
  "'n upstream \<Rightarrow> registry \<Rightarrow> pack_config \<Rightarrow> 'n filler \<Rightarrow> wire_dep list \<times> 'n filler" where
  "wire_deps up rg cfg st =
     (let pins = unharvested_pins rg cfg;
          unread = filter (\<lambda>v. map_of (fl_read st) v = None) (map (\<lambda>(_, _, vid). vid) pins);
          st' = (if unread = [] then st
                 else case up_versions_by_ids up unread (rs_net (fl_resolver st)) of
                   (r, n) \<Rightarrow>
                     (let st = st\<lparr>fl_resolver := (fl_resolver st)\<lparr>rs_net := n\<rparr>\<rparr> in
                      case r of
                        Inr found \<Rightarrow> st\<lparr>fl_read := found @ fl_read st\<rparr>
                      | Inl _ \<Rightarrow> st))
      in (concat (map (pin_deps (fl_read st')) pins), st'))"

definition ships_project :: "str \<Rightarrow> declared_mod \<Rightarrow> bool" where
  "ships_project p m = (case dm_source m of Modrinth q _ \<Rightarrow> q = p | _ \<Rightarrow> False)"

fun merge_deps ::
  "declared_mod list \<Rightarrow> str list \<Rightarrow> wire_dep list \<Rightarrow> (str \<times> str) list \<Rightarrow> missing_target list \<Rightarrow>
   (str \<times> str) list \<times> missing_target list" where
  "merge_deps ms known [] requires extra = (requires, extra)"
| "merge_deps ms known (d # ds) requires extra =
     (case find (ships_project (wi_project_id d)) ms of
        Some here \<Rightarrow> merge_deps ms known ds (requires @ [(wi_requirer d, dm_filename here)]) extra
      | None \<Rightarrow>
          (let selector = ''modrinth:'' @ wi_project_id d in
           if selector \<in> set known \<or> selector \<in> set (map tg_selector extra)
           then merge_deps ms known ds requires extra
           else merge_deps ms known ds requires
             (extra @ [\<lparr>tg_selector = selector, tg_version_range = None,
                 tg_pinned_version = wi_version_id d\<rparr>])))"

definition merge_wire_deps ::
  "'n upstream \<Rightarrow> registry \<Rightarrow> pack_config \<Rightarrow> fill_plan \<Rightarrow> 'n filler \<Rightarrow> fill_plan \<times> 'n filler" where
  "merge_wire_deps up rg cfg plan st =
     (case wire_deps up rg cfg st of
        (deps, st) \<Rightarrow>
          (case merge_deps (cf_mods cfg) (map tg_selector (fp_missing plan)) deps (fp_requires plan) [] of
             (requires, extra) \<Rightarrow>
               (plan\<lparr>fp_requires := requires, fp_missing := fp_missing plan @ extra\<rparr>, st)))"

definition full_plan ::
  "'n upstream \<Rightarrow> registry \<Rightarrow> pack_config \<Rightarrow> 'n filler \<Rightarrow> fill_plan \<times> 'n filler" where
  "full_plan up rg cfg st = merge_wire_deps up rg cfg (dependency_fill_plan rg cfg) st"

section \<open>Resolving one target\<close>

definition usable :: "mr_version \<Rightarrow> str \<Rightarrow> bool" where
  "usable v loader \<longleftrightarrow> list_ex (\<lambda>l. eq_ignore_case l loader) (vr_loaders v) \<and> primary_file v \<noteq> None"

definition pulled_from_version :: "str \<Rightarrow> mr_version \<Rightarrow> declared_mod" where
  "pulled_from_version project v =
     \<lparr>dm_filename = (case primary_file v of Some f \<Rightarrow> vf_filename f | None \<Rightarrow> project @ ''.jar''),
      dm_default_enabled = True, dm_source = Modrinth project (vr_id v), dm_display = None,
      dm_slug = None, dm_pulled = True\<rparr>"

text \<open>\<open>versions_of_mod_by_id\<close>: the rows in the order of the query, by version text and id, each with
  its targets.\<close>

definition versions_of_mod_by_id :: "registry \<Rightarrow> int \<Rightarrow> mod_version_row list" where
  "versions_of_mod_by_id rg mid =
     sort_key (\<lambda>v. (mv_version v, mv_id v)) (filter (\<lambda>v. mv_mod_id v = mid) (rg_versions rg))"

definition cache_acceptable ::
  "registry \<Rightarrow> pack_config \<Rightarrow> str list \<Rightarrow> str option \<Rightarrow> mod_version_row \<Rightarrow> bool" where
  "cache_acceptable rg cfg cached rng v \<longleftrightarrow>
     mv_sha1 v \<in> set cached \<and>
     list_ex (\<lambda>t. t = ''any'' \<or> to_lower t \<in> set (loader_chain rg (to_lower (ls_name (cf_loader cfg)))))
       (targets_for_artifact rg (mv_id v)) \<and>
     (case mv_mc_versions v of None \<Rightarrow> True | Some mcs \<Rightarrow> mcs = [] \<or> cf_minecraft_version cfg \<in> set mcs) \<and>
     (case rng of None \<Rightarrow> True | Some r \<Rightarrow> in_range (mv_version v) r \<noteq> Some False)"

definition pulled_from_cache :: "str \<Rightarrow> mod_version_row \<Rightarrow> declared_mod" where
  "pulled_from_cache selector v =
     \<lparr>dm_filename = (case mv_filename v of
          Some f \<Rightarrow> f
        | None \<Rightarrow> if CHR '':'' \<in> set selector then mv_sha1 v @ ''.jar'' else selector @ ''.jar''),
      dm_default_enabled = True, dm_source = SmrtCache (mv_sha1 v), dm_display = None,
      dm_slug = None, dm_pulled = True\<rparr>"

definition resolve_from_cache ::
  "missing_target \<Rightarrow> pack_config \<Rightarrow> registry \<Rightarrow> str list \<Rightarrow> declared_mod option" where
  "resolve_from_cache target cfg rg cached =
     (case mod_id_for_selector rg (tg_selector target) of
        None \<Rightarrow> None
      | Some mid \<Rightarrow>
          fold (\<lambda>v best. if cache_acceptable rg cfg cached (tg_version_range target) v
                         then Some (pulled_from_cache (tg_selector target) v) else best)
            (versions_of_mod_by_id rg mid) None)"

definition target_project :: "registry \<Rightarrow> str \<Rightarrow> str option" where
  "target_project rg bare =
     (case strip_prefix ''modrinth:'' bare of
        Some p \<Rightarrow> Some p
      | None \<Rightarrow> Option.bind (mod_id_for_selector rg bare) (modrinth_id_for_mod rg))"

text \<open>The Modrinth leg: the pinned version if it is usable, else the first usable one of the listing.
  A pin that cannot be read or used falls through to the listing; a failed listing is an error.\<close>

definition pinned_answer ::
  "'n upstream \<Rightarrow> str \<Rightarrow> str \<Rightarrow> str option \<Rightarrow> 'n filler \<Rightarrow> declared_mod option \<times> 'n filler" where
  "pinned_answer up project loader pin st =
     (case pin of
        None \<Rightarrow> (None, st)
      | Some vid \<Rightarrow>
          (case get_or_fetch (up_version up) project vid (fl_resolver st) of
             (r, rs) \<Rightarrow>
               (case r of
                  Inr v \<Rightarrow> if usable v loader then Some (pulled_from_version project v) else None
                | Inl _ \<Rightarrow> None,
                st\<lparr>fl_resolver := rs\<rparr>)))"

definition resolve_target ::
  "'n upstream \<Rightarrow> registry \<Rightarrow> str list \<Rightarrow> pack_config \<Rightarrow> missing_target \<Rightarrow> 'n filler \<Rightarrow>
   (str + declared_mod option) \<times> 'n filler" where
  "resolve_target up rg cached cfg target st =
     (let bare = before CHR ''@'' (tg_selector target);
          loader = to_lower (ls_name (cf_loader cfg)) in
      if starts_with bare ''external:'' then (Inr None, st)
      else case target_project rg bare of
        None \<Rightarrow> (Inr (resolve_from_cache target cfg rg cached), st)
      | Some project \<Rightarrow>
          (case pinned_answer up project loader (tg_pinned_version target) st of
             (Some d, st) \<Rightarrow> (Inr (Some d), st)
           | (None, st) \<Rightarrow>
               (case up_project_versions up project (cf_minecraft_version cfg) (rs_net (fl_resolver st)) of
                  (r, n) \<Rightarrow>
                    (let st = st\<lparr>fl_resolver := (fl_resolver st)\<lparr>rs_net := n\<rparr>\<rparr> in
                     case r of
                       Inl e \<Rightarrow> (Inl e, st)
                     | Inr listing \<Rightarrow>
                         (case find (\<lambda>v. usable v loader) listing of
                            Some v \<Rightarrow> (Inr (Some (pulled_from_version project v)), st)
                          | None \<Rightarrow> (Inr (resolve_from_cache target cfg rg cached), st))))))"

section \<open>The requires graph and the pruning\<close>

definition requires_from :: "(str \<times> str) list \<Rightarrow> str \<Rightarrow> str list" where
  "requires_from requires f = dedup (sort (map snd (filter (\<lambda>(from, _). from = f) requires)))"

definition write_requires :: "(str \<times> str) list \<Rightarrow> declared_mod \<Rightarrow> declared_mod" where
  "write_requires requires m =
     (let deps = requires_from requires (dm_filename m) in
      if deps = [] then m\<lparr>dm_display := map_option (\<lambda>d. d\<lparr>dp_requires := []\<rparr>) (dm_display m)\<rparr>
      else m\<lparr>dm_display := Some ((display_or_default (dm_display m))\<lparr>dp_requires :=
             map (\<lambda>f. \<lparr>rq_filename = f, rq_version_range = None, rq_optional = False\<rparr>) deps\<rparr>)\<rparr>)"

definition apply_requires :: "pack_config \<Rightarrow> (str \<times> str) list \<Rightarrow> pack_config" where
  "apply_requires cfg requires = cfg\<lparr>cf_mods := map (write_requires requires) (cf_mods cfg)\<rparr>"

definition hard_targets :: "declared_mod \<Rightarrow> str list" where
  "hard_targets m =
     (case dm_display m of None \<Rightarrow> []
      | Some d \<Rightarrow> map rq_filename (filter (\<lambda>r. \<not> rq_optional r) (dp_requires d)))"

definition hard_edges :: "declared_mod list \<Rightarrow> (str \<times> str list) list" where
  "hard_edges ms = rev (map (\<lambda>m. (dm_filename m, hard_targets m)) ms)"

definition prune_orphaned_pulled :: "pack_config \<Rightarrow> pack_config" where
  "prune_orphaned_pulled cfg =
     (let reachable = drain (hard_edges (cf_mods cfg))
            (map dm_filename (filter (\<lambda>m. \<not> dm_pulled m) (cf_mods cfg))) []
      in cfg\<lparr>cf_mods := filter (\<lambda>m. \<not> dm_pulled m \<or> dm_filename m \<in> set reachable) (cf_mods cfg)\<rparr>)"

section \<open>The fill\<close>

text \<open>One pass over the missing targets; the third component counts what was added.\<close>

fun fill_targets ::
  "'n upstream \<Rightarrow> registry \<Rightarrow> str list \<Rightarrow> missing_target list \<Rightarrow> pack_config \<Rightarrow> nat \<Rightarrow> 'n filler \<Rightarrow>
   pack_config \<times> nat \<times> 'n filler" where
  "fill_targets up rg cached [] cfg n st = (cfg, n, st)"
| "fill_targets up rg cached (t # ts) cfg n st =
     (case resolve_target up rg cached cfg t st of
        (Inr (Some decl), st) \<Rightarrow>
          if already_present cfg decl then fill_targets up rg cached ts cfg n st
          else fill_targets up rg cached ts (cfg\<lparr>cf_mods := cf_mods cfg @ [decl]\<rparr>) (n + 1) st
      | (_, st) \<Rightarrow> fill_targets up rg cached ts cfg n st)"

fun fill_passes ::
  "nat \<Rightarrow> 'n upstream \<Rightarrow> registry \<Rightarrow> str list \<Rightarrow> pack_config \<Rightarrow> nat \<Rightarrow> 'n filler \<Rightarrow>
   pack_config \<times> nat \<times> 'n filler" where
  "fill_passes 0 up rg cached cfg count st = (cfg, count, st)"
| "fill_passes (Suc k) up rg cached cfg count st =
     (case full_plan up rg cfg st of
        (plan, st) \<Rightarrow>
          (case fill_targets up rg cached (fp_missing plan) cfg 0 st of
             (cfg, added, st) \<Rightarrow>
               if added = 0 then (cfg, count, st)
               else fill_passes k up rg cached cfg (count + added) st))"

definition fill_dependencies ::
  "'n upstream \<Rightarrow> registry \<Rightarrow> str list \<Rightarrow> 'n \<Rightarrow> pack_config \<Rightarrow> pack_config \<times> nat" where
  "fill_dependencies up rg cached net cfg =
     (let st = \<lparr>fl_resolver = \<lparr>rs_memo = [], rs_net = net, rs_fell_back = []\<rparr>, fl_read = []\<rparr> in
      case fill_passes max_passes up rg cached cfg 0 st of
        (cfg, count, st) \<Rightarrow>
          (case full_plan up rg cfg st of
             (plan, st) \<Rightarrow> (prune_orphaned_pulled (apply_requires cfg (fp_requires plan)), count)))"

record pulled_preview =
  pp_filename :: str
  pp_source :: str
  pp_needed_by :: "str list"

definition preview_fill ::
  "'n upstream \<Rightarrow> registry \<Rightarrow> str list \<Rightarrow> 'n \<Rightarrow> pack_config \<Rightarrow> pulled_preview list" where
  "preview_fill up rg cached net cfg =
     (let prior = map (\<lambda>m. source_identity (dm_source m)) (cf_mods cfg);
          filled = fst (fill_dependencies up rg cached net cfg);
          requires = fp_requires (dependency_fill_plan rg filled)
      in map (\<lambda>m. \<lparr>pp_filename = dm_filename m,
             pp_source = (case dm_source m of Modrinth _ _ \<Rightarrow> ''modrinth'' | SmrtCache _ \<Rightarrow> ''cache''
               | SmrtStatic _ \<Rightarrow> ''static''),
             pp_needed_by = dedup (sort (map fst (filter (\<lambda>(_, dep). dep = dm_filename m) requires)))\<rparr>)
           (filter (\<lambda>m. source_identity (dm_source m) \<notin> set prior) (cf_mods filled)))"

section \<open>Lemmas\<close>

lemma source_identity_inject:
  "source_identity s = source_identity t \<longleftrightarrow> declared_identity s = declared_identity t"
  by (cases s; cases t) auto

lemma fold_last_Some:
  "fold (\<lambda>v best. if P v then Some (f v) else best) xs b = Some d \<Longrightarrow>
     b = Some d \<or> (\<exists>v \<in> set xs. P v \<and> d = f v)"
proof (induction xs arbitrary: b)
  case (Cons x xs)
  from Cons.prems have "fold (\<lambda>v best. if P v then Some (f v) else best) xs (if P x then Some (f x) else b) = Some d"
    by simp
  from Cons.IH [OF this] show ?case by (auto split: if_splits)
qed simp

text \<open>Every declaration the fill adds is a pulled, enabled one, either a usable Modrinth version or an
  acceptable artifact of the selector's mod whose bytes the mirror holds.\<close>

definition pulled_ok :: "registry \<Rightarrow> str list \<Rightarrow> pack_config \<Rightarrow> declared_mod \<Rightarrow> bool" where
  "pulled_ok rg cached cfg d \<longleftrightarrow> dm_pulled d \<and> dm_default_enabled d \<and>
     (case dm_source d of
        Modrinth p v \<Rightarrow> \<exists>ver. vr_id ver = v \<and> usable ver (to_lower (ls_name (cf_loader cfg)))
      | SmrtCache s \<Rightarrow> s \<in> set cached \<and> (\<exists>v \<in> set (rg_versions rg). mv_sha1 v = s)
      | SmrtStatic _ \<Rightarrow> False)"

lemma resolve_from_cache_ok:
  "resolve_from_cache target cfg rg cached = Some d \<Longrightarrow> pulled_ok rg cached cfg d"
  by (auto simp: resolve_from_cache_def pulled_from_cache_def pulled_ok_def cache_acceptable_def
      versions_of_mod_by_id_def split: option.splits dest!: fold_last_Some)

lemma pulled_from_version_ok:
  "usable v (to_lower (ls_name (cf_loader cfg))) \<Longrightarrow> pulled_ok rg cached cfg (pulled_from_version p v)"
  by (auto simp: pulled_ok_def pulled_from_version_def)

lemma pinned_answer_ok:
  "pinned_answer up project (to_lower (ls_name (cf_loader cfg))) pin st = (Some d, st') \<Longrightarrow>
     pulled_ok rg cached cfg d"
  by (auto simp: pinned_answer_def pulled_from_version_def pulled_ok_def
      split: option.splits prod.splits sum.splits if_splits)

lemma resolve_target_ok:
  "resolve_target up rg cached cfg target st = (Inr (Some d), st') \<Longrightarrow> pulled_ok rg cached cfg d"
proof -
  have f: "find (\<lambda>v. usable v l) vs = Some v \<Longrightarrow> usable v l" for l vs v
    by (auto simp: find_Some_iff)
  show "resolve_target up rg cached cfg target st = (Inr (Some d), st') \<Longrightarrow> ?thesis"
    by (auto simp: resolve_target_def Let_def
        split: if_splits option.splits prod.splits sum.splits
        intro: pulled_from_version_ok f pinned_answer_ok resolve_from_cache_ok)
qed

definition extends :: "registry \<Rightarrow> str list \<Rightarrow> pack_config \<Rightarrow> pack_config \<Rightarrow> bool" where
  "extends rg cached cfg cfg' \<longleftrightarrow>
     (\<exists>ds. cfg' = cfg\<lparr>cf_mods := cf_mods cfg @ ds\<rparr> \<and> list_all (pulled_ok rg cached cfg) ds) \<and>
     (duplicate_declaration cfg = None \<longrightarrow> duplicate_declaration cfg' = None)"

lemma extends_refl [simp]: "extends rg cached cfg cfg"
  by (auto simp: extends_def intro!: exI [of _ "[]"])

lemma pulled_ok_mods [simp]: "pulled_ok rg cached (cfg\<lparr>cf_mods := ms\<rparr>) = pulled_ok rg cached cfg"
  by (auto simp: fun_eq_iff pulled_ok_def split: source_decl.split)

lemma extends_trans:
  "extends rg cached a b \<Longrightarrow> extends rg cached b c \<Longrightarrow> extends rg cached a c"
  unfolding extends_def by (elim conjE exE) (auto intro!: exI [of _ "_ @ _"])

lemma extends_push:
  assumes "pulled_ok rg cached cfg d" and "\<not> already_present cfg d"
  shows "extends rg cached cfg (cfg\<lparr>cf_mods := cf_mods cfg @ [d]\<rparr>)"
proof -
  have "declared_identity (dm_source d) \<notin> set (map (declared_identity \<circ> dm_source) (cf_mods cfg))"
  proof
    assume "declared_identity (dm_source d) \<in> set (map (declared_identity \<circ> dm_source) (cf_mods cfg))"
    then obtain m where "m \<in> set (cf_mods cfg)" "declared_identity (dm_source d) = declared_identity (dm_source m)"
      by auto
    with assms show False
      by (cases "dm_source d"; cases "dm_source m")
        (auto simp: already_present_def pulled_ok_def list_ex_iff split: if_splits)
  qed
  moreover have "dm_filename d \<notin> set (map dm_filename (cf_mods cfg))"
    using assms(2) by (auto simp: already_present_def list_ex_iff split: if_splits)
  ultimately show ?thesis
    using assms(1) by (auto simp: extends_def duplicate_None)
qed

lemma fill_targets_extends:
  "extends rg cached cfg (fst (fill_targets up rg cached ts cfg n st))"
proof (induction up rg cached ts cfg n st rule: fill_targets.induct)
  case (2 up rg cached t ts cfg n st)
  obtain r st' where r: "resolve_target up rg cached cfg t st = (r, st')"
    by (cases "resolve_target up rg cached cfg t st")
  show ?case
  proof (cases r)
    case (Inl e)
    with r 2 show ?thesis by simp
  next
    case (Inr d)
    show ?thesis
    proof (cases d)
      case None
      with r Inr 2 show ?thesis by simp
    next
      case (Some decl)
      with r Inr have ok: "pulled_ok rg cached cfg decl" by (simp add: resolve_target_ok)
      show ?thesis
      proof (cases "already_present cfg decl")
        case True
        with r Inr Some 2 show ?thesis by simp
      next
        case False
        with r Inr Some 2 extends_push [OF ok False] show ?thesis by (auto elim: extends_trans)
      qed
    qed
  qed
qed simp

lemma fill_passes_extends:
  "extends rg cached cfg (fst (fill_passes k up rg cached cfg n st))"
proof (induction k up rg cached cfg n st rule: fill_passes.induct)
  case (2 k up rg cached cfg n st)
  obtain plan st1 where p: "full_plan up rg cfg st = (plan, st1)" by (cases "full_plan up rg cfg st")
  obtain cfg1 added st2 where t: "fill_targets up rg cached (fp_missing plan) cfg 0 st1 = (cfg1, added, st2)"
    by (metis prod.exhaust)
  then have "extends rg cached cfg cfg1"
    using fill_targets_extends [of rg cached cfg up "fp_missing plan" 0 st1] by simp
  with p t 2 show ?case by (auto elim: extends_trans)
qed simp

lemma write_requires_simps [simp]:
  "dm_filename (write_requires rs m) = dm_filename m"
  "dm_source (write_requires rs m) = dm_source m"
  "dm_pulled (write_requires rs m) = dm_pulled m"
  by (simp_all add: write_requires_def Let_def)

lemma distinct_map_filter: "distinct (map f xs) \<Longrightarrow> distinct (map f (filter P xs))"
  by (induction xs) auto

section \<open>Properties\<close>

text \<open>C17: the fill touches only what it manages. Every row the curator declared survives with its
  filename and source, in its order; and a config without a duplicate declaration still has none.\<close>

theorem fill_keeps_authored:
  "map (\<lambda>m. (dm_filename m, dm_source m))
       (filter (\<lambda>m. \<not> dm_pulled m) (cf_mods (fst (fill_dependencies up rg cached net cfg)))) =
   map (\<lambda>m. (dm_filename m, dm_source m)) (filter (\<lambda>m. \<not> dm_pulled m) (cf_mods cfg)) \<and>
   (duplicate_declaration cfg = None \<longrightarrow>
      duplicate_declaration (fst (fill_dependencies up rg cached net cfg)) = None)"
proof -
  let ?st = "\<lparr>fl_resolver = \<lparr>rs_memo = [], rs_net = net, rs_fell_back = []\<rparr>, fl_read = []\<rparr>"
  obtain cfg1 n st1 where f: "fill_passes max_passes up rg cached cfg 0 ?st = (cfg1, n, st1)"
    by (metis prod.exhaust)
  obtain plan st2 where p: "full_plan up rg cfg1 st1 = (plan, st2)" by (cases "full_plan up rg cfg1 st1")
  have out: "fst (fill_dependencies up rg cached net cfg) =
      prune_orphaned_pulled (apply_requires cfg1 (fp_requires plan))"
    by (simp add: fill_dependencies_def Let_def f p)
  from fill_passes_extends [of rg cached cfg max_passes up 0 ?st] f
  obtain ds where ds: "cfg1 = cfg\<lparr>cf_mods := cf_mods cfg @ ds\<rparr>" "list_all (pulled_ok rg cached cfg) ds"
    and dup: "duplicate_declaration cfg = None \<longrightarrow> duplicate_declaration cfg1 = None"
    by (auto simp: extends_def)
  from ds(2) have pulled: "\<forall>d \<in> set ds. dm_pulled d" by (simp add: list_all_iff pulled_ok_def)
  have keep: "filter (\<lambda>m. \<not> dm_pulled m) (cf_mods (prune_orphaned_pulled c)) =
      filter (\<lambda>m. \<not> dm_pulled m) (cf_mods c)" for c
    by (simp add: prune_orphaned_pulled_def Let_def) (rule filter_cong, auto)
  have rows: "map (\<lambda>m. (dm_filename m, dm_source m)) (filter (\<lambda>m. \<not> dm_pulled m) (map (write_requires rs) ms)) =
      map (\<lambda>m. (dm_filename m, dm_source m)) (filter (\<lambda>m. \<not> dm_pulled m) ms)" for rs ms
    by (induction ms) auto
  have "duplicate_declaration cfg1 = None \<Longrightarrow> duplicate_declaration (apply_requires cfg1 rs) = None" for rs
    by (simp add: duplicate_None apply_requires_def comp_def)
  moreover have "duplicate_declaration c = None \<Longrightarrow> duplicate_declaration (prune_orphaned_pulled c) = None" for c
    by (auto simp: duplicate_None prune_orphaned_pulled_def Let_def intro: distinct_map_filter)
  ultimately show ?thesis
    using dup ds(1) pulled unfolding out keep
    by (simp add: apply_requires_def rows)
qed

text \<open>what a fill adds is declarable: a row of the filled config that is not one of the given rows
  is pulled and enabled, and is a version that runs on the pack's loader and has a file, or a jar
  the mirror holds.\<close>

theorem fill_adds_usable:
  assumes "m \<in> set (cf_mods (fst (fill_dependencies up rg cached net cfg)))"
    and "(dm_filename m, dm_source m) \<notin> (\<lambda>m. (dm_filename m, dm_source m)) ` set (cf_mods cfg)"
  shows "dm_pulled m \<and>
    (case dm_source m of
       Modrinth p v \<Rightarrow> \<exists>ver. vr_id ver = v \<and> usable ver (to_lower (ls_name (cf_loader cfg)))
     | SmrtCache s \<Rightarrow> s \<in> set cached \<and> (\<exists>v \<in> set (rg_versions rg). mv_sha1 v = s)
     | SmrtStatic _ \<Rightarrow> False)"
proof -
  let ?st = "\<lparr>fl_resolver = \<lparr>rs_memo = [], rs_net = net, rs_fell_back = []\<rparr>, fl_read = []\<rparr>"
  obtain cfg1 n st1 where f: "fill_passes max_passes up rg cached cfg 0 ?st = (cfg1, n, st1)"
    by (metis prod.exhaust)
  obtain plan st2 where p: "full_plan up rg cfg1 st1 = (plan, st2)" by (cases "full_plan up rg cfg1 st1")
  have "fst (fill_dependencies up rg cached net cfg) =
      prune_orphaned_pulled (apply_requires cfg1 (fp_requires plan))"
    by (simp add: fill_dependencies_def Let_def f p)
  with assms(1) obtain m1 where m1: "m1 \<in> set (cf_mods cfg1)" "m = write_requires (fp_requires plan) m1"
    by (auto simp: prune_orphaned_pulled_def apply_requires_def Let_def)
  from fill_passes_extends [of rg cached cfg max_passes up 0 ?st] f
  obtain ds where "cfg1 = cfg\<lparr>cf_mods := cf_mods cfg @ ds\<rparr>" "list_all (pulled_ok rg cached cfg) ds"
    by (auto simp: extends_def)
  with m1 assms(2) have "pulled_ok rg cached cfg m1" by (auto simp: list_all_iff)
  with m1(2) show ?thesis by (simp add: pulled_ok_def)
qed

text \<open>pulled entries are sticky. Merging a saved config into an incoming one keeps every incoming
  row first and in order, resurrects nothing the curator declared, and leaves no pulled entry of the
  saved config unrepresented by source or by filename.\<close>

theorem merge_pulled_sticky:
  "(\<exists>ds. cf_mods (merge_pulled saved incoming) = cf_mods incoming @ ds \<and>
      set ds \<subseteq> {m \<in> set (cf_mods saved). dm_pulled m}) \<and>
   {m \<in> set (cf_mods saved). dm_pulled m} \<subseteq>
     {m. \<exists>k \<in> set (cf_mods (merge_pulled saved incoming)).
        dm_filename k = dm_filename m \<or> declared_identity (dm_source k) = declared_identity (dm_source m)}"
proof (intro conjI subsetI)
  show "\<exists>ds. cf_mods (merge_pulled saved incoming) = cf_mods incoming @ ds \<and>
      set ds \<subseteq> {m \<in> set (cf_mods saved). dm_pulled m}"
    by (auto simp: merge_pulled_def Let_def)
  fix m assume m: "m \<in> {m \<in> set (cf_mods saved). dm_pulled m}"
  have tags: "source_identity s \<noteq> ''f:'' @ x" for s x by (cases s) auto
  show "m \<in> {m. \<exists>k \<in> set (cf_mods (merge_pulled saved incoming)).
      dm_filename k = dm_filename m \<or> declared_identity (dm_source k) = declared_identity (dm_source m)}"
  proof (cases "m \<in> set (cf_mods (merge_pulled saved incoming))")
    case False
    with m obtain k where "k \<in> set (cf_mods incoming)"
      "source_identity (dm_source m) = source_identity (dm_source k) \<or> dm_filename m = dm_filename k"
      using tags by (auto simp: merge_pulled_def Let_def) (metis tags)+
    then show ?thesis
      by (auto simp: merge_pulled_def Let_def source_identity_inject)
  qed auto
qed

text \<open>C18: pruning keeps a pulled entry exactly as long as a curator-declared mod reaches it through hard
  requires edges, and keeps every curator-declared one.\<close>

theorem prune_keeps_reachable:
  "set (cf_mods (prune_orphaned_pulled cfg)) =
     {m \<in> set (cf_mods cfg). \<not> dm_pulled m} \<union>
     {m \<in> set (cf_mods cfg). reaches (hard_edges (cf_mods cfg))
        (dm_filename ` {d \<in> set (cf_mods cfg). \<not> dm_pulled d}) (dm_filename m)}"
  by (auto simp: prune_orphaned_pulled_def Let_def cl.run_from_empty)

section \<open>A worked save\<close>

definition small_config :: "declared_mod list \<Rightarrow> pack_config" where
  "small_config ms = \<lparr>cf_pack_id = ''p'', cf_display_name = ''P'', cf_tagline = [],
     cf_minecraft_version = ''1.12.2'', cf_loader = \<lparr>ls_name = ''forge'', ls_version = ''14''\<rparr>,
     cf_java_major = 8, cf_version = None, cf_tags = [], cf_featured = False, cf_mods = ms,
     cf_assets = [], cf_auth = None, cf_pack_meta = \<lparr>mt_icon_url = None, mt_banner_url = None,
     mt_gallery_urls = [], mt_description_md = None\<rparr>, cf_owner = 1, cf_tier = Official,
     cf_visibility = Draft, cf_fork_of = None\<rparr>"

definition pinned_row :: "str \<Rightarrow> str \<Rightarrow> str \<Rightarrow> bool \<Rightarrow> str list \<Rightarrow> declared_mod" where
  "pinned_row f p v pulled reqs = \<lparr>dm_filename = f, dm_default_enabled = True, dm_source = Modrinth p v,
     dm_display = (if reqs = [] then None else Some (display_default\<lparr>dp_requires :=
        map (\<lambda>r. \<lparr>rq_filename = r, rq_version_range = None, rq_optional = False\<rparr>) reqs\<rparr>)),
     dm_slug = None, dm_pulled = pulled\<rparr>"

definition lib_version :: mr_version where
  "lib_version = \<lparr>vr_id = ''L1'', vr_project_id = ''LIB'', vr_name = ''l'', vr_version_number = ''1'',
     vr_version_type = ''release'', vr_game_versions = [''1.12.2''], vr_loaders = [''Forge''],
     vr_files = [\<lparr>vf_sha1 = ''ff'', vf_url = [], vf_filename = ''lib.jar'', vf_primary = True, vf_size = 1\<rparr>],
     vr_dependencies = []\<rparr>"

definition app_version :: mr_version where
  "app_version = lib_version\<lparr>vr_id := ''A1'', vr_project_id := ''APP'', vr_dependencies :=
     [\<lparr>dn_project_id = Some ''LIB'', dn_version_id = None, dn_dependency_type = ''required'', dn_file_name = None\<rparr>]\<rparr>"

definition online :: "unit upstream" where
  "online = \<lparr>up_version = (\<lambda>p v n. (Inr lib_version, n)),
     up_versions_by_ids = (\<lambda>ids n. (Inr [(''A1'', app_version), (''L1'', lib_version)], n)),
     up_project_versions = (\<lambda>p mc n. (Inr [lib_version], n))\<rparr>"

definition offline :: "unit upstream" where
  "offline = \<lparr>up_version = (\<lambda>p v n. (Inl ''down'', n)),
     up_versions_by_ids = (\<lambda>ids n. (Inl ''down'', n)),
     up_project_versions = (\<lambda>p mc n. (Inl ''down'', n))\<rparr>"

lemma online_fill:
  "map dm_filename (cf_mods (fst (fill_dependencies online empty_registry [] ()
      (small_config [pinned_row ''app.jar'' ''APP'' ''A1'' False []])))) = [''app.jar'', ''lib.jar'']"
  by code_simp

theorem fill_adds_usable_witness:
  "\<exists>m. m \<in> set (cf_mods (fst (fill_dependencies online empty_registry [] ()
      (small_config [pinned_row ''app.jar'' ''APP'' ''A1'' False []])))) \<and>
     dm_filename m = ''lib.jar'' \<and> dm_pulled m"
proof -
  let ?ms = "cf_mods (fst (fill_dependencies online empty_registry [] ()
      (small_config [pinned_row ''app.jar'' ''APP'' ''A1'' False []])))"
  have "''lib.jar'' \<in> set (map dm_filename ?ms)"
    unfolding online_fill by simp
  then obtain m where f: "''lib.jar'' = dm_filename m" and m: "m \<in> set ?ms"
    unfolding set_map by (rule imageE)
  have "(dm_filename m, dm_source m) \<notin> (\<lambda>m. (dm_filename m, dm_source m)) `
      set (cf_mods (small_config [pinned_row ''app.jar'' ''APP'' ''A1'' False []]))"
    unfolding f [symmetric] by (simp add: small_config_def pinned_row_def)
  from fill_adds_usable [OF m this] m f show ?thesis by (intro exI [of _ m]) simp
qed

text \<open>The requires graph of a pin the registry has not read comes off the wire, so the pruning is not
  local: saving the filled config once more while upstream is down drops the pulled library.\<close>

lemma outage_prunes_pulled:
  "map dm_filename (cf_mods (fst (fill_dependencies offline empty_registry [] ()
      (small_config [pinned_row ''app.jar'' ''APP'' ''A1'' False [''lib.jar''],
                     pinned_row ''lib.jar'' ''LIB'' ''L1'' True []])))) = [''app.jar'']"
  by code_simp

text \<open>The cache leg keeps the last row of a listing ordered by the text of the version.\<close>

definition two_builds :: registry where
  "two_builds = empty_registry\<lparr>
     rg_aliases := [\<lparr>al_mod_id = 1, al_source = ''modid'', al_key = ''lib''\<rparr>],
     rg_versions := map (\<lambda>(i, v, sha). \<lparr>mv_id = i, mv_mod_id = 1, mv_version = v, mv_sha1 = sha,
        mv_size_bytes = 1, mv_filename = Some sha, mv_mc_versions = None, mv_source = ''harvested'',
        mv_modrinth_version_id = None, mv_class_digest = None\<rparr>) [(1, ''1.9.0'', ''old''), (2, ''1.10.0'', ''new'')],
     rg_targets := [(1, ''forge''), (2, ''forge'')]\<rparr>"

lemma cache_leg_takes_older:
  "map_option dm_filename (resolve_from_cache \<lparr>tg_selector = ''lib'', tg_version_range = None,
      tg_pinned_version = None\<rparr> (small_config []) two_builds [''old'', ''new'']) = Some ''old'' \<and>
   semver_cmp ''1.9.0'' ''1.10.0'' = Some OLess"
  by code_simp

theorem fill_keeps_authored_witness:
  "duplicate_declaration (fst (fill_dependencies online empty_registry [] ()
      (small_config [pinned_row ''app.jar'' ''APP'' ''A1'' False []]))) = None"
proof -
  have "duplicate_declaration (small_config [pinned_row ''app.jar'' ''APP'' ''A1'' False []]) = None"
    by code_simp
  with fill_keeps_authored [of online empty_registry "[]" "()"
      "small_config [pinned_row ''app.jar'' ''APP'' ''A1'' False []]"]
  show ?thesis by (rule mp [OF conjunct2])
qed

end
