(* ===== verification/Config_Diff.thy ===== *)
theory Config_Diff
  imports Wire_Model
begin

text \<open>
  What changed between two pack configs (\<open>src/src/authoring/configdiff.rs\<close>): the rows the commit
  box lists, the count the build gate trusts, and the record of what a commit took in. A
  \<open>BTreeMap\<close> is a strictly sorted association list. Two \<open>serde_json\<close> texts are compared only for
  equality, and the serialisation of a record is injective, so the model compares the records.
  The properties: an empty diff means nothing a person can author moved, an equal edit revision
  means an empty diff, and reordering rows is not a change.
\<close>

section \<open>Rows\<close>

datatype change_group = GPack | GMods | GAssets

datatype change_op = OpAdd | OpRemove | OpChange

datatype change_field =
  FPin | FDefaultEnabled | FRequired | FFilename | FSlug | FDisplay | FValue

record config_change =
  cc_group :: change_group
  cc_op :: change_op
  cc_key :: str
  cc_label :: str
  cc_field :: "change_field option"
  cc_from :: "str option"
  cc_to :: "str option"
  cc_project :: "str option"

fun op_rank :: "change_op \<Rightarrow> nat" where
  "op_rank OpAdd = 0"
| "op_rank OpRemove = 1"
| "op_rank OpChange = 2"

definition sorted_rows :: "config_change list \<Rightarrow> config_change list" where
  "sorted_rows rows = sort_key (\<lambda>r. (op_rank (cc_op r), cc_label r)) rows"

fun pin :: "source_decl \<Rightarrow> str" where
  "pin (Modrinth _ v) = v"
| "pin (SmrtCache s) = s"
| "pin (SmrtStatic r) = r"

fun project_of :: "source_decl \<Rightarrow> str option" where
  "project_of (Modrinth p _) = Some p"
| "project_of _ = None"

definition on_off :: "bool \<Rightarrow> str" where
  "on_off b = (if b then ''on'' else ''off'')"

text \<open>A display block without what only the mirror writes; \<open>None\<close> stands for the empty text.\<close>

definition authored_display :: "display option \<Rightarrow> display option" where
  "authored_display dp = (case dp of None \<Rightarrow> None | Some d \<Rightarrow>
     (let a = d\<lparr>dp_requires := [], dp_presence := None\<rparr> in
      if dp_name a = None \<and> dp_description a = None \<and> dp_category a = None \<and>
         dp_incompatible_with a = [] \<and> dp_license a = None \<and> dp_url a = None \<and>
         dp_icon_url a = None
      then None else Some a))"

section \<open>The pack's own fields\<close>

definition pack_row :: "str \<Rightarrow> str option \<Rightarrow> str option \<Rightarrow> config_change" where
  "pack_row name from to = \<lparr>cc_group = GPack, cc_op = OpChange, cc_key = name, cc_label = name,
     cc_field = Some FValue, cc_from = from, cc_to = to, cc_project = None\<rparr>"

definition opaque_row :: "str \<Rightarrow> config_change" where
  "opaque_row name = pack_row name None None"

definition whole_config :: config_change where
  "whole_config = opaque_row ''config''"

definition pack_values :: "pack_config \<Rightarrow> (str \<times> str) list" where
  "pack_values c =
     [(''minecraft'', cf_minecraft_version c),
      (''loader'', ls_name (cf_loader c) @ '' '' @ ls_version (cf_loader c)),
      (''java'', show_nat (cf_java_major c)),
      (''version'', case cf_version c of None \<Rightarrow> [] | Some v \<Rightarrow> v),
      (''display_name'', cf_display_name c),
      (''tagline'', cf_tagline c),
      (''featured'', show_bool (cf_featured c)),
      (''tags'', join '', '' (cf_tags c))]"

definition pack_rows :: "pack_config \<Rightarrow> pack_config \<Rightarrow> config_change list" where
  "pack_rows old new =
     concat (map (\<lambda>((name, from), (_, to)). if from \<noteq> to then [pack_row name (Some from) (Some to)] else [])
       (zip (pack_values old) (pack_values new))) @
     (if cf_pack_meta old \<noteq> cf_pack_meta new then [opaque_row ''pack_meta''] else []) @
     (if cf_auth old \<noteq> cf_auth new then [opaque_row ''auth''] else [])"

section \<open>Rows matched by key\<close>

text \<open>
  \<open>mod_rows\<close> and \<open>asset_rows\<close> are one algorithm over two row types: rows under a key both sides
  have are compared; a key only the old side has is paired with the first new, untaken row of the
  same pin, which makes a rename a rename; what is left departed or arrived.
\<close>

fun pair_gone ::
  "(str \<Rightarrow> 'v \<Rightarrow> 'v \<Rightarrow> config_change list) \<Rightarrow> ('v \<Rightarrow> str) \<Rightarrow> (str \<Rightarrow> 'v \<Rightarrow> config_change) \<Rightarrow>
   (str \<times> 'v) list \<Rightarrow> (str \<times> 'v) list \<Rightarrow> str list \<Rightarrow> (str \<times> 'v) list \<Rightarrow> config_change list \<times> str list"
where
  "pair_gone changes pin_of departed was now taken [] = ([], taken)"
| "pair_gone changes pin_of departed was now taken ((key, old) # gone) =
     (case find (\<lambda>(k, m). map_of was k = None \<and> k \<notin> set taken \<and> pin_of m = pin_of old) now of
        Some (k, m) \<Rightarrow>
          (let (rows, t) = pair_gone changes pin_of departed was now (k # taken) gone
           in (changes k old m @ rows, t))
      | None \<Rightarrow>
          (let (rows, t) = pair_gone changes pin_of departed was now taken gone
           in (departed key old # rows, t)))"

definition keyed_rows ::
  "(str \<Rightarrow> 'v \<Rightarrow> 'v \<Rightarrow> config_change list) \<Rightarrow> ('v \<Rightarrow> str) \<Rightarrow> (str \<Rightarrow> 'v \<Rightarrow> config_change) \<Rightarrow>
   (str \<Rightarrow> 'v \<Rightarrow> config_change) \<Rightarrow> (str \<times> 'v) list \<Rightarrow> (str \<times> 'v) list \<Rightarrow> config_change list"
where
  "keyed_rows changes pin_of departed arrived was now =
     (let (moved, taken) = pair_gone changes pin_of departed was now []
        (filter (\<lambda>(k, _). map_of now k = None) was)
      in concat (map (\<lambda>(k, m). case map_of was k of Some old \<Rightarrow> changes k old m | None \<Rightarrow> []) now) @
         moved @
         map (\<lambda>(k, m). arrived k m)
           (filter (\<lambda>(k, _). map_of was k = None \<and> k \<notin> set taken) now))"

section \<open>Mods\<close>

definition identity :: "declared_mod \<Rightarrow> str" where
  "identity m = (case dm_source m of
       Modrinth p _ \<Rightarrow> ''m:'' @ p
     | _ \<Rightarrow> (case map_option trim (dm_slug m) of
           Some s \<Rightarrow> if s \<noteq> [] then ''s:'' @ s else ''f:'' @ dm_filename m
         | None \<Rightarrow> ''f:'' @ dm_filename m))"

definition note_mod :: "(str \<times> declared_mod) list \<Rightarrow> declared_mod \<Rightarrow> (str \<times> declared_mod) list" where
  "note_mod out m =
     (let key = identity m;
          key = (if map_of out key \<noteq> None then ''f:'' @ dm_filename m else key)
      in bt_insert key m out)"

definition authored_mods :: "pack_config \<Rightarrow> (str \<times> declared_mod) list" where
  "authored_mods cfg = foldl note_mod [] (filter (\<lambda>m. \<not> dm_pulled m) (cf_mods cfg))"

definition mod_change ::
  "str \<Rightarrow> declared_mod \<Rightarrow> change_field \<Rightarrow> str option \<Rightarrow> str option \<Rightarrow> config_change" where
  "mod_change key new field from to = \<lparr>cc_group = GMods, cc_op = OpChange, cc_key = key,
     cc_label = dm_filename new, cc_field = Some field, cc_from = from, cc_to = to,
     cc_project = project_of (dm_source new)\<rparr>"

definition mod_changes :: "str \<Rightarrow> declared_mod \<Rightarrow> declared_mod \<Rightarrow> config_change list" where
  "mod_changes key was now =
     (let row = mod_change key now; from = pin (dm_source was); to = pin (dm_source now) in
      (if from \<noteq> to then [row FPin (Some from) (Some to)]
       else if project_of (dm_source was) \<noteq> project_of (dm_source now)
       then [row FPin (project_of (dm_source was)) (project_of (dm_source now))] else []) @
      (if dm_filename was \<noteq> dm_filename now
       then [row FFilename (Some (dm_filename was)) (Some (dm_filename now))] else []) @
      (if dm_default_enabled was \<noteq> dm_default_enabled now
       then [row FDefaultEnabled (Some (on_off (dm_default_enabled was)))
               (Some (on_off (dm_default_enabled now)))] else []) @
      (if dm_slug was \<noteq> dm_slug now then [row FSlug (dm_slug was) (dm_slug now)] else []) @
      (if authored_display (dm_display was) \<noteq> authored_display (dm_display now)
       then [row FDisplay None None] else []))"

definition mod_departed :: "str \<Rightarrow> declared_mod \<Rightarrow> config_change" where
  "mod_departed key old = \<lparr>cc_group = GMods, cc_op = OpRemove, cc_key = key,
     cc_label = dm_filename old, cc_field = None, cc_from = Some (pin (dm_source old)),
     cc_to = None, cc_project = project_of (dm_source old)\<rparr>"

definition mod_arrived :: "str \<Rightarrow> declared_mod \<Rightarrow> config_change" where
  "mod_arrived key m = \<lparr>cc_group = GMods, cc_op = OpAdd, cc_key = key,
     cc_label = dm_filename m, cc_field = None, cc_from = None,
     cc_to = Some (pin (dm_source m)), cc_project = project_of (dm_source m)\<rparr>"

definition mod_rows :: "pack_config \<Rightarrow> pack_config \<Rightarrow> config_change list" where
  "mod_rows old new =
     keyed_rows mod_changes (pin \<circ> dm_source) mod_departed mod_arrived
       (authored_mods old) (authored_mods new)"

section \<open>Assets\<close>

definition assets_by_dest :: "pack_config \<Rightarrow> (str \<times> declared_asset) list" where
  "assets_by_dest cfg = foldl (\<lambda>out a. bt_insert (da_dest a) a out) [] (cf_assets cfg)"

definition asset_change ::
  "str \<Rightarrow> declared_asset \<Rightarrow> change_field \<Rightarrow> str option \<Rightarrow> str option \<Rightarrow> config_change" where
  "asset_change dest new field from to = \<lparr>cc_group = GAssets, cc_op = OpChange, cc_key = dest,
     cc_label = dest, cc_field = Some field, cc_from = from, cc_to = to,
     cc_project = project_of (da_source new)\<rparr>"

definition asset_changes :: "str \<Rightarrow> declared_asset \<Rightarrow> declared_asset \<Rightarrow> config_change list" where
  "asset_changes dest was now =
     (let row = asset_change dest now; from = pin (da_source was); to = pin (da_source now) in
      (if from \<noteq> to then [row FPin (Some from) (Some to)] else []) @
      (if da_dest was \<noteq> da_dest now
       then [row FFilename (Some (da_dest was)) (Some (da_dest now))] else []) @
      (if da_required was \<noteq> da_required now
       then [row FRequired (Some (on_off (da_required was))) (Some (on_off (da_required now)))]
       else []) @
      (if authored_display (da_display was) \<noteq> authored_display (da_display now)
       then [row FDisplay None None] else []))"

definition asset_departed :: "str \<Rightarrow> declared_asset \<Rightarrow> config_change" where
  "asset_departed dest old = \<lparr>cc_group = GAssets, cc_op = OpRemove, cc_key = dest,
     cc_label = dest, cc_field = None, cc_from = Some (pin (da_source old)), cc_to = None,
     cc_project = project_of (da_source old)\<rparr>"

definition asset_arrived :: "str \<Rightarrow> declared_asset \<Rightarrow> config_change" where
  "asset_arrived dest a = \<lparr>cc_group = GAssets, cc_op = OpAdd, cc_key = dest,
     cc_label = dest, cc_field = None, cc_from = None, cc_to = Some (pin (da_source a)),
     cc_project = project_of (da_source a)\<rparr>"

definition asset_rows :: "pack_config \<Rightarrow> pack_config \<Rightarrow> config_change list" where
  "asset_rows old new =
     keyed_rows asset_changes (pin \<circ> da_source) asset_departed asset_arrived
       (assets_by_dest old) (assets_by_dest new)"

section \<open>The diff\<close>

definition diff_configs :: "pack_config \<Rightarrow> pack_config \<Rightarrow> config_change list" where
  "diff_configs old new =
     pack_rows old new @ sorted_rows (mod_rows old new) @ sorted_rows (asset_rows old new)"

definition uncommitted :: "pack_config option \<Rightarrow> pack_config \<Rightarrow> nat" where
  "uncommitted head live =
     (case head of None \<Rightarrow> 1 | Some h \<Rightarrow> length (diff_configs h live))"

definition initial :: "pack_config \<Rightarrow> config_change list" where
  "initial cfg = diff_configs (cfg\<lparr>cf_mods := [], cf_assets := []\<rparr>) cfg"

section \<open>An interface for matched rows\<close>

text \<open>What the algorithm needs of a row type: the change rows are silent exactly when the authored
  view of the two rows agrees.\<close>

locale row_diff =
  fixes changes :: "str \<Rightarrow> 'v \<Rightarrow> 'v \<Rightarrow> config_change list"
    and pin_of :: "'v \<Rightarrow> str"
    and departed :: "str \<Rightarrow> 'v \<Rightarrow> config_change"
    and arrived :: "str \<Rightarrow> 'v \<Rightarrow> config_change"
    and view :: "'v \<Rightarrow> 'w"
  assumes changes_silent: "changes k a b = [] \<longleftrightarrow> view a = view b"
begin

abbreviation rows :: "(str \<times> 'v) list \<Rightarrow> (str \<times> 'v) list \<Rightarrow> config_change list" where
  "rows \<equiv> keyed_rows changes pin_of departed arrived"

lemma in_views: "(k, m) \<in> set xs \<Longrightarrow> view m \<in> view ` snd ` set xs"
  by (metis image_eqI snd_conv)

lemma pair_gone_silent:
  "pair_gone changes pin_of departed was now taken gone = ([], t) \<Longrightarrow>
     set taken \<subseteq> set t \<and>
     (\<forall>(k, old) \<in> set gone. \<exists>(k', m) \<in> set now. view m = view old) \<and>
     (\<forall>k' \<in> set t - set taken. \<exists>m. (k', m) \<in> set now \<and> (\<exists>(k, old) \<in> set gone. view m = view old))"
proof (induction gone arbitrary: taken)
  case Nil
  then show ?case by simp
next
  case (Cons kv gone)
  obtain key old where kv: "kv = (key, old)" by (cases kv)
  let ?find = "find (\<lambda>(k, m). map_of was k = None \<and> k \<notin> set taken \<and> pin_of m = pin_of old) now"
  show ?case
  proof (cases ?find)
    case None
    with Cons.prems kv show ?thesis by (auto split: prod.splits)
  next
    case (Some km)
    obtain k m where km: "km = (k, m)" by (cases km)
    with find_mem [OF Some] have mem: "(k, m) \<in> set now" by simp
    from Cons.prems kv Some km
    have silent: "changes k old m = []"
      and rest: "pair_gone changes pin_of departed was now (k # taken) gone = ([], t)"
      by (auto split: prod.splits)
    from silent have "view m = view old" by (simp add: changes_silent)
    with Cons.IH [OF rest] mem kv show ?thesis by fastforce
  qed
qed

lemma rows_silent:
  assumes "rows was now = []"
    and "distinct (map fst was)" and "distinct (map fst now)"
  shows "view ` snd ` set was = view ` snd ` set now"
proof -
  obtain moved t where p: "pair_gone changes pin_of departed was now []
      (filter (\<lambda>(k, _). map_of now k = None) was) = (moved, t)"
    by fastforce
  with assms have moved: "moved = []"
    and same: "\<forall>(k, m) \<in> set now. \<forall>old. map_of was k = Some old \<longrightarrow> changes k old m = []"
    and arr: "\<forall>(k, m) \<in> set now. map_of was k = None \<longrightarrow> k \<in> set t"
    by (auto simp: keyed_rows_def filter_empty_conv split: option.splits)
  note pg = pair_gone_silent [OF p [unfolded moved]]
  show ?thesis
  proof (intro equalityI subsetI)
    fix w assume "w \<in> view ` snd ` set was"
    then obtain k old where ko: "(k, old) \<in> set was" "w = view old" by force
    show "w \<in> view ` snd ` set now"
    proof (cases "map_of now k")
      case None
      with ko pg obtain k' m where "(k', m) \<in> set now" "view m = view old" by fastforce
      then have "view old \<in> view ` snd ` set now" by (metis in_views)
      with ko show ?thesis by simp
    next
      case (Some m)
      then have "(k, m) \<in> set now" by (rule map_of_SomeD)
      moreover from ko assms(2) have "map_of was k = Some old" by simp
      ultimately have "view old = view m" using same by (auto simp: changes_silent)
      with in_views [OF \<open>(k, m) \<in> set now\<close>] ko show ?thesis by simp
    qed
  next
    fix w assume "w \<in> view ` snd ` set now"
    then obtain k m where km: "(k, m) \<in> set now" "w = view m" by force
    show "w \<in> view ` snd ` set was"
    proof (cases "map_of was k")
      case None
      with km arr have "k \<in> set t" by auto
      with pg obtain m' k' old where o: "(k, m') \<in> set now" "(k', old) \<in> set was" "view m' = view old"
        by fastforce
      with km assms(3) have "m' = m" by (meson eq_key_imp_eq_value)
      with o km have "w = view old" by simp
      with in_views [OF o(2)] show ?thesis by simp
    next
      case (Some old)
      with km same have "view old = view m" by (auto simp: changes_silent)
      with km in_views [OF map_of_SomeD [OF Some]] show ?thesis by simp
    qed
  qed
qed

lemma rows_same:
  assumes "distinct (map fst now)"
  shows "rows now now = []"
proof -
  have none: "filter (\<lambda>(k, _). map_of now k = None) now = []"
    by (force simp: filter_empty_conv map_of_eq_None_iff)
  have "map_of now k = None \<or> map_of now k = Some m" if "(k, m) \<in> set now" for k m
    using assms that by simp
  then show ?thesis
    by (fastforce simp: keyed_rows_def none changes_silent split: option.splits)
qed

end

definition mod_view ::
  "declared_mod \<Rightarrow> str \<times> str \<times> str option \<times> bool \<times> str option \<times> display option" where
  "mod_view m = (dm_filename m, pin (dm_source m), project_of (dm_source m), dm_default_enabled m,
     dm_slug m, authored_display (dm_display m))"

definition asset_view :: "declared_asset \<Rightarrow> str \<times> str \<times> bool \<times> display option" where
  "asset_view a = (da_dest a, pin (da_source a), da_required a, authored_display (da_display a))"

interpretation mr: row_diff mod_changes "pin \<circ> dm_source" mod_departed mod_arrived mod_view
  by unfold_locales (auto simp: mod_changes_def mod_view_def Let_def)

interpretation ar: row_diff asset_changes "pin \<circ> da_source" asset_departed asset_arrived asset_view
  by unfold_locales (auto simp: asset_changes_def asset_view_def Let_def)

section \<open>Keying loses no row\<close>

definition keyed_ok :: "str \<times> declared_mod \<Rightarrow> bool" where
  "keyed_ok km = (fst km = ''f:'' @ dm_filename (snd km) \<or> take 2 (fst km) \<noteq> ''f:'')"

lemma identity_keyed_ok: "keyed_ok (identity m, m)"
  by (auto simp: keyed_ok_def identity_def split: source_decl.splits option.splits)

lemma keyed_ok_fallback: "keyed_ok (''f:'' @ dm_filename m, m)"
  by (simp add: keyed_ok_def)

lemma set_bt_insert_fresh:
  "map_of out k = None \<Longrightarrow> set (bt_insert k v out) = insert (k, v) (set out)"
  by (induction k v out rule: bt_insert.induct) (auto split: if_splits)

lemma note_mod_fresh:
  assumes "\<forall>km \<in> set out. keyed_ok km" and "dm_filename m \<notin> dm_filename ` snd ` set out"
  shows "\<exists>k. note_mod out m = bt_insert k m out \<and> map_of out k = None \<and> keyed_ok (k, m)"
proof (cases "map_of out (identity m)")
  case None
  then show ?thesis
    by (intro exI [of _ "identity m"]) (simp add: note_mod_def identity_keyed_ok)
next
  case (Some v)
  have "map_of out (''f:'' @ dm_filename m) = None"
  proof (rule ccontr)
    assume "map_of out (''f:'' @ dm_filename m) \<noteq> None"
    then obtain w where w: "(''f:'' @ dm_filename m, w) \<in> set out"
      by (metis map_of_SomeD not_None_eq)
    with assms(1) have "keyed_ok (''f:'' @ dm_filename m, w)" by blast
    then have "dm_filename w = dm_filename m" by (simp add: keyed_ok_def)
    with imageI [OF imageI [OF w], of dm_filename snd] assms(2) show False by simp
  qed
  with Some show ?thesis
    by (intro exI [of _ "''f:'' @ dm_filename m"]) (simp add: note_mod_def keyed_ok_def)
qed

lemma foldl_note_mod:
  assumes "bt_ok out" and "\<forall>km \<in> set out. keyed_ok km"
    and "distinct (map dm_filename ms)"
    and "set (map dm_filename ms) \<inter> dm_filename ` snd ` set out = {}"
  shows "snd ` set (foldl note_mod out ms) = snd ` set out \<union> set ms \<and>
    length (foldl note_mod out ms) = length out + length ms"
  using assms
proof (induction ms arbitrary: out)
  case Nil
  then show ?case by simp
next
  case (Cons m ms)
  then have "dm_filename m \<notin> dm_filename ` snd ` set out" by simp
  from note_mod_fresh [OF Cons.prems(2) this] obtain k where
    k: "note_mod out m = bt_insert k m out" "map_of out k = None" "keyed_ok (k, m)" by blast
  have len: "length (bt_insert k m out) = Suc (length out)"
    using k(2) by (induction k m out rule: bt_insert.induct) (auto split: if_splits)
  have "snd ` set (foldl note_mod (bt_insert k m out) ms) =
      snd ` set (bt_insert k m out) \<union> set ms \<and>
      length (foldl note_mod (bt_insert k m out) ms) = length (bt_insert k m out) + length ms"
  proof (rule Cons.IH)
    show "bt_ok (bt_insert k m out)" using Cons.prems(1) by (rule bt_ok_insert)
    show "\<forall>km \<in> set (bt_insert k m out). keyed_ok km"
      using Cons.prems(2) k by (simp add: set_bt_insert_fresh)
    show "distinct (map dm_filename ms)" using Cons.prems(3) by simp
    show "set (map dm_filename ms) \<inter> dm_filename ` snd ` set (bt_insert k m out) = {}"
      using Cons.prems(3,4) k by (auto simp: set_bt_insert_fresh)
  qed
  with k len show ?case by (simp add: set_bt_insert_fresh)
qed

abbreviation authored :: "pack_config \<Rightarrow> declared_mod list" where
  "authored cfg \<equiv> filter (\<lambda>m. \<not> dm_pulled m) (cf_mods cfg)"

lemma bt_ok_note_mods: "bt_ok out \<Longrightarrow> bt_ok (foldl note_mod out ms)"
  by (induction ms arbitrary: out) (simp_all add: note_mod_def Let_def bt_ok_insert)

lemma bt_ok_distinct: "bt_ok m \<Longrightarrow> distinct (map fst m)"
  by (simp add: bt_ok_def strict_sorted_iff)

lemma authored_mods_distinct: "distinct (map fst (authored_mods cfg))"
  unfolding authored_mods_def by (intro bt_ok_distinct bt_ok_note_mods) (simp add: bt_ok_def)

lemma authored_mods_all:
  "distinct (map dm_filename (authored cfg)) \<Longrightarrow>
     snd ` set (authored_mods cfg) = set (authored cfg) \<and>
     length (authored_mods cfg) = length (authored cfg)"
  using foldl_note_mod [of "[]" "authored cfg"] by (simp add: authored_mods_def bt_ok_def)

lemma assets_foldl:
  "bt_ok out \<Longrightarrow> distinct (map da_dest as) \<Longrightarrow> set (map da_dest as) \<inter> fst ` set out = {} \<Longrightarrow>
     bt_ok (foldl (\<lambda>out a. bt_insert (da_dest a) a out) out as) \<and>
     set (foldl (\<lambda>out a. bt_insert (da_dest a) a out) out as) =
       set out \<union> (\<lambda>a. (da_dest a, a)) ` set as"
proof (induction "as" arbitrary: out)
  case Nil
  then show ?case by simp
next
  case (Cons a "as")
  then have f: "map_of out (da_dest a) = None" by (auto simp: map_of_eq_None_iff)
  then have keys: "fst ` set (bt_insert (da_dest a) a out) = insert (da_dest a) (fst ` set out)"
    by (simp add: fst_bt_insert)
  from Cons have "bt_ok (bt_insert (da_dest a) a out)" by (simp add: bt_ok_insert)
  from Cons.IH [OF this] Cons.prems keys show ?case
    by (auto simp: set_bt_insert_fresh [OF f])
qed

lemma assets_by_dest_all:
  assumes "distinct (map da_dest (cf_assets cfg))"
  shows "set (assets_by_dest cfg) = (\<lambda>a. (da_dest a, a)) ` set (cf_assets cfg)"
    and "snd ` set (assets_by_dest cfg) = set (cf_assets cfg)"
  using assets_foldl [of "[]" "cf_assets cfg"] assms
  by (simp_all add: assets_by_dest_def bt_ok_def image_image)

lemma bt_ok_assets: "bt_ok (assets_by_dest cfg)"
proof -
  have "bt_ok out \<Longrightarrow> bt_ok (foldl (\<lambda>out a. bt_insert (da_dest a) a out) out as)" for out "as"
    by (induction "as" arbitrary: out) (simp_all add: bt_ok_insert)
  from this [of "[]"] show ?thesis by (simp add: assets_by_dest_def bt.invar_empty)
qed

section \<open>Properties\<close>

lemma sorted_rows_Nil [simp]: "sorted_rows rows = [] \<longleftrightarrow> rows = []"
  by (simp add: sorted_rows_def) (metis length_0_conv length_sort)

lemma set_sorted_rows [simp]: "set (sorted_rows rows) = set rows"
  by (simp add: sorted_rows_def)

lemma length_sorted_rows [simp]: "length (sorted_rows rows) = length rows"
  by (simp add: sorted_rows_def)

lemma diff_configs_Nil:
  "diff_configs old new = [] \<longleftrightarrow>
     pack_rows old new = [] \<and> mod_rows old new = [] \<and> asset_rows old new = []"
  by (simp add: diff_configs_def)

lemma pack_rows_Nil:
  "pack_rows old new = [] \<longleftrightarrow>
     pack_values old = pack_values new \<and> cf_pack_meta old = cf_pack_meta new \<and>
     cf_auth old = cf_auth new"
  by (auto simp: pack_rows_def pack_values_def)

lemma diff_same: "diff_configs cfg cfg = []"
proof -
  have "mod_rows cfg cfg = []"
    unfolding mod_rows_def by (rule mr.rows_same [OF authored_mods_distinct])
  moreover have "asset_rows cfg cfg = []"
    unfolding asset_rows_def by (rule ar.rows_same [OF bt_ok_distinct [OF bt_ok_assets]])
  ultimately show ?thesis by (simp add: diff_configs_Nil pack_rows_Nil)
qed

lemma diff_projection:
  "diff_configs (edit_projection old) (edit_projection new) = diff_configs old new"
  by (simp add: diff_configs_def pack_rows_def pack_values_def mod_rows_def asset_rows_def
      authored_mods_def assets_by_dest_def edit_projection_def)

text \<open>an empty diff is trustworthy: when neither config declares a row twice, a diff with no
  rows means the pack's own fields, the authored mods (filename, pinned artifact, project,
  install default, slug, authored display) and the assets all agree. This is the count a build
  is refused on. A slug two rows share does not hide an edit.\<close>

theorem empty_diff_sound:
  assumes "duplicate_declaration old = None" and "duplicate_declaration new = None"
    and "diff_configs old new = []"
  shows "pack_values old = pack_values new \<and>
    cf_pack_meta old = cf_pack_meta new \<and> cf_auth old = cf_auth new \<and>
    mod_view ` set (authored old) = mod_view ` set (authored new) \<and>
    asset_view ` set (cf_assets old) = asset_view ` set (cf_assets new)"
proof -
  have d: "distinct (map dm_filename (authored c)) \<and> distinct (map da_dest (cf_assets c))"
    if "duplicate_declaration c = None" for c
    using that by (simp add: duplicate_None distinct_map_filter)
  from assms(3) have m: "mod_rows old new = []" and a: "asset_rows old new = []"
    and p: "pack_rows old new = []"
    by (simp_all add: diff_configs_Nil)
  have "mod_view ` snd ` set (authored_mods old) = mod_view ` snd ` set (authored_mods new)"
    by (rule mr.rows_silent [OF m [unfolded mod_rows_def] authored_mods_distinct authored_mods_distinct])
  moreover have "asset_view ` snd ` set (assets_by_dest old) = asset_view ` snd ` set (assets_by_dest new)"
    by (rule ar.rows_silent [OF a [unfolded asset_rows_def] bt_ok_distinct [OF bt_ok_assets]
          bt_ok_distinct [OF bt_ok_assets]])
  ultimately show ?thesis
    using p d [OF assms(1)] d [OF assms(2)]
    by (simp add: pack_rows_Nil authored_mods_all assets_by_dest_all(2) del: image_image)
qed

text \<open>a config against itself, or against any config of the same edit projection (the one
  \<open>edit_rev\<close> hashes), shows no change.\<close>

theorem equal_revision_empty_diff:
  assumes "edit_projection old = edit_projection new"
  shows "diff_configs old new = [] \<and> uncommitted (Some old) new = 0"
  using assms diff_projection [of old new] diff_same [of "edit_projection new"]
  by (simp add: uncommitted_def)

section \<open>A worked config\<close>

definition cached_jar :: "str \<Rightarrow> str \<Rightarrow> str option \<Rightarrow> declared_mod" where
  "cached_jar f sha slug = \<lparr>dm_filename = f, dm_default_enabled = True, dm_source = SmrtCache sha,
     dm_display = None, dm_slug = slug, dm_pulled = False\<rparr>"

definition sample_config :: "declared_mod list \<Rightarrow> pack_config" where
  "sample_config ms = \<lparr>cf_pack_id = ''p'', cf_display_name = ''P'', cf_tagline = [],
     cf_minecraft_version = ''1.21.1'', cf_loader = \<lparr>ls_name = ''neoforge'', ls_version = ''21''\<rparr>,
     cf_java_major = 21, cf_version = None, cf_tags = [], cf_featured = False, cf_mods = ms,
     cf_assets = [], cf_auth = None, cf_pack_meta = \<lparr>mt_icon_url = None, mt_banner_url = None,
     mt_gallery_urls = [], mt_description_md = None\<rparr>, cf_owner = 1, cf_tier = Official,
     cf_visibility = Draft, cf_fork_of = None\<rparr>"

text \<open>Two jars under one hand-typed slug, in either order, are both compared; renaming a jar the
  mirror knows only by its hash is one row, a rename.\<close>

lemma rename_is_one_row:
  "map (\<lambda>r. (cc_op r, cc_field r)) (diff_configs (sample_config [cached_jar ''a.jar'' ''11'' None])
      (sample_config [cached_jar ''b.jar'' ''11'' None])) = [(OpChange, Some FFilename)]"
  by code_simp

theorem empty_diff_sound_witness:
  "mod_view ` set (authored (sample_config [cached_jar ''a'' ''11'' (Some ''x''), cached_jar ''b'' ''22'' (Some ''y'')])) =
   mod_view ` set (authored (sample_config [cached_jar ''b'' ''22'' (Some ''y''), cached_jar ''a'' ''11'' (Some ''x'')]))"
proof -
  let ?a = "sample_config [cached_jar ''a'' ''11'' (Some ''x''), cached_jar ''b'' ''22'' (Some ''y'')]"
  let ?b = "sample_config [cached_jar ''b'' ''22'' (Some ''y''), cached_jar ''a'' ''11'' (Some ''x'')]"
  have "duplicate_declaration ?a = None" by code_simp
  moreover have "duplicate_declaration ?b = None" by code_simp
  moreover have "diff_configs ?a ?b = []" by code_simp
  ultimately show ?thesis by (rule empty_diff_sound [THEN conjunct2, THEN conjunct2, THEN conjunct2, THEN conjunct1])
qed

theorem equal_revision_empty_diff_witness:
  "uncommitted (Some (sample_config [cached_jar ''a'' ''11'' None]))
     (sample_config [cached_jar ''a'' ''11'' None, (cached_jar ''lib'' ''33'' None)\<lparr>dm_pulled := True\<rparr>]) = 0"
proof -
  have "edit_projection (sample_config [cached_jar ''a'' ''11'' None]) = edit_projection
      (sample_config [cached_jar ''a'' ''11'' None, (cached_jar ''lib'' ''33'' None)\<lparr>dm_pulled := True\<rparr>])"
    by (simp add: edit_projection_def sample_config_def cached_jar_def)
  from equal_revision_empty_diff [OF this] show ?thesis by blast
qed

end
