(* ===== verification/File_System.thy ===== *)
theory File_System
  imports Paths Wire_Model
begin

text \<open>
  The disk under the storage layer (\<open>src/src/storage.rs\<close>) and the effects its operations run on
  it. A path is relative to the storage root. A file's content is either raw bytes or the value
  \<open>serde_json\<close> wrote there: parsing a file as a type answers exactly when that type was written,
  and anything else is a parse error. \<open>read_dir\<close> yields entries in the order of the list, which
  nothing relies on. The temporary file of \<open>atomic_write\<close> is not visible: either the renamed
  target appears or nothing does. A disk that fails by itself (full, read-only) is not modelled,
  except that a file in the place of a directory makes the write fail.
\<close>

section \<open>Errors\<close>

datatype api_error =
  NotFound | Unauthorized | Forbidden | Refused str | BadRequest str | Conflict str | Internal str

text \<open>The status and the code a refusal is answered with (\<open>src/src/http/error.rs\<close>).\<close>

fun error_status :: "api_error \<Rightarrow> nat" where
  "error_status NotFound = 404"
| "error_status Unauthorized = 401"
| "error_status Forbidden = 403"
| "error_status (Refused _) = 403"
| "error_status (BadRequest _) = 400"
| "error_status (Conflict _) = 409"
| "error_status (Internal _) = 500"

fun error_code :: "api_error \<Rightarrow> str" where
  "error_code NotFound = ''not_found''"
| "error_code Unauthorized = ''unauthorized''"
| "error_code Forbidden = ''forbidden''"
| "error_code (Refused _) = ''forbidden''"
| "error_code (BadRequest _) = ''bad_request''"
| "error_code (Conflict _) = ''conflict''"
| "error_code (Internal _) = ''internal_error''"

text \<open>How a refusal reads.\<close>

fun error_text :: "api_error \<Rightarrow> str" where
  "error_text NotFound = ''not found''"
| "error_text Unauthorized = ''unauthorized''"
| "error_text Forbidden = ''forbidden''"
| "error_text (Refused why) = ''forbidden: '' @ why"
| "error_text (BadRequest why) = ''bad request: '' @ why"
| "error_text (Conflict why) = ''conflict: '' @ why"
| "error_text (Internal why) = ''internal: '' @ why"

section \<open>What files hold\<close>

text \<open>A commit's metadata (\<open>src/src/authoring/commits.rs\<close>); its snapshot is the config.\<close>

record commit =
  cm_id :: str
  cm_parent :: "str option"
  cm_author :: str
  cm_message :: str
  cm_at :: str
  cm_config_rev :: str
  cm_contributors :: "str list"

datatype job_status = Running | Done | Failed

record job_snapshot =
  js_job_id :: str
  js_kind :: str
  js_pack_id :: str
  js_status :: job_status
  js_log :: "str list"

record server_entry =
  sv_schema_version :: nat
  sv_server_id :: str
  sv_pack_id :: str
  sv_display_name :: str
  sv_tagline :: str
  sv_description_md :: str
  sv_banner_url :: str
  sv_gallery_urls :: "str list"
  sv_tags :: "str list"
  sv_discord_url :: "str option"
  sv_website_url :: "str option"
  sv_address :: "str option"
  sv_owner_display :: str
  sv_motd_override :: "str option"
  sv_founded_at :: "str option"
  sv_featured :: bool

record featured =
  ft_schema_version :: nat
  ft_generated_at :: str
  ft_featured_servers :: "str list"
  ft_featured_packs :: "str list"

datatype content =
    CBytes str
  | CSummary pack_summary
  | CManifest pack_manifest
  | CConfig pack_config
  | CCommit commit
  | CSnapshot pack_config
  | CAuthors "str list"
  | CServer server_entry
  | CFeatured featured
  | CJob job_snapshot

datatype node = File content | Link str | Dir

type_synonym fs = "(path \<times> node) list"

section \<open>Primitive effects\<close>

definition fs_put :: "path \<Rightarrow> node \<Rightarrow> fs \<Rightarrow> fs" where
  "fs_put p n fs = (p, n) # filter (\<lambda>(q, _). q \<noteq> p) fs"

definition fs_del :: "path \<Rightarrow> fs \<Rightarrow> fs" where
  "fs_del p fs = filter (\<lambda>(q, _). q \<noteq> p) fs"

text \<open>\<open>fs::read\<close>, which follows a link to its target in the same directory.\<close>

definition file_at :: "fs \<Rightarrow> path \<Rightarrow> content option" where
  "file_at fs p = (case map_of fs p of Some (File c) \<Rightarrow> Some c | _ \<Rightarrow> None)"

definition fs_read :: "fs \<Rightarrow> path \<Rightarrow> content option" where
  "fs_read fs p =
     (case map_of fs p of
        Some (Link t) \<Rightarrow> file_at fs (butlast p @ components t)
      | _ \<Rightarrow> file_at fs p)"

definition fs_exists :: "fs \<Rightarrow> path \<Rightarrow> bool" where
  "fs_exists fs p =
     (case map_of fs p of
        Some (Link t) \<Rightarrow> map_of fs (butlast p @ components t) \<noteq> None
      | Some _ \<Rightarrow> True
      | None \<Rightarrow> False)"

fun mkdirs :: "path \<Rightarrow> path \<Rightarrow> fs \<Rightarrow> fs option" where
  "mkdirs here [] fs = Some fs"
| "mkdirs here (c # cs) fs =
     (case map_of fs (here @ [c]) of
        None \<Rightarrow> mkdirs (here @ [c]) cs (fs_put (here @ [c]) Dir fs)
      | Some Dir \<Rightarrow> mkdirs (here @ [c]) cs fs
      | Some _ \<Rightarrow> None)"

definition create_dir_all :: "path \<Rightarrow> fs \<Rightarrow> (api_error + unit) \<times> fs" where
  "create_dir_all p fs =
     (case mkdirs [] p fs of None \<Rightarrow> (Inl (Internal ''io''), fs) | Some fs \<Rightarrow> (Inr (), fs))"

definition atomic_write :: "path \<Rightarrow> content \<Rightarrow> fs \<Rightarrow> (api_error + unit) \<times> fs" where
  "atomic_write p c fs =
     (if p = [] then (Inl (Internal ''no parent''), fs)
      else case mkdirs [] (butlast p) fs of
        None \<Rightarrow> (Inl (Internal ''io''), fs)
      | Some fs \<Rightarrow>
          if map_of fs p = Some Dir then (Inl (Internal ''io''), fs)
          else (Inr (), fs_put p (File c) fs))"

definition remove_file :: "path \<Rightarrow> fs \<Rightarrow> fs option" where
  "remove_file p fs =
     (case map_of fs p of None \<Rightarrow> None | Some Dir \<Rightarrow> None | Some _ \<Rightarrow> Some (fs_del p fs))"

text \<open>\<open>let _ = fs::remove_file(..)\<close>\<close>

definition remove_file_quiet :: "path \<Rightarrow> fs \<Rightarrow> fs" where
  "remove_file_quiet p fs = (case remove_file p fs of None \<Rightarrow> fs | Some fs \<Rightarrow> fs)"

definition remove_dir_all :: "path \<Rightarrow> fs \<Rightarrow> fs option" where
  "remove_dir_all p fs =
     (if map_of fs p = Some Dir then Some (filter (\<lambda>(q, _). take (length p) q \<noteq> p) fs) else None)"

definition read_dir :: "fs \<Rightarrow> path \<Rightarrow> (str \<times> node) list option" where
  "read_dir fs p =
     (if map_of fs p = Some Dir
      then Some (map (\<lambda>(q, n). (last q, n)) (filter (\<lambda>(q, _). q \<noteq> [] \<and> butlast q = p) fs))
      else None)"

text \<open>Effects one after another, stopping at the first that fails (\<open>?\<close>).\<close>

fun run_effects :: "(fs \<Rightarrow> (api_error + unit) \<times> fs) list \<Rightarrow> fs \<Rightarrow> (api_error + unit) \<times> fs" where
  "run_effects [] fs = (Inr (), fs)"
| "run_effects (s # ss) fs =
     (case s fs of (Inl e, fs) \<Rightarrow> (Inl e, fs) | (Inr _, fs) \<Rightarrow> run_effects ss fs)"

definition bad_request :: "str \<Rightarrow> api_error + 'a" where
  "bad_request why = Inl (BadRequest why)"

definition json_error :: "api_error + 'a" where
  "json_error = Inl (Internal ''JSON parse error'')"

section \<open>Laws\<close>

lemma map_of_fs_put [simp]: "map_of (fs_put p n fs) q = (if q = p then Some n else map_of fs q)"
proof -
  have "q \<noteq> p \<Longrightarrow> map_of (filter (\<lambda>(q, _). q \<noteq> p) fs) q = map_of fs q" by (induction fs) auto
  then show ?thesis by (simp add: fs_put_def)
qed

lemma map_of_fs_del [simp]: "map_of (fs_del p fs) q = (if q = p then None else map_of fs q)"
  unfolding fs_del_def by (induction fs) auto

lemma file_at_put_dir: "map_of fs p = None \<Longrightarrow> file_at (fs_put p Dir fs) q = file_at fs q"
  by (simp add: file_at_def)

lemma mkdirs_lookup:
  "mkdirs here cs fs = Some fs' \<Longrightarrow>
     map_of fs' q = map_of fs q \<or> map_of fs q = None \<and> map_of fs' q = Some Dir"
  by (induction here cs fs rule: mkdirs.induct) (auto split: option.splits node.splits if_splits)

lemma mkdirs_files: "mkdirs here cs fs = Some fs' \<Longrightarrow> file_at fs' q = file_at fs q"
  using mkdirs_lookup [of here cs fs fs' q] by (auto simp: file_at_def)

lemma mkdirs_keeps: "mkdirs here cs fs = Some fs' \<Longrightarrow> map_of fs q = Some n \<Longrightarrow> map_of fs' q = Some n"
  using mkdirs_lookup [of here cs fs fs' q] by auto

lemma mkdirs_links: "mkdirs here cs fs = Some fs' \<Longrightarrow> map_of fs' q = Some (Link t) \<longleftrightarrow> map_of fs q = Some (Link t)"
  using mkdirs_lookup [of here cs fs fs' q] by auto

lemma atomic_write_ok:
  assumes "atomic_write p c fs = (Inr u, fs')"
  shows "file_at fs' q = (if q = p then Some c else file_at fs q)"
    and "q \<noteq> p \<Longrightarrow> map_of fs' q = Some (Link t) \<longleftrightarrow> map_of fs q = Some (Link t)"
    and "map_of fs' p = Some (File c)"
proof -
  from assms obtain fs1 where m: "mkdirs [] (butlast p) fs = Some fs1" and w: "fs' = fs_put p (File c) fs1"
    by (auto simp: atomic_write_def split: if_splits option.splits)
  show "file_at fs' q = (if q = p then Some c else file_at fs q)"
    using mkdirs_files [OF m, of q] by (simp add: w file_at_def)
  show "q \<noteq> p \<Longrightarrow> map_of fs' q = Some (Link t) \<longleftrightarrow> map_of fs q = Some (Link t)"
    using mkdirs_links [OF m] by (simp add: w)
  show "map_of fs' p = Some (File c)" by (simp add: w)
qed

lemma atomic_write_err:
  assumes "atomic_write p c fs = (Inl e, fs')"
  shows "file_at fs' q = file_at fs q"
  using assms by (auto simp: atomic_write_def mkdirs_files split: if_splits option.splits)

lemma atomic_write_other [simp]: "q \<noteq> p \<Longrightarrow> file_at (snd (atomic_write p c fs)) q = file_at fs q"
  using atomic_write_ok(1) [of p c fs] atomic_write_err [of p c fs]
  by (cases "atomic_write p c fs"; cases "fst (atomic_write p c fs)") auto

lemma file_at_del [simp]: "file_at (fs_del p fs) q = (if q = p then None else file_at fs q)"
  by (simp add: file_at_def)

lemma file_at_put [simp]:
  "file_at (fs_put p n fs) q =
     (if q = p then (case n of File c \<Rightarrow> Some c | _ \<Rightarrow> None) else file_at fs q)"
  by (simp add: file_at_def)

lemma remove_file_None: "remove_file p fs = None \<Longrightarrow> file_at fs p = None"
  by (auto simp: remove_file_def file_at_def split: option.splits node.splits)

lemma remove_file_Some: "remove_file p fs = Some fs' \<Longrightarrow> fs' = fs_del p fs"
  by (auto simp: remove_file_def split: option.splits node.splits)

lemma remove_file_quiet_file:
  "file_at (remove_file_quiet p fs) q = (if q = p then None else file_at fs q)"
  using remove_file_None [of p fs]
  by (auto simp: remove_file_quiet_def split: option.splits dest: remove_file_Some)

lemma remove_file_file:
  "remove_file p fs = Some fs' \<Longrightarrow> file_at fs' q = (if q = p then None else file_at fs q)"
  by (drule remove_file_Some) simp

section \<open>Effects as updates of one directory\<close>

text \<open>A directory as its operations see it: what each name in it reads as, with no symbolic link.\<close>

definition files_in :: "path \<Rightarrow> fs \<Rightarrow> str \<Rightarrow> content option" where
  "files_in d fs name = file_at fs (d @ [name])"

definition no_links :: "path \<Rightarrow> fs \<Rightarrow> bool" where
  "no_links d fs \<longleftrightarrow> (\<forall>name t. map_of fs (d @ [name]) \<noteq> Some (Link t))"

definition updates ::
  "path \<Rightarrow> (fs \<Rightarrow> (api_error + unit) \<times> fs) \<Rightarrow>
     ((str \<Rightarrow> content option) \<Rightarrow> str \<Rightarrow> content option) \<Rightarrow> bool" where
  "updates d e u \<longleftrightarrow> (\<forall>fs r fs'. e fs = (r, fs') \<longrightarrow> no_links d fs \<longrightarrow>
     no_links d fs' \<and> files_in d fs' = (case r of Inl _ \<Rightarrow> files_in d fs | Inr _ \<Rightarrow> u (files_in d fs)))"

lemma read_no_links: "no_links d fs \<Longrightarrow> fs_read fs (d @ [name]) = files_in d fs name"
  by (auto simp: fs_read_def no_links_def files_in_def split: option.splits node.splits)

lemma same_entries:
  assumes "\<forall>name. map_of fs' (d @ [name]) = map_of fs (d @ [name])"
  shows "files_in d fs' = files_in d fs" "no_links d fs' = no_links d fs"
  using assms by (auto simp: files_in_def file_at_def no_links_def)

lemma updates_mkdir: "updates d (create_dir_all d') (\<lambda>f. f)"
  by (auto simp: updates_def create_dir_all_def no_links_def files_in_def mkdirs_files mkdirs_links
      split: option.splits)

lemma updates_write: "updates d (atomic_write (d @ [name]) c) (\<lambda>f. f(name := Some c))"
proof -
  have "no_links d fs' \<and> files_in d fs' =
      (case r of Inl _ \<Rightarrow> files_in d fs | Inr _ \<Rightarrow> (files_in d fs)(name := Some c))"
    if w: "atomic_write (d @ [name]) c fs = (r, fs')" and n: "no_links d fs" for r fs' fs
  proof (cases r)
    case (Inl e)
    with w have "fs' = fs \<or> (\<exists>ds. mkdirs [] ds fs = Some fs')"
      by (auto simp: atomic_write_def split: if_splits option.splits)
    with n Inl show ?thesis
      by (auto simp: no_links_def files_in_def mkdirs_files mkdirs_links)
  next
    case (Inr u)
    note ok = atomic_write_ok [OF w [unfolded Inr]]
    have "no_links d fs'"
      unfolding no_links_def
    proof (intro allI notI)
      fix m t
      assume "map_of fs' (d @ [m]) = Some (Link t)"
      then show False
        using n ok(2) [of "d @ [m]" t] ok(3) by (cases "m = name") (auto simp: no_links_def)
    qed
    moreover have "files_in d fs' = (files_in d fs)(name := Some c)"
      by (rule ext) (simp add: files_in_def ok(1))
    ultimately show ?thesis by (simp add: Inr)
  qed
  then show ?thesis by (simp add: updates_def)
qed

lemma updates_remove:
  "updates d (\<lambda>fs. (Inr (), remove_file_quiet (d @ [name]) fs)) (\<lambda>f. f(name := None))"
proof -
  have "files_in d (remove_file_quiet (d @ [name]) fs) = (files_in d fs)(name := None)" for fs
    by (rule ext) (simp add: files_in_def remove_file_quiet_file)
  moreover have "no_links d fs \<Longrightarrow> no_links d (remove_file_quiet (d @ [name]) fs)" for fs
    by (auto simp: no_links_def remove_file_quiet_def split: option.splits if_splits dest!: remove_file_Some)
  ultimately show ?thesis by (auto simp: updates_def)
qed

lemma run_effects_updates:
  assumes "list_all2 (updates d) es us" "run_effects es fs = (r, fs')" "no_links d fs"
  shows "no_links d fs' \<and>
    (\<exists>j \<le> length us. files_in d fs' = fold (\<lambda>u. u) (take j us) (files_in d fs) \<and>
       (r = Inr () \<longrightarrow> j = length us))"
  using assms
proof (induction es us arbitrary: fs rule: list_all2_induct)
  case Nil
  then show ?case by auto
next
  case (Cons e es u us)
  obtain r1 fs1 where e: "e fs = (r1, fs1)" by (cases "e fs")
  with Cons.hyps(1) Cons.prems(2) have f: "no_links d fs1"
      "files_in d fs1 = (case r1 of Inl _ \<Rightarrow> files_in d fs | Inr _ \<Rightarrow> u (files_in d fs))"
    by (auto simp: updates_def)
  show ?case
  proof (cases r1)
    case (Inl x)
    with Cons.prems(1) e f show ?thesis by (auto intro!: exI [of _ 0])
  next
    case (Inr x)
    with Cons.prems(1) e have "run_effects es fs1 = (r, fs')" by simp
    from Cons.IH [OF this f(1)] obtain j where "no_links d fs'" "j \<le> length us"
        "files_in d fs' = fold (\<lambda>u. u) (take j us) (files_in d fs1)" "r = Inr () \<longrightarrow> j = length us"
      by auto
    with f(2) Inr show ?thesis by (auto intro!: exI [of _ "Suc j"])
  qed
qed

section \<open>What an effect leaves alone\<close>

text \<open>The entries at or below a directory, which is all that reads below it depend on.\<close>

definition subtree :: "path \<Rightarrow> fs \<Rightarrow> fs" where
  "subtree d fs = filter (\<lambda>(x, _). prefix d x) fs"

lemma map_of_subtree [simp]: "map_of (subtree d fs) x = (if prefix d x then map_of fs x else None)"
  unfolding subtree_def by (induction fs) auto

lemma read_dir_subtree: "read_dir (subtree d fs) d = read_dir fs d"
proof -
  have "filter (\<lambda>(q, _). q \<noteq> [] \<and> butlast q = d) (subtree d fs) = filter (\<lambda>(q, _). q \<noteq> [] \<and> butlast q = d) fs"
    unfolding subtree_def filter_filter
    by (rule filter_cong) (auto simp: prefix_def, metis append_butlast_last_id)
  then show ?thesis by (simp add: read_dir_def)
qed

lemma fs_read_subtree: "prefix d p \<Longrightarrow> p \<noteq> d \<Longrightarrow> fs_read (subtree d fs) p = fs_read fs p"
proof -
  assume p: "prefix d p" "p \<noteq> d"
  then have "prefix d (butlast p @ xs)" for xs
    by (metis append_butlast_last_id prefix_Nil prefix_prefix prefix_snoc)
  with p show ?thesis
    by (simp add: fs_read_def file_at_def split: option.splits node.splits)
qed

lemma fs_exists_subtree: "prefix d p \<Longrightarrow> p \<noteq> d \<Longrightarrow> fs_exists (subtree d fs) p = fs_exists fs p"
proof -
  assume p: "prefix d p" "p \<noteq> d"
  then have "prefix d (butlast p @ xs)" for xs
    by (metis append_butlast_last_id prefix_Nil prefix_prefix prefix_snoc)
  with p show ?thesis
    by (simp add: fs_exists_def split: option.splits node.splits)
qed

lemma subtree_put [simp]: "\<not> prefix d q \<Longrightarrow> subtree d (fs_put q n fs) = subtree d fs"
  by (auto simp: subtree_def fs_put_def filter_filter intro!: filter_cong)

lemma subtree_del [simp]: "\<not> prefix d q \<Longrightarrow> subtree d (fs_del q fs) = subtree d fs"
  by (auto simp: subtree_def fs_del_def filter_filter intro!: filter_cong)

lemma subtree_mkdirs: "mkdirs here cs fs = Some fs' \<Longrightarrow> \<not> prefix d (here @ cs) \<Longrightarrow> subtree d fs' = subtree d fs"
proof (induction here cs fs rule: mkdirs.induct)
  case (2 here c cs fs)
  from 2(4) have "\<not> prefix d (here @ [c])" using prefix_prefix [of d "here @ [c]" cs] by auto
  with 2 show ?case by (auto split: option.splits node.splits)
qed simp

lemma subtree_create_dir_all: "\<not> prefix d p \<Longrightarrow> subtree d (snd (create_dir_all p fs)) = subtree d fs"
  by (auto simp: create_dir_all_def subtree_mkdirs split: option.splits)

lemma subtree_atomic_write: "\<not> prefix d p \<Longrightarrow> subtree d (snd (atomic_write p c fs)) = subtree d fs"
proof -
  assume p: "\<not> prefix d p"
  then have "\<not> prefix d (butlast p)"
    by (metis append_butlast_last_id butlast.simps(1) prefix_prefix)
  with p show ?thesis
    by (auto simp: atomic_write_def subtree_mkdirs split: option.splits)
qed

lemma subtree_remove_file: "\<not> prefix d p \<Longrightarrow> remove_file p fs = Some fs' \<Longrightarrow> subtree d fs' = subtree d fs"
  by (drule remove_file_Some) simp

lemma subtree_remove_file_quiet [simp]: "\<not> prefix d p \<Longrightarrow> subtree d (remove_file_quiet p fs) = subtree d fs"
  by (auto simp: remove_file_quiet_def subtree_remove_file split: option.splits)

lemma subtree_remove_dir_all:
  assumes "\<not> prefix d p" "\<not> prefix p d" "remove_dir_all p fs = Some fs'"
  shows "subtree d fs' = subtree d fs"
proof -
  have "take (length p) x \<noteq> p" if "prefix d x" for x
    using that assms(1,2) prefix_same_cases [of d x p] take_is_prefix [of "length p" x] by auto
  moreover from assms(3) have "fs' = filter (\<lambda>(q, _). take (length p) q \<noteq> p) fs"
    by (simp add: remove_dir_all_def split: if_splits)
  ultimately show ?thesis
    unfolding subtree_def by (auto simp: filter_filter intro!: filter_cong)
qed

lemma subtree_mono: "prefix d e \<Longrightarrow> subtree d fs = subtree d fs' \<Longrightarrow> subtree e fs = subtree e fs'"
proof -
  assume "prefix d e" "subtree d fs = subtree d fs'"
  moreover have "subtree e (subtree d fs) = subtree e fs" if "prefix d e" for fs
    using that by (auto simp: subtree_def filter_filter intro!: filter_cong dest: prefix_order.order_trans)
  ultimately show ?thesis by metis
qed

end
