(* ===== verification/Disk_Frame.thy ===== *)
theory Disk_Frame
  imports File_System
begin

text \<open>
  What a sequence of effects can reach. \<open>touches P\<close> relates two disks when the second comes from the
  first by effects on paths that satisfy \<open>P\<close>: every operation of the storage layer is one, and
  everything that is known of the disk elsewhere follows from that. A disk is well formed when no
  path is listed twice and every entry sits in a directory; every effect keeps that.
\<close>

section \<open>Well-formed disks\<close>

definition has_parent :: "fs \<Rightarrow> path \<Rightarrow> bool" where
  "has_parent fs q \<longleftrightarrow> q \<noteq> [] \<and> (butlast q = [] \<or> map_of fs (butlast q) = Some Dir)"

definition fs_ok :: "fs \<Rightarrow> bool" where
  "fs_ok fs \<longleftrightarrow> distinct (map fst fs) \<and> (\<forall>q n. map_of fs q = Some n \<longrightarrow> has_parent fs q)"

lemma fs_ok_Nil [simp]: "fs_ok []"
  by (simp add: fs_ok_def)

lemma fs_ok_parent: "fs_ok fs \<Longrightarrow> map_of fs q = Some n \<Longrightarrow> has_parent fs q"
  by (simp add: fs_ok_def)

lemma distinct_put: "distinct (map fst fs) \<Longrightarrow> distinct (map fst (fs_put p n fs))"
  by (induction fs) (auto simp: fs_put_def)

lemma distinct_keep: "distinct (map fst fs) \<Longrightarrow> distinct (map fst (filter Q fs))"
  by (induction fs) auto

lemma map_of_keep: "map_of (filter (\<lambda>(q, _). Q q) fs) q = (if Q q then map_of fs q else None)"
  by (induction fs) auto

lemma fs_okI:
  "distinct (map fst fs) \<Longrightarrow> (\<And>q n. map_of fs q = Some n \<Longrightarrow> has_parent fs q) \<Longrightarrow> fs_ok fs"
  by (simp add: fs_ok_def)

lemma fs_ok_distinct: "fs_ok fs \<Longrightarrow> distinct (map fst fs)"
  by (simp add: fs_ok_def)

lemma fs_ok_put:
  assumes "fs_ok fs" "has_parent fs p" "map_of fs p \<noteq> Some Dir"
  shows "fs_ok (fs_put p n fs)"
proof (rule fs_okI)
  show "distinct (map fst (fs_put p n fs))" by (rule distinct_put [OF fs_ok_distinct [OF assms(1)]])
next
  fix q m
  assume "map_of (fs_put p n fs) q = Some m"
  then have "has_parent fs q" using assms(2) fs_ok_parent [OF assms(1)] by (auto split: if_splits)
  with assms(3) show "has_parent (fs_put p n fs) q" by (auto simp: has_parent_def)
qed

lemma fs_ok_del:
  assumes "fs_ok fs" "map_of fs p \<noteq> Some Dir"
  shows "fs_ok (fs_del p fs)"
proof (rule fs_okI)
  show "distinct (map fst (fs_del p fs))"
    unfolding fs_del_def by (rule distinct_keep [OF fs_ok_distinct [OF assms(1)]])
next
  fix q m
  assume "map_of (fs_del p fs) q = Some m"
  then have "has_parent fs q" using fs_ok_parent [OF assms(1)] by (auto split: if_splits)
  with assms(2) show "has_parent (fs_del p fs) q" by (auto simp: has_parent_def)
qed

lemma fs_ok_rmdir:
  assumes "fs_ok fs" "remove_dir_all p fs = Some fs'"
  shows "fs_ok fs'"
proof -
  from assms(2) have fs': "fs' = filter (\<lambda>(q, _). take (length p) q \<noteq> p) fs"
    by (simp add: remove_dir_all_def split: if_splits)
  show ?thesis
  proof (rule fs_okI)
    show "distinct (map fst fs')" unfolding fs' by (rule distinct_keep [OF fs_ok_distinct [OF assms(1)]])
  next
    fix q m
    assume "map_of fs' q = Some m"
    then have q: "map_of fs q = Some m" "take (length p) q \<noteq> p" by (simp_all add: fs' map_of_keep split: if_splits)
    have "take (length p) (butlast q) \<noteq> p"
    proof
      assume t: "take (length p) (butlast q) = p"
      then have "length p \<le> length (butlast q)" by (metis length_take min.absorb_iff1 min.commute)
      then have "take (length p) (butlast q) = take (length p) q" by (simp add: butlast_conv_take)
      with t q(2) show False by simp
    qed
    with fs_ok_parent [OF assms(1) q(1)] show "has_parent fs' q" by (simp add: has_parent_def fs' map_of_keep)
  qed
qed

lemma mkdirs_ok:
  "mkdirs here cs fs = Some fs' \<Longrightarrow> fs_ok fs \<Longrightarrow> here = [] \<or> map_of fs here = Some Dir \<Longrightarrow>
     fs_ok fs' \<and> (here @ cs = [] \<or> map_of fs' (here @ cs) = Some Dir)"
proof (induction here cs fs rule: mkdirs.induct)
  case (2 here c cs fs)
  have "has_parent fs (here @ [c])" using 2(5) by (simp add: has_parent_def)
  with 2 show ?case by (auto simp: fs_ok_put split: option.splits node.splits)
qed simp

lemma mkdirs_dir:
  "mkdirs here cs fs = Some fs' \<Longrightarrow> here = [] \<or> map_of fs here = Some Dir \<Longrightarrow>
     here @ cs = [] \<or> map_of fs' (here @ cs) = Some Dir"
  by (induction here cs fs rule: mkdirs.induct) (auto split: option.splits node.splits)

lemma fs_ok_mkdir: "create_dir_all p fs = (r, fs') \<Longrightarrow> fs_ok fs \<Longrightarrow> fs_ok fs'"
  by (auto simp: create_dir_all_def dest: mkdirs_ok split: option.splits)

lemma fs_ok_write: "atomic_write p c fs = (r, fs') \<Longrightarrow> fs_ok fs \<Longrightarrow> fs_ok fs'"
proof -
  assume w: "atomic_write p c fs = (r, fs')" and ok: "fs_ok fs"
  show "fs_ok fs'"
  proof (cases "p = [] \<or> mkdirs [] (butlast p) fs = None")
    case False
    then obtain fs1 where m: "mkdirs [] (butlast p) fs = Some fs1" and p: "p \<noteq> []" by auto
    from mkdirs_ok [OF m ok] have "fs_ok fs1" "has_parent fs1 p" using p by (simp_all add: has_parent_def)
    with w m p show ?thesis by (auto simp: atomic_write_def fs_ok_put split: if_splits)
  qed (use w ok in \<open>auto simp: atomic_write_def split: if_splits\<close>)
qed

section \<open>Effects on some paths\<close>

inductive touches :: "(path \<Rightarrow> bool) \<Rightarrow> fs \<Rightarrow> fs \<Rightarrow> bool" for P where
  t_refl: "touches P fs fs"
| t_write: "touches P fs fs1 \<Longrightarrow> P p \<Longrightarrow> atomic_write p c fs1 = (r, fs2) \<Longrightarrow> touches P fs fs2"
| t_mkdir: "touches P fs fs1 \<Longrightarrow> P d \<Longrightarrow> create_dir_all d fs1 = (r, fs2) \<Longrightarrow> touches P fs fs2"
| t_link: "touches P fs fs1 \<Longrightarrow> P p \<Longrightarrow> has_parent fs1 p \<Longrightarrow> map_of fs1 p \<noteq> Some Dir \<Longrightarrow>
    touches P fs (fs_put p (Link t) fs1)"
| t_del: "touches P fs fs1 \<Longrightarrow> P p \<Longrightarrow> map_of fs1 p \<noteq> Some Dir \<Longrightarrow> touches P fs (fs_del p fs1)"
| t_rmdir: "touches P fs fs1 \<Longrightarrow> P p \<Longrightarrow> remove_dir_all p fs1 = Some fs2 \<Longrightarrow> touches P fs fs2"

lemma touches_trans: "touches P fs2 fs3 \<Longrightarrow> touches P fs1 fs2 \<Longrightarrow> touches P fs1 fs3"
  by (induction rule: touches.induct) (auto intro: touches.intros)

lemma touches_mono: "touches P fs1 fs2 \<Longrightarrow> (\<And>p. P p \<Longrightarrow> Q p) \<Longrightarrow> touches Q fs1 fs2"
  by (induction rule: touches.induct) (auto intro: touches.intros)

lemma touches_write: "atomic_write p c fs = (r, fs') \<Longrightarrow> P p \<Longrightarrow> touches P fs fs'"
  by (auto intro: touches.intros)

lemma touches_mkdir: "create_dir_all p fs = (r, fs') \<Longrightarrow> P p \<Longrightarrow> touches P fs fs'"
  by (auto intro: touches.intros)

lemma touches_remove: "remove_file p fs = Some fs' \<Longrightarrow> P p \<Longrightarrow> touches P fs fs'"
  by (auto simp: remove_file_def intro!: t_del [OF t_refl] split: option.splits node.splits)

lemma touches_remove_quiet: "P p \<Longrightarrow> touches P fs (remove_file_quiet p fs)"
  by (auto simp: remove_file_quiet_def intro: touches_remove t_refl split: option.splits)

lemma touches_effects:
  "run_effects es fs = (r, fs') \<Longrightarrow> (\<And>e fs r fs'. e \<in> set es \<Longrightarrow> e fs = (r, fs') \<Longrightarrow> touches P fs fs') \<Longrightarrow>
     touches P fs fs'"
proof (induction es fs rule: run_effects.induct)
  case (2 e es fs)
  obtain r1 fs1 where e: "e fs = (r1, fs1)" by (cases "e fs")
  have k: "touches P fs fs1" by (rule 2(3) [of e fs r1 fs1]) (simp_all add: e)
  show ?case
  proof (cases r1)
    case (Inr x)
    from e Inr 2(2) have "run_effects es fs1 = (r, fs')" by simp
    have "touches P fs1 fs'"
      by (rule 2(1) [OF e [symmetric] Inr \<open>run_effects es fs1 = (r, fs')\<close>]) (auto intro: 2(3))
    then show ?thesis using k by (rule touches_trans)
  qed (use k e 2(2) in simp)
qed (simp add: t_refl)

lemma touches_ok: "touches P fs fs' \<Longrightarrow> fs_ok fs \<Longrightarrow> fs_ok fs'"
  by (induction rule: touches.induct)
    (auto intro: fs_ok_write fs_ok_mkdir fs_ok_put fs_ok_del fs_ok_rmdir)

lemma touches_subtree:
  "touches P fs fs' \<Longrightarrow> (\<And>p. P p \<Longrightarrow> parallel d p) \<Longrightarrow> subtree d fs' = subtree d fs"
proof (induction rule: touches.induct)
  case (t_write fs fs1 p c r fs2)
  with subtree_atomic_write [of d p c fs1] show ?case by (simp add: parallel_def)
next
  case (t_mkdir fs fs1 p r fs2)
  with subtree_create_dir_all [of d p fs1] show ?case by (simp add: parallel_def)
next
  case (t_rmdir fs fs1 p fs2)
  with subtree_remove_dir_all [of d p fs1 fs2] show ?case by (simp add: parallel_def)
qed (simp_all add: parallel_def)

text \<open>A path outside every touched subtree keeps its file.\<close>

lemma touches_file:
  assumes "touches P fs fs'" "\<And>p. P p \<Longrightarrow> \<not> prefix p q"
  shows "file_at fs' q = file_at fs q"
  using assms
proof (induction rule: touches.induct)
  case (t_write fs fs1 p c r fs2)
  then have "q \<noteq> p" by auto
  with atomic_write_other [OF this, of c fs1] t_write show ?case by simp
next
  case (t_mkdir fs fs1 d r fs2)
  then show ?case by (auto simp: create_dir_all_def mkdirs_files split: option.splits)
next
  case (t_rmdir fs fs1 p fs2)
  then have "take (length p) q \<noteq> p" by (metis take_is_prefix)
  with t_rmdir show ?case by (auto simp: remove_dir_all_def file_at_def map_of_keep split: if_splits)
qed (auto simp: prefix_order.order_refl)

text \<open>No link appears off the touched paths.\<close>

lemma touches_links:
  assumes "touches P fs fs'" "\<not> P q" "map_of fs' q = Some (Link t)"
  shows "map_of fs q = Some (Link t)"
  using assms
proof (induction rule: touches.induct)
  case (t_write fs fs1 p c r fs2)
  then have "q \<noteq> p" by auto
  have "map_of fs1 q = Some (Link t)"
  proof (cases "p = [] \<or> mkdirs [] (butlast p) fs1 = None")
    case False
    then obtain fs3 where m: "mkdirs [] (butlast p) fs1 = Some fs3" by auto
    with t_write \<open>q \<noteq> p\<close> have "map_of fs3 q = Some (Link t)"
      by (auto simp: atomic_write_def split: if_splits)
    with mkdirs_links [OF m] show ?thesis by simp
  qed (use t_write in \<open>auto simp: atomic_write_def split: if_splits\<close>)
  with t_write show ?case by simp
next
  case (t_mkdir fs fs1 d r fs2)
  then show ?case by (auto simp: create_dir_all_def dest!: mkdirs_links split: option.splits)
next
  case (t_rmdir fs fs1 p fs2)
  then show ?case by (auto simp: remove_dir_all_def map_of_keep split: if_splits)
qed (auto split: if_splits)

section \<open>Names in a directory\<close>

definition entries_in :: "path \<Rightarrow> fs \<Rightarrow> str list" where
  "entries_in d fs = map (\<lambda>(q, _). last q) (filter (\<lambda>(q, _). q \<noteq> [] \<and> butlast q = d) fs)"

lemma read_dir_entries:
  assumes "fs_ok fs" "d \<noteq> []"
  shows "map fst (case read_dir fs d of None \<Rightarrow> [] | Some es \<Rightarrow> es) = entries_in d fs"
proof (cases "map_of fs d = Some Dir")
  case True
  then show ?thesis by (simp add: read_dir_def entries_in_def split_def)
next
  case False
  have "\<not> (q \<noteq> [] \<and> butlast q = d)" if "(q, n) \<in> set fs" for q n
  proof -
    have "map_of fs q = Some n" using that fs_ok_distinct [OF assms(1)] by simp
    from fs_ok_parent [OF assms(1) this] False assms(2) show ?thesis by (auto simp: has_parent_def)
  qed
  then have "filter (\<lambda>(q, _). q \<noteq> [] \<and> butlast q = d) fs = []" by (auto simp: filter_empty_conv)
  with False show ?thesis by (simp add: read_dir_def entries_in_def)
qed

lemma in_read_dir:
  assumes "fs_ok fs" "d \<noteq> []"
  shows "(name, n) \<in> set (case read_dir fs d of None \<Rightarrow> [] | Some es \<Rightarrow> es) \<longleftrightarrow> map_of fs (d @ [name]) = Some n"
proof -
  have mem: "map_of fs q = Some n \<longleftrightarrow> (q, n) \<in> set fs" for q
    using fs_ok_distinct [OF assms(1)] by simp
  show ?thesis
  proof (cases "map_of fs d = Some Dir")
    case True
    have "(name, n) \<in> (\<lambda>(q, n). (last q, n)) ` {x \<in> set fs. case x of (q, _) \<Rightarrow> q \<noteq> [] \<and> butlast q = d} \<longleftrightarrow>
        (d @ [name], n) \<in> set fs"
      by (auto simp: image_iff)
    with True show ?thesis by (simp add: read_dir_def mem)
  next
    case False
    then have "map_of fs (d @ [name]) \<noteq> Some n"
      using fs_ok_parent [OF assms(1), of "d @ [name]"] assms(2) by (auto simp: has_parent_def)
    with False show ?thesis by (simp add: read_dir_def)
  qed
qed

lemma read_dir_distinct:
  assumes "fs_ok fs" "read_dir fs d = Some es"
  shows "distinct (map fst es)"
proof -
  have "distinct (map fst fs) \<Longrightarrow>
      distinct (map (\<lambda>x. last (fst x)) (filter (\<lambda>x. fst x \<noteq> [] \<and> butlast (fst x) = d) fs))" for fs :: fs
  proof (induction fs)
    case (Cons a fs)
    have "fst x = fst a" if "butlast (fst x) = butlast (fst a)" "last (fst x) = last (fst a)" "fst x \<noteq> []" "fst a \<noteq> []"
      for x :: "path \<times> node"
      using that by (metis append_butlast_last_id)
    with Cons show ?case by (fastforce simp: image_iff)
  qed simp
  from this [OF fs_ok_distinct [OF assms(1)]] assms(2) show ?thesis
    by (auto simp: read_dir_def split_def o_def split: if_splits)
qed

lemma entries_del: "\<not> Q x \<Longrightarrow> filter Q (entries_in d (fs_del (d @ [x]) fs)) = filter Q (entries_in d fs)"
  unfolding entries_in_def fs_del_def filter_map filter_filter
  by (rule arg_cong [where f = "map _"], rule filter_cong) (auto, metis last_snoc)

lemma entries_put: "\<not> Q x \<Longrightarrow> filter Q (entries_in d (fs_put (d @ [x]) n fs)) = filter Q (entries_in d fs)"
  using entries_del [of Q x d fs] by (simp add: entries_in_def fs_put_def fs_del_def)

lemma entries_put_other: "butlast q \<noteq> d \<Longrightarrow> entries_in d (fs_put q n fs) = entries_in d fs"
  by (induction fs) (auto simp: entries_in_def fs_put_def)

lemma entries_mkdirs: "mkdirs here cs fs = Some fs' \<Longrightarrow> \<not> strict_prefix d (here @ cs) \<Longrightarrow> entries_in d fs' = entries_in d fs"
proof (induction here cs fs rule: mkdirs.induct)
  case (2 here c cs fs)
  have "here \<noteq> d" using 2(4) by (auto simp: strict_prefix_def)
  with 2 show ?case by (auto simp: entries_put_other split: option.splits node.splits)
qed simp

lemma entries_remove_quiet:
  "\<not> Q x \<Longrightarrow> filter Q (entries_in d (remove_file_quiet (d @ [x]) fs)) = filter Q (entries_in d fs)"
  by (auto simp: remove_file_quiet_def entries_del split: option.splits dest!: remove_file_Some)

section \<open>Ancestors\<close>

lemma fs_ok_ancestor:
  assumes "fs_ok fs"
  shows "map_of fs (p @ xs) = Some n \<Longrightarrow> p \<noteq> [] \<Longrightarrow> xs \<noteq> [] \<Longrightarrow> map_of fs p = Some Dir"
proof (induction xs arbitrary: n rule: rev_induct)
  case (snoc x xs)
  from fs_ok_parent [OF assms snoc.prems(1)] snoc.prems(2) have "map_of fs (p @ xs) = Some Dir"
    by (auto simp: has_parent_def butlast_append split: if_splits)
  with snoc show ?case by (cases "xs = []") auto
qed simp

lemma mkdirs_there: "fs_ok fs \<Longrightarrow> map_of fs (here @ cs @ [x]) = Some n \<Longrightarrow> mkdirs here cs fs = Some fs"
proof (induction here cs fs rule: mkdirs.induct)
  case (2 here c cs fs)
  then have "map_of fs (here @ [c]) = Some Dir"
    using fs_ok_ancestor [of fs "here @ [c]" "cs @ [x]" n] by simp
  with 2 show ?case by simp
qed simp

lemma atomic_write_refused: "fs_ok fs \<Longrightarrow> atomic_write p c fs = (Inl e, fs') \<Longrightarrow> fs' = fs"
proof -
  assume ok: "fs_ok fs" and w: "atomic_write p c fs = (Inl e, fs')"
  show "fs' = fs"
  proof (cases "p = [] \<or> mkdirs [] (butlast p) fs = None")
    case False
    then obtain fs1 where m: "mkdirs [] (butlast p) fs = Some fs1" and p: "p \<noteq> []" by auto
    with w have d: "map_of fs1 p = Some Dir" and "fs' = fs1"
      by (auto simp: atomic_write_def split: if_splits)
    have "map_of fs p = Some Dir"
    proof (rule ccontr)
      assume "map_of fs p \<noteq> Some Dir"
      moreover have "map_of fs1 p = map_of fs p"
      proof -
        have "subtree p fs1 = subtree p fs"
          by (rule subtree_mkdirs [OF m]) (metis append.left_neutral append_butlast_last_id p prefix_order.less_irrefl strict_prefixI' prefix_order.le_less_trans)
        then show ?thesis by (metis map_of_subtree prefix_order.order_refl)
      qed
      ultimately show False using d by simp
    qed
    then have "mkdirs [] (butlast p) fs = Some fs"
      using mkdirs_there [OF ok, of "[]" "butlast p" "last p"] p by simp
    with m \<open>fs' = fs1\<close> show ?thesis by simp
  qed (use w in \<open>auto simp: atomic_write_def split: if_splits\<close>)
qed

section \<open>Links\<close>

definition links :: "fs \<Rightarrow> (path \<times> str) set" where
  "links fs = {(q, t). map_of fs q = Some (Link t)}"

lemma links_mkdir: "create_dir_all p fs = (r, fs') \<Longrightarrow> links fs' = links fs"
  by (auto simp: links_def create_dir_all_def mkdirs_links split: option.splits)

lemma links_write: "atomic_write p c fs = (r, fs') \<Longrightarrow> links fs' \<subseteq> links fs"
proof -
  assume w: "atomic_write p c fs = (r, fs')"
  show ?thesis
  proof (cases "p = [] \<or> mkdirs [] (butlast p) fs = None")
    case False
    then obtain fs1 where m: "mkdirs [] (butlast p) fs = Some fs1" by auto
    with False w have "fs' = fs1 \<or> fs' = fs_put p (File c) fs1"
      by (auto simp: atomic_write_def split: if_splits)
    then show ?thesis using mkdirs_links [OF m] by (auto simp: links_def split: if_splits)
  qed (use w in \<open>auto simp: atomic_write_def split: if_splits\<close>)
qed

lemma links_write_snd: "links (snd (atomic_write p c fs)) \<subseteq> links fs"
  by (rule links_write [OF surjective_pairing])

lemma links_remove: "remove_file p fs = Some fs' \<Longrightarrow> links fs' \<subseteq> links fs"
  by (drule remove_file_Some) (auto simp: links_def split: if_splits)

lemma links_remove_quiet: "links (remove_file_quiet p fs) \<subseteq> links fs"
  by (auto simp: remove_file_quiet_def split: option.splits dest!: links_remove)

end
