(* ===== verification/Commits.thy ===== *)
theory Commits
  imports File_System Config_Diff
begin

text \<open>
  A pack's history (\<open>src/src/authoring/commits.rs\<close>) and its place on disk (the history section of
  \<open>src/src/storage.rs\<close>): commits under \<open>packs/<id>/authoring/commits\<close>, metadata and snapshot in two
  files, \<open>HEAD\<close> naming the newest one. SHA-1 and the \<open>serde_json\<close> text of a config are parameters
  of \<open>make_commit\<close>. A save is the list of its effects, so that a crash between any two of them is
  a prefix of that list.
\<close>

section \<open>Making a commit\<close>

definition newline :: char where
  "newline = CHR 0x0A"

definition commit_preimage ::
  "(pack_config \<Rightarrow> str) \<Rightarrow> pack_config \<Rightarrow> str option \<Rightarrow> str \<Rightarrow> str \<Rightarrow> str \<Rightarrow> str" where
  "commit_preimage json config parent author message at =
     (case parent of None \<Rightarrow> [] | Some p \<Rightarrow> p) @ [newline] @
     author @ [newline] @ at @ [newline] @ message @ [newline] @ json config"

definition make_commit ::
  "(str \<Rightarrow> str) \<Rightarrow> (pack_config \<Rightarrow> str) \<Rightarrow> pack_config \<Rightarrow> str option \<Rightarrow> str \<Rightarrow> str \<Rightarrow> str list \<Rightarrow> str \<Rightarrow>
     commit \<times> pack_config" where
  "make_commit sha1 json config parent author message contributors at =
     (\<lparr>cm_id = sha1 (commit_preimage json config parent author message at),
       cm_parent = parent,
       cm_author = author,
       cm_message = message,
       cm_at = at,
       cm_config_rev = edit_rev (\<lambda>c. sha1 (json c)) config,
       cm_contributors = contributors\<rparr>,
      config)"

section \<open>On disk\<close>

definition commits_dir :: "str \<Rightarrow> path" where
  "commits_dir pack_id = pack_dir pack_id @ [''authoring'', ''commits'']"

abbreviation commit_file :: "str \<Rightarrow> str \<Rightarrow> path" where
  "commit_file pack_id cid \<equiv> commits_dir pack_id @ [cid @ ''.json'']"

abbreviation snapshot_file :: "str \<Rightarrow> str \<Rightarrow> path" where
  "snapshot_file pack_id cid \<equiv> commits_dir pack_id @ [cid @ ''.snapshot.json'']"

abbreviation head_file :: "str \<Rightarrow> path" where
  "head_file pack_id \<equiv> commits_dir pack_id @ [''HEAD'']"

abbreviation pending_file :: "str \<Rightarrow> path" where
  "pending_file pack_id \<equiv> commits_dir pack_id @ [''pending.json'']"

definition save_commit_effects ::
  "str \<Rightarrow> commit \<Rightarrow> pack_config \<Rightarrow> (fs \<Rightarrow> (api_error + unit) \<times> fs) list" where
  "save_commit_effects pack_id commit snapshot =
     [create_dir_all (commits_dir pack_id),
      atomic_write (snapshot_file pack_id (cm_id commit)) (CSnapshot snapshot),
      atomic_write (commit_file pack_id (cm_id commit)) (CCommit commit),
      atomic_write (head_file pack_id) (CBytes (cm_id commit)),
      (\<lambda>fs. (Inr (), remove_file_quiet (pending_file pack_id) fs))]"

definition save_commit ::
  "str \<Rightarrow> commit \<Rightarrow> pack_config \<Rightarrow> fs \<Rightarrow> (api_error + unit) \<times> fs" where
  "save_commit pack_id commit snapshot fs =
     (if \<not> is_safe_id pack_id then (bad_request ''invalid pack id'', fs)
      else if \<not> is_commit_id (cm_id commit) then (bad_request ''invalid commit id'', fs)
      else run_effects (save_commit_effects pack_id commit snapshot) fs)"

definition commit_head :: "str \<Rightarrow> fs \<Rightarrow> str option" where
  "commit_head pack_id fs =
     (if \<not> is_safe_id pack_id then None
      else case fs_read fs (head_file pack_id) of
        Some (CBytes raw) \<Rightarrow> (let cid = trim raw in if is_commit_id cid then Some cid else None)
      | _ \<Rightarrow> None)"

definition load_commit :: "str \<Rightarrow> str \<Rightarrow> fs \<Rightarrow> api_error + commit" where
  "load_commit pack_id commit_id fs =
     (if \<not> is_safe_id pack_id \<or> \<not> is_commit_id commit_id then bad_request ''invalid commit id''
      else case fs_read fs (commit_file pack_id commit_id) of
        None \<Rightarrow> Inl NotFound
      | Some (CCommit c) \<Rightarrow> Inr c
      | Some _ \<Rightarrow> json_error)"

definition load_commit_config :: "str \<Rightarrow> str \<Rightarrow> fs \<Rightarrow> api_error + pack_config" where
  "load_commit_config pack_id commit_id fs =
     (if \<not> is_safe_id pack_id \<or> \<not> is_commit_id commit_id then bad_request ''invalid commit id''
      else case fs_read fs (snapshot_file pack_id commit_id) of
        None \<Rightarrow> Inl NotFound
      | Some (CSnapshot c) \<Rightarrow> Inr c
      | Some _ \<Rightarrow> json_error)"

text \<open>The loop of \<open>commit_log\<close>; the limit is what is left of it.\<close>

fun walk_log :: "str \<Rightarrow> fs \<Rightarrow> nat \<Rightarrow> str option \<Rightarrow> commit list" where
  "walk_log pack_id fs _ None = []"
| "walk_log pack_id fs 0 (Some cid) = []"
| "walk_log pack_id fs (Suc limit) (Some cid) =
     (case load_commit pack_id cid fs of
        Inl _ \<Rightarrow> []
      | Inr c \<Rightarrow> c # walk_log pack_id fs limit (cm_parent c))"

definition commit_log :: "str \<Rightarrow> str option \<Rightarrow> nat \<Rightarrow> fs \<Rightarrow> commit list" where
  "commit_log pack_id after limit fs =
     (case after of
        None \<Rightarrow> walk_log pack_id fs limit (commit_head pack_id fs)
      | Some cid \<Rightarrow>
          (case load_commit pack_id cid fs of
             Inl _ \<Rightarrow> []
           | Inr c \<Rightarrow> walk_log pack_id fs limit (cm_parent c)))"

definition pending_authors :: "str \<Rightarrow> fs \<Rightarrow> str list" where
  "pending_authors pack_id fs =
     (if \<not> is_safe_id pack_id then []
      else case fs_read fs (pending_file pack_id) of Some (CAuthors as) \<Rightarrow> as | _ \<Rightarrow> [])"

definition note_pending_author :: "str \<Rightarrow> str \<Rightarrow> fs \<Rightarrow> (api_error + unit) \<times> fs" where
  "note_pending_author pack_id who fs =
     (if \<not> is_safe_id pack_id \<or> who = [] then (Inr (), fs)
      else case create_dir_all (commits_dir pack_id) fs of
        (Inl e, fs) \<Rightarrow> (Inl e, fs)
      | (Inr _, fs) \<Rightarrow>
          let authors = pending_authors pack_id fs in
          if who \<in> set authors then (Inr (), fs)
          else atomic_write (pending_file pack_id) (CAuthors (authors @ [who])) fs)"

section \<open>The id covers what it says\<close>

lemma split_first: "c \<notin> set a \<Longrightarrow> c \<notin> set b \<Longrightarrow> a @ c # x = b @ c # y \<longleftrightarrow> a = b \<and> x = y"
proof (induction a arbitrary: b)
  case Nil
  then show ?case by (cases b) auto
next
  case (Cons z a)
  then show ?case by (cases b) auto
qed

lemma split_last:
  assumes "c \<notin> set x" "c \<notin> set y" "a @ c # x = b @ c # y"
  shows "a = b \<and> x = y"
proof -
  have "rev x @ c # rev a = rev y @ c # rev b"
    using arg_cong [OF assms(3), of rev] by simp
  with assms(1,2) show ?thesis by (simp add: split_first)
qed

lemma preimage_inject:
  assumes "newline \<notin> set (json cfg)" "newline \<notin> set (json cfg')" "json cfg = json cfg' \<Longrightarrow> cfg = cfg'"
    and "newline \<notin> set (case parent of None \<Rightarrow> [] | Some p \<Rightarrow> p)" "newline \<notin> set author" "newline \<notin> set at"
    and "newline \<notin> set (case parent' of None \<Rightarrow> [] | Some p \<Rightarrow> p)" "newline \<notin> set author'" "newline \<notin> set at'"
    and "parent \<noteq> Some []" "parent' \<noteq> Some []"
    and eq: "commit_preimage json cfg parent author message at =
      commit_preimage json cfg' parent' author' message' at'"
  shows "cfg = cfg' \<and> parent = parent' \<and> author = author' \<and> message = message' \<and> at = at'"
proof -
  let ?p = "\<lambda>p. case p of None \<Rightarrow> [] | Some p \<Rightarrow> p"
  from eq have e: "?p parent = ?p parent'" "author = author'" "at = at'"
      "message @ newline # json cfg = message' @ newline # json cfg'"
    using assms(4-9) by (auto simp: commit_preimage_def split_first)
  with assms(1,2) have "message = message'" "json cfg = json cfg'"
    using split_last [of newline "json cfg" "json cfg'"] by auto
  moreover have "parent = parent'"
    using e(1) assms(10,11) by (cases parent; cases parent') auto
  ultimately show ?thesis
    using e assms(3) by auto
qed

text \<open>Two commits under one id record the same parent, author, message, moment and snapshot, or SHA-1
  has collided on two different preimages. Messages may run over several lines; what the argument
  needs is that a login, a moment and a parent's id do not, and that compact JSON has no raw newline.\<close>

theorem commit_id_names_one_commit:
  assumes "newline \<notin> set (json cfg)" "newline \<notin> set (json cfg')" "json cfg = json cfg' \<Longrightarrow> cfg = cfg'"
    and "newline \<notin> set author" "newline \<notin> set at" "newline \<notin> set author'" "newline \<notin> set at'"
    and "\<And>p. parent = Some p \<Longrightarrow> is_commit_id p" "\<And>p. parent' = Some p \<Longrightarrow> is_commit_id p"
    and "cm_id (fst (make_commit hash json cfg parent author message who at)) =
      cm_id (fst (make_commit hash json cfg' parent' author' message' who' at'))"
  shows "(cfg, parent, author, message, at) = (cfg', parent', author', message', at') \<or>
    (\<exists>x y. x \<noteq> y \<and> hash x = hash y)"
proof (cases "commit_preimage json cfg parent author message at =
      commit_preimage json cfg' parent' author' message' at'")
  case True
  have id_line: "newline \<notin> set p \<and> p \<noteq> []" if "is_commit_id p" for p
    using that by (auto simp: is_commit_id_def list_all_iff newline_def is_hexdigit_def is_digit_def)
  have "cfg = cfg' \<and> parent = parent' \<and> author = author' \<and> message = message' \<and> at = at'"
    by (rule preimage_inject [OF assms(1-3) _ assms(4,5) _ assms(6,7) _ _ True])
      (use assms(8,9) in \<open>auto split: option.splits dest: id_line\<close>)
  then show ?thesis by simp
next
  case False
  moreover from assms(10) have "hash (commit_preimage json cfg parent author message at) =
      hash (commit_preimage json cfg' parent' author' message' at')"
    by (simp add: make_commit_def)
  ultimately show ?thesis by blast
qed

text \<open>The contributors are not part of what the id covers.\<close>

lemma commit_id_ignores_contributors:
  "cm_id (fst (make_commit sha1 json cfg parent author message who at)) =
   cm_id (fst (make_commit sha1 json cfg parent author message who' at))"
  by (simp add: make_commit_def)

section \<open>A history that survives a crash\<close>

lemma id_file_names:
  assumes "is_commit_id a" "is_commit_id b"
  shows "a @ ''.json'' = b @ ''.json'' \<longleftrightarrow> a = b" "a @ ''.snapshot.json'' = b @ ''.snapshot.json'' \<longleftrightarrow> a = b"
    and "a @ ''.json'' \<noteq> b @ ''.snapshot.json''" "b @ ''.snapshot.json'' \<noteq> a @ ''.json''"
    and "a @ ''.json'' \<noteq> ''HEAD''" "a @ ''.json'' \<noteq> ''pending.json''"
    and "a @ ''.snapshot.json'' \<noteq> ''HEAD''" "a @ ''.snapshot.json'' \<noteq> ''pending.json''"
  using assms by (auto simp: is_commit_id_def dest: arg_cong [of _ _ length])

lemma commit_id_trim: "is_commit_id s \<Longrightarrow> trim s = s"
  by (rule trim_no_space)
    (auto simp: is_commit_id_def list_all_iff is_space_def is_hexdigit_def is_digit_def)

text \<open>What the directory of commits keeps true: \<open>HEAD\<close> names a commit that is there, and every
  commit that is there has its snapshot and its parent.\<close>

definition stored :: "(str \<Rightarrow> content option) \<Rightarrow> str \<Rightarrow> bool" where
  "stored f cid \<longleftrightarrow> is_commit_id cid \<and> (\<exists>cm. f (cid @ ''.json'') = Some (CCommit cm))"

definition linked :: "(str \<Rightarrow> content option) \<Rightarrow> bool" where
  "linked f \<longleftrightarrow>
     (\<forall>c. f ''HEAD'' = Some c \<longrightarrow> (\<exists>cid. c = CBytes cid \<and> stored f cid)) \<and>
     (\<forall>cid c. is_commit_id cid \<longrightarrow> f (cid @ ''.json'') = Some c \<longrightarrow>
        (\<exists>cm cfg. c = CCommit cm \<and> cm_id cm = cid \<and>
           f (cid @ ''.snapshot.json'') = Some (CSnapshot cfg) \<and>
           (\<forall>q. cm_parent cm = Some q \<longrightarrow> stored f q)))"

lemma linkedI:
  assumes "\<And>c. f ''HEAD'' = Some c \<Longrightarrow> \<exists>cid. c = CBytes cid \<and> stored f cid"
    and "\<And>cid c. is_commit_id cid \<Longrightarrow> f (cid @ ''.json'') = Some c \<Longrightarrow>
        \<exists>cm cfg. c = CCommit cm \<and> cm_id cm = cid \<and>
           f (cid @ ''.snapshot.json'') = Some (CSnapshot cfg) \<and>
           (\<forall>q. cm_parent cm = Some q \<longrightarrow> stored f q)"
  shows "linked f"
  using assms unfolding linked_def by blast

lemma linked_head: "linked f \<Longrightarrow> f ''HEAD'' = Some c \<Longrightarrow> \<exists>cid. c = CBytes cid \<and> stored f cid"
  by (simp add: linked_def)

lemma linked_commit:
  "linked f \<Longrightarrow> is_commit_id cid \<Longrightarrow> f (cid @ ''.json'') = Some c \<Longrightarrow>
     \<exists>cm cfg. c = CCommit cm \<and> cm_id cm = cid \<and> f (cid @ ''.snapshot.json'') = Some (CSnapshot cfg) \<and>
       (\<forall>q. cm_parent cm = Some q \<longrightarrow> stored f q)"
  unfolding linked_def by blast

lemma linked_other:
  assumes "linked f" "\<And>cid. is_commit_id cid \<Longrightarrow> g (cid @ ''.json'') = f (cid @ ''.json'')"
    and "\<And>cid. is_commit_id cid \<Longrightarrow> g (cid @ ''.snapshot.json'') = f (cid @ ''.snapshot.json'')"
    and "g ''HEAD'' = f ''HEAD''"
  shows "linked g"
proof -
  have same: "stored g q = stored f q" for q
    using assms(2) by (auto simp: stored_def)
  show ?thesis
  proof (rule linkedI, goal_cases)
    case (1 c)
    with linked_head [OF assms(1), of c] assms(4) show ?case by (simp add: same)
  next
    case (2 i c)
    with assms(2,3) linked_commit [OF assms(1) 2(1), of c] show ?case by (simp add: same)
  qed
qed

lemma stored_snapshot [simp]:
  "is_commit_id cid \<Longrightarrow> stored (f(cid @ ''.snapshot.json'' := x)) c = stored f c"
  by (cases "is_commit_id c") (auto simp: stored_def id_file_names)

lemma linked_snapshot:
  assumes "linked f" "is_commit_id cid"
  shows "linked (f(cid @ ''.snapshot.json'' := Some (CSnapshot cfg)))"
proof (rule linkedI, goal_cases)
  case (1 c)
  with linked_head [OF assms(1), of c] assms(2) show ?case
    by (auto simp: id_file_names)
next
  case (2 i c)
  with linked_commit [OF assms(1) 2(1), of c] assms(2) show ?case
    by (auto simp: id_file_names)
qed

lemma linked_meta:
  assumes "linked f" "is_commit_id cid" "f (cid @ ''.snapshot.json'') = Some (CSnapshot cfg)"
    and "cm_id cm = cid" "\<And>q. cm_parent cm = Some q \<Longrightarrow> stored f q"
  shows "linked (f(cid @ ''.json'' := Some (CCommit cm)))"
proof -
  have more: "stored f q \<Longrightarrow> stored (f(cid @ ''.json'' := Some (CCommit cm))) q" for q
    by (auto simp: stored_def)
  show ?thesis
  proof (rule linkedI, goal_cases)
    case (1 c)
    with linked_head [OF assms(1), of c] assms(2) more show ?case
      by (auto simp: id_file_names)
  next
    case (2 i c)
    with linked_commit [OF assms(1) 2(1), of c] assms more show ?case
      by (auto simp: id_file_names split: if_splits)
  qed
qed

lemma linked_move_head:
  assumes "linked f" "stored f cid"
  shows "linked (f(''HEAD'' := Some (CBytes cid)))"
proof -
  have same: "stored (f(''HEAD'' := x)) q = stored f q" for q x
    by (cases "is_commit_id q") (auto simp: stored_def id_file_names)
  show ?thesis
  proof (rule linkedI, goal_cases)
    case (1 c)
    with assms(2) show ?case by (auto simp: same)
  next
    case (2 i c)
    then have "f (i @ ''.json'') = Some c" by (simp add: id_file_names)
    with linked_commit [OF assms(1) 2(1) this] 2(1) show ?case
      by (auto simp: same id_file_names)
  qed
qed

text \<open>The disk a pack's history can be found in: nothing there yet; a commit on top of \<open>HEAD\<close>, all of
  its effects or the first \<open>k\<close> of them; a note that somebody saved; anything that happens elsewhere.\<close>

inductive history :: "str \<Rightarrow> fs \<Rightarrow> bool" for p where
  history_empty: "\<forall>name. map_of fs (commits_dir p @ [name]) = None \<Longrightarrow> history p fs"
| history_commit:
    "history p fs \<Longrightarrow> is_commit_id (cm_id cm) \<Longrightarrow> cm_parent cm = commit_head p fs \<Longrightarrow>
     run_effects (take k (save_commit_effects p cm cfg)) fs = (r, fs') \<Longrightarrow> history p fs'"
| history_note:
    "history p fs \<Longrightarrow> note_pending_author p who fs = (r, fs') \<Longrightarrow> history p fs'"
| history_elsewhere:
    "history p fs \<Longrightarrow> \<forall>name. map_of fs' (commits_dir p @ [name]) = map_of fs (commits_dir p @ [name]) \<Longrightarrow>
     history p fs'"

definition commit_updates ::
  "commit \<Rightarrow> pack_config \<Rightarrow> ((str \<Rightarrow> content option) \<Rightarrow> str \<Rightarrow> content option) list" where
  "commit_updates cm cfg =
     [(\<lambda>f. f),
      (\<lambda>f. f(cm_id cm @ ''.snapshot.json'' := Some (CSnapshot cfg))),
      (\<lambda>f. f(cm_id cm @ ''.json'' := Some (CCommit cm))),
      (\<lambda>f. f(''HEAD'' := Some (CBytes (cm_id cm)))),
      (\<lambda>f. f(''pending.json'' := None))]"

lemma save_commit_updates:
  "list_all2 (updates (commits_dir p)) (save_commit_effects p cm cfg) (commit_updates cm cfg)"
  by (simp add: save_commit_effects_def commit_updates_def updates_mkdir updates_write updates_remove)

lemma linked_commit_updates:
  assumes "linked f" "is_commit_id (cm_id cm)" "\<And>q. cm_parent cm = Some q \<Longrightarrow> stored f q"
  shows "linked (fold (\<lambda>u. u) (take j (commit_updates cm cfg)) f)"
proof -
  let ?f1 = "f(cm_id cm @ ''.snapshot.json'' := Some (CSnapshot cfg))"
  let ?f2 = "?f1(cm_id cm @ ''.json'' := Some (CCommit cm))"
  let ?f3 = "?f2(''HEAD'' := Some (CBytes (cm_id cm)))"
  let ?f4 = "?f3(''pending.json'' := None)"
  have 1: "linked ?f1" by (rule linked_snapshot [OF assms(1,2)])
  have 2: "linked ?f2" by (rule linked_meta [OF 1 assms(2)]) (use assms(2,3) in auto)
  have 3: "linked ?f3" by (rule linked_move_head [OF 2]) (use assms(2) in \<open>simp add: stored_def\<close>)
  have 4: "linked ?f4" by (rule linked_other [OF 3]) (simp_all add: id_file_names)
  consider "j = 0" | "j = 1" | "j = 2" | "j = 3" | "j = 4" | "5 \<le> j" by linarith
  then show ?thesis
    by cases (simp_all add: commit_updates_def assms(1) 1 2 3 4 take_Cons' numeral_eq_Suc)
qed

lemma commit_head_linked:
  assumes "no_links (commits_dir p) fs" "linked (files_in (commits_dir p) fs)" "commit_head p fs = Some h"
  shows "stored (files_in (commits_dir p) fs) h"
  using assms linked_head [OF assms(2)]
  by (auto simp: commit_head_def read_no_links Let_def stored_def commit_id_trim split: if_splits option.splits content.splits)

lemma note_pending_updates:
  assumes "note_pending_author p who fs = (r, fs')" "no_links (commits_dir p) fs"
  shows "no_links (commits_dir p) fs' \<and>
    (files_in (commits_dir p) fs' = files_in (commits_dir p) fs \<or>
     (\<exists>as. files_in (commits_dir p) fs' = (files_in (commits_dir p) fs)(''pending.json'' := Some (CAuthors as))))"
  using assms updates_mkdir [of "commits_dir p" "commits_dir p"] updates_write [of "commits_dir p" "''pending.json''"]
  by (auto simp: note_pending_author_def updates_def Let_def split: if_splits prod.splits sum.splits) 

lemma history_linked:
  "history p fs \<Longrightarrow> no_links (commits_dir p) fs \<and> linked (files_in (commits_dir p) fs)"
proof (induction rule: history.induct)
  case (history_empty fs)
  then show ?case by (auto simp: no_links_def files_in_def file_at_def linked_def stored_def)
next
  case (history_commit fs cm k cfg r fs')
  have "list_all2 (updates (commits_dir p)) (take k (save_commit_effects p cm cfg)) (take k (commit_updates cm cfg))"
    by (rule list_all2_takeI [OF save_commit_updates])
  from run_effects_updates [OF this history_commit.hyps(4)] history_commit.IH
  obtain j where "no_links (commits_dir p) fs'"
      "files_in (commits_dir p) fs' = fold (\<lambda>u. u) (take j (commit_updates cm cfg)) (files_in (commits_dir p) fs)"
    by (auto simp: min_def)
  with history_commit show ?case
    by (auto intro!: linked_commit_updates intro: commit_head_linked [OF _ _ sym])
next
  case (history_note fs who r fs')
  with note_pending_updates [OF history_note.hyps(2)] show ?case
    by (auto intro: linked_other simp: id_file_names)
next
  case (history_elsewhere fs fs')
  then show ?case by (simp only: same_entries [OF history_elsewhere.hyps(2)])
qed

lemma load_commit_files:
  "no_links (commits_dir p) fs \<Longrightarrow> load_commit p cid fs =
     (if \<not> is_safe_id p \<or> \<not> is_commit_id cid then bad_request ''invalid commit id''
      else case files_in (commits_dir p) fs (cid @ ''.json'') of
        None \<Rightarrow> Inl NotFound | Some (CCommit c) \<Rightarrow> Inr c | Some _ \<Rightarrow> json_error)"
  by (simp add: load_commit_def read_no_links)

lemma load_config_files:
  "no_links (commits_dir p) fs \<Longrightarrow> load_commit_config p cid fs =
     (if \<not> is_safe_id p \<or> \<not> is_commit_id cid then bad_request ''invalid commit id''
      else case files_in (commits_dir p) fs (cid @ ''.snapshot.json'') of
        None \<Rightarrow> Inl NotFound | Some (CSnapshot c) \<Rightarrow> Inr c | Some _ \<Rightarrow> json_error)"
  by (simp add: load_commit_config_def read_no_links)

lemma bad_request_simps [simp]: "bad_request why \<noteq> Inr x" "json_error \<noteq> Inr x"
  by (simp_all add: bad_request_def json_error_def)

lemma stored_loads:
  "no_links (commits_dir p) fs \<Longrightarrow> is_safe_id p \<Longrightarrow>
     stored (files_in (commits_dir p) fs) cid \<longleftrightarrow> (\<exists>c. load_commit p cid fs = Inr c)"
  by (auto simp: load_commit_files stored_def split: option.splits content.splits)

lemma history_loads:
  assumes "history p fs" "load_commit p cid fs = Inr c"
  shows "cm_id c = cid \<and> (\<exists>cfg. load_commit_config p cid fs = Inr cfg) \<and>
    (\<forall>q. cm_parent c = Some q \<longrightarrow> (\<exists>d. load_commit p q fs = Inr d))"
proof -
  from history_linked [OF assms(1)] have n: "no_links (commits_dir p) fs"
    and l: "linked (files_in (commits_dir p) fs)" by auto
  from assms(2) n have p: "is_safe_id p" "is_commit_id cid"
      "files_in (commits_dir p) fs (cid @ ''.json'') = Some (CCommit c)"
    by (auto simp: load_commit_files split: if_splits option.splits content.splits)
  from linked_commit [OF l p(2,3)] p n show ?thesis
    by (auto simp: load_config_files stored_loads)
qed

lemma crash_free_head:
  assumes "history p fs" "commit_head p fs = Some h"
  shows "\<exists>c. load_commit p h fs = Inr c"
proof -
  from assms(2) have "is_safe_id p" by (auto simp: commit_head_def split: if_splits)
  with assms(2) history_linked [OF assms(1)] show ?thesis
    using stored_loads commit_head_linked by blast
qed

text \<open>C7: Whatever instant a save of a commit is cut off at, \<open>HEAD\<close> names a commit that loads, and every
  commit that loads has a snapshot that loads and a parent that loads.\<close>

theorem crash_leaves_no_dangling_commit:
  assumes "history p fs"
  shows "(\<forall>h. commit_head p fs = Some h \<longrightarrow> (\<exists>c. load_commit p h fs = Inr c)) \<and>
    (\<forall>cid c. load_commit p cid fs = Inr c \<longrightarrow>
       cm_id c = cid \<and> (\<exists>cfg. load_commit_config p cid fs = Inr cfg) \<and>
       (\<forall>q. cm_parent c = Some q \<longrightarrow> (\<exists>d. load_commit p q fs = Inr d)))"
  using crash_free_head [OF assms] history_loads [OF assms] by simp

section \<open>Reading the log\<close>

lemma walk_log_length: "length (walk_log p fs n start) \<le> n"
  by (induction p fs n start rule: walk_log.induct) (auto split: sum.splits)

lemma walk_log_append:
  "walk_log p fs (m + n) start =
    (let cs = walk_log p fs m start in
     cs @ (if length cs < m then []
           else walk_log p fs n (if cs = [] then start else cm_parent (last cs))))"
  by (induction p fs m start rule: walk_log.induct)
    (auto simp: Let_def split: sum.splits if_splits)

definition starts :: "str \<Rightarrow> fs \<Rightarrow> str option \<Rightarrow> bool" where
  "starts p fs start \<longleftrightarrow> (\<forall>cid. start = Some cid \<longrightarrow> (\<exists>c. load_commit p cid fs = Inr c))"

lemma head_starts: "history p fs \<Longrightarrow> starts p fs (commit_head p fs)"
  using crash_free_head by (simp add: starts_def)

lemma parent_starts: "history p fs \<Longrightarrow> load_commit p cid fs = Inr c \<Longrightarrow> starts p fs (cm_parent c)"
  by (auto simp: starts_def dest: history_loads)

lemma walk_log_same:
  assumes h: "history p fs"
    and same: "\<And>i c. load_commit p i fs = Inr c \<Longrightarrow> load_commit p i fs' = Inr c"
  shows "starts p fs start \<Longrightarrow> walk_log p fs' n start = walk_log p fs n start"
proof (induction n arbitrary: start)
  case 0
  then show ?case by (cases start) auto
next
  case (Suc n)
  show ?case
  proof (cases start)
    case (Some cid)
    with Suc.prems obtain c where c: "load_commit p cid fs = Inr c" by (auto simp: starts_def)
    with same Suc.IH [OF parent_starts [OF h c]] Some show ?thesis by simp
  qed simp
qed

lemma walk_log_facts:
  assumes h: "history p fs"
  shows "starts p fs start \<Longrightarrow> cs = walk_log p fs n start \<Longrightarrow>
    (cs \<noteq> [] \<longrightarrow> start = Some (cm_id (hd cs))) \<and>
    (\<forall>i. Suc i < length cs \<longrightarrow> cm_parent (cs ! i) = Some (cm_id (cs ! Suc i))) \<and>
    (length cs < n \<longrightarrow> (if cs = [] then start = None else cm_parent (last cs) = None)) \<and>
    (\<forall>c \<in> set cs. load_commit p (cm_id c) fs = Inr c)"
proof (induction n arbitrary: start cs)
  case 0
  then show ?case by (cases start) auto
next
  case (Suc n)
  show ?case
  proof (cases start)
    case (Some cid)
    with Suc.prems obtain c where c: "load_commit p cid fs = Inr c" by (auto simp: starts_def)
    with history_loads [OF h] have cid: "cm_id c = cid" by blast
    define ds where "ds = walk_log p fs n (cm_parent c)"
    note ih = Suc.IH [OF parent_starts [OF h c] ds_def]
    from Suc.prems Some c have cs: "cs = c # ds" by (simp add: ds_def)
    have "cm_parent (cs ! i) = Some (cm_id (cs ! Suc i))" if "Suc i < length cs" for i
      using that ih by (cases i) (auto simp: cs hd_conv_nth)
    with ih Some c cid show ?thesis by (auto simp: cs)
  qed (use Suc.prems in simp)
qed

text \<open>The log of a pack starts at \<open>HEAD\<close>, each commit in it is followed by its parent, and it is
  shorter than its limit only by having reached the first commit.\<close>

theorem log_reads_history:
  assumes "history p fs" "cs = commit_log p None n fs"
  shows "(cs \<noteq> [] \<longrightarrow> commit_head p fs = Some (cm_id (hd cs))) \<and>
    (\<forall>i. Suc i < length cs \<longrightarrow> cm_parent (cs ! i) = Some (cm_id (cs ! Suc i))) \<and>
    length cs \<le> n \<and>
    (length cs < n \<longrightarrow> (if cs = [] then commit_head p fs = None else cm_parent (last cs) = None))"
  using walk_log_facts [OF assms(1) head_starts [OF assms(1)]] assms(2) walk_log_length
  by (simp add: commit_log_def)

text \<open>The chain is the cursor: a page continued from the last commit of the one before it is what a
  single longer read would have answered.\<close>

theorem log_pages_continue:
  assumes "history p fs" "page = commit_log p None m fs" "page \<noteq> []"
  shows "commit_log p None (m + n) fs = page @ commit_log p (Some (cm_id (last page))) n fs"
proof -
  let ?w = "walk_log p fs m (commit_head p fs)"
  have page: "page = ?w" using assms(2) by (simp add: commit_log_def)
  note facts = walk_log_facts [OF assms(1) head_starts [OF assms(1)] refl, of m]
  have "load_commit p (cm_id (last page)) fs = Inr (last page)"
    using facts assms(3) page by simp
  moreover have "length ?w < m \<Longrightarrow> cm_parent (last ?w) = None"
    using facts assms(3) page by auto
  ultimately show ?thesis
    using assms(3) by (auto simp: commit_log_def walk_log_append Let_def page)
qed

section \<open>Saving\<close>

lemma save_commit_files:
  assumes "history p fs" "save_commit p cm cfg fs = (r, fs')"
  obtains j where "no_links (commits_dir p) fs'"
    "files_in (commits_dir p) fs' = fold (\<lambda>u. u) (take j (commit_updates cm cfg)) (files_in (commits_dir p) fs)"
    "r = Inr () \<longrightarrow> 5 \<le> j \<and> is_safe_id p \<and> is_commit_id (cm_id cm)"
proof (cases "is_safe_id p \<and> is_commit_id (cm_id cm)")
  case True
  with assms(2) have "run_effects (save_commit_effects p cm cfg) fs = (r, fs')" by (simp add: save_commit_def)
  from run_effects_updates [OF save_commit_updates this] history_linked [OF assms(1)]
  obtain j where "no_links (commits_dir p) fs'" "r = Inr () \<longrightarrow> j = length (commit_updates cm cfg)"
      "files_in (commits_dir p) fs' = fold (\<lambda>u. u) (take j (commit_updates cm cfg)) (files_in (commits_dir p) fs)"
    by auto
  moreover have "length (commit_updates cm cfg) = 5" by (simp add: commit_updates_def)
  ultimately show ?thesis using True that [of j] by simp
next
  case False
  with assms(2) have "fs' = fs" "r \<noteq> Inr ()"
    by (auto simp: save_commit_def bad_request_def split: if_splits)
  with history_linked [OF assms(1)] that [of 0] show ?thesis by simp
qed

lemma take_updates:
  "is_commit_id i \<Longrightarrow> is_commit_id (cm_id cm) \<Longrightarrow> i \<noteq> cm_id cm \<Longrightarrow>
     fold (\<lambda>u. u) (take j (commit_updates cm cfg)) f (i @ ''.json'') = f (i @ ''.json'')"
  by (auto simp: commit_updates_def take_Cons id_file_names split: nat.split)

lemma save_commit_keeps:
  assumes h: "history p fs" and s: "save_commit p cm cfg fs = (r, fs')"
    and fresh: "\<And>c. load_commit p (cm_id cm) fs \<noteq> Inr c" and c: "load_commit p i fs = Inr c"
  shows "load_commit p i fs' = Inr c"
proof (cases "is_commit_id (cm_id cm)")
  case True
  from c have i: "is_safe_id p" "is_commit_id i" by (auto simp: load_commit_def split: if_splits)
  from c fresh have "i \<noteq> cm_id cm" by auto
  obtain j where "no_links (commits_dir p) fs'"
      "files_in (commits_dir p) fs' = fold (\<lambda>u. u) (take j (commit_updates cm cfg)) (files_in (commits_dir p) fs)"
    using save_commit_files [OF h s] by metis
  with c i history_linked [OF h] take_updates [OF i(2) True \<open>i \<noteq> cm_id cm\<close>] show ?thesis
    by (simp add: load_commit_files)
qed (use s c in \<open>auto simp: save_commit_def split: if_splits\<close>)

lemma saved_files:
  assumes h: "history p fs" and s: "save_commit p cm cfg fs = (Inr (), fs')"
  shows "no_links (commits_dir p) fs'" "is_safe_id p" "is_commit_id (cm_id cm)"
    and "files_in (commits_dir p) fs' (cm_id cm @ ''.json'') = Some (CCommit cm)"
    and "files_in (commits_dir p) fs' (cm_id cm @ ''.snapshot.json'') = Some (CSnapshot cfg)"
    and "files_in (commits_dir p) fs' ''HEAD'' = Some (CBytes (cm_id cm))"
    and "files_in (commits_dir p) fs' ''pending.json'' = None"
proof -
  obtain j where j: "no_links (commits_dir p) fs'" "5 \<le> j \<and> is_safe_id p \<and> is_commit_id (cm_id cm)"
      "files_in (commits_dir p) fs' = fold (\<lambda>u. u) (take j (commit_updates cm cfg)) (files_in (commits_dir p) fs)"
    using save_commit_files [OF h s] by metis
  then have "take j (commit_updates cm cfg) = commit_updates cm cfg" by (simp add: commit_updates_def)
  moreover from j have "cm_id cm \<noteq> ''pending''" by (auto simp: is_commit_id_def)
  ultimately show "no_links (commits_dir p) fs'" "is_safe_id p" "is_commit_id (cm_id cm)"
    "files_in (commits_dir p) fs' (cm_id cm @ ''.json'') = Some (CCommit cm)"
    "files_in (commits_dir p) fs' (cm_id cm @ ''.snapshot.json'') = Some (CSnapshot cfg)"
    "files_in (commits_dir p) fs' ''HEAD'' = Some (CBytes (cm_id cm))"
    "files_in (commits_dir p) fs' ''pending.json'' = None"
    using j by (simp_all add: commit_updates_def id_file_names)
qed

text \<open>A saved commit under a new id is the newest of the log, its snapshot reads back, nobody is
  pending, and a page being read meanwhile does not drift.\<close>

theorem saved_commit_on_top:
  assumes h: "history p fs" and s: "save_commit p cm cfg fs = (Inr (), fs')"
    and parent: "cm_parent cm = commit_head p fs" and fresh: "\<And>c. load_commit p (cm_id cm) fs \<noteq> Inr c"
  shows "commit_log p None (Suc n) fs' = cm # commit_log p None n fs \<and>
    load_commit_config p (cm_id cm) fs' = Inr cfg \<and>
    pending_authors p fs' = [] \<and>
    (\<forall>i c. load_commit p i fs = Inr c \<longrightarrow> commit_log p (Some i) n fs' = commit_log p (Some i) n fs)"
proof -
  note f = saved_files [OF h s]
  have same: "walk_log p fs' k start = walk_log p fs k start" if "starts p fs start" for k start
    by (rule walk_log_same [OF h _ that]) (rule save_commit_keeps [OF h s fresh])
  have "commit_head p fs' = Some (cm_id cm)" "load_commit p (cm_id cm) fs' = Inr cm"
      "load_commit_config p (cm_id cm) fs' = Inr cfg" "pending_authors p fs' = []"
    using f by (simp_all add: commit_head_def pending_authors_def load_commit_files load_config_files
        read_no_links commit_id_trim Let_def)
  moreover have "commit_log p (Some i) n fs' = commit_log p (Some i) n fs" if "load_commit p i fs = Inr c" for i c
    using that save_commit_keeps [OF h s fresh that] same [OF parent_starts [OF h that]]
    by (simp add: commit_log_def)
  ultimately show ?thesis
    using same [OF head_starts [OF h]] parent by (simp add: commit_log_def)
qed

lemma pending_files:
  "no_links (commits_dir p) fs \<Longrightarrow> pending_authors p fs =
     (if \<not> is_safe_id p then []
      else case files_in (commits_dir p) fs ''pending.json'' of Some (CAuthors as) \<Rightarrow> as | _ \<Rightarrow> [])"
  by (simp add: pending_authors_def read_no_links)

text \<open>Who saved since the last commit is a set: noting someone adds them once.\<close>

lemma note_pending_set:
  assumes "no_links (commits_dir p) fs" "note_pending_author p who fs = (Inr (), fs')"
    and "is_safe_id p" "who \<noteq> []"
  shows "set (pending_authors p fs') = insert who (set (pending_authors p fs))"
    and "distinct (pending_authors p fs) \<Longrightarrow> distinct (pending_authors p fs')"
proof -
  obtain fs1 where fs1: "create_dir_all (commits_dir p) fs = (Inr (), fs1)"
      "(if who \<in> set (pending_authors p fs1) then (Inr (), fs1)
        else atomic_write (pending_file p) (CAuthors (pending_authors p fs1 @ [who])) fs1) = (Inr (), fs')"
    using assms by (auto simp: note_pending_author_def Let_def split: prod.splits sum.splits)
  then have n1: "no_links (commits_dir p) fs1" "files_in (commits_dir p) fs1 = files_in (commits_dir p) fs"
    using assms(1) updates_mkdir [of "commits_dir p" "commits_dir p"] by (force simp: updates_def)+
  then have p1: "pending_authors p fs1 = pending_authors p fs"
    using assms(1) by (simp add: pending_files)
  have p2: "pending_authors p fs' = pending_authors p fs @ [who]" if "who \<notin> set (pending_authors p fs1)"
  proof -
    from that fs1(2) have "no_links (commits_dir p) fs'" "files_in (commits_dir p) fs' ''pending.json'' =
        Some (CAuthors (pending_authors p fs1 @ [who]))"
      using n1(1) updates_write [of "commits_dir p" "''pending.json''"] by (force simp: updates_def)+
    with assms(3) p1 show ?thesis by (simp add: pending_files)
  qed
  show "set (pending_authors p fs') = insert who (set (pending_authors p fs))"
    using fs1(2) p1 p2 by (auto split: if_splits)
  show "distinct (pending_authors p fs')" if "distinct (pending_authors p fs)"
    using fs1(2) p1 p2 that by (auto split: if_splits)
qed

section \<open>A history on a concrete disk\<close>

definition first_commit :: commit where
  "first_commit = \<lparr>cm_id = replicate 40 CHR ''a'', cm_parent = None, cm_author = ''ann'',
     cm_message = ''start'', cm_at = ''t1'', cm_config_rev = ''r'', cm_contributors = [''ann'']\<rparr>"

definition second_commit :: commit where
  "second_commit = \<lparr>cm_id = replicate 40 CHR ''b'', cm_parent = Some (replicate 40 CHR ''a''),
     cm_author = ''bob'', cm_message = ''more'', cm_at = ''t2'', cm_config_rev = ''r'', cm_contributors = [''bob'']\<rparr>"

definition one_commit :: fs where
  "one_commit = snd (save_commit ''p'' first_commit (sample_config []) [])"

definition torn_commit :: fs where
  "torn_commit = snd (run_effects (take 3 (save_commit_effects ''p'' second_commit (sample_config []))) one_commit)"

lemma one_commit_facts:
  "save_commit ''p'' first_commit (sample_config []) [] = (Inr (), one_commit)"
  "commit_head ''p'' [] = None" "commit_head ''p'' one_commit = cm_parent second_commit"
  "is_commit_id (cm_id first_commit)" "is_commit_id (cm_id second_commit)" "is_safe_id ''p''"
  "cm_parent first_commit = None"
  by (simp_all add: prod_eq_iff one_commit_def) code_simp+

lemma history_one: "history ''p'' one_commit"
proof (rule history_commit)
  show "history ''p'' []" by (rule history_empty) simp
  show "run_effects (take 5 (save_commit_effects ''p'' first_commit (sample_config []))) [] = (Inr (), one_commit)"
    using one_commit_facts by (simp add: save_commit_def save_commit_effects_def)
qed (simp_all add: one_commit_facts)

lemma history_torn: "history ''p'' torn_commit"
proof (rule history_commit [OF history_one])
  show "run_effects (take 3 (save_commit_effects ''p'' second_commit (sample_config []))) one_commit =
      (fst (run_effects (take 3 (save_commit_effects ''p'' second_commit (sample_config []))) one_commit), torn_commit)"
    by (simp add: torn_commit_def)
qed (simp_all add: one_commit_facts)

theorem crash_leaves_no_dangling_commit_witness:
  "commit_head ''p'' torn_commit = Some (cm_id first_commit) \<and>
   (\<exists>c. load_commit ''p'' (cm_id first_commit) torn_commit = Inr c)"
proof -
  have "commit_head ''p'' torn_commit = Some (cm_id first_commit)" by code_simp
  with crash_leaves_no_dangling_commit [OF history_torn] show ?thesis by blast
qed

definition two_commits :: fs where
  "two_commits = snd (save_commit ''p'' second_commit (sample_config []) one_commit)"

lemma two_commits_saved:
  "save_commit ''p'' second_commit (sample_config []) one_commit = (Inr (), two_commits)"
  by (simp add: prod_eq_iff two_commits_def) code_simp

lemma history_two: "history ''p'' two_commits"
proof (rule history_commit [OF history_one])
  show "run_effects (take 5 (save_commit_effects ''p'' second_commit (sample_config []))) one_commit = (Inr (), two_commits)"
    using one_commit_facts two_commits_saved by (simp add: save_commit_def save_commit_effects_def)
qed (simp_all add: one_commit_facts)

lemma first_page: "commit_log ''p'' None 1 two_commits = [second_commit]"
  by code_simp

theorem log_reads_history_witness:
  "commit_head ''p'' two_commits = Some (cm_id second_commit) \<and> length [second_commit] \<le> 1"
  using log_reads_history [OF history_two first_page [symmetric]] by simp

theorem log_pages_continue_witness:
  "commit_log ''p'' None (1 + 4) two_commits =
     [second_commit] @ commit_log ''p'' (Some (cm_id second_commit)) 4 two_commits"
  using log_pages_continue [OF history_two first_page [symmetric], of 4] by simp

theorem saved_commit_on_top_witness:
  "commit_log ''p'' None (Suc 3) two_commits = second_commit # commit_log ''p'' None 3 one_commit"
proof -
  have "load_commit ''p'' (cm_id second_commit) one_commit = Inl NotFound" by code_simp
  then show ?thesis
    using saved_commit_on_top [OF history_one two_commits_saved one_commit_facts(3) [symmetric], of 3] by simp
qed

theorem commit_id_names_one_commit_witness:
  "(sample_config [], None :: str option, ''ann'', ''m'', ''t'') = (sample_config [], None, ''ann'', ''m'', ''t'') \<or>
   (\<exists>x y :: str. x \<noteq> y \<and> rev x = rev y)"
  by (rule commit_id_names_one_commit [where json = cf_display_name and hash = rev and who = "[]" and who' = "[''b'']"])
    (simp_all add: make_commit_def commit_preimage_def newline_def sample_config_def)

end
