(* ===== verification/Store_Packs.thy ===== *)
theory Store_Packs
  imports Commits Disk_Frame
begin

text \<open>
  The packs of the mirror on disk (\<open>src/src/storage.rs\<close>): summaries, manifests with their \<open>latest\<close>
  link, authored configs, and the memo of which builds came out of which commit. The state of the
  storage layer is the disk and that memo; its locks only order the operations.
\<close>

record manifest_build_info =
  bi_version_number :: str
  bi_version_type :: version_channel
  bi_date_published :: str
  bi_fingerprint :: "str option"
  bi_built_from :: "str option"
  bi_changelog :: "str option"
  bi_changelog_i18n :: "(str \<times> str) list option"
  bi_mods_count :: nat
  bi_assets_count :: nat
  bi_minecraft_version :: str
  bi_loader :: loader_spec
  bi_size_bytes :: nat

type_synonym builds_by_commit = "(str \<times> str list) list"

record storage =
  st_fs :: fs
  st_builds :: "(str \<times> builds_by_commit) list"

definition at_fs :: "storage \<Rightarrow> (api_error + 'a) \<times> fs \<Rightarrow> (api_error + 'a) \<times> storage" where
  "at_fs st r = (fst r, st\<lparr>st_fs := snd r\<rparr>)"

section \<open>Paths\<close>

definition manifests_dir :: "str \<Rightarrow> path" where
  "manifests_dir pack_id = pack_dir pack_id @ [''manifests'']"

definition manifest_path :: "str \<Rightarrow> str \<Rightarrow> path" where
  "manifest_path pack_id version = join_path (manifests_dir pack_id) (version @ ''.json'')"

definition latest_path :: "str \<Rightarrow> path" where
  "latest_path pack_id = manifests_dir pack_id @ [''latest'']"

definition summary_path :: "str \<Rightarrow> path" where
  "summary_path pack_id = pack_dir pack_id @ [''summary.json'']"

definition authoring_path :: "str \<Rightarrow> str \<Rightarrow> path" where
  "authoring_path pack_id file = pack_dir pack_id @ [''authoring'', file]"

section \<open>Reading\<close>

definition load_pack_summary :: "str \<Rightarrow> fs \<Rightarrow> api_error + pack_summary" where
  "load_pack_summary pack_id fs =
     (if \<not> is_safe_id pack_id then bad_request ''invalid pack id''
      else case fs_read fs (summary_path pack_id) of
        None \<Rightarrow> Inl NotFound | Some (CSummary s) \<Rightarrow> Inr s | Some _ \<Rightarrow> json_error)"

definition load_latest_manifest :: "str \<Rightarrow> fs \<Rightarrow> api_error + pack_manifest" where
  "load_latest_manifest pack_id fs =
     (if \<not> is_safe_id pack_id then bad_request ''invalid pack id''
      else case fs_read fs (latest_path pack_id) of
        None \<Rightarrow> Inl NotFound | Some (CManifest m) \<Rightarrow> Inr m | Some _ \<Rightarrow> json_error)"

definition load_manifest_version :: "str \<Rightarrow> str \<Rightarrow> fs \<Rightarrow> api_error + pack_manifest" where
  "load_manifest_version pack_id version fs =
     (if \<not> is_safe_id pack_id then bad_request ''invalid pack id''
      else if \<not> is_safe_version version then bad_request ''invalid version slug''
      else case fs_read fs (manifest_path pack_id version) of
        None \<Rightarrow> Inl NotFound | Some (CManifest m) \<Rightarrow> Inr m | Some _ \<Rightarrow> json_error)"

text \<open>\<open>trim_end_matches(".json")\<close> takes off every repetition.\<close>

function trim_json :: "str \<Rightarrow> str" where
  "trim_json s = (if ends_with s ''.json'' then trim_json (take (length s - 5) s) else s)"
  by auto

termination
  by (relation "measure length") (auto simp: ends_with_def)

declare trim_json.simps [simp del]

definition is_manifest_name :: "str \<Rightarrow> bool" where
  "is_manifest_name name \<longleftrightarrow> \<not> (name = ''latest'' \<or> \<not> ends_with name ''.json'')"

definition list_manifest_versions :: "str \<Rightarrow> fs \<Rightarrow> api_error + str list" where
  "list_manifest_versions pack_id fs =
     (if \<not> is_safe_id pack_id then bad_request ''invalid pack id''
      else case read_dir fs (manifests_dir pack_id) of
        None \<Rightarrow> Inl NotFound
      | Some entries \<Rightarrow>
          Inr (sort_by compare_pack_versions
            (map trim_json (filter is_manifest_name (map fst entries)))))"

text \<open>Sums of \<open>u64\<close> wrap.\<close>

definition weigh :: "nat list \<Rightarrow> nat" where
  "weigh sizes = foldl (\<lambda>a b. (a + b) mod 2 ^ 64) 0 sizes"

definition build_info_from_head :: "pack_manifest \<Rightarrow> manifest_build_info" where
  "build_info_from_head head = \<lparr>
     bi_version_number = pm_pack_version head,
     bi_version_type =
       (case pm_channel head of
          Some c \<Rightarrow> c
        | None \<Rightarrow> legacy_version_channel (pm_pack_version head)),
     bi_date_published = pm_generated_at head,
     bi_fingerprint = pm_fingerprint head,
     bi_built_from = pm_built_from head,
     bi_changelog = pm_changelog head,
     bi_changelog_i18n = pm_changelog_i18n head,
     bi_mods_count = length (pm_mods head),
     bi_assets_count = length (pm_assets head),
     bi_minecraft_version = pm_minecraft head,
     bi_loader = pm_loader head,
     bi_size_bytes = (weigh (map me_size_bytes (pm_mods head)) + weigh (map ae_size_bytes (pm_assets head))) mod 2 ^ 64\<rparr>"

text \<open>Newest first: by date, then by version.\<close>

definition newer_build :: "manifest_build_info \<Rightarrow> manifest_build_info \<Rightarrow> ordering" where
  "newer_build a b =
     (case cmp_str (bi_date_published b) (bi_date_published a) of
        OEqual \<Rightarrow> compare_pack_versions (bi_version_number b) (bi_version_number a)
      | r \<Rightarrow> r)"

fun read_heads :: "fs \<Rightarrow> path \<Rightarrow> str list \<Rightarrow> manifest_build_info list option" where
  "read_heads fs dir [] = Some []"
| "read_heads fs dir (name # names) =
     (if \<not> is_manifest_name name then read_heads fs dir names
      else case fs_read fs (dir @ [name]) of
        None \<Rightarrow> None
      | Some (CManifest m) \<Rightarrow> map_option (Cons (build_info_from_head m)) (read_heads fs dir names)
      | Some _ \<Rightarrow> read_heads fs dir names)"

definition list_manifest_builds :: "str \<Rightarrow> fs \<Rightarrow> api_error + manifest_build_info list" where
  "list_manifest_builds pack_id fs =
     (if \<not> is_safe_id pack_id then bad_request ''invalid pack id''
      else case read_dir fs (manifests_dir pack_id) of
        None \<Rightarrow> Inl NotFound
      | Some entries \<Rightarrow>
          (case read_heads fs (manifests_dir pack_id) (map fst entries) of
             None \<Rightarrow> Inl (Internal ''io'')
           | Some out \<Rightarrow> Inr (sort_by newer_build out)))"

definition latest_manifest_version :: "str \<Rightarrow> fs \<Rightarrow> api_error + str option" where
  "latest_manifest_version pack_id fs =
     (if \<not> is_safe_id pack_id then bad_request ''invalid pack id''
      else case map_of fs (latest_path pack_id) of
        Some (Link t) \<Rightarrow>
          Inr (case components t of [] \<Rightarrow> None | cs \<Rightarrow> Some (trim_json (last cs)))
      | _ \<Rightarrow> Inr None)"

definition latest_build_info :: "str \<Rightarrow> fs \<Rightarrow> api_error + manifest_build_info option" where
  "latest_build_info pack_id fs =
     (case latest_manifest_version pack_id fs of
        Inl e \<Rightarrow> Inl e
      | Inr None \<Rightarrow> Inr None
      | Inr (Some version) \<Rightarrow>
          if \<not> is_safe_version version then Inr None
          else case fs_read fs (manifest_path pack_id version) of
            Some (CManifest m) \<Rightarrow> Inr (Some (build_info_from_head m))
          | _ \<Rightarrow> Inr None)"

definition load_pack_config :: "str \<Rightarrow> fs \<Rightarrow> api_error + pack_config" where
  "load_pack_config pack_id fs =
     (if \<not> is_safe_id pack_id then bad_request ''invalid pack id''
      else case fs_read fs (authoring_path pack_id ''config.json'') of
        None \<Rightarrow> Inl NotFound | Some (CConfig c) \<Rightarrow> Inr c | Some _ \<Rightarrow> json_error)"

section \<open>The memo of builds\<close>

fun push_build :: "builds_by_commit \<Rightarrow> str \<Rightarrow> str \<Rightarrow> builds_by_commit" where
  "push_build [] commit v = [(commit, [v])]"
| "push_build ((c, vs) # m) commit v =
     (if c = commit then (c, vs @ [v]) # m else (c, vs) # push_build m commit v)"

definition collect_builds :: "manifest_build_info list \<Rightarrow> builds_by_commit" where
  "collect_builds builds =
     foldl (\<lambda>built b. case bi_built_from b of
         None \<Rightarrow> built
       | Some commit \<Rightarrow> push_build built commit (bi_version_number b)) [] builds"

definition builds_on_disk :: "str \<Rightarrow> fs \<Rightarrow> builds_by_commit" where
  "builds_on_disk pack_id fs =
     (case list_manifest_builds pack_id fs of Inl _ \<Rightarrow> [] | Inr builds \<Rightarrow> collect_builds builds)"

definition builds_by_commit_of :: "str \<Rightarrow> storage \<Rightarrow> builds_by_commit \<times> storage" where
  "builds_by_commit_of pack_id st =
     (case map_of (st_builds st) pack_id of
        Some known \<Rightarrow> (known, st)
      | None \<Rightarrow>
          (let built = builds_on_disk pack_id (st_fs st)
           in (built, st\<lparr>st_builds := (pack_id, built) # st_builds st\<rparr>)))"

definition forget_builds_by_commit :: "str \<Rightarrow> storage \<Rightarrow> storage" where
  "forget_builds_by_commit pack_id st =
     st\<lparr>st_builds := filter (\<lambda>(p, _). p \<noteq> pack_id) (st_builds st)\<rparr>"

section \<open>Writing\<close>

definition save_manifest ::
  "str \<Rightarrow> pack_manifest \<Rightarrow> bool \<Rightarrow> storage \<Rightarrow> (api_error + unit) \<times> storage" where
  "save_manifest pack_id manifest overwrite st =
     (if \<not> is_safe_id pack_id then (bad_request ''invalid pack id'', st)
      else if \<not> is_safe_version (pm_pack_version manifest) then (bad_request ''invalid pack version'', st)
      else let path = manifest_path pack_id (pm_pack_version manifest) in
        if \<not> overwrite \<and> fs_exists (st_fs st) path
        then (Inl (Conflict (pm_pack_id manifest @ '' '' @ pm_pack_version manifest @
                ''is already published; publishing over it would change what people already downloaded under that name'')), st)
        else case at_fs st (atomic_write path (CManifest manifest) (st_fs st)) of
          (Inl e, st) \<Rightarrow> (Inl e, st)
        | (Inr _, st) \<Rightarrow> (Inr (), forget_builds_by_commit pack_id st))"

definition set_latest_manifest :: "str \<Rightarrow> str \<Rightarrow> fs \<Rightarrow> (api_error + unit) \<times> fs" where
  "set_latest_manifest pack_id version fs =
     (if \<not> is_safe_id pack_id then (bad_request ''invalid pack id'', fs)
      else if \<not> is_safe_version version then (bad_request ''invalid version slug'', fs)
      else case create_dir_all (manifests_dir pack_id) fs of
        (Inl e, fs) \<Rightarrow> (Inl e, fs)
      | (Inr _, fs) \<Rightarrow>
          let target = version @ ''.json'';
              latest_tmp = manifests_dir pack_id @ [''latest.tmp''];
              fs = remove_file_quiet latest_tmp fs
          in if map_of fs latest_tmp \<noteq> None then (Inl (Internal ''io''), fs)
             else if map_of fs (latest_path pack_id) = Some Dir
               then (Inl (Internal ''io''), fs_put latest_tmp (Link target) fs)
             else (Inr (), fs_del latest_tmp (fs_put (latest_path pack_id) (Link target) fs)))"

definition save_pack_summary :: "pack_summary \<Rightarrow> fs \<Rightarrow> (api_error + unit) \<times> fs" where
  "save_pack_summary s fs =
     (if \<not> is_safe_id (ps_pack_id s) then (bad_request ''invalid pack id'', fs)
      else atomic_write (summary_path (ps_pack_id s)) (CSummary s) fs)"

definition save_pack_config :: "str \<Rightarrow> pack_config \<Rightarrow> fs \<Rightarrow> (api_error + unit) \<times> fs" where
  "save_pack_config pack_id cfg fs =
     (if \<not> is_safe_id pack_id then (bad_request ''invalid pack id'', fs)
      else atomic_write (authoring_path pack_id ''config.json'') (CConfig cfg) fs)"

definition patch_summary :: "str \<Rightarrow> visibility \<Rightarrow> fs \<Rightarrow> (api_error + bool) \<times> fs" where
  "patch_summary pack_id v fs =
     (case load_pack_summary pack_id fs of
        Inl _ \<Rightarrow> (Inr False, fs)
      | Inr s \<Rightarrow>
          (case save_pack_summary (s\<lparr>ps_visibility := v\<rparr>) fs of
             (Inl e, fs) \<Rightarrow> (Inl e, fs)
           | (Inr _, fs) \<Rightarrow> (Inr True, fs)))"

definition patch_config :: "str \<Rightarrow> visibility \<Rightarrow> fs \<Rightarrow> (api_error + bool) \<times> fs" where
  "patch_config pack_id v fs =
     (case load_pack_config pack_id fs of
        Inl _ \<Rightarrow> (Inr False, fs)
      | Inr c \<Rightarrow>
          (case save_pack_config pack_id (c\<lparr>cf_visibility := v\<rparr>) fs of
             (Inl e, fs) \<Rightarrow> (Inl e, fs)
           | (Inr _, fs) \<Rightarrow> (Inr True, fs)))"

definition set_pack_visibility :: "str \<Rightarrow> visibility \<Rightarrow> fs \<Rightarrow> (api_error + unit) \<times> fs" where
  "set_pack_visibility pack_id v fs =
     (if \<not> is_safe_id pack_id then (bad_request ''invalid pack id'', fs)
      else case patch_summary pack_id v fs of
        (Inl e, fs) \<Rightarrow> (Inl e, fs)
      | (Inr found, fs) \<Rightarrow>
          (case patch_config pack_id v fs of
             (Inl e, fs) \<Rightarrow> (Inl e, fs)
           | (Inr found', fs) \<Rightarrow>
               if \<not> (found \<or> found') then (Inl NotFound, fs) else (Inr (), fs)))"

definition delete_pack :: "str \<Rightarrow> fs \<Rightarrow> (api_error + unit) \<times> fs" where
  "delete_pack pack_id fs =
     (if \<not> is_safe_id pack_id then (bad_request ''invalid pack id'', fs)
      else case remove_dir_all (pack_dir pack_id) fs of
        None \<Rightarrow> (Inl NotFound, fs)
      | Some fs \<Rightarrow> (Inr (), fs))"

section \<open>Static files\<close>

definition static_dir :: "str \<Rightarrow> path" where
  "static_dir pack_id = pack_dir pack_id @ [''static'']"

definition static_path :: "str \<Rightarrow> str \<Rightarrow> api_error + path" where
  "static_path pack_id rel =
     (case pack_static_path pack_id rel of
        Some p \<Rightarrow> Inr p
      | None \<Rightarrow> bad_request (if is_safe_id pack_id then ''invalid rel_path'' else ''invalid pack id''))"

definition save_pack_static :: "str \<Rightarrow> str \<Rightarrow> content \<Rightarrow> fs \<Rightarrow> (api_error + unit) \<times> fs" where
  "save_pack_static pack_id rel bytes fs =
     (case static_path pack_id rel of Inl e \<Rightarrow> (Inl e, fs) | Inr p \<Rightarrow> atomic_write p bytes fs)"

definition delete_pack_static :: "str \<Rightarrow> str \<Rightarrow> fs \<Rightarrow> (api_error + unit) \<times> fs" where
  "delete_pack_static pack_id rel fs =
     (case static_path pack_id rel of
        Inl e \<Rightarrow> (Inl e, fs)
      | Inr p \<Rightarrow> (case remove_file p fs of None \<Rightarrow> (Inl NotFound, fs) | Some fs \<Rightarrow> (Inr (), fs)))"

text \<open>One directory of \<open>list_pack_static\<close>: what it pushes and what it lists, as paths below the base.\<close>

definition visit_static :: "fs \<Rightarrow> path \<Rightarrow> path \<Rightarrow> path list \<times> path list" where
  "visit_static fs base rel =
     (case read_dir fs (base @ rel) of
        None \<Rightarrow> ([], [])
      | Some entries \<Rightarrow>
          (map (\<lambda>(name, _). rel @ [name]) (filter (\<lambda>(_, n). n = Dir) entries),
           map (\<lambda>(name, _). rel @ [name]) (filter (\<lambda>(_, n). case n of File _ \<Rightarrow> True | _ \<Rightarrow> False) entries)))"

text \<open>\<open>while let Some(dir) = stack.pop()\<close>; the stack's top is the head of the list.\<close>

fun walk_static :: "fs \<Rightarrow> path \<Rightarrow> nat \<Rightarrow> path list \<Rightarrow> path list \<Rightarrow> path list option" where
  "walk_static fs base fuel [] out = Some out"
| "walk_static fs base 0 (d # ds) out = None"
| "walk_static fs base (Suc fuel) (d # ds) out =
     (let (dirs, files) = visit_static fs base d
      in walk_static fs base fuel (rev dirs @ ds) (out @ files))"

definition list_pack_static :: "str \<Rightarrow> fs \<Rightarrow> api_error + str list" where
  "list_pack_static pack_id fs =
     (if \<not> is_safe_id pack_id then bad_request ''invalid pack id''
      else case walk_static fs (static_dir pack_id) (length fs + 1) [[]] [] of
        None \<Rightarrow> Inl (Internal ''walk'')
      | Some out \<Rightarrow> Inr (sort (map (\<lambda>rel. map (\<lambda>c. if c = CHR 0x5C then CHR ''/'' else c) (join ''/'' rel)) out)))"

text \<open>Cloning a pack: every static file, then the config.\<close>

fun copy_static :: "str \<Rightarrow> str \<Rightarrow> str list \<Rightarrow> fs \<Rightarrow> (api_error + unit) \<times> fs" where
  "copy_static from to [] fs = (Inr (), fs)"
| "copy_static from to (rel # rels) fs =
     (case static_path from rel of
        Inl e \<Rightarrow> (Inl e, fs)
      | Inr p \<Rightarrow>
          (case fs_read fs p of
             None \<Rightarrow> (Inl (Internal ''io''), fs)
           | Some bytes \<Rightarrow>
               (case save_pack_static to rel bytes fs of
                  (Inl e, fs) \<Rightarrow> (Inl e, fs)
                | (Inr _, fs) \<Rightarrow> copy_static from to rels fs)))"

definition duplicated ::
  "pack_config \<Rightarrow> str \<Rightarrow> loader_spec option \<Rightarrow> int \<Rightarrow> str option \<Rightarrow> pack_config" where
  "duplicated cfg to loader owner fork_of = cfg\<lparr>
     cf_pack_id := to,
     cf_owner := owner,
     cf_tier := (if starts_with to ''u/'' then Community else Official),
     cf_visibility := Draft,
     cf_fork_of := fork_of,
     cf_loader := (case loader of Some l \<Rightarrow> l | None \<Rightarrow> cf_loader cfg)\<rparr>"

definition duplicate_pack ::
  "str \<Rightarrow> str \<Rightarrow> loader_spec option \<Rightarrow> int \<Rightarrow> str option \<Rightarrow> fs \<Rightarrow> (api_error + pack_config) \<times> fs" where
  "duplicate_pack from to loader owner fork_of fs =
     (if \<not> is_safe_id to then (bad_request ''invalid target pack id'', fs)
      else if from = to then (bad_request ''source and target pack id are the same'', fs)
      else if fs_exists fs (authoring_path to ''config.json'')
        then (Inl (Conflict (''pack '' @ to @ '' already has a config'')), fs)
      else case load_pack_config from fs of
        Inl e \<Rightarrow> (Inl e, fs)
      | Inr cfg \<Rightarrow>
          let cfg = duplicated cfg to loader owner fork_of in
          case list_pack_static from fs of
            Inl e \<Rightarrow> (Inl e, fs)
          | Inr rels \<Rightarrow>
              (case copy_static from to rels fs of
                 (Inl e, fs) \<Rightarrow> (Inl e, fs)
               | (Inr _, fs) \<Rightarrow>
                   (case save_pack_config to cfg fs of
                      (Inl e, fs) \<Rightarrow> (Inl e, fs)
                    | (Inr _, fs) \<Rightarrow> (Inr cfg, fs))))"

section \<open>Where things are\<close>

lemma join_path_safe:
  assumes "is_safe_id v"
  shows "join_path d (v @ ''.json'') = d @ split_on CHR ''/'' (v @ ''.json'')"
proof -
  have flat: "CHR ''/'' \<notin> set (w @ ''.json'')" "w @ ''.json'' \<noteq> []" "w @ ''.json'' \<noteq> ''.''" if "is_flat_id w" for w
    using flat_id_segment [OF that] by auto
  from assms show ?thesis
    unfolding safe_id_cases
  proof (elim disjE exE conjE)
    assume v: "is_flat_id v"
    then have "\<not> starts_with (v @ ''.json'') ''/''"
      using flat_id_segment [OF v] by (cases v) (auto simp: starts_with_def)
    with flat [OF v] show ?thesis by (simp add: join_path_def components_def)
  next
    fix uid pack
    assume v: "v = ''u/'' @ uid @ CHR ''/'' # pack" "uid \<noteq> []" "list_all is_digit uid" "is_flat_id pack"
    have s: "split_on CHR ''/'' (uid @ CHR ''/'' # pack @ ''.json'') = [uid, pack @ ''.json'']"
      using digits_segment [OF v(3)] flat [OF v(4)] split_on_append [of "CHR ''/''" uid "pack @ ''.json''"]
      by simp
    have "uid \<noteq> ''.''" using digits_segment [OF v(3)] by (auto simp: starts_with_def)
    moreover have "\<not> starts_with (v @ ''.json'') ''/''" by (simp add: v(1) starts_with_def)
    ultimately show ?thesis
      using v flat [OF v(4)] by (simp add: join_path_def components_def s)
  qed
qed

lemma manifest_path_safe:
  "is_safe_version v \<Longrightarrow> manifest_path p v = manifests_dir p @ split_on CHR ''/'' (v @ ''.json'')"
  by (simp add: manifest_path_def is_safe_version_def join_path_safe)

lemma manifest_path_inject:
  assumes "is_safe_id p" "is_safe_id q" "is_safe_version v" "is_safe_version w"
  shows "manifest_path p v = manifest_path q w \<longleftrightarrow> p = q \<and> v = w"
proof
  assume eq: "manifest_path p v = manifest_path q w"
  then have "pack_dir p @ ''manifests'' # split_on CHR ''/'' (v @ ''.json'') =
      pack_dir q @ ''manifests'' # split_on CHR ''/'' (w @ ''.json'')"
    using assms(3,4) by (simp add: manifest_path_safe manifests_dir_def)
  then have "p = q" using pack_dir_prefix [OF assms(1,2)] by (metis prefix_order.order_refl)
  with eq assms(3,4) show "p = q \<and> v = w" by (simp add: manifest_path_safe split_on_inject)
qed simp

text \<open>The name of a version's file is never one of the two other names in the directory.\<close>

lemma split_on_append_plain:
  "CHR ''/'' \<notin> set w \<Longrightarrow>
     split_on CHR ''/'' (v @ w) = butlast (split_on CHR ''/'' v) @ [last (split_on CHR ''/'' v) @ w]"
proof (induction v)
  case (Cons c v)
  then show ?case by (cases "split_on CHR ''/'' v") auto
qed simp

lemma manifest_path_names:
  assumes "is_safe_version v"
  shows "manifest_path p v \<noteq> latest_path q" "manifest_path p v \<noteq> manifests_dir q @ [''latest.tmp'']"
    and "manifest_path p v \<noteq> []"
proof -
  have "last (manifest_path p v) = last (split_on CHR ''/'' v) @ ''.json''"
    by (simp add: manifest_path_safe [OF assms] split_on_append_plain)
  moreover have "x @ ''.json'' \<noteq> ''latest''" "x @ ''.json'' \<noteq> ''latest.tmp''" for x :: str
    by (auto simp: append_eq_append_conv2 Cons_eq_append_conv append_eq_Cons_conv dest: arg_cong [of _ _ rev])
  ultimately show "manifest_path p v \<noteq> latest_path q" "manifest_path p v \<noteq> manifests_dir q @ [''latest.tmp'']"
    by (metis last_snoc latest_path_def)+
  show "manifest_path p v \<noteq> []" by (simp add: manifest_path_safe [OF assms])
qed

section \<open>Publishing\<close>


lemma manifest_path_components: "is_safe_version v \<Longrightarrow> manifest_path p v = manifests_dir p @ components (v @ ''.json'')"
  using join_path_safe [of v "[]"] join_path_safe [of v "manifests_dir p"]
  by (auto simp: manifest_path_def is_safe_version_def join_path_def split: if_splits)

lemma manifest_reads_back:
  assumes "save_manifest p m overwrite st = (Inr (), st1)"
    and "set_latest_manifest p (pm_pack_version m) (st_fs st1) = (Inr (), fs2)"
  shows "load_manifest_version p (pm_pack_version m) fs2 = Inr m \<and>
    load_latest_manifest p fs2 = Inr m \<and>
    (\<forall>q. q \<noteq> manifest_path p (pm_pack_version m) \<longrightarrow> q \<noteq> latest_path p \<longrightarrow>
       q \<noteq> manifests_dir p @ [''latest.tmp''] \<longrightarrow> file_at fs2 q = file_at (st_fs st) q)"
proof -
  let ?v = "pm_pack_version m" and ?tmp = "manifests_dir p @ [''latest.tmp'']"
  from assms(1) have safe: "is_safe_id p" "is_safe_version ?v"
    and w: "atomic_write (manifest_path p ?v) (CManifest m) (st_fs st) = (Inr (), st_fs st1)"
    by (auto simp: save_manifest_def Let_def at_fs_def forget_builds_by_commit_def prod_eq_iff
        split: if_splits prod.splits sum.splits)
  from assms(2) safe obtain fsd where d: "create_dir_all (manifests_dir p) (st_fs st1) = (Inr (), fsd)"
      and fs2: "fs2 = fs_del ?tmp (fs_put (latest_path p) (Link (?v @ ''.json'')) (remove_file_quiet ?tmp fsd))"
    by (auto simp: set_latest_manifest_def Let_def split: if_splits prod.splits sum.splits)
  have files: "file_at fsd q = file_at (st_fs st1) q" for q
    using d by (auto simp: create_dir_all_def mkdirs_files split: option.splits)
  have tmp: "latest_path p \<noteq> ?tmp" by (simp add: latest_path_def)
  note names = manifest_path_names(1,2) [OF safe(2), of p p]
  have other: "file_at fs2 q = (if q = latest_path p \<or> q = ?tmp then None else file_at (st_fs st1) q)" for q
    by (simp add: fs2 remove_file_quiet_file files)
  have man: "file_at fs2 (manifest_path p ?v) = Some (CManifest m)"
    using names other [of "manifest_path p ?v"] atomic_write_ok(1) [OF w, of "manifest_path p ?v"] by simp
  then have "fs_read fs2 (manifest_path p ?v) = Some (CManifest m)"
    by (auto simp: fs_read_def file_at_def split: option.splits node.splits)
  moreover have "fs_read fs2 (latest_path p) = Some (CManifest m)"
    using man tmp by (simp add: fs_read_def fs2 latest_path_def manifest_path_components [OF safe(2)])
  ultimately show ?thesis
    using safe other atomic_write_ok(1) [OF w] by (simp add: load_manifest_version_def load_latest_manifest_def)
qed

text \<open>A publication reads back: under its version, as the latest manifest, and as the target of the
  link; every other file of the mirror is untouched.\<close>

theorem publish_reads_back:
  assumes "save_manifest p m overwrite st = (Inr (), st1)"
    and "set_latest_manifest p (pm_pack_version m) (st_fs st1) = (Inr (), fs2)"
  shows "load_manifest_version p (pm_pack_version m) fs2 = Inr m \<and>
    load_latest_manifest p fs2 = Inr m \<and>
    (\<forall>q. q \<noteq> manifest_path p (pm_pack_version m) \<longrightarrow> q \<noteq> latest_path p \<longrightarrow>
       q \<noteq> manifests_dir p @ [''latest.tmp''] \<longrightarrow> file_at fs2 q = file_at (st_fs st) q)"
  using manifest_reads_back [OF assms] by blast

section \<open>One pack at a time\<close>

text \<open>Any operation of the storage layer on pack \<open>p\<close>, succeeding or failing; deleting it stands apart.\<close>

inductive write_step :: "str \<Rightarrow> storage \<Rightarrow> storage \<Rightarrow> bool" for p where
  step_manifest: "save_manifest p m overwrite st = (r, st') \<Longrightarrow> write_step p st st'"
| step_latest: "write_step p st (snd (at_fs st (set_latest_manifest p v (st_fs st))))"
| step_summary: "ps_pack_id s = p \<Longrightarrow> write_step p st (snd (at_fs st (save_pack_summary s (st_fs st))))"
| step_config: "write_step p st (snd (at_fs st (save_pack_config p cfg (st_fs st))))"
| step_visibility: "(\<And>s. load_pack_summary p (st_fs st) = Inr s \<Longrightarrow> ps_pack_id s = p) \<Longrightarrow>
    write_step p st (snd (at_fs st (set_pack_visibility p vis (st_fs st))))"
| step_save_static: "write_step p st (snd (at_fs st (save_pack_static p rel bytes (st_fs st))))"
| step_delete_static: "write_step p st (snd (at_fs st (delete_pack_static p rel (st_fs st))))"
| step_duplicate: "write_step p st (snd (at_fs st (duplicate_pack from p loader owner fork_of (st_fs st))))"
| step_commit: "write_step p st (snd (at_fs st (save_commit p cm cfg (st_fs st))))"
| step_note: "write_step p st (snd (at_fs st (note_pending_author p who (st_fs st))))"
| step_builds: "write_step p st (snd (builds_by_commit_of q st))"

inductive pack_step :: "str \<Rightarrow> storage \<Rightarrow> storage \<Rightarrow> bool" for p where
  step_write: "write_step p st st' \<Longrightarrow> pack_step p st st'"
| step_delete: "pack_step p st (snd (at_fs st (delete_pack p (st_fs st))))"

lemma packs_parallel:
  assumes "is_safe_id p" "is_safe_id q" "p \<noteq> q"
  shows "parallel (pack_dir q) (pack_dir p @ xs)" "parallel (pack_dir q) (pack_dir p)"
proof -
  show *: "parallel (pack_dir q) (pack_dir p @ xs)" for xs
    using pack_dir_prefix [OF assms(2,1), of "[]" xs] pack_dir_prefix [OF assms(1,2), of xs "[]"] assms(3)
    by (auto simp: parallel_def)
  from * [of "[]"] show "parallel (pack_dir q) (pack_dir p)" by simp
qed

text \<open>The paths of a pack outside its manifests, its manifests, all of it.\<close>

definition inputs_of :: "str \<Rightarrow> path \<Rightarrow> bool" where
  "inputs_of p x \<longleftrightarrow> is_safe_id p \<and> (\<exists>y ys. y \<noteq> ''manifests'' \<and> x = pack_dir p @ y # ys)"

definition outputs_of :: "str \<Rightarrow> path \<Rightarrow> bool" where
  "outputs_of p x \<longleftrightarrow> is_safe_id p \<and> (\<exists>ys. x = manifests_dir p @ ys)"

definition part_of :: "str \<Rightarrow> path \<Rightarrow> bool" where
  "part_of p x \<longleftrightarrow> is_safe_id p \<and> (\<exists>ys. x = pack_dir p @ ys)"

lemma inputs_part: "inputs_of p x \<Longrightarrow> part_of p x"
  by (auto simp: inputs_of_def part_of_def)

lemma outputs_part: "outputs_of p x \<Longrightarrow> part_of p x"
  by (auto simp: outputs_of_def part_of_def manifests_dir_def)

lemma inputs_ofI: "is_safe_id p \<Longrightarrow> y \<noteq> ''manifests'' \<Longrightarrow> inputs_of p (pack_dir p @ y # ys)"
  by (auto simp: inputs_of_def)

lemma part_parallel: "is_safe_id q \<Longrightarrow> p \<noteq> q \<Longrightarrow> part_of p x \<Longrightarrow> parallel (pack_dir q) x"
  by (auto simp: part_of_def packs_parallel)

lemma inputs_parallel:
  assumes "is_safe_id q" "inputs_of p x"
  shows "parallel (manifests_dir q) x"
proof (cases "p = q")
  case True
  with assms show ?thesis by (auto simp: inputs_of_def manifests_dir_def parallel_def)
next
  case False
  with part_parallel [OF assms(1) _ inputs_part [OF assms(2)]] show ?thesis
    unfolding manifests_dir_def using parallel_append [of "pack_dir q" x _ "[]"] by simp
qed

lemma touches_summary:
  "save_pack_summary s fs = (r, fs') \<Longrightarrow> touches (inputs_of (ps_pack_id s)) fs fs'"
  by (auto simp: save_pack_summary_def summary_path_def inputs_ofI t_refl split: if_splits elim!: touches_write)

lemma touches_config: "save_pack_config p cfg fs = (r, fs') \<Longrightarrow> touches (inputs_of p) fs fs'"
  by (auto simp: save_pack_config_def authoring_path_def inputs_ofI t_refl split: if_splits elim!: touches_write)

lemma touches_visibility:
  assumes "\<And>s. load_pack_summary p fs = Inr s \<Longrightarrow> ps_pack_id s = p"
    and "set_pack_visibility p vis fs = (r, fs')"
  shows "touches (inputs_of p) fs fs'"
proof (cases "is_safe_id p")
  case True
  obtain r1 fs1 where 1: "patch_summary p vis fs = (r1, fs1)" by (cases "patch_summary p vis fs")
  obtain r2 fs2 where 2: "patch_config p vis fs1 = (r2, fs2)" by (cases "patch_config p vis fs1")
  have t1: "touches (inputs_of p) fs fs1"
    using 1 assms(1) by (auto simp: patch_summary_def t_refl split: sum.splits prod.splits dest!: touches_summary)
  moreover have "touches (inputs_of p) fs1 fs2"
    using 2 by (auto simp: patch_config_def t_refl split: sum.splits prod.splits dest!: touches_config)
  ultimately have "touches (inputs_of p) fs fs2" by (blast intro: touches_trans)
  with t1 assms(2) True 1 2 show ?thesis
    by (auto simp: set_pack_visibility_def split: sum.splits if_splits)
qed (use assms(2) in \<open>auto simp: set_pack_visibility_def t_refl\<close>)

lemma static_path_Inr: "static_path p rel = Inr x \<Longrightarrow> is_safe_id p \<and> x = pack_dir p @ ''static'' # split_on CHR ''/'' rel"
  by (auto simp: static_path_def static_path_safe bad_request_def split: option.splits)

lemma touches_save_static: "save_pack_static p rel bytes fs = (r, fs') \<Longrightarrow> touches (inputs_of p) fs fs'"
  by (auto simp: save_pack_static_def inputs_ofI t_refl split: sum.splits dest!: static_path_Inr elim!: touches_write)

lemma touches_delete_static: "delete_pack_static p rel fs = (r, fs') \<Longrightarrow> touches (inputs_of p) fs fs'"
  by (auto simp: delete_pack_static_def inputs_ofI t_refl split: sum.splits option.splits
      dest!: static_path_Inr elim!: touches_remove)

lemma touches_copy_static: "copy_static from to rels fs = (r, fs') \<Longrightarrow> touches (inputs_of to) fs fs'"
proof (induction rels arbitrary: fs)
  case (Cons rel rels)
  then show ?case
    by (auto simp: t_refl split: sum.splits option.splits prod.splits dest: touches_save_static intro: touches_trans)
qed (simp add: t_refl)

lemma touches_duplicate: "duplicate_pack from to loader owner fork_of fs = (r, fs') \<Longrightarrow> touches (inputs_of to) fs fs'"
  by (auto simp: duplicate_pack_def Let_def t_refl split: sum.splits prod.splits if_splits
      dest: touches_copy_static touches_config intro: touches_trans)

lemma touches_commit:
  assumes "save_commit p cm cfg fs = (r, fs')"
  shows "touches (inputs_of p) fs fs'"
proof (cases "is_safe_id p \<and> is_commit_id (cm_id cm)")
  case True
  then have i: "inputs_of p (commits_dir p @ xs)" "inputs_of p (commits_dir p)" for xs
    by (simp_all add: commits_dir_def inputs_ofI)
  from True assms have "run_effects (save_commit_effects p cm cfg) fs = (r, fs')"
    by (simp add: save_commit_def)
  then show ?thesis
    by (rule touches_effects)
      (auto simp: save_commit_effects_def i elim!: touches_write touches_mkdir intro!: touches_remove_quiet)
qed (use assms in \<open>auto simp: save_commit_def t_refl split: if_splits\<close>)

lemma touches_note:
  assumes "note_pending_author p who fs = (r, fs')"
  shows "touches (inputs_of p) fs fs'"
proof (cases "is_safe_id p")
  case True
  then have i: "inputs_of p (commits_dir p @ xs)" "inputs_of p (commits_dir p)" for xs
    by (simp_all add: commits_dir_def inputs_ofI)
  have mk: "create_dir_all (commits_dir p) fs = (r, fs') \<Longrightarrow> touches (inputs_of p) fs fs'" for r fs fs'
    by (erule touches_mkdir) (rule i(2))
  have wr: "atomic_write (pending_file p) c fs = (r, fs') \<Longrightarrow> touches (inputs_of p) fs fs'" for c r fs fs'
    by (erule touches_write) (rule i(1))
  from assms True show ?thesis
    by (auto simp: note_pending_author_def Let_def t_refl split: if_splits sum.splits prod.splits
        dest: mk wr intro: touches_trans)
qed (use assms in \<open>auto simp: note_pending_author_def t_refl\<close>)

lemma touches_latest:
  assumes "set_latest_manifest p v fs = (r, fs')"
  shows "touches (\<lambda>x. is_safe_id p \<and> x \<in> {manifests_dir p, latest_path p, manifests_dir p @ [''latest.tmp'']}) fs fs'"
    (is "touches ?P _ _")
proof (cases "is_safe_id p \<and> is_safe_version v")
  case True
  let ?tmp = "manifests_dir p @ [''latest.tmp'']"
  obtain r1 fs1 where d: "create_dir_all (manifests_dir p) fs = (r1, fs1)"
    by (cases "create_dir_all (manifests_dir p) fs")
  have t1: "touches ?P fs fs1" using True by (auto intro: touches_mkdir [OF d])
  show ?thesis
  proof (cases r1)
    case (Inl e)
    with t1 d assms True show ?thesis by (simp add: set_latest_manifest_def)
  next
    case (Inr u)
    let ?fs2 = "remove_file_quiet ?tmp fs1"
    have t2: "touches ?P fs ?fs2"
      by (rule touches_trans [OF _ t1]) (use True in \<open>simp add: touches_remove_quiet\<close>)
    have "map_of fs1 (manifests_dir p) = Some Dir"
      using d mkdirs_dir [of "[]" "manifests_dir p" fs fs1]
      by (auto simp: create_dir_all_def manifests_dir_def Inr split: option.splits)
    then have "map_of ?fs2 (manifests_dir p) = Some Dir"
      by (auto simp: remove_file_quiet_def remove_file_def split: option.splits node.splits)
    then have par: "has_parent ?fs2 ?tmp" "has_parent ?fs2 (latest_path p)"
      by (simp_all add: has_parent_def latest_path_def)
    have tmp: "touches ?P fs (fs_put ?tmp n ?fs2)" if "n = Link t" "map_of ?fs2 ?tmp = None" for n t
      using t_link [OF t2, of ?tmp t] par True that by simp
    have lat: "touches ?P fs (fs_del ?tmp (fs_put (latest_path p) (Link t) ?fs2))"
      if "map_of ?fs2 ?tmp = None" "map_of ?fs2 (latest_path p) \<noteq> Some Dir" for t
      using t_link [OF t2, of "latest_path p" t, THEN t_del, of ?tmp] par True that by (simp add: latest_path_def)
    from assms d Inr True t2 tmp lat show ?thesis
      by (auto simp: set_latest_manifest_def Let_def split: if_splits)
  qed
qed (use assms in \<open>auto simp: set_latest_manifest_def t_refl split: if_splits\<close>)

lemma at_fs_fs [simp]: "st_fs (snd (at_fs st r)) = snd r" "st_builds (snd (at_fs st r)) = st_builds st"
  by (simp_all add: at_fs_def)

lemma touches_manifest:
  assumes "save_manifest p m overwrite st = (r, st')"
  shows "touches (\<lambda>x. is_safe_id p \<and> is_safe_version (pm_pack_version m) \<and> x = manifest_path p (pm_pack_version m))
    (st_fs st) (st_fs st')"
proof -
  obtain r1 fs1 where "atomic_write (manifest_path p (pm_pack_version m)) (CManifest m) (st_fs st) = (r1, fs1)"
    by fastforce
  with assms show ?thesis
    by (auto simp: save_manifest_def Let_def at_fs_def forget_builds_by_commit_def t_refl
        split: if_splits sum.splits prod.splits elim!: touches_write)
qed

lemma touches_delete: "delete_pack p fs = (r, fs') \<Longrightarrow> touches (\<lambda>x. is_safe_id p \<and> x = pack_dir p) fs fs'"
  by (auto simp: delete_pack_def t_refl split: option.splits if_splits intro: t_rmdir [OF t_refl])

lemmas touches_inputs =
  touches_summary [OF surjective_pairing] touches_config [OF surjective_pairing]
  touches_visibility [OF _ surjective_pairing] touches_save_static [OF surjective_pairing]
  touches_delete_static [OF surjective_pairing] touches_duplicate [OF surjective_pairing]
  touches_commit [OF surjective_pairing] touches_note [OF surjective_pairing]

lemma builds_by_commit_of_fs [simp]: "st_fs (snd (builds_by_commit_of q st)) = st_fs st"
  by (auto simp: builds_by_commit_of_def Let_def split: option.splits)

lemma part_ofI [simp]:
  "is_safe_id p \<Longrightarrow> part_of p (pack_dir p)" "is_safe_id p \<Longrightarrow> part_of p (manifests_dir p)"
  "is_safe_id p \<Longrightarrow> part_of p (latest_path p)" "is_safe_id p \<Longrightarrow> part_of p (manifests_dir p @ xs)"
  "is_safe_id p \<Longrightarrow> is_safe_version v \<Longrightarrow> part_of p (manifest_path p v)"
  by (auto simp: part_of_def manifests_dir_def latest_path_def manifest_path_safe)

lemma write_step_touches: "write_step p st st' \<Longrightarrow> touches (part_of p) (st_fs st) (st_fs st')"
  by (induction rule: write_step.induct)
    (auto simp: t_refl intro: touches_inputs [THEN touches_mono] inputs_part
      elim!: touches_manifest [THEN touches_mono]
      intro: touches_latest [OF surjective_pairing, THEN touches_mono])

lemma pack_step_touches: "pack_step p st st' \<Longrightarrow> touches (part_of p) (st_fs st) (st_fs st')"
  by (induction rule: pack_step.induct)
    (auto intro: write_step_touches touches_delete [OF surjective_pairing, THEN touches_mono])

lemma same_subtree_read: "subtree d fs' = subtree d fs \<Longrightarrow> prefix d p \<Longrightarrow> p \<noteq> d \<Longrightarrow> fs_read fs' p = fs_read fs p"
  by (metis fs_read_subtree)

lemma same_subtree_dir: "subtree d fs' = subtree d fs \<Longrightarrow> read_dir fs' d = read_dir fs d"
  by (metis read_dir_subtree)

lemma same_subtree_heads:
  "subtree d fs' = subtree d fs \<Longrightarrow> read_heads fs' d names = read_heads fs d names"
  by (induction names) (auto simp: same_subtree_read [of d fs' fs] split: option.split content.split)

lemma same_builds:
  "subtree (manifests_dir p) fs' = subtree (manifests_dir p) fs \<Longrightarrow>
     list_manifest_builds p fs' = list_manifest_builds p fs"
  by (simp add: list_manifest_builds_def same_subtree_dir [of _ fs' fs] same_subtree_heads [of _ fs' fs] split: option.split)

text \<open>An operation on one pack never reaches another: its summary, config, manifests and history
  read as before.\<close>

theorem packs_isolated:
  assumes "is_safe_id q" "p \<noteq> q" "pack_step p st st'"
  shows "load_pack_summary q (st_fs st') = load_pack_summary q (st_fs st) \<and>
    load_pack_config q (st_fs st') = load_pack_config q (st_fs st) \<and>
    list_manifest_builds q (st_fs st') = list_manifest_builds q (st_fs st) \<and>
    load_manifest_version q v (st_fs st') = load_manifest_version q v (st_fs st) \<and>
    load_latest_manifest q (st_fs st') = load_latest_manifest q (st_fs st) \<and>
    load_commit q cid (st_fs st') = load_commit q cid (st_fs st) \<and>
    commit_head q (st_fs st') = commit_head q (st_fs st)"
proof -
  have s: "subtree (pack_dir q) (st_fs st') = subtree (pack_dir q) (st_fs st)"
    by (rule touches_subtree [OF pack_step_touches [OF assms(3)] part_parallel [OF assms(1,2)]])
  have r: "fs_read (st_fs st') (pack_dir q @ x # xs) = fs_read (st_fs st) (pack_dir q @ x # xs)" for x xs
    by (rule same_subtree_read [OF s]) simp_all
  have m: "list_manifest_builds q (st_fs st') = list_manifest_builds q (st_fs st)"
    by (rule same_builds, rule subtree_mono [OF _ s]) (simp add: manifests_dir_def)
  have v: "is_safe_version v \<Longrightarrow> manifest_path q v = pack_dir q @ ''manifests'' # components (v @ ''.json'')"
    by (simp add: manifest_path_components manifests_dir_def)
  show ?thesis
    by (simp add: m v load_pack_summary_def load_pack_config_def load_manifest_version_def load_latest_manifest_def
        load_commit_def commit_head_def summary_path_def authoring_path_def manifests_dir_def
        latest_path_def commits_dir_def r)
qed

section \<open>The memo of builds is never stale\<close>

definition memo_fresh :: "storage \<Rightarrow> bool" where
  "memo_fresh st \<longleftrightarrow> (\<forall>p b. map_of (st_builds st) p = Some b \<longrightarrow> b = builds_on_disk p (st_fs st))"

definition only_latest_links :: "fs \<Rightarrow> bool" where
  "only_latest_links fs \<longleftrightarrow> (\<forall>p name t. is_safe_id p \<longrightarrow> is_manifest_name name \<longrightarrow>
     map_of fs (manifests_dir p @ [name]) \<noteq> Some (Link t))"

lemma read_heads_filter: "read_heads fs d (filter is_manifest_name names) = read_heads fs d names"
  by (induction names) (auto split: option.splits content.splits)

lemma read_heads_cong:
  "(\<And>name. name \<in> set names \<Longrightarrow> is_manifest_name name \<Longrightarrow> fs_read fs' (d @ [name]) = fs_read fs (d @ [name])) \<Longrightarrow>
     read_heads fs' d names = read_heads fs d names"
  by (induction names) (auto split: option.splits content.splits)

lemma builds_on_disk_listing:
  assumes "fs_ok fs" "is_safe_id p"
  shows "builds_on_disk p fs =
    (case read_heads fs (manifests_dir p) (filter is_manifest_name (entries_in (manifests_dir p) fs)) of
       None \<Rightarrow> [] | Some out \<Rightarrow> collect_builds (sort_by newer_build out))"
proof -
  have "manifests_dir p \<noteq> []" by (simp add: manifests_dir_def)
  from read_dir_entries [OF assms(1) this] show ?thesis
    using assms(2) by (cases "read_dir fs (manifests_dir p)")
      (auto simp: builds_on_disk_def list_manifest_builds_def read_heads_filter collect_builds_def sort_by_def
        split: option.splits)
qed

lemma read_manifest_name:
  "only_latest_links fs \<Longrightarrow> is_safe_id p \<Longrightarrow> is_manifest_name name \<Longrightarrow>
     fs_read fs (manifests_dir p @ [name]) = file_at fs (manifests_dir p @ [name])"
  by (auto simp: only_latest_links_def fs_read_def split: option.splits node.splits)

lemma builds_on_disk_cong:
  assumes "fs_ok fs" "fs_ok fs'" "only_latest_links fs" "only_latest_links fs'" "is_safe_id p"
    and "filter is_manifest_name (entries_in (manifests_dir p) fs') = filter is_manifest_name (entries_in (manifests_dir p) fs)"
    and "\<And>name. is_manifest_name name \<Longrightarrow> file_at fs' (manifests_dir p @ [name]) = file_at fs (manifests_dir p @ [name])"
  shows "builds_on_disk p fs' = builds_on_disk p fs"
proof -
  have "read_heads fs' (manifests_dir p) ns = read_heads fs (manifests_dir p) ns" for ns
    by (rule read_heads_cong) (simp add: read_manifest_name assms)
  then show ?thesis using assms(1,2,5,6) by (simp add: builds_on_disk_listing)
qed

lemma latest_not_manifest [simp]: "\<not> is_manifest_name ''latest''" "\<not> is_manifest_name ''latest.tmp''"
  by (simp_all add: is_manifest_name_def ends_with_def)

lemma set_latest_entries:
  assumes "set_latest_manifest p v fs = (r, fs')"
  shows "filter is_manifest_name (entries_in (manifests_dir p) fs') = filter is_manifest_name (entries_in (manifests_dir p) fs)"
proof (cases "create_dir_all (manifests_dir p) fs")
  case (Pair r1 fs1)
  then have "entries_in (manifests_dir p) fs1 = entries_in (manifests_dir p) fs"
    by (auto simp: create_dir_all_def entries_mkdirs split: option.splits)
  with assms Pair show ?thesis
    by (auto simp: set_latest_manifest_def latest_path_def Let_def entries_put entries_del entries_remove_quiet
        split: if_splits sum.splits)
qed

lemma set_latest_files:
  assumes "set_latest_manifest p v fs = (r, fs')" "is_manifest_name name"
  shows "file_at fs' (manifests_dir p @ [name]) = file_at fs (manifests_dir p @ [name])"
proof (cases "create_dir_all (manifests_dir p) fs")
  case (Pair r1 fs1)
  then have "file_at fs1 q = file_at fs q" for q
    by (auto simp: create_dir_all_def mkdirs_files split: option.splits)
  with assms Pair show ?thesis
    by (auto simp: set_latest_manifest_def latest_path_def Let_def remove_file_quiet_file
        split: if_splits sum.splits)
qed

lemma builds_on_disk_unsafe: "\<not> is_safe_id p \<Longrightarrow> builds_on_disk p fs = []"
  by (simp add: builds_on_disk_def list_manifest_builds_def bad_request_def)

text \<open>What an effect must leave alone for the memo of a pack to stay right.\<close>

definition same_manifests :: "str \<Rightarrow> fs \<Rightarrow> fs \<Rightarrow> bool" where
  "same_manifests p fs fs' \<longleftrightarrow>
     filter is_manifest_name (entries_in (manifests_dir p) fs') = filter is_manifest_name (entries_in (manifests_dir p) fs) \<and>
     (\<forall>name. is_manifest_name name \<longrightarrow> file_at fs' (manifests_dir p @ [name]) = file_at fs (manifests_dir p @ [name]))"

lemma entries_subtree: "entries_in d (subtree d fs) = entries_in d fs"
proof -
  have "filter (\<lambda>(q, _). q \<noteq> [] \<and> butlast q = d) (subtree d fs) = filter (\<lambda>(q, _). q \<noteq> [] \<and> butlast q = d) fs"
    unfolding subtree_def filter_filter
    by (rule filter_cong) (auto simp: prefix_def, metis append_butlast_last_id)
  then show ?thesis by (simp add: entries_in_def)
qed

lemma same_subtree_manifests:
  assumes "subtree (manifests_dir p) fs' = subtree (manifests_dir p) fs"
  shows "same_manifests p fs fs'"
proof -
  have "file_at fs' (manifests_dir p @ [n]) = file_at fs (manifests_dir p @ [n])" for n
    using map_of_subtree [of "manifests_dir p" fs "manifests_dir p @ [n]"] assms
      map_of_subtree [of "manifests_dir p" fs' "manifests_dir p @ [n]"] by (simp add: file_at_def)
  moreover have "entries_in (manifests_dir p) fs' = entries_in (manifests_dir p) fs"
    by (metis entries_subtree assms)
  ultimately show ?thesis by (simp add: same_manifests_def)
qed

lemma memo_after:
  assumes "memo_fresh st" "fs_ok (st_fs st)" "fs_ok fs'" "only_latest_links (st_fs st)" "only_latest_links fs'"
    and "\<And>p. is_safe_id p \<Longrightarrow> map_of memo p \<noteq> None \<Longrightarrow> same_manifests p (st_fs st) fs'"
    and "\<And>p b. map_of memo p = Some b \<Longrightarrow> map_of (st_builds st) p = Some b"
  shows "memo_fresh (st\<lparr>st_fs := fs', st_builds := memo\<rparr>)"
proof -
  have "b = builds_on_disk p fs'" if "map_of memo p = Some b" for p b
  proof -
    have b: "b = builds_on_disk p (st_fs st)"
      using assms(7) [OF that] assms(1) unfolding memo_fresh_def by blast
    show ?thesis
    proof (cases "is_safe_id p")
      case True
      with assms(6) [OF True] that have "same_manifests p (st_fs st) fs'" by simp
      then have "builds_on_disk p fs' = builds_on_disk p (st_fs st)"
        by (intro builds_on_disk_cong [OF assms(2-5) True]) (simp_all add: same_manifests_def)
      with b show ?thesis by simp
    qed (simp add: b builds_on_disk_unsafe)
  qed
  then show ?thesis by (simp add: memo_fresh_def)
qed

lemma manifest_name_path:
  assumes "is_safe_id q" "part_of p x" "p \<noteq> q"
  shows "x \<noteq> manifests_dir q @ xs"
  using part_parallel [OF assms(1,3,2)] by (auto simp: manifests_dir_def parallel_def)

lemma links_after:
  assumes "touches P fs fs'" "only_latest_links fs"
    and "\<And>q name. is_safe_id q \<Longrightarrow> is_manifest_name name \<Longrightarrow> \<not> P (manifests_dir q @ [name])"
  shows "only_latest_links fs'"
  unfolding only_latest_links_def
proof (intro allI impI notI)
  fix q name t
  assume q: "is_safe_id q" "is_manifest_name name" "map_of fs' (manifests_dir q @ [name]) = Some (Link t)"
  from touches_links [OF assms(1) assms(3) [OF q(1,2)] q(3)] q assms(2) show False
    by (simp add: only_latest_links_def)
qed

lemma inputs_not_manifest: "is_safe_id q \<Longrightarrow> \<not> inputs_of p (manifests_dir q @ xs)"
  using inputs_parallel [of q p "manifests_dir q @ xs"] by (auto simp: parallel_def)

lemma input_step:
  assumes "touches (inputs_of p) (st_fs st) fs'" "fs_ok (st_fs st)" "only_latest_links (st_fs st)" "memo_fresh st"
  shows "fs_ok fs' \<and> only_latest_links fs' \<and> memo_fresh (st\<lparr>st_fs := fs'\<rparr>)"
proof -
  have ok: "fs_ok fs'" by (rule touches_ok [OF assms(1,2)])
  have l: "only_latest_links fs'" by (rule links_after [OF assms(1,3)]) (simp add: inputs_not_manifest)
  have "same_manifests q (st_fs st) fs'" if "is_safe_id q" for q
    by (rule same_subtree_manifests, rule touches_subtree [OF assms(1)]) (rule inputs_parallel [OF that])
  with memo_after [OF assms(4,2) ok assms(3) l, of "st_builds st"] ok l show ?thesis by simp
qed

lemma latest_step:
  assumes "set_latest_manifest p v (st_fs st) = (r, fs')" "fs_ok (st_fs st)" "only_latest_links (st_fs st)" "memo_fresh st"
  shows "fs_ok fs' \<and> only_latest_links fs' \<and> memo_fresh (st\<lparr>st_fs := fs'\<rparr>)"
proof -
  let ?P = "\<lambda>x. is_safe_id p \<and> x \<in> {manifests_dir p, latest_path p, manifests_dir p @ [''latest.tmp'']}"
  note t = touches_latest [OF assms(1)]
  have part: "?P x \<Longrightarrow> part_of p x" for x by auto
  have ok: "fs_ok fs'" by (rule touches_ok [OF t assms(2)])
  have not_P: "\<not> ?P (manifests_dir q @ [name])" if "is_safe_id q" "is_manifest_name name" for q name
    using that manifest_name_path [OF that(1), of p] part [of "manifests_dir q @ [name]"]
    by (cases "p = q") (auto simp: latest_path_def)
  have l: "only_latest_links fs'" by (rule links_after [OF t assms(3)]) (use not_P in blast)
  have "same_manifests q (st_fs st) fs'" if "is_safe_id q" for q
  proof (cases "p = q")
    case True
    with set_latest_entries [OF assms(1)] set_latest_files [OF assms(1)] show ?thesis
      by (simp add: same_manifests_def)
  next
    case False
    have "parallel (manifests_dir q) x" if "?P x" for x
      using part_parallel [OF \<open>is_safe_id q\<close> False part [OF that]] parallel_append [of "pack_dir q" x _ "[]"]
      by (simp add: manifests_dir_def)
    with touches_subtree [OF t] show ?thesis by (intro same_subtree_manifests) blast
  qed
  with memo_after [OF assms(4,2) ok assms(3) l, of "st_builds st"] ok l show ?thesis by simp
qed

lemma manifest_step:
  assumes "save_manifest p m overwrite st = (r, st')" "fs_ok (st_fs st)" "only_latest_links (st_fs st)" "memo_fresh st"
  shows "fs_ok (st_fs st') \<and> only_latest_links (st_fs st') \<and> memo_fresh st'"
proof -
  let ?path = "manifest_path p (pm_pack_version m)"
  note t = touches_manifest [OF assms(1)]
  have ok: "fs_ok (st_fs st')" by (rule touches_ok [OF t assms(2)])
  show ?thesis
  proof (cases r)
    case (Inl e)
    obtain r1 fs1 where w: "atomic_write ?path (CManifest m) (st_fs st) = (r1, fs1)" by fastforce
    have "st' = st"
      using assms(1) Inl w atomic_write_refused [OF assms(2), of ?path "CManifest m"]
      by (auto simp: save_manifest_def Let_def at_fs_def split: if_splits sum.splits prod.splits)
    with assms show ?thesis by simp
  next
    case (Inr u)
    with assms(1) have safe: "is_safe_id p" "is_safe_version (pm_pack_version m)"
      and w: "atomic_write ?path (CManifest m) (st_fs st) = (Inr (), st_fs st')"
      and memo: "st_builds st' = filter (\<lambda>(q, _). q \<noteq> p) (st_builds st)"
      by (auto simp: save_manifest_def Let_def at_fs_def forget_builds_by_commit_def prod_eq_iff
          split: if_splits prod.splits sum.splits)
    have l: "only_latest_links (st_fs st')"
      unfolding only_latest_links_def
    proof (intro allI impI notI)
      fix q name tgt
      assume q: "is_safe_id q" "is_manifest_name name" "map_of (st_fs st') (manifests_dir q @ [name]) = Some (Link tgt)"
      with atomic_write_ok(2) [OF w, of "manifests_dir q @ [name]" tgt] atomic_write_ok(3) [OF w] assms(3) show False
        by (cases "manifests_dir q @ [name] = ?path") (auto simp: only_latest_links_def)
    qed
    have other: "same_manifests q (st_fs st) (st_fs st')" if "is_safe_id q" "q \<noteq> p" for q
    proof -
      have "parallel (pack_dir q) ?path" using part_parallel [OF that(1) that(2) [symmetric]] safe by simp
      then have "parallel (manifests_dir q) ?path"
        unfolding manifests_dir_def using parallel_append [of "pack_dir q" ?path _ "[]"] by simp
      with touches_subtree [OF t, of "manifests_dir q"] show ?thesis by (intro same_subtree_manifests) auto
    qed
    have keep: "map_of (st_builds st') q = (if q = p then None else map_of (st_builds st) q)" for q
      by (simp add: memo map_of_keep)
    have "memo_fresh st' = memo_fresh (st\<lparr>st_fs := st_fs st', st_builds := st_builds st'\<rparr>)"
      by (simp add: memo_fresh_def)
    moreover have "memo_fresh (st\<lparr>st_fs := st_fs st', st_builds := st_builds st'\<rparr>)"
      by (rule memo_after [OF assms(4,2) ok assms(3) l]) (use other keep in \<open>auto split: if_splits\<close>)
    ultimately show ?thesis using ok l by simp
  qed
qed

text \<open>Short of deleting the pack, no operation leaves the memo of builds behind the manifests on disk.\<close>

theorem memo_never_stale:
  assumes "write_step p st st'" "fs_ok (st_fs st)" "only_latest_links (st_fs st)" "memo_fresh st"
  shows "fs_ok (st_fs st') \<and> only_latest_links (st_fs st') \<and> memo_fresh st'"
  using assms(1)
proof cases
  case (step_manifest m overwrite r)
  with manifest_step assms(2-4) show ?thesis by blast
next
  case (step_latest v)
  then show ?thesis
    using latest_step [OF surjective_pairing assms(2-4), of p v] by (simp add: at_fs_def)
next
  case (step_builds q)
  have "memo_fresh (snd (builds_by_commit_of q st))"
    using assms(4) by (auto simp: builds_by_commit_of_def memo_fresh_def Let_def split: option.splits)
  with step_builds assms(2,3) show ?thesis by simp
qed (use input_step [OF touches_inputs(1) assms(2-4)] input_step [OF touches_inputs(2) assms(2-4)]
  input_step [OF touches_inputs(3) assms(2-4)] input_step [OF touches_inputs(4) assms(2-4)]
  input_step [OF touches_inputs(5) assms(2-4)] input_step [OF touches_inputs(6) assms(2-4)]
  input_step [OF touches_inputs(7) assms(2-4)] input_step [OF touches_inputs(8) assms(2-4)] in \<open>simp add: at_fs_def\<close>)+

section \<open>Visibility\<close>

text \<open>After a change of visibility the card and the config, where they exist, carry it and nothing
  else of them moved; the operation finds nothing exactly when neither of them reads.\<close>

lemma summary_at: "load_pack_summary p fs = Inr s \<longleftrightarrow> is_safe_id p \<and> fs_read fs (summary_path p) = Some (CSummary s)"
  by (auto simp: load_pack_summary_def split: option.splits content.splits)

lemma config_at:
  "load_pack_config p fs = Inr c \<longleftrightarrow> is_safe_id p \<and> fs_read fs (authoring_path p ''config.json'') = Some (CConfig c)"
  by (auto simp: load_pack_config_def split: option.splits content.splits)

lemma read_after_write:
  assumes "atomic_write p c fs = (Inr u, fs')"
  shows "fs_read fs' p = Some c"
  using atomic_write_ok(3) [OF assms] by (simp add: fs_read_def file_at_def)

lemma write_frame:
  assumes "atomic_write p c fs = (r, fs')" "parallel d p" "prefix d q" "q \<noteq> d"
  shows "fs_read fs' q = fs_read fs q"
  using subtree_atomic_write [of d p c fs] assms by (intro same_subtree_read [of d]) (auto simp: parallel_def)

lemma atomic_write_error: "atomic_write p c fs = (Inl e, fs') \<Longrightarrow> \<exists>why. e = Internal why"
  by (auto simp: atomic_write_def split: if_splits option.splits)

lemma patch_config_result:
  assumes "patch_config p v fs = (r, fs')" "is_safe_id p"
  shows "r \<noteq> Inl NotFound" "r = Inl e \<Longrightarrow> \<exists>c. load_pack_config p fs = Inr c"
    and "r = Inr b \<Longrightarrow> b \<longleftrightarrow> (\<exists>c. load_pack_config p fs = Inr c)"
    and "r = Inr b \<Longrightarrow> load_pack_config p fs = Inr c \<Longrightarrow> load_pack_config p fs' = Inr (c\<lparr>cf_visibility := v\<rparr>)"
    and "file_at fs' (summary_path p) = file_at fs (summary_path p)"
proof -
  let ?cp = "authoring_path p ''config.json''"
  show "r \<noteq> Inl NotFound" "r = Inl e \<Longrightarrow> \<exists>c. load_pack_config p fs = Inr c"
    "r = Inr b \<Longrightarrow> b \<longleftrightarrow> (\<exists>c. load_pack_config p fs = Inr c)"
    using assms(1) by (auto simp: patch_config_def save_pack_config_def bad_request_def
        split: sum.splits prod.splits if_splits dest!: atomic_write_error)
  show "load_pack_config p fs' = Inr (c\<lparr>cf_visibility := v\<rparr>)" if "r = Inr b" "load_pack_config p fs = Inr c"
  proof -
    from assms that have "atomic_write ?cp (CConfig (c\<lparr>cf_visibility := v\<rparr>)) fs = (Inr (), fs')"
      by (auto simp: patch_config_def save_pack_config_def split: prod.splits sum.splits)
    from read_after_write [OF this] assms(2) show ?thesis by (simp add: config_at)
  qed
  show "file_at fs' (summary_path p) = file_at fs (summary_path p)"
  proof (cases "load_pack_config p fs")
    case (Inr c)
    with assms obtain r where w: "atomic_write ?cp (CConfig (c\<lparr>cf_visibility := v\<rparr>)) fs = (r, fs')"
      by (auto simp: patch_config_def save_pack_config_def split: prod.splits sum.splits)
    have "summary_path p \<noteq> ?cp" by (simp add: summary_path_def authoring_path_def)
    from atomic_write_other [OF this, of "CConfig (c\<lparr>cf_visibility := v\<rparr>)" fs] w show ?thesis by simp
  qed (use assms(1) in \<open>simp add: patch_config_def\<close>)
qed

lemma patch_summary_result:
  assumes "patch_summary p v fs = (r, fs')" "is_safe_id p" "\<forall>s. load_pack_summary p fs = Inr s \<longrightarrow> ps_pack_id s = p"
  shows "r \<noteq> Inl NotFound" "r = Inl e \<Longrightarrow> \<exists>s. load_pack_summary p fs = Inr s"
    and "r = Inr b \<Longrightarrow> b \<longleftrightarrow> (\<exists>s. load_pack_summary p fs = Inr s)"
    and "r = Inr b \<Longrightarrow> load_pack_summary p fs = Inr s \<Longrightarrow>
      file_at fs' (summary_path p) = Some (CSummary (s\<lparr>ps_visibility := v\<rparr>))"
    and "load_pack_config p fs' = load_pack_config p fs"
proof -
  show "r \<noteq> Inl NotFound" "r = Inl e \<Longrightarrow> \<exists>s. load_pack_summary p fs = Inr s"
    "r = Inr b \<Longrightarrow> b \<longleftrightarrow> (\<exists>s. load_pack_summary p fs = Inr s)"
    using assms(1) by (auto simp: patch_summary_def save_pack_summary_def bad_request_def
        split: sum.splits prod.splits if_splits dest!: atomic_write_error)
  show "file_at fs' (summary_path p) = Some (CSummary (s\<lparr>ps_visibility := v\<rparr>))"
    if "r = Inr b" "load_pack_summary p fs = Inr s"
    using assms that by (auto simp: patch_summary_def save_pack_summary_def file_at_def
        split: prod.splits sum.splits dest!: atomic_write_ok(3))
  show "load_pack_config p fs' = load_pack_config p fs"
  proof (cases "load_pack_summary p fs")
    case (Inr s)
    with assms obtain r where w: "atomic_write (summary_path p) (CSummary (s\<lparr>ps_visibility := v\<rparr>)) fs = (r, fs')"
      by (auto simp: patch_summary_def save_pack_summary_def split: prod.splits sum.splits)
    have "fs_read fs' (authoring_path p ''config.json'') = fs_read fs (authoring_path p ''config.json'')"
      by (rule write_frame [OF w, of "pack_dir p @ [''authoring'']"])
        (auto simp: summary_path_def authoring_path_def parallel_def)
    then show ?thesis by (simp add: load_pack_config_def)
  qed (use assms(1) in \<open>simp add: patch_summary_def\<close>)
qed

text \<open>Setting the visibility of a pack: where it succeeds, the summary and the config that were there
  read back with the new visibility and nothing else changed, and what was absent stays absent; it
  is refused as not found only when the pack has neither.\<close>
theorem visibility_changes_only_itself:
  assumes "\<And>s. load_pack_summary p fs = Inr s \<Longrightarrow> ps_pack_id s = p"
    and "set_pack_visibility p v fs = (r, fs')" "is_safe_id p"
  shows "(r = Inr () \<longrightarrow>
      (\<forall>s. load_pack_summary p fs = Inr s \<longrightarrow> load_pack_summary p fs' = Inr (s\<lparr>ps_visibility := v\<rparr>)) \<and>
      (\<forall>c. load_pack_config p fs = Inr c \<longrightarrow> load_pack_config p fs' = Inr (c\<lparr>cf_visibility := v\<rparr>))) \<and>
    (r = Inl NotFound \<longleftrightarrow>
      (\<forall>s. load_pack_summary p fs \<noteq> Inr s) \<and> (\<forall>c. load_pack_config p fs \<noteq> Inr c))"
proof -
  obtain r1 fs1 where 1: "patch_summary p v fs = (r1, fs1)" by (cases "patch_summary p v fs")
  obtain r2 fs2 where 2: "patch_config p v fs1 = (r2, fs2)" by (cases "patch_config p v fs1")
  have own: "\<forall>s. load_pack_summary p fs = Inr s \<longrightarrow> ps_pack_id s = p" using assms(1) by blast
  note s = patch_summary_result [OF 1 assms(3) own] and c = patch_config_result [OF 2 assms(3), unfolded s(5)]
  have r: "r = (case r1 of Inl e \<Rightarrow> Inl e | Inr b \<Rightarrow>
      (case r2 of Inl e \<Rightarrow> Inl e | Inr b' \<Rightarrow> if b \<or> b' then Inr () else Inl NotFound))"
    and ok: "r = Inr () \<Longrightarrow> fs' = fs2 \<and> (\<exists>b b'. r1 = Inr b \<and> r2 = Inr b')"
    using assms(2,3) 1 2 by (auto simp: set_pack_visibility_def split: sum.splits if_splits)
  have "load_pack_summary p fs' = Inr (t\<lparr>ps_visibility := v\<rparr>)" if "r = Inr ()" "load_pack_summary p fs = Inr t" for t
  proof -
    from ok [OF that(1)] obtain b where "r1 = Inr b" "fs' = fs2" by auto
    with s(4) [OF _ that(2)] c(5) have "file_at fs' (summary_path p) = Some (CSummary (t\<lparr>ps_visibility := v\<rparr>))"
      by simp
    then have "fs_read fs' (summary_path p) = Some (CSummary (t\<lparr>ps_visibility := v\<rparr>))"
      by (auto simp: fs_read_def file_at_def split: option.splits node.splits)
    with assms(3) show ?thesis by (simp add: summary_at)
  qed
  moreover have "load_pack_config p fs' = Inr (t\<lparr>cf_visibility := v\<rparr>)" if "r = Inr ()" "load_pack_config p fs = Inr t" for t
  proof -
    from ok [OF that(1)] obtain b' where "r2 = Inr b'" "fs' = fs2" by auto
    with c(4) [OF _ that(2)] show ?thesis by simp
  qed
  moreover have "r = Inl NotFound \<longleftrightarrow>
      (\<forall>s. load_pack_summary p fs \<noteq> Inr s) \<and> (\<forall>c. load_pack_config p fs \<noteq> Inr c)"
  proof (cases r1)
    case (Inl e)
    with s(1) s(2) [OF Inl] r show ?thesis by auto
  next
    case b: (Inr b)
    show ?thesis
    proof (cases r2)
      case (Inl e)
      with c(1) c(2) [OF Inl] r b show ?thesis by auto
    next
      case (Inr b')
      with s(3) [OF b] c(3) [OF Inr] r b show ?thesis by simp
    qed
  qed
  ultimately show ?thesis by simp
qed

section \<open>On a concrete disk\<close>

definition release :: "str \<Rightarrow> str option \<Rightarrow> pack_manifest" where
  "release v commit = \<lparr>pm_schema_version = schema_version, pm_pack_id = ''p'', pm_pack_version = v,
     pm_channel = None, pm_changelog = None, pm_changelog_i18n = None, pm_generated_at = ''t'',
     pm_fingerprint = None, pm_checks = None, pm_built_from = commit, pm_minecraft = ''1.21.1'',
     pm_loader = \<lparr>ls_name = ''neoforge'', ls_version = ''21''\<rparr>, pm_java_major = 21, pm_auth = None,
     pm_mods = [], pm_assets = []\<rparr>"

definition fresh_store :: storage where
  "fresh_store = \<lparr>st_fs = [], st_builds = []\<rparr>"

definition released :: storage where
  "released = snd (builds_by_commit_of ''p'' (snd (save_manifest ''p'' (release ''1.0.0'' (Some ''c'')) False fresh_store)))"

definition published :: storage where
  "published = snd (save_manifest ''p'' (release ''1.0.0'' (Some ''c'')) False fresh_store)"

lemma publishes: "save_manifest ''p'' (release ''1.0.0'' (Some ''c'')) False fresh_store = (Inr (), published)"
  by (simp add: prod_eq_iff published_def) code_simp

lemma released_facts: "st_builds released = [(''p'', [(''c'', [''1.0.0''])])]"
  by code_simp

text \<open>Deleting a pack does not forget its builds: a pack made again under the id is answered with the
  versions of the one that is gone.\<close>

lemma delete_leaves_stale_builds:
  "fst (at_fs released (delete_pack ''p'' (st_fs released))) = Inr ()"
  "fst (builds_by_commit_of ''p'' (snd (at_fs released (delete_pack ''p'' (st_fs released))))) = [(''c'', [''1.0.0''])]"
  "builds_on_disk ''p'' (st_fs (snd (at_fs released (delete_pack ''p'' (st_fs released))))) = []"
  by code_simp+


definition latest_set :: fs where
  "latest_set = snd (set_latest_manifest ''p'' ''1.0.0'' (st_fs published))"

theorem publish_reads_back_witness:
  "load_latest_manifest ''p'' latest_set = Inr (release ''1.0.0'' (Some ''c''))"
proof -
  have "set_latest_manifest ''p'' (pm_pack_version (release ''1.0.0'' (Some ''c''))) (st_fs published) = (Inr (), latest_set)"
    by (simp add: prod_eq_iff latest_set_def release_def) code_simp
  from publish_reads_back [OF publishes this] show ?thesis by simp
qed

lemma published_step: "write_step ''p'' fresh_store published"
  by (rule step_manifest [OF publishes])

theorem packs_isolated_witness:
  "load_pack_config ''u/7/p'' (st_fs published) = load_pack_config ''u/7/p'' (st_fs fresh_store)"
proof -
  have "is_safe_id ''u/7/p''" by code_simp
  from packs_isolated [OF this _ step_write [OF published_step]] show ?thesis by simp
qed

theorem memo_never_stale_witness: "memo_fresh published"
proof -
  have "fs_ok (st_fs fresh_store)" "only_latest_links (st_fs fresh_store)" "memo_fresh fresh_store"
    by (simp_all add: fresh_store_def only_latest_links_def memo_fresh_def)
  from memo_never_stale [OF published_step this] show ?thesis by simp
qed

definition drafted :: fs where
  "drafted = snd (save_pack_config ''p'' (sample_config []) [])"

theorem visibility_changes_only_itself_witness:
  "load_pack_config ''p'' (snd (set_pack_visibility ''p'' Published drafted)) =
     Inr ((sample_config [])\<lparr>cf_visibility := Published\<rparr>)"
proof -
  have facts: "load_pack_summary ''p'' drafted = Inl NotFound" "load_pack_config ''p'' drafted = Inr (sample_config [])"
    "fst (set_pack_visibility ''p'' Published drafted) = Inr ()" "is_safe_id ''p''"
    by code_simp+
  from facts visibility_changes_only_itself [of "''p''" drafted Published, OF _ surjective_pairing facts(4)]
  show ?thesis by simp
qed

section \<open>Listings\<close>

fun read_summaries :: "fs \<Rightarrow> path \<Rightarrow> (str \<times> node) list \<Rightarrow> pack_summary list" where
  "read_summaries fs dir [] = []"
| "read_summaries fs dir ((name, n) # es) =
     (if n \<noteq> Dir then read_summaries fs dir es
      else case fs_read fs (dir @ [name, ''summary.json'']) of
        Some (CSummary s) \<Rightarrow> s # read_summaries fs dir es
      | _ \<Rightarrow> read_summaries fs dir es)"

definition read_summaries_in :: "fs \<Rightarrow> path \<Rightarrow> pack_summary list" where
  "read_summaries_in fs dir = (case read_dir fs dir of None \<Rightarrow> [] | Some es \<Rightarrow> read_summaries fs dir es)"

definition subdirs :: "fs \<Rightarrow> path \<Rightarrow> str list" where
  "subdirs fs dir =
     (case read_dir fs dir of None \<Rightarrow> [] | Some es \<Rightarrow> map fst (filter (\<lambda>(_, n). n = Dir) es))"

definition list_pack_summaries :: "fs \<Rightarrow> pack_summary list" where
  "list_pack_summaries fs =
     sort_by (\<lambda>a b. cmp_str (ps_pack_id a) (ps_pack_id b))
       (read_summaries_in fs [''packs''] @
        concat (map (\<lambda>uid. read_summaries_in fs [''packs'', ''u'', uid]) (subdirs fs [''packs'', ''u''])))"

definition read_authoring_ids_in :: "fs \<Rightarrow> path \<Rightarrow> str \<Rightarrow> str list" where
  "read_authoring_ids_in fs dir pfx =
     map (\<lambda>name. pfx @ name)
       (filter (\<lambda>name. fs_exists fs (dir @ [name, ''authoring'', ''config.json''])) (subdirs fs dir))"

definition list_authoring_packs :: "fs \<Rightarrow> str list" where
  "list_authoring_packs fs =
     sort (read_authoring_ids_in fs [''packs''] [] @
       concat (map (\<lambda>uid. read_authoring_ids_in fs [''packs'', ''u'', uid] (''u/'' @ uid @ ''/''))
         (subdirs fs [''packs'', ''u''])))"

section \<open>Servers and the featured list\<close>

definition server_path :: "str \<Rightarrow> path" where
  "server_path server_id = join_path [''servers''] (server_id @ ''.json'')"

fun read_servers :: "fs \<Rightarrow> str list \<Rightarrow> server_entry list" where
  "read_servers fs [] = []"
| "read_servers fs (name # names) =
     (if \<not> ends_with name ''.json'' then read_servers fs names
      else case fs_read fs [''servers'', name] of
        Some (CServer s) \<Rightarrow> s # read_servers fs names
      | _ \<Rightarrow> read_servers fs names)"

definition list_servers :: "fs \<Rightarrow> server_entry list" where
  "list_servers fs =
     (case read_dir fs [''servers''] of
        None \<Rightarrow> []
      | Some es \<Rightarrow> sort_by (\<lambda>a b. cmp_str (sv_server_id a) (sv_server_id b)) (read_servers fs (map fst es)))"

definition load_server :: "str \<Rightarrow> fs \<Rightarrow> api_error + server_entry" where
  "load_server server_id fs =
     (if \<not> is_safe_id server_id then bad_request ''invalid server id''
      else case fs_read fs (server_path server_id) of
        None \<Rightarrow> Inl NotFound | Some (CServer s) \<Rightarrow> Inr s | Some _ \<Rightarrow> json_error)"

definition save_server :: "server_entry \<Rightarrow> fs \<Rightarrow> (api_error + unit) \<times> fs" where
  "save_server entry fs =
     (if \<not> is_safe_id (sv_server_id entry) then (bad_request ''invalid server id'', fs)
      else case create_dir_all [''servers''] fs of
        (Inl e, fs) \<Rightarrow> (Inl e, fs)
      | (Inr _, fs) \<Rightarrow> atomic_write (server_path (sv_server_id entry)) (CServer entry) fs)"

definition delete_server :: "str \<Rightarrow> fs \<Rightarrow> (api_error + unit) \<times> fs" where
  "delete_server server_id fs =
     (if \<not> is_safe_id server_id then (bad_request ''invalid server id'', fs)
      else case remove_file (server_path server_id) fs of
        None \<Rightarrow> (Inl NotFound, fs)
      | Some fs \<Rightarrow> (Inr (), fs))"

definition load_featured :: "fs \<Rightarrow> api_error + featured" where
  "load_featured fs =
     (case fs_read fs [''featured.json''] of
        None \<Rightarrow> Inl NotFound | Some (CFeatured f) \<Rightarrow> Inr f | Some _ \<Rightarrow> json_error)"

definition save_featured :: "featured \<Rightarrow> fs \<Rightarrow> (api_error + unit) \<times> fs" where
  "save_featured f fs = atomic_write [''featured.json''] (CFeatured f) fs"

text \<open>Where the packs of the two namespaces are found.\<close>

lemma subdirs_iff: "fs_ok fs \<Longrightarrow> d \<noteq> [] \<Longrightarrow> x \<in> set (subdirs fs d) \<longleftrightarrow> map_of fs (d @ [x]) = Some Dir"
  using in_read_dir [of fs d x Dir] by (auto simp: subdirs_def image_iff split: option.splits)

lemma flat_pack_dir: "is_flat_id s \<Longrightarrow> pack_dir s = [''packs'', s]"
  using flat_id_segment [of s] components_segment [of s] not_dot [of s]
  by (cases s) (auto simp: pack_dir_def join_path_def starts_with_def components_def)

lemma community_pack_dir:
  assumes "uid \<noteq> []" "list_all is_digit uid" "is_flat_id p"
  shows "pack_dir (''u/'' @ uid @ ''/'' @ p) = [''packs'', ''u'', uid, p]"
proof -
  have "is_safe_id (''u/'' @ uid @ ''/'' @ p)"
    using assms by (auto simp: safe_id_cases)
  moreover have "split_on CHR ''/'' (uid @ CHR ''/'' # p) = [uid, p]"
    using digits_segment [OF assms(2)] flat_id_segment [OF assms(3)] split_on_append [of "CHR ''/''" uid p] by simp
  ultimately show ?thesis by (simp add: pack_dir_safe)
qed

text \<open>The authoring listing names every pack whose config is on disk, community packs in full.\<close>

theorem authoring_listing_complete:
  assumes "fs_ok fs" "is_safe_id p" "map_of fs (authoring_path p ''config.json'') = Some (File c)"
  shows "p \<in> set (list_authoring_packs fs)"
proof -
  have up: "map_of fs (pack_dir p) = Some Dir"
    using fs_ok_ancestor [OF assms(1), of "pack_dir p" "[''authoring'', ''config.json'']"] assms(2,3)
    by (simp add: authoring_path_def pack_dir_safe)
  have there: "fs_exists fs (pack_dir p @ [''authoring'', ''config.json''])"
    using assms(3) by (simp add: fs_exists_def authoring_path_def)
  from assms(2) show ?thesis
    unfolding safe_id_cases
  proof (elim disjE exE conjE)
    assume p: "is_flat_id p"
    with up there have "p \<in> set (read_authoring_ids_in fs [''packs''] [])"
      using subdirs_iff [OF assms(1), of "[''packs'']" p] by (simp add: read_authoring_ids_in_def flat_pack_dir)
    then show ?thesis by (simp add: list_authoring_packs_def)
  next
    fix uid q
    assume p: "p = ''u/'' @ uid @ CHR ''/'' # q" "uid \<noteq> []" "list_all is_digit uid" "is_flat_id q"
    then have d: "pack_dir p = [''packs'', ''u'', uid] @ [q]" using community_pack_dir [OF p(2-4)] by simp
    have "map_of fs ([''packs'', ''u''] @ [uid]) = Some Dir"
      using fs_ok_ancestor [OF assms(1), of "[''packs'', ''u'', uid]" "[q]"] up d by simp
    then have "uid \<in> set (subdirs fs [''packs'', ''u''])" using subdirs_iff [OF assms(1), of "[''packs'', ''u'']" uid] by simp
    moreover have "p \<in> set (read_authoring_ids_in fs [''packs'', ''u'', uid] (''u/'' @ uid @ ''/''))"
      using up there d subdirs_iff [OF assms(1), of "[''packs'', ''u'', uid]" q] p(1)
      by (simp add: read_authoring_ids_in_def)
    ultimately show ?thesis by (auto simp: list_authoring_packs_def)
  qed
qed

end
