(* ===== verification/Pack_Copy.thy ===== *)
theory Pack_Copy
  imports Store_Packs
begin

text \<open>
  What cloning a pack does (\<open>duplicate_pack\<close> and \<open>list_pack_static\<close> of \<open>src/src/storage.rs\<close>, modelled
  in \<open>Store_Packs\<close>): the walk over the static tree ends within its fuel and lists every file, the
  clone gets every file and the rewritten config, the source is untouched, and a clone that fails
  leaves no config behind.
\<close>

section \<open>The walk over a directory tree\<close>

definition files_below :: "fs \<Rightarrow> path \<Rightarrow> path \<Rightarrow> path set" where
  "files_below fs base d =
     {rel. (\<exists>c. map_of fs (base @ rel) = Some (File c)) \<and> strict_prefix d rel}"

lemma visit_static_sets:
  assumes "fs_ok fs" "base \<noteq> []" "visit_static fs base d = (dirs, files)"
  shows "set dirs = {d @ [x] |x. map_of fs (base @ d @ [x]) = Some Dir}"
    and "set files = {d @ [x] |x. \<exists>c. map_of fs (base @ d @ [x]) = Some (File c)}"
proof -
  define es where "es = (case read_dir fs (base @ d) of None \<Rightarrow> [] | Some es \<Rightarrow> es)"
  have es: "(name, n) \<in> set es \<longleftrightarrow> map_of fs (base @ d @ [name]) = Some n" for name n
    using in_read_dir [OF assms(1), of "base @ d"] assms(2) by (simp add: es_def)
  have "dirs = map (\<lambda>(name, _). d @ [name]) (filter (\<lambda>(_, n). n = Dir) es)"
    and "files = map (\<lambda>(name, _). d @ [name]) (filter (\<lambda>(_, n). case n of File _ \<Rightarrow> True | _ \<Rightarrow> False) es)"
    using assms(3) by (auto simp: es_def visit_static_def split: option.splits)
  then have "set dirs = (\<lambda>(name, _). d @ [name]) ` {e \<in> set es. snd e = Dir}"
    and "set files = (\<lambda>(name, _). d @ [name]) ` {e \<in> set es. \<exists>c. snd e = File c}"
    by (auto simp: image_iff split: node.splits)
  with es show "set dirs = {d @ [x] |x. map_of fs (base @ d @ [x]) = Some Dir}"
    and "set files = {d @ [x] |x. \<exists>c. map_of fs (base @ d @ [x]) = Some (File c)}"
    by (auto simp: image_iff split_def)
qed

lemma files_below_step:
  assumes "fs_ok fs" "base \<noteq> []" "visit_static fs base d = (dirs, files)"
  shows "files_below fs base d = set files \<union> (\<Union>c \<in> set dirs. files_below fs base c)"
proof (intro set_eqI iffI)
  fix rel
  assume "rel \<in> files_below fs base d"
  then obtain c where c: "map_of fs (base @ rel) = Some (File c)" and "strict_prefix d rel"
    by (auto simp: files_below_def)
  then obtain x xs where rel: "rel = d @ x # xs" by (auto elim: strict_prefixE')
  show "rel \<in> set files \<union> (\<Union>c \<in> set dirs. files_below fs base c)"
  proof (cases "xs = []")
    case True
    with c rel visit_static_sets(2) [OF assms] show ?thesis by auto
  next
    case False
    with c rel fs_ok_ancestor [OF assms(1), of "base @ d @ [x]" xs] have "map_of fs (base @ d @ [x]) = Some Dir" by simp
    moreover have "rel \<in> files_below fs base (d @ [x])" using c rel False by (simp add: files_below_def strict_prefix_def)
    ultimately show ?thesis using visit_static_sets(1) [OF assms] by auto
  qed
next
  fix rel
  assume "rel \<in> set files \<union> (\<Union>c \<in> set dirs. files_below fs base c)"
  then show "rel \<in> files_below fs base d"
    unfolding visit_static_sets [OF assms] files_below_def
    by (auto simp: strict_prefix_def dest: append_prefixD)
qed

section \<open>The fuel is enough\<close>

definition below :: "fs \<Rightarrow> path \<Rightarrow> nat" where
  "below fs d = length (filter (\<lambda>(e, _). strict_prefix d e) fs)"

lemma children_weight:
  assumes "finite Q" "\<And>q. q \<in> Q \<Longrightarrow> q \<noteq> [] \<and> butlast q = d"
  shows "(\<Sum>q \<in> Q. length (filter (\<lambda>(e, _). prefix q e) fs)) \<le> below fs d"
proof (induction fs)
  case (Cons e fs)
  have one: "q = take (Suc (length d)) (fst e) \<and> strict_prefix d (fst e)" if "q \<in> Q" "prefix q (fst e)" for q
  proof -
    from assms(2) [OF that(1)] have q: "q = d @ [last q]" by (metis append_butlast_last_id)
    with that(2) obtain r where "fst e = d @ last q # r" by (metis append.assoc append_Cons append_Nil prefixE)
    with q show ?thesis by (metis append_eq_conv_conj length_append_singleton strict_prefixI' append.assoc append_Cons append_Nil)
  qed
  have "card {q \<in> Q. prefix q (fst e)} \<le> (if strict_prefix d (fst e) then 1 else 0)"
  proof (cases "{q \<in> Q. prefix q (fst e)} = {}")
    case False
    have "{q \<in> Q. prefix q (fst e)} \<subseteq> {take (Suc (length d)) (fst e)}" using one by auto
    from card_mono [OF _ this] False one show ?thesis by auto
  next
    case True
    show ?thesis unfolding True by simp
  qed
  moreover have "(\<Sum>q \<in> Q. if prefix q (fst e) then 1 else 0) = card {q \<in> Q. prefix q (fst e)}"
    using sum.inter_filter [OF assms(1), of "\<lambda>_. 1 :: nat" "\<lambda>q. prefix q (fst e)"] by simp
  moreover have "(\<Sum>q \<in> Q. length (filter (\<lambda>(x, _). prefix q x) (e # fs))) =
      (\<Sum>q \<in> Q. if prefix q (fst e) then 1 else 0) + (\<Sum>q \<in> Q. length (filter (\<lambda>(x, _). prefix q x) fs))"
  proof -
    have "length (filter (\<lambda>(x, _). prefix q x) (e # fs)) =
        (if prefix q (fst e) then 1 else 0) + length (filter (\<lambda>(x, _). prefix q x) fs)" for q
      by (simp add: split_def)
    then show ?thesis by (simp only: sum.distrib)
  qed
  ultimately show ?case using Cons by (auto simp: below_def split_def)
qed (simp add: below_def)

lemma below_le: "below fs q \<le> length (filter (\<lambda>(e, _). prefix q e) fs)"
  unfolding below_def by (induction fs) (auto simp: strict_prefix_def)

lemma below_self: "(q, n) \<in> set fs \<Longrightarrow> 1 + below fs q \<le> length (filter (\<lambda>(e, _). prefix q e) fs)"
proof (induction fs)
  case (Cons a fs)
  then show ?case using below_le [of fs q] by (auto simp: below_def strict_prefix_def)
qed simp

lemma names_distinct:
  "distinct (map fst fs) \<Longrightarrow>
     distinct (map (\<lambda>x. d @ [last (fst x)]) (filter (\<lambda>x. fst x \<noteq> [] \<and> butlast (fst x) = b \<and> R (snd x)) fs))"
  for fs :: fs
proof (induction fs)
  case (Cons a fs)
  have "fst x = fst a" if "butlast (fst x) = butlast (fst a)" "last (fst x) = last (fst a)" "fst x \<noteq> []" "fst a \<noteq> []"
    for x :: "path \<times> node"
    using that by (metis append_butlast_last_id)
  with Cons show ?case by (fastforce simp: image_iff)
qed simp

lemma below_children:
  assumes "fs_ok fs" "base \<noteq> []" "visit_static fs base d = (dirs, files)"
  shows "(\<Sum>c \<leftarrow> dirs. 1 + below fs (base @ c)) \<le> below fs (base @ d)"
proof -
  have dist: "distinct dirs"
    using assms(3) names_distinct [OF fs_ok_distinct [OF assms(1)], of d "base @ d" "\<lambda>n. n = Dir"]
    by (auto simp: visit_static_def read_dir_def filter_map o_def split_def split: if_splits)
  have one: "1 + below fs (base @ c) \<le> length (filter (\<lambda>(e, _). prefix (base @ c) e) fs)" if "c \<in> set dirs" for c
  proof -
    have "map_of fs (base @ c) = Some Dir"
      using that visit_static_sets(1) [OF assms] by auto
    then have "(base @ c, Dir) \<in> set fs" by (rule map_of_SomeD)
    then show ?thesis by (rule below_self)
  qed
  have "(\<Sum>c \<leftarrow> dirs. 1 + below fs (base @ c)) = (\<Sum>c \<in> set dirs. 1 + below fs (base @ c))"
    using dist by (rule sum_list_distinct_conv_sum_set)
  also have "\<dots> \<le> (\<Sum>c \<in> set dirs. length (filter (\<lambda>(e, _). prefix (base @ c) e) fs))"
    by (rule sum_mono) (use one in simp)
  also have "\<dots> = (\<Sum>q \<in> (\<lambda>c. base @ c) ` set dirs. length (filter (\<lambda>(e, _). prefix q e) fs))"
    by (simp add: sum.reindex inj_on_def)
  also have "\<dots> \<le> below fs (base @ d)"
    by (rule children_weight) (simp, auto simp: visit_static_sets(1) [OF assms] butlast_append)
  finally show ?thesis .
qed

lemma walk_static_result:
  "fs_ok fs \<Longrightarrow> base \<noteq> [] \<Longrightarrow> (\<Sum>d \<leftarrow> stack. 1 + below fs (base @ d)) \<le> fuel \<Longrightarrow>
    \<exists>res. walk_static fs base fuel stack out = Some res \<and>
      set res = set out \<union> (\<Union>d \<in> set stack. files_below fs base d)"
proof (induction fs base fuel stack out rule: walk_static.induct)
  case (3 fs base fuel d ds out)
  obtain dirs files where v: "visit_static fs base d = (dirs, files)" by fastforce
  note ok = 3(2,3)
  from below_children [OF ok v] 3(4) have "(\<Sum>d \<leftarrow> rev dirs @ ds. 1 + below fs (base @ d)) \<le> fuel" by (simp add: rev_map [symmetric])
  from 3(1) [OF v [symmetric] refl ok this] obtain res where
      "walk_static fs base fuel (rev dirs @ ds) (out @ files) = Some res"
      "set res = set (out @ files) \<union> (\<Union>d \<in> set (rev dirs @ ds). files_below fs base d)"
    by auto
  with v files_below_step [OF ok v] show ?case by auto
qed auto

text \<open>The walk over a pack's static files ends, and lists each of them.\<close>

lemma static_walk:
  assumes "fs_ok fs" "length fs < fuel"
  shows "\<exists>res. walk_static fs (static_dir p) fuel [[]] [] = Some res \<and>
    set res = {rel. rel \<noteq> [] \<and> (\<exists>c. map_of fs (static_dir p @ rel) = Some (File c))}"
proof -
  have "below fs (static_dir p @ []) \<le> length fs" by (simp add: below_def)
  then have "(\<Sum>d \<leftarrow> [[]]. 1 + below fs (static_dir p @ d)) \<le> fuel" using assms(2) by simp
  from walk_static_result [OF assms(1) _ this, of "[]"] show ?thesis
    by (auto simp: static_dir_def files_below_def strict_prefix_def)
qed

text \<open>C24: The walk over a pack's static files ends on every disk, within as many directories as the disk has
  entries, and has then found each file below the static directory and nothing else.\<close>

theorem static_walk_ends:
  assumes "fs_ok fs" "length fs < fuel"
  shows "\<exists>res. walk_static fs (static_dir p) fuel [[]] [] = Some res \<and>
    set res = {rel. rel \<noteq> [] \<and> (\<exists>c. map_of fs (static_dir p @ rel) = Some (File c))}"
  by (rule static_walk [OF assms])

definition shown :: "path \<Rightarrow> str" where
  "shown rel = map (\<lambda>c. if c = CHR 0x5C then CHR ''/'' else c) (join ''/'' rel)"

lemma shown_safe:
  assumes "is_safe_rel_path rel"
  shows "shown (split_on CHR ''/'' rel) = rel"
proof -
  have "CHR 0x5C \<notin> set rel" using assms by (auto simp: is_safe_rel_path_def)
  then have "map (\<lambda>c. if c = CHR 0x5C then CHR ''/'' else c) rel = rel" by (auto intro!: map_idI)
  then show ?thesis by (simp add: shown_def join_split_on)
qed

lemma list_static_set:
  assumes "fs_ok fs" "is_safe_id p"
  shows "\<exists>rels. list_pack_static p fs = Inr rels \<and>
    set rels = shown ` {rel. rel \<noteq> [] \<and> (\<exists>c. map_of fs (static_dir p @ rel) = Some (File c))}"
proof -
  obtain res where w: "walk_static fs (static_dir p) (length fs + 1) [[]] [] = Some res"
      "set res = {rel. rel \<noteq> [] \<and> (\<exists>c. map_of fs (static_dir p @ rel) = Some (File c))}"
    using static_walk [OF assms(1) less_add_one, of p] by blast
  then have "list_pack_static p fs = Inr (sort (map shown res))"
    using assms(2) by (simp add: list_pack_static_def shown_def [abs_def])
  with w(2) show ?thesis by simp
qed

theorem static_listing_complete:
  assumes "fs_ok fs" "pack_static_path p rel = Some path" "map_of fs path = Some (File c)"
  shows "\<exists>rels. list_pack_static p fs = Inr rels \<and> rel \<in> set rels \<and> sorted rels"
proof -
  from assms(2) have p: "is_safe_id p" "is_safe_rel_path rel" "path = static_dir p @ split_on CHR ''/'' rel"
    by (simp_all add: static_path_safe static_dir_def)
  obtain rels where rels: "list_pack_static p fs = Inr rels"
      "set rels = shown ` {rel. rel \<noteq> [] \<and> (\<exists>c. map_of fs (static_dir p @ rel) = Some (File c))}"
    using list_static_set [OF assms(1) p(1)] by blast
  have "rel \<in> set rels"
    unfolding rels(2) using p assms(3) shown_safe [OF p(2)] by (auto intro!: image_eqI [of _ _ "split_on CHR ''/'' rel"])
  moreover have "sorted rels"
    using rels(1) by (auto simp: list_pack_static_def split: if_splits option.splits)
  ultimately show ?thesis using rels(1) by blast
qed

section \<open>The clone\<close>

definition static_of :: "str \<Rightarrow> path \<Rightarrow> bool" where
  "static_of p x \<longleftrightarrow> is_safe_id p \<and> (\<exists>ys. x = pack_dir p @ ''static'' # ys)"

lemma touches_save_static_of: "save_pack_static p rel bytes fs = (r, fs') \<Longrightarrow> touches (static_of p) fs fs'"
  by (auto simp: save_pack_static_def static_of_def t_refl split: sum.splits dest!: static_path_Inr elim!: touches_write)

lemma touches_copy_static_of: "copy_static from to rels fs = (r, fs') \<Longrightarrow> touches (static_of to) fs fs'"
proof (induction rels arbitrary: fs)
  case (Cons rel rels)
  then show ?case
    by (auto simp: t_refl split: sum.splits option.splits prod.splits dest: touches_save_static_of intro: touches_trans)
qed (simp add: t_refl)

lemma static_of_other: "is_safe_id from \<Longrightarrow> from \<noteq> to \<Longrightarrow> static_of to x \<Longrightarrow> parallel (pack_dir from) x"
  by (auto simp: static_of_def packs_parallel)

definition static_at :: "str \<Rightarrow> str \<Rightarrow> path" where
  "static_at p rel = pack_dir p @ ''static'' # split_on CHR ''/'' rel"

lemma static_path_at: "static_path p rel = Inr x \<longleftrightarrow> is_safe_id p \<and> is_safe_rel_path rel \<and> x = static_at p rel"
  using static_path_safe [of p rel] by (cases "pack_static_path p rel") (auto simp: static_path_def bad_request_def static_at_def)

lemma copied:
  "copy_static from to rels fs = (Inr (), fs') \<Longrightarrow> from \<noteq> to \<Longrightarrow> is_safe_id from \<Longrightarrow>
     file_at fs' (static_at to s) =
       (if s \<in> set rels then fs_read fs (static_at from s) else file_at fs (static_at to s))"
proof (induction rels arbitrary: fs)
  case (Cons r rels)
  then obtain c fs1 where r: "fs_read fs (static_at from r) = Some c"
      "save_pack_static to r c fs = (Inr (), fs1)" "copy_static from to rels fs1 = (Inr (), fs')"
    by (auto simp: static_path_at split: sum.splits option.splits prod.splits)
  then have q: "atomic_write (static_at to r) (c) fs = (Inr (), fs1)"
    by (auto simp: save_pack_static_def static_path_at split: sum.splits)
  have same: "fs_read fs1 (static_at from s) = fs_read fs (static_at from s)" for s
    by (rule same_subtree_read [of "pack_dir from"], rule touches_subtree [OF touches_save_static_of [OF r(2)]])
      (use static_of_other Cons.prems(2,3) in \<open>auto simp: static_at_def\<close>)
  have "static_at to s = static_at to r \<longleftrightarrow> s = r" for s
    by (simp add: static_at_def split_on_inject)
  with atomic_write_ok(1) [OF q] Cons.IH [OF r(3) Cons.prems(2,3)] r(1) show ?case by (simp add: same)
qed simp

text \<open>C10: A clone holds the rewritten config and every static file of the source, under the same names;
  it never starts over a config that is there, and it leaves the source alone.\<close>

theorem duplicate_is_complete:
  assumes "fs_ok fs" "duplicate_pack from to loader owner fork_of fs = (Inr cfg', fs')"
    and "is_safe_rel_path rel" "map_of fs (static_at from rel) = Some (File c)"
  shows "(\<exists>cfg. load_pack_config from fs = Inr cfg \<and> cfg' = duplicated cfg to loader owner fork_of) \<and>
    load_pack_config to fs' = Inr cfg' \<and> \<not> fs_exists fs (authoring_path to ''config.json'') \<and>
    file_at fs' (static_at to rel) = Some c \<and> map_of fs' (static_at from rel) = Some (File c) \<and>
    load_pack_config from fs' = load_pack_config from fs"
proof -
  from assms(2) obtain cfg rels fs1 where
      d: "is_safe_id to" "from \<noteq> to" "\<not> fs_exists fs (authoring_path to ''config.json'')"
        "load_pack_config from fs = Inr cfg" "cfg' = duplicated cfg to loader owner fork_of"
        "list_pack_static from fs = Inr rels" "copy_static from to rels fs = (Inr (), fs1)"
        "save_pack_config to cfg' fs1 = (Inr (), fs')"
    by (auto simp: duplicate_pack_def Let_def split: if_splits sum.splits prod.splits)
  then have safe: "is_safe_id from" by (auto simp: load_pack_config_def bad_request_def split: if_splits)
  from d(1,8) have w: "atomic_write (authoring_path to ''config.json'') (CConfig cfg') fs1 = (Inr (), fs')"
    by (simp add: save_pack_config_def)
  have "rel \<in> set rels"
    using static_listing_complete [OF assms(1), of "from" rel "static_at from rel" c] safe assms(3,4) d(6)
    by (auto simp: static_path_safe static_at_def)
  moreover have "fs_read fs (static_at from rel) = Some c"
    using assms(4) by (simp add: fs_read_def file_at_def)
  ultimately have "file_at fs1 (static_at to rel) = Some c" using copied [OF d(7,2) safe] by simp
  moreover have "static_at to rel \<noteq> authoring_path to ''config.json''"
    by (simp add: static_at_def authoring_path_def)
  ultimately have 1: "file_at fs' (static_at to rel) = Some c" using atomic_write_ok(1) [OF w] by simp
  have 2: "subtree (pack_dir from) fs' = subtree (pack_dir from) fs"
    by (rule touches_subtree [OF touches_duplicate [OF assms(2)]])
      (use part_parallel [OF safe d(2) [symmetric] inputs_part] in blast)
  have "map_of fs' (static_at from rel) = Some (File c)"
    using map_of_subtree [of "pack_dir from" fs' "static_at from rel"] assms(4) 2
      map_of_subtree [of "pack_dir from" fs "static_at from rel"] by (simp add: static_at_def)
  moreover have "load_pack_config from fs' = load_pack_config from fs"
    using same_subtree_read [OF 2, of "authoring_path from ''config.json''"]
    by (simp add: load_pack_config_def authoring_path_def)
  moreover have "load_pack_config to fs' = Inr cfg'"
    using read_after_write [OF w] d(1) by (simp add: config_at)
  ultimately show ?thesis using d 1 by blast
qed

text \<open>A clone that fails leaves the target without a config, so that a retry starts clean.\<close>

theorem failed_duplicate_leaves_no_config:
  assumes "duplicate_pack from to loader owner fork_of fs = (Inl e, fs')"
    and "file_at fs (authoring_path to ''config.json'') = None"
  shows "file_at fs' (authoring_path to ''config.json'') = None"
proof -
  have none: "file_at fs1 (authoring_path to ''config.json'') = None"
    if "copy_static from to rels fs = (r, fs1)" for rels r fs1
  proof -
    have "\<not> prefix x (authoring_path to ''config.json'')" if "static_of to x" for x
      using that by (auto simp: static_of_def authoring_path_def)
    with touches_file [OF touches_copy_static_of [OF that]] assms(2) show ?thesis by metis
  qed
  from assms none show ?thesis
    by (auto simp: duplicate_pack_def Let_def save_pack_config_def atomic_write_err
        split: if_splits sum.splits prod.splits)
qed

section \<open>On a concrete disk\<close>

definition with_icon :: fs where
  "with_icon = snd (save_pack_static ''p'' ''_pack/icon.png'' (CBytes ''png'') drafted)"

definition cloned :: fs where
  "cloned = snd (duplicate_pack ''p'' ''u/7/q'' None 7 (Some ''p'') with_icon)"

lemma with_icon_ok: "fs_ok with_icon"
  unfolding with_icon_def drafted_def
  by (intro touches_ok [OF touches_save_static [OF surjective_pairing]]
      touches_ok [OF touches_config [OF surjective_pairing]] fs_ok_Nil)

theorem static_walk_ends_witness:
  "\<exists>res. walk_static with_icon (static_dir ''p'') 9 [[]] [] = Some res \<and> [''_pack'', ''icon.png''] \<in> set res"
proof -
  have "length with_icon < 9" "map_of with_icon (static_dir ''p'' @ [''_pack'', ''icon.png'']) = Some (File (CBytes ''png''))"
    by code_simp+
  with static_walk_ends [OF with_icon_ok, of 9 "''p''"] show ?thesis by auto
qed

theorem duplicate_is_complete_witness:
  "file_at cloned (static_at ''u/7/q'' ''_pack/icon.png'') = Some (CBytes ''png'') \<and>
   load_pack_config ''u/7/q'' cloned = Inr (duplicated (sample_config []) ''u/7/q'' None 7 (Some ''p''))"
proof -
  note ok = with_icon_ok
  have d: "duplicate_pack ''p'' ''u/7/q'' None 7 (Some ''p'') with_icon =
      (Inr (duplicated (sample_config []) ''u/7/q'' None 7 (Some ''p'')), cloned)"
    by (simp add: prod_eq_iff cloned_def) code_simp
  have "is_safe_rel_path ''_pack/icon.png''" "map_of with_icon (static_at ''p'' ''_pack/icon.png'') = Some (File (CBytes ''png''))"
    by code_simp+
  from duplicate_is_complete [OF ok d this] show ?thesis by blast
qed

text \<open>A stray dot-file below \<open>static\<close> stops the copy; no config is left.\<close>

definition stray :: fs where
  "stray = fs_put (static_dir ''p'' @ [''.DS_Store'']) (File (CBytes [])) with_icon"

theorem failed_duplicate_leaves_no_config_witness:
  "fst (duplicate_pack ''p'' ''q'' None 7 None stray) = bad_request ''invalid rel_path'' \<and>
   file_at (snd (duplicate_pack ''p'' ''q'' None 7 None stray)) (authoring_path ''q'' ''config.json'') = None"
proof
  show f: "fst (duplicate_pack ''p'' ''q'' None 7 None stray) = bad_request ''invalid rel_path''" by code_simp
  then have d: "duplicate_pack ''p'' ''q'' None 7 None stray =
      (Inl (BadRequest ''invalid rel_path''), snd (duplicate_pack ''p'' ''q'' None 7 None stray))"
    by (simp add: prod_eq_iff bad_request_def)
  have "file_at stray (authoring_path ''q'' ''config.json'') = None" by code_simp
  then show "file_at (snd (duplicate_pack ''p'' ''q'' None 7 None stray)) (authoring_path ''q'' ''config.json'') = None"
    by (rule failed_duplicate_leaves_no_config [OF d])
qed

end
