(* ===== verification/Store_Cache.thy ===== *)
theory Store_Cache
  imports Disk_Frame
begin

text \<open>
  The shared jar cache and the takedown list (\<open>src/src/storage.rs\<close>, with the second writer of the
  cache in \<open>src/src/authoring/sources.rs\<close> and the jar endpoint of \<open>src/src/http/public.rs\<close>). SHA-1 is
  a parameter \<open>hash\<close>. A takedown and an upload are also given as the steps other requests can come
  between; \<open>removed_lock\<close> only orders the writers of \<open>removed.txt\<close>.
\<close>

section \<open>The takedown list\<close>

definition removed_path :: path where
  "removed_path = [''removed.txt'']"

definition read_text :: "fs \<Rightarrow> path \<Rightarrow> str option" where
  "read_text fs p = (case fs_read fs p of Some (CBytes s) \<Rightarrow> Some s | _ \<Rightarrow> None)"

definition nl :: char where
  "nl = CHR 0x0A"

text \<open>\<open>str::lines\<close>, each line without a carriage return at its end.\<close>

definition strip_cr :: "str \<Rightarrow> str" where
  "strip_cr l = (if l \<noteq> [] \<and> last l = CHR 0x0D then butlast l else l)"

definition lines_of :: "str \<Rightarrow> str list" where
  "lines_of s = (let ls = split_on nl s in
     map strip_cr (if last ls = [] then butlast ls else ls))"

definition is_sha1_removed :: "str \<Rightarrow> fs \<Rightarrow> bool" where
  "is_sha1_removed sha fs =
     (case read_text fs removed_path of
        None \<Rightarrow> False
      | Some content \<Rightarrow> list_ex (\<lambda>l. trim l = sha) (lines_of content))"

definition list_removed :: "fs \<Rightarrow> str list" where
  "list_removed fs =
     (case read_text fs removed_path of
        None \<Rightarrow> []
      | Some content \<Rightarrow> filter (\<lambda>l. l \<noteq> []) (map trim (lines_of content)))"

definition record_removed :: "str \<Rightarrow> fs \<Rightarrow> (api_error + unit) \<times> fs" where
  "record_removed sha fs =
     (let content = (case read_text fs removed_path of None \<Rightarrow> [] | Some c \<Rightarrow> c) in
      if list_ex (\<lambda>l. trim l = sha) (lines_of content) then (Inr (), fs)
      else let content = (if content \<noteq> [] \<and> \<not> ends_with content [nl] then content @ [nl] else content)
           in atomic_write removed_path (CBytes (content @ sha @ [nl])) fs)"

definition good_sha :: "str \<Rightarrow> bool" where
  "good_sha sha \<longleftrightarrow> \<not> (\<not> is_hex sha \<or> length sha \<noteq> 40)"

definition restore :: "str \<Rightarrow> fs \<Rightarrow> (api_error + unit) \<times> fs" where
  "restore sha fs =
     (if \<not> good_sha sha then (bad_request ''invalid sha1'', fs)
      else case read_text fs removed_path of
        None \<Rightarrow> (Inr (), fs)
      | Some content \<Rightarrow>
          let out = join [nl] (filter (\<lambda>l. l \<noteq> [] \<and> l \<noteq> sha) (map trim (lines_of content)))
          in atomic_write removed_path (CBytes (if out \<noteq> [] then out @ [nl] else out)) fs)"

section \<open>Icons\<close>

definition icon_dir :: "str \<Rightarrow> path option" where
  "icon_dir sha = (if length sha = 40 \<and> is_hex sha then Some [''icons'', sha1_shard sha] else None)"

definition icon_kinds :: "(str \<times> str) list" where
  "icon_kinds = [(''png'', ''image/png''), (''jpg'', ''image/jpeg''), (''gif'', ''image/gif''), (''webp'', ''image/webp'')]"

definition no_icon :: str where
  "no_icon = ''none''"

datatype icon_read = IconImage content str | IconAbsent | IconUnknown

fun first_icon :: "fs \<Rightarrow> path \<Rightarrow> str \<Rightarrow> (str \<times> str) list \<Rightarrow> icon_read option" where
  "first_icon fs dir sha [] = None"
| "first_icon fs dir sha ((ext, ct) # ks) =
     (case fs_read fs (dir @ [sha @ ''.'' @ ext]) of
        Some bytes \<Rightarrow> Some (IconImage bytes ct)
      | None \<Rightarrow> first_icon fs dir sha ks)"

definition read_cached_icon :: "str \<Rightarrow> fs \<Rightarrow> icon_read" where
  "read_cached_icon sha fs =
     (case icon_dir sha of
        None \<Rightarrow> IconUnknown
      | Some dir \<Rightarrow>
          (case first_icon fs dir sha icon_kinds of
             Some i \<Rightarrow> i
           | None \<Rightarrow> if fs_exists fs (dir @ [sha @ ''.'' @ no_icon]) then IconAbsent else IconUnknown))"

text \<open>\<open>fs::write\<close> of a file whose directory is there; what fails is only logged.\<close>

definition store_icon :: "str \<Rightarrow> (str \<times> str) option \<Rightarrow> fs \<Rightarrow> fs" where
  "store_icon sha icon fs =
     (case icon_dir sha of
        None \<Rightarrow> fs
      | Some dir \<Rightarrow>
          (case create_dir_all dir fs of
             (Inl _, fs) \<Rightarrow> fs
           | (Inr _, fs) \<Rightarrow>
               let (ext, bytes) = (case icon of
                     Some (bytes, ct) \<Rightarrow>
                       ((case find (\<lambda>(_, c). c = ct) icon_kinds of Some (e, _) \<Rightarrow> e | None \<Rightarrow> ''png''), bytes)
                   | None \<Rightarrow> (no_icon, []))
               in snd (atomic_write (dir @ [sha @ ''.'' @ ext]) (CBytes bytes) fs)))"

definition forget_icon :: "str \<Rightarrow> fs \<Rightarrow> fs" where
  "forget_icon sha fs =
     (case icon_dir sha of
        None \<Rightarrow> fs
      | Some dir \<Rightarrow>
          remove_file_quiet (dir @ [sha @ ''.'' @ no_icon])
            (foldl (\<lambda>fs (ext, _). remove_file_quiet (dir @ [sha @ ''.'' @ ext]) fs) fs icon_kinds))"

section \<open>Jars\<close>

definition cache_path :: "str \<Rightarrow> path" where
  "cache_path sha = [''cache'', sha1_shard sha, sha @ ''.jar'']"

definition has_cache_jar :: "str \<Rightarrow> fs \<Rightarrow> bool" where
  "has_cache_jar sha fs = (case cache_jar_path_in sha of None \<Rightarrow> False | Some p \<Rightarrow> fs_exists fs p)"

definition cached_among :: "str list \<Rightarrow> fs \<Rightarrow> str set" where
  "cached_among shas fs = {sha \<in> set shas. has_cache_jar sha fs}"

definition save_cache_jar :: "(str \<Rightarrow> str) \<Rightarrow> str \<Rightarrow> str \<Rightarrow> fs \<Rightarrow> (api_error + unit) \<times> fs" where
  "save_cache_jar hash sha bytes fs =
     (if \<not> good_sha sha then (bad_request ''invalid sha1'', fs)
      else if hash bytes \<noteq> sha then
        (bad_request (''sha1 mismatch: url claims '' @ sha @ '' but body hashes to '' @ hash bytes), fs)
      else if is_sha1_removed sha fs then
        (bad_request (''sha1 '' @ sha @ '' is on the removed-list and cannot be re-uploaded''), fs)
      else case cache_jar_path_in sha of
        None \<Rightarrow> (bad_request ''invalid sha1'', fs)
      | Some path \<Rightarrow>
          if fs_exists fs path then (Inr (), fs) else atomic_write path (CBytes bytes) fs)"

definition delete_cache_jar :: "str \<Rightarrow> fs \<Rightarrow> (api_error + unit) \<times> fs" where
  "delete_cache_jar sha fs =
     (if \<not> good_sha sha then (bad_request ''invalid sha1'', fs)
      else case cache_jar_path_in sha of
        None \<Rightarrow> (bad_request ''invalid sha1'', fs)
      | Some path \<Rightarrow>
          (case remove_file path fs of None \<Rightarrow> (Inl NotFound, fs) | Some fs \<Rightarrow> (Inr (), fs)))"

definition takedown :: "str \<Rightarrow> fs \<Rightarrow> (api_error + unit) \<times> fs" where
  "takedown sha fs =
     (if \<not> good_sha sha then (bad_request ''invalid sha1'', fs)
      else
        let fs = (case cache_jar_path_in sha of Some path \<Rightarrow> remove_file_quiet path fs | None \<Rightarrow> fs);
            fs = forget_icon sha fs
        in record_removed sha fs)"

text \<open>The ingest path's writer; its errors are sentences, here one value.\<close>

definition write_to_cache :: "str \<Rightarrow> str \<Rightarrow> fs \<Rightarrow> (str + unit) \<times> fs" where
  "write_to_cache sha bytes fs =
     (case cache_jar_path_in sha of
        None \<Rightarrow> (Inl (''invalid sha1: '' @ sha), fs)
      | Some path \<Rightarrow>
          if is_sha1_removed sha fs then
            (Inl (''sha1 '' @ sha @ '' is on the removed-list (takedown) and cannot be re-ingested''), fs)
          else if fs_exists fs path then (Inr (), fs)
          else case atomic_write path (CBytes bytes) fs of
            (Inl _, fs) \<Rightarrow> (Inl ''writing cache jar'', fs)
          | (Inr _, fs) \<Rightarrow> (Inr (), fs))"

section \<open>Uploads waiting for a moderator\<close>

definition staged_upload_path :: "str \<Rightarrow> path" where
  "staged_upload_path sha = join_path [''uploads''] (sha @ ''.jar'')"

definition stage_upload :: "(str \<Rightarrow> str) \<Rightarrow> str \<Rightarrow> str \<Rightarrow> fs \<Rightarrow> (api_error + unit) \<times> fs" where
  "stage_upload hash sha bytes fs =
     (if \<not> good_sha sha then (bad_request ''invalid sha1'', fs)
      else if hash bytes \<noteq> sha then (bad_request (''sha1 mismatch: '' @ sha @ '' vs '' @ hash bytes), fs)
      else atomic_write (staged_upload_path sha) (CBytes bytes) fs)"

definition promote_upload :: "(str \<Rightarrow> str) \<Rightarrow> str \<Rightarrow> fs \<Rightarrow> (api_error + unit) \<times> fs" where
  "promote_upload hash sha fs =
     (case read_text fs (staged_upload_path sha) of
        None \<Rightarrow> (Inl NotFound, fs)
      | Some bytes \<Rightarrow>
          (case save_cache_jar hash sha bytes fs of
             (Inl e, fs) \<Rightarrow> (Inl e, fs)
           | (Inr _, fs) \<Rightarrow> (Inr (), remove_file_quiet (staged_upload_path sha) fs)))"

definition discard_upload :: "str \<Rightarrow> fs \<Rightarrow> (api_error + unit) \<times> fs" where
  "discard_upload sha fs = (Inr (), remove_file_quiet (staged_upload_path sha) fs)"

section \<open>Serving\<close>

definition get_cache_jar :: "str \<Rightarrow> str \<Rightarrow> fs \<Rightarrow> api_error + content" where
  "get_cache_jar pfx filename fs =
     (case strip_suffix ''.jar'' filename of
        None \<Rightarrow> bad_request ''cache path must end in .jar''
      | Some sha \<Rightarrow>
          if is_sha1_removed sha fs then Inl NotFound
          else case cache_jar_path pfx sha of
            None \<Rightarrow> bad_request ''invalid sha1''
          | Some path \<Rightarrow> (case fs_read fs path of None \<Rightarrow> Inl NotFound | Some c \<Rightarrow> Inr c))"

section \<open>The takedown list is a set of hashes\<close>

lemma split_snoc_sep: "split_on c (s @ [c]) = split_on c s @ [[]]"
proof (induction s)
  case (Cons x s)
  then show ?case by (cases "split_on c s") auto
qed simp

lemma split_append_sep: "c \<notin> set b \<Longrightarrow> split_on c (a @ c # b) = split_on c a @ [b]"
proof (induction a)
  case (Cons x a)
  then show ?case by (cases "split_on c a") auto
qed simp

lemma last_split: "(split_on c s = [[]] \<longleftrightarrow> s = []) \<and> (last (split_on c s) = [] \<longleftrightarrow> s = [] \<or> last s = c)"
proof (induction s)
  case (Cons x s)
  then show ?case by (cases "split_on c s") (auto split: if_splits)
qed simp

lemma ends_with_char: "ends_with s [c] \<longleftrightarrow> s \<noteq> [] \<and> last s = c"
proof (cases s rule: rev_cases)
  case (snoc t d)
  then show ?thesis by (simp add: ends_with_def)
qed (simp add: ends_with_def)

lemma lines_close: "s \<noteq> [] \<Longrightarrow> last s \<noteq> nl \<Longrightarrow> lines_of (s @ [nl]) = lines_of s"
  using last_split [of nl s] by (simp add: lines_of_def split_snoc_sep Let_def)

lemma lines_snoc:
  assumes "s = [] \<or> last s = nl" "nl \<notin> set x"
  shows "lines_of (s @ x @ [nl]) = lines_of s @ [strip_cr x]"
proof (cases "s = []")
  case True
  with assms(2) show ?thesis by (simp add: lines_of_def split_snoc_sep Let_def)
next
  case False
  with assms(1) obtain t where t: "s = t @ [nl]" by (metis append_butlast_last_id)
  have "split_on nl (s @ x @ [nl]) = split_on nl t @ [x, []]"
    using assms(2) split_append_sep [of nl x t] split_snoc_sep [of nl "t @ nl # x"] by (simp add: t)
  then show ?thesis by (simp add: lines_of_def Let_def t split_snoc_sep butlast_append)
qed

lemma hex_line: "good_sha sha \<Longrightarrow> nl \<notin> set sha \<and> strip_cr sha = sha \<and> trim sha = sha \<and> sha \<noteq> []"
proof -
  assume g: "good_sha sha"
  then have h: "sha \<noteq> []" "list_all is_hexdigit sha" by (auto simp: good_sha_def is_hex_def)
  then have "\<not> is_space c \<and> c \<noteq> nl \<and> c \<noteq> CHR 0x0D" if "c \<in> set sha" for c
    using that by (auto simp: list_all_iff is_space_def is_hexdigit_def is_digit_def nl_def)
  with h show ?thesis using last_in_set [of sha] by (auto simp: strip_cr_def)
qed

lemma removed_iff: "sha \<noteq> [] \<Longrightarrow> is_sha1_removed sha fs \<longleftrightarrow> sha \<in> set (list_removed fs)"
  by (auto simp: is_sha1_removed_def list_removed_def list_ex_iff split: option.splits)

lemma read_text_written: "atomic_write p (CBytes s) fs = (Inr u, fs') \<Longrightarrow> read_text fs' p = Some s"
  by (drule atomic_write_ok(3)) (simp add: read_text_def fs_read_def file_at_def)

lemma lines_Nil [simp]: "lines_of [] = []"
  by (simp add: lines_of_def)

lemma recorded:
  assumes "record_removed sha fs = (Inr (), fs')" "good_sha sha"
  shows "set (list_removed fs') = insert sha (set (list_removed fs))"
proof -
  define content where "content = (case read_text fs removed_path of None \<Rightarrow> [] | Some c \<Rightarrow> c)"
  have old: "set (list_removed fs) = {l \<in> trim ` set (lines_of content). l \<noteq> []}"
    by (auto simp: list_removed_def content_def split: option.splits)
  show ?thesis
  proof (cases "list_ex (\<lambda>l. trim l = sha) (lines_of content)")
    case True
    with assms have "fs' = fs" by (simp add: record_removed_def content_def)
    with True hex_line [OF assms(2)] show ?thesis by (auto simp: old list_ex_iff)
  next
    case False
    define c2 where "c2 = (if content \<noteq> [] \<and> \<not> ends_with content [nl] then content @ [nl] else content)"
    from False assms(1) have "atomic_write removed_path (CBytes (c2 @ sha @ [nl])) fs = (Inr (), fs')"
      unfolding record_removed_def Let_def content_def [symmetric] by (simp add: c2_def)
    then have "read_text fs' removed_path = Some (c2 @ sha @ [nl])" by (rule read_text_written)
    moreover have "c2 = [] \<or> last c2 = nl" "lines_of c2 = lines_of content"
      by (auto simp: c2_def ends_with_char lines_close)
    ultimately have "set (list_removed fs') = {l \<in> trim ` set (lines_of content @ [sha]). l \<noteq> []}"
      using hex_line [OF assms(2)] lines_snoc [of c2 sha] by (auto simp: list_removed_def)
    with hex_line [OF assms(2)] show ?thesis by (auto simp: old)
  qed
qed

lemma dropWhile_set: "x \<in> set (dropWhile P xs) \<Longrightarrow> x \<in> set xs"
  by (induction xs) (auto split: if_splits)

lemma trim_no_cr: "strip_cr (trim l) = trim l"
proof (cases "trim l = []")
  case False
  let ?d = "dropWhile is_space (rev (dropWhile is_space l))"
  have "?d \<noteq> []"
  proof
    assume "?d = []"
    with False show False by (simp only: trim_def rev.simps(1) simp_thms)
  qed
  then have "\<not> is_space (hd ?d)" by (rule hd_dropWhile)
  moreover have "last (trim l) = hd ?d" unfolding trim_def by (rule last_rev)
  ultimately have "last (trim l) \<noteq> CHR 0x0D" by (auto simp: is_space_def)
  then show ?thesis by (simp add: strip_cr_def)
qed (simp add: strip_cr_def)

lemma set_trim: "set (trim s) \<subseteq> set s"
  unfolding trim_def set_rev using dropWhile_set by (metis set_rev subsetI)

lemma trim_idem: "trim (trim l) = trim l"
proof -
  have d: "dropWhile P (dropWhile P xs) = dropWhile P xs" for P and xs :: str
    by (induction xs) auto
  let ?a = "dropWhile is_space l"
  have "dropWhile is_space (rev (dropWhile is_space (rev ?a))) = rev (dropWhile is_space (rev ?a))"
  proof (cases "rev (dropWhile is_space (rev ?a)) = []")
    case False
    have "?a \<noteq> []"
    proof
      assume "?a = []"
      with False show False by (simp only: rev.simps(1) dropWhile.simps(1) simp_thms)
    qed
    then have "\<not> is_space (hd ?a)" by (rule hd_dropWhile)
    moreover have "hd (rev (dropWhile is_space (rev ?a))) = hd ?a"
    proof -
      have "prefix (rev (dropWhile is_space (rev ?a))) ?a"
        by (metis rev_rev_ident suffix_dropWhile suffix_to_prefix)
      then obtain zs where "?a = rev (dropWhile is_space (rev ?a)) @ zs" by (rule prefixE)
      then show ?thesis using hd_append2 [OF False, of zs] by metis
    qed
    ultimately show ?thesis using False by (cases "rev (dropWhile is_space (rev ?a))") auto
  next
    case True
    show ?thesis by (simp only: True dropWhile.simps)
  qed
  then show ?thesis by (simp add: trim_def d)
qed

lemma lines_join:
  "\<forall>x \<in> set xs. nl \<notin> set x \<and> x \<noteq> [] \<Longrightarrow> xs \<noteq> [] \<Longrightarrow> lines_of (join [nl] xs @ [nl]) = map strip_cr xs"
proof (induction "[nl]" xs rule: join.induct)
  case (2 x)
  then show ?case using lines_snoc [of "[]" x] by simp
next
  case (3 x y xs)
  have "split_on nl (x @ nl # s) = x # split_on nl s" for s
    using 3(2) by (simp add: split_on_append)
  moreover have "split_on nl (join [nl] (y # xs) @ [nl]) \<noteq> []" by simp
  ultimately have "lines_of (x @ nl # (join [nl] (y # xs) @ [nl])) = strip_cr x # lines_of (join [nl] (y # xs) @ [nl])"
    by (simp add: lines_of_def Let_def)
  with 3 show ?case by simp
qed simp

lemma line_no_nl: "l \<in> set (lines_of s) \<Longrightarrow> nl \<notin> set l"
proof -
  assume "l \<in> set (lines_of s)"
  then obtain m where m: "m \<in> set (split_on nl s)" "l = strip_cr m"
    by (auto simp: lines_of_def Let_def split: if_splits dest: in_set_butlastD)
  with split_any_parts [OF m(1)] show ?thesis
    by (auto simp: strip_cr_def dest: in_set_butlastD split: if_splits)
qed

lemma restored:
  assumes "restore sha fs = (Inr (), fs')"
  shows "set (list_removed fs') = set (list_removed fs) - {sha}"
proof (cases "read_text fs removed_path")
  case None
  with assms show ?thesis by (auto simp: restore_def list_removed_def split: if_splits)
next
  case (Some content)
  let ?xs = "filter (\<lambda>l. l \<noteq> [] \<and> l \<noteq> sha) (map trim (lines_of content))"
  let ?out = "join [nl] ?xs"
  from assms Some have "atomic_write removed_path (CBytes (if ?out \<noteq> [] then ?out @ [nl] else ?out)) fs = (Inr (), fs')"
    by (auto simp: restore_def bad_request_def Let_def split: if_splits)
  then have r: "read_text fs' removed_path = Some (if ?out \<noteq> [] then ?out @ [nl] else ?out)"
    by (rule read_text_written)
  have ok: "\<forall>x \<in> set ?xs. nl \<notin> set x \<and> x \<noteq> []"
    using line_no_nl set_trim by auto
  have same: "map strip_cr ?xs = ?xs" by (rule map_idI) (auto simp: trim_no_cr)
  have "lines_of (if ?out \<noteq> [] then ?out @ [nl] else ?out) = ?xs"
  proof (cases "?xs = []")
    case False
    have "join [nl] zs \<noteq> []" if "zs \<noteq> []" "\<forall>x \<in> set zs. x \<noteq> []" for zs
      using that by (induction "[nl]" zs rule: join.induct) auto
    with False ok have "?out \<noteq> []" by blast
    with lines_join [OF ok False] same show ?thesis by simp
  next
    case True
    show ?thesis unfolding True by simp
  qed
  with r have "list_removed fs' = filter (\<lambda>l. l \<noteq> []) (map trim ?xs)" by (simp add: list_removed_def)
  moreover have "map trim ?xs = ?xs" by (rule map_idI) (auto simp: trim_idem)
  ultimately have "list_removed fs' = filter (\<lambda>l. l \<noteq> []) ?xs" by simp
  with Some show ?thesis by (auto simp: list_removed_def)
qed

text \<open>A takedown adds its hash to the list and takes the jar off the disk; lifting it removes the hash
  and nothing else; whatever else happens, the list is the set it denotes.\<close>

lemma removed_list_good:
  "good_sha sha \<Longrightarrow> is_sha1_removed sha fs \<longleftrightarrow> sha \<in> set (list_removed fs)"
  using hex_line removed_iff by blast

lemma cache_path_in: "cache_jar_path_in sha = (if good_sha sha then Some (cache_path sha) else None)"
  using cache_path_eq [of sha] by (auto simp: good_sha_def cache_jar_path_in_def cache_path_def)

lemma cache_path_inject [simp]: "cache_path a = cache_path b \<longleftrightarrow> a = b"
  by (auto simp: cache_path_def)

lemma cache_path_other [simp]:
  "cache_path a \<noteq> removed_path" "removed_path \<noteq> cache_path a"
  "cache_path a \<noteq> ''icons'' # xs" "removed_path \<noteq> ''icons'' # xs" "''icons'' # xs \<noteq> cache_path a" "''icons'' # xs \<noteq> removed_path"
  by (auto simp: cache_path_def removed_path_def)

lemma staged_path: "good_sha sha \<Longrightarrow> staged_upload_path sha = [''uploads'', sha @ ''.jar'']"
proof -
  assume "good_sha sha"
  then have s: "CHR ''/'' \<notin> set (sha @ ''.jar'')" "sha @ ''.jar'' \<noteq> []" "sha @ ''.jar'' \<noteq> ''.''"
    using hex_segment [of sha] by (auto simp: good_sha_def is_hex_def)
  then have "\<not> starts_with (sha @ ''.jar'') ''/''" by (cases sha) (auto simp: starts_with_def)
  with components_segment [OF s] show ?thesis by (simp add: staged_upload_path_def join_path_def)
qed

section \<open>The cache holds what its names say, and nothing taken down\<close>

definition links_in_packs :: "fs \<Rightarrow> bool" where
  "links_in_packs fs \<longleftrightarrow> (\<forall>q t. (q, t) \<in> links fs \<longrightarrow> (\<exists>xs. q = ''packs'' # xs))"

definition cache_sound :: "(str \<Rightarrow> str) \<Rightarrow> fs \<Rightarrow> bool" where
  "cache_sound hash fs \<longleftrightarrow> links_in_packs fs \<and>
     (\<forall>sha c. good_sha sha \<longrightarrow> file_at fs (cache_path sha) = Some c \<longrightarrow>
        (\<exists>bytes. c = CBytes bytes \<and> hash bytes = sha) \<and> \<not> is_sha1_removed sha fs)"

text \<open>What can happen to the cache, one request after another. The ingest path is given jars with
  their hash.\<close>

inductive cache_step :: "(str \<Rightarrow> str) \<Rightarrow> fs \<Rightarrow> fs \<Rightarrow> bool" for hash where
  cs_upload: "save_cache_jar hash sha bytes fs = (r, fs') \<Longrightarrow> cache_step hash fs fs'"
| cs_ingest: "hash bytes = sha \<Longrightarrow> write_to_cache sha bytes fs = (w, fs') \<Longrightarrow> cache_step hash fs fs'"
| cs_delete: "delete_cache_jar sha fs = (r, fs') \<Longrightarrow> cache_step hash fs fs'"
| cs_takedown: "takedown sha fs = (r, fs') \<Longrightarrow> cache_step hash fs fs'"
| cs_restore: "restore sha fs = (r, fs') \<Longrightarrow> cache_step hash fs fs'"
| cs_stage: "stage_upload hash sha bytes fs = (r, fs') \<Longrightarrow> cache_step hash fs fs'"
| cs_promote: "good_sha sha \<Longrightarrow> promote_upload hash sha fs = (r, fs') \<Longrightarrow> cache_step hash fs fs'"
| cs_discard: "good_sha sha \<Longrightarrow> discard_upload sha fs = (r, fs') \<Longrightarrow> cache_step hash fs fs'"
| cs_icon: "cache_step hash fs (store_icon sha icon fs)"
| cs_forget: "cache_step hash fs (forget_icon sha fs)"

text \<open>Two disks with the same jars and the same list.\<close>

definition same_cache :: "fs \<Rightarrow> fs \<Rightarrow> bool" where
  "same_cache fs fs' \<longleftrightarrow> links fs' \<subseteq> links fs \<and> file_at fs' removed_path = file_at fs removed_path \<and>
     (\<forall>sha. file_at fs' (cache_path sha) = file_at fs (cache_path sha))"

lemma same_cache_refl [simp]: "same_cache fs fs"
  by (simp add: same_cache_def)

lemma same_cache_trans: "same_cache a b \<Longrightarrow> same_cache b c \<Longrightarrow> same_cache a c"
  by (auto simp: same_cache_def)

lemma links_in_packs_mono: "links fs' \<subseteq> links fs \<Longrightarrow> links_in_packs fs \<Longrightarrow> links_in_packs fs'"
  by (auto simp: links_in_packs_def)

lemma no_link_read: "links_in_packs fs \<Longrightarrow> (\<And>xs. q \<noteq> ''packs'' # xs) \<Longrightarrow> fs_read fs q = file_at fs q"
  by (auto simp: links_in_packs_def links_def fs_read_def split: option.splits node.splits)

lemma removed_read: "links_in_packs fs \<Longrightarrow> fs_read fs removed_path = file_at fs removed_path"
  by (rule no_link_read) (simp_all add: removed_path_def)

lemma cache_read: "links_in_packs fs \<Longrightarrow> fs_read fs (cache_path sha) = file_at fs (cache_path sha)"
  by (rule no_link_read) (simp_all add: cache_path_def)

lemma same_cache_list: "same_cache fs fs' \<Longrightarrow> links_in_packs fs \<Longrightarrow> list_removed fs' = list_removed fs"
  using links_in_packs_mono [of fs' fs] by (simp add: same_cache_def list_removed_def read_text_def removed_read)

lemma same_cache_sound: "same_cache fs fs' \<Longrightarrow> cache_sound hash fs \<Longrightarrow> cache_sound hash fs'"
  using same_cache_list [of fs fs'] links_in_packs_mono [of fs' fs]
  by (auto simp: cache_sound_def same_cache_def removed_list_good)

lemma same_cache_write:
  "(\<And>sha. cache_path sha \<noteq> p) \<Longrightarrow> removed_path \<noteq> p \<Longrightarrow> same_cache fs (snd (atomic_write p c fs))"
  using links_write_snd [of p c fs] by (simp add: same_cache_def)

lemma same_cache_remove:
  "(\<And>sha. cache_path sha \<noteq> p) \<Longrightarrow> removed_path \<noteq> p \<Longrightarrow> same_cache fs (remove_file_quiet p fs)"
  using links_remove_quiet [of p fs] by (auto simp: same_cache_def remove_file_quiet_file)

lemma same_cache_mkdir: "create_dir_all p fs = (r, fs') \<Longrightarrow> same_cache fs fs'"
  using links_mkdir [of p fs r fs']
  by (auto simp: same_cache_def create_dir_all_def mkdirs_files split: option.splits)

lemma icon_dir_Some: "icon_dir sha = Some d \<Longrightarrow> \<exists>x. d = [''icons'', x]"
  by (auto simp: icon_dir_def split: if_splits)

lemma same_cache_forget: "same_cache fs (forget_icon sha fs)"
proof (cases "icon_dir sha")
  case (Some d)
  then obtain x where d: "d = [''icons'', x]" using icon_dir_Some by blast
  have r: "same_cache fs (remove_file_quiet (d @ [y]) fs)" for y fs
    by (rule same_cache_remove) (simp_all add: d)
  have "same_cache fs (foldl (\<lambda>fs (ext, _). remove_file_quiet (d @ [sha @ ''.'' @ ext]) fs) fs ks)" for ks :: "(str \<times> str) list" and fs
    by (induction ks arbitrary: fs) (auto intro: same_cache_trans [OF r])
  from same_cache_trans [OF this r] Some show ?thesis by (simp add: forget_icon_def)
qed (simp add: forget_icon_def)

lemma same_cache_store: "same_cache fs (store_icon sha icon fs)"
proof (cases "icon_dir sha")
  case (Some d)
  then obtain x where d: "d = [''icons'', x]" using icon_dir_Some by blast
  have w: "same_cache fs (snd (atomic_write (d @ [y]) c fs))" for y c fs
    by (rule same_cache_write) (simp_all add: d)
  from Some show ?thesis
    by (auto simp: store_icon_def Let_def split: prod.splits sum.splits
        dest!: same_cache_mkdir intro: same_cache_trans [OF _ w])
qed (simp add: store_icon_def)

lemma jar_written:
  assumes "cache_sound hash fs" "hash bytes = sha" "\<not> is_sha1_removed sha fs" "good_sha sha"
  shows "cache_sound hash (snd (atomic_write (cache_path sha) (CBytes bytes) fs))"
proof -
  obtain r fs' where w: "atomic_write (cache_path sha) (CBytes bytes) fs = (r, fs')" by fastforce
  have l: "links_in_packs fs" "links_in_packs fs'"
    using assms(1) links_in_packs_mono [OF links_write [OF w]] by (simp_all add: cache_sound_def)
  have "file_at fs' removed_path = file_at fs removed_path"
    using w atomic_write_other [of removed_path "cache_path sha" "CBytes bytes" fs] by simp
  then have same: "list_removed fs' = list_removed fs"
    using l by (simp add: list_removed_def read_text_def removed_read)
  have "file_at fs' (cache_path s) = (if r = Inr () \<and> s = sha then Some (CBytes bytes) else file_at fs (cache_path s))" for s
    using atomic_write_ok(1) [of "cache_path sha" "CBytes bytes" fs "()" fs' "cache_path s"] w
      atomic_write_err [of "cache_path sha" "CBytes bytes" fs _ fs' "cache_path s"] by (cases r) auto
  with assms l show ?thesis
    by (auto simp: w cache_sound_def removed_list_good same split: if_splits)
qed

lemma list_changed:
  assumes "cache_sound hash fs" "atomic_write removed_path c fs = (r, fs')"
    and "\<And>s. good_sha s \<Longrightarrow> is_sha1_removed s fs' \<Longrightarrow> is_sha1_removed s fs \<or> file_at fs (cache_path s) = None"
  shows "cache_sound hash fs'"
proof -
  have "links_in_packs fs'"
    using assms(1) links_in_packs_mono [OF links_write [OF assms(2)]] by (simp add: cache_sound_def)
  moreover have "file_at fs' (cache_path s) = file_at fs (cache_path s)" for s
    using assms(2) atomic_write_other [of "cache_path s" removed_path c fs] by simp
  ultimately show ?thesis using assms(1,3) by (fastforce simp: cache_sound_def)
qed

lemma record_cases:
  "record_removed sha fs = (r, fs') \<Longrightarrow> fs' = fs \<or> (\<exists>c. atomic_write removed_path c fs = (r, fs'))"
  by (auto simp: record_removed_def Let_def split: if_splits)

lemma takedown_sound:
  assumes "cache_sound hash fs" "takedown sha fs = (r, fs')"
  shows "cache_sound hash fs'"
proof (cases "good_sha sha")
  case True
  define fs1 where "fs1 = forget_icon sha (remove_file_quiet (cache_path sha) fs)"
  have l: "links_in_packs fs" using assms(1) by (simp add: cache_sound_def)
  have "file_at (remove_file_quiet (cache_path sha) fs) q = (if q = cache_path sha then None else file_at fs q)" for q
    by (simp add: remove_file_quiet_file)
  moreover have sc: "same_cache (remove_file_quiet (cache_path sha) fs) fs1"
    unfolding fs1_def by (rule same_cache_forget)
  ultimately have f: "file_at fs1 (cache_path s) = (if s = sha then None else file_at fs (cache_path s))"
      "file_at fs1 removed_path = file_at fs removed_path" for s
    by (simp_all add: same_cache_def)
  have l1: "links_in_packs fs1"
    using links_in_packs_mono [OF links_remove_quiet l] links_in_packs_mono sc by (auto simp: same_cache_def)
  have list1: "list_removed fs1 = list_removed fs"
    using l l1 f(2) by (simp add: list_removed_def read_text_def removed_read)
  have s1: "cache_sound hash fs1"
    using assms(1) f(1) l1 list1 by (auto simp: cache_sound_def removed_list_good split: if_splits)
  from assms(2) True have rec: "record_removed sha fs1 = (r, fs')"
    by (simp add: takedown_def cache_path_in fs1_def Let_def)
  show ?thesis
  proof (cases r)
    case (Inr u)
    have list2: "set (list_removed fs') = insert sha (set (list_removed fs1))"
      using recorded [of sha fs1 fs'] rec Inr True by simp
    from record_cases [OF rec] consider "fs' = fs1" | c where "atomic_write removed_path c fs1 = (r, fs')"
      by blast
    then show ?thesis
    proof cases
      case 2
      show ?thesis
        by (rule list_changed [OF s1 2]) (use list2 f(1) in \<open>auto simp: removed_list_good\<close>)
    qed (simp add: s1)
  next
    case (Inl e)
    with rec obtain c where w: "atomic_write removed_path c fs1 = (Inl e, fs')"
      by (auto simp: record_removed_def Let_def split: if_splits)
    have "same_cache fs1 fs'"
      using links_write [OF w] atomic_write_err [OF w] by (simp add: same_cache_def)
    then show ?thesis using s1 by (rule same_cache_sound)
  qed
qed (use assms in \<open>auto simp: takedown_def\<close>)

lemma restore_sound:
  assumes "cache_sound hash fs" "restore sha fs = (r, fs')"
  shows "cache_sound hash fs'"
proof (cases "read_text fs removed_path = None \<or> \<not> good_sha sha")
  case False
  then obtain c where w: "atomic_write removed_path c fs = (r, fs')"
    using assms(2) by (auto simp: restore_def Let_def)
  show ?thesis
  proof (cases r)
    case (Inr u)
    then show ?thesis
      using restored [of sha fs fs'] assms(2)
      by (intro list_changed [OF assms(1) w]) (auto simp: removed_list_good)
  next
    case (Inl e)
    have "same_cache fs fs'"
      using links_write [OF w] atomic_write_err [OF w [unfolded Inl]] by (simp add: same_cache_def)
    then show ?thesis using assms(1) by (rule same_cache_sound)
  qed
qed (use assms in \<open>auto simp: restore_def split: if_splits\<close>)

lemma upload_sound:
  assumes "cache_sound hash fs" "save_cache_jar hash sha bytes fs = (r, fs')"
  shows "cache_sound hash fs'"
  using assms jar_written [OF assms(1), of bytes sha]
  by (auto simp: save_cache_jar_def cache_path_in split: if_splits)

lemma delete_sound:
  assumes "cache_sound hash fs" "delete_cache_jar sha fs = (r, fs')"
  shows "cache_sound hash fs'"
proof (cases "good_sha sha \<and> remove_file (cache_path sha) fs \<noteq> None")
  case True
  then have rm: "remove_file (cache_path sha) fs = Some fs'"
    using assms(2) by (auto simp: delete_cache_jar_def cache_path_in)
  have f: "file_at fs' q = (if q = cache_path sha then None else file_at fs q)" for q
    by (rule remove_file_file [OF rm])
  have l: "links_in_packs fs" "links_in_packs fs'"
    using assms(1) links_in_packs_mono [OF links_remove [OF rm]] by (simp_all add: cache_sound_def)
  then have "list_removed fs' = list_removed fs"
    by (simp add: list_removed_def read_text_def removed_read f)
  with assms(1) f l show ?thesis by (auto simp: cache_sound_def removed_list_good split: if_splits)
qed (use assms in \<open>auto simp: delete_cache_jar_def cache_path_in split: if_splits option.splits\<close>)

lemma staged_same: "good_sha sha \<Longrightarrow> same_cache fs (remove_file_quiet (staged_upload_path sha) fs)"
  by (rule same_cache_remove) (simp_all add: staged_path cache_path_def removed_path_def)

lemma cache_step_sound: "cache_step hash fs fs' \<Longrightarrow> cache_sound hash fs \<Longrightarrow> cache_sound hash fs'"
proof (induction rule: cache_step.induct)
  case (cs_ingest bytes sha fs w fs')
  then show ?case
    using jar_written [OF cs_ingest.prems, of bytes sha]
    by (auto simp: write_to_cache_def cache_path_in split: if_splits prod.splits sum.splits)
next
  case (cs_stage sha bytes fs r fs')
  then have "same_cache fs fs'"
    using same_cache_write [of "staged_upload_path sha" fs "CBytes bytes"]
    by (auto simp: stage_upload_def staged_path cache_path_def removed_path_def split: if_splits)
  then show ?case using cs_stage.prems by (rule same_cache_sound)
next
  case (cs_promote sha fs r fs')
  show ?case
  proof (cases "read_text fs (staged_upload_path sha)")
    case (Some bytes)
    obtain r1 fs1 where s: "save_cache_jar hash sha bytes fs = (r1, fs1)" by fastforce
    have "cache_sound hash fs1" by (rule upload_sound [OF cs_promote.prems s])
    with Some s cs_promote.hyps same_cache_sound [OF staged_same [OF cs_promote.hyps(1), of fs1]] show ?thesis
      by (cases r1) (auto simp: promote_upload_def)
  qed (use cs_promote in \<open>simp add: promote_upload_def\<close>)
next
  case (cs_discard sha fs r fs')
  with same_cache_sound [OF staged_same [OF cs_discard.hyps(1), of fs]] show ?case
    by (simp add: discard_upload_def)
qed (blast intro: upload_sound delete_sound takedown_sound restore_sound same_cache_sound
    same_cache_store same_cache_forget)+

inductive cache_reachable :: "(str \<Rightarrow> str) \<Rightarrow> fs \<Rightarrow> bool" for hash where
  cr_empty: "cache_reachable hash []"
| cr_step: "cache_reachable hash fs \<Longrightarrow> cache_step hash fs fs' \<Longrightarrow> cache_reachable hash fs'"

lemma empty_sound: "cache_sound hash []"
  by (simp add: cache_sound_def links_in_packs_def links_def file_at_def)

lemma reachable_sound: "cache_reachable hash fs \<Longrightarrow> cache_sound hash fs"
  by (induction rule: cache_reachable.induct) (auto intro: empty_sound cache_step_sound)

text \<open>C9: After any sequence of uploads, ingests, deletions, takedowns, restores, moderation decisions and
  icon writes, a jar the mirror serves hashes to the name it is served under and is not taken down;
  a jar that is taken down is not on the disk.\<close>

theorem served_jar_is_what_it_says:
  assumes "cache_reachable hash fs" "get_cache_jar pfx (sha @ ''.jar'') fs = Inr c"
  shows "(\<exists>bytes. c = CBytes bytes \<and> hash bytes = sha) \<and> sha \<notin> set (list_removed fs) \<and> pfx = take 2 sha"
proof -
  note sound = reachable_sound [OF assms(1)]
  have "strip_suffix ''.jar'' (sha @ ''.jar'') = Some sha" by (simp add: strip_suffix_def ends_with_def)
  with assms(2) obtain path where p: "\<not> is_sha1_removed sha fs" "cache_jar_path pfx sha = Some path" "fs_read fs path = Some c"
    by (auto simp: get_cache_jar_def bad_request_def split: if_splits option.splits)
  then have g: "good_sha sha" "path = cache_path sha" "starts_with sha pfx" "length pfx = 2"
    by (auto simp: cache_jar_path_def cache_path_in split: if_splits)
  then have "file_at fs (cache_path sha) = Some c"
    using p(3) cache_read [of fs sha] sound by (simp add: cache_sound_def)
  moreover have "pfx = take 2 sha" using g(3,4) by (simp add: starts_with_def)
  ultimately show ?thesis
    using sound g(1) p(1) removed_list_good [OF g(1)] unfolding cache_sound_def by blast
qed

lemma takedown_parts:
  assumes "takedown sha fs = (r, fs')" "good_sha sha" "links_in_packs fs"
  obtains fs1 where "record_removed sha fs1 = (r, fs')" "list_removed fs1 = list_removed fs" "links_in_packs fs1"
    "file_at fs1 (cache_path sha) = None"
proof -
  let ?fs0 = "remove_file_quiet (cache_path sha) fs"
  have sc: "same_cache ?fs0 (forget_icon sha ?fs0)" by (rule same_cache_forget)
  have l0: "links_in_packs ?fs0" by (rule links_in_packs_mono [OF links_remove_quiet assms(3)])
  have "list_removed ?fs0 = list_removed fs"
    using l0 assms(3) by (simp add: list_removed_def read_text_def removed_read remove_file_quiet_file)
  moreover have "links_in_packs (forget_icon sha ?fs0)"
    using sc l0 links_in_packs_mono by (auto simp: same_cache_def)
  moreover have "file_at (forget_icon sha ?fs0) (cache_path sha) = None"
    using sc by (simp add: same_cache_def remove_file_quiet_file)
  ultimately show ?thesis
    using that [of "forget_icon sha ?fs0"] assms(1,2) same_cache_list [OF sc l0]
    by (simp add: takedown_def cache_path_in Let_def)
qed

text \<open>The text file of takedowns refines a set of hashes: taking a jar down inserts its hash and the
  jar is gone, lifting it removes the hash, and asking is membership.\<close>

theorem takedown_list_refines_set:
  assumes "cache_reachable hash fs" "good_sha sha"
  shows "(takedown sha fs = (Inr (), fs1) \<longrightarrow>
      set (list_removed fs1) = insert sha (set (list_removed fs)) \<and> file_at fs1 (cache_path sha) = None) \<and>
    (restore sha fs = (Inr (), fs2) \<longrightarrow> set (list_removed fs2) = set (list_removed fs) - {sha}) \<and>
    (is_sha1_removed sha fs \<longleftrightarrow> sha \<in> set (list_removed fs))"
proof (intro conjI impI)
  have l: "links_in_packs fs" using reachable_sound [OF assms(1)] by (simp add: cache_sound_def)
  assume t: "takedown sha fs = (Inr (), fs1)"
  obtain fs0 where fs0: "record_removed sha fs0 = (Inr (), fs1)" "list_removed fs0 = list_removed fs"
      "links_in_packs fs0" "file_at fs0 (cache_path sha) = None"
    using takedown_parts [OF t assms(2) l] .
  show "set (list_removed fs1) = insert sha (set (list_removed fs))"
    using recorded [OF fs0(1) assms(2)] fs0(2) by simp
  from record_cases [OF fs0(1)] have "file_at fs1 (cache_path sha) = file_at fs0 (cache_path sha)"
    using atomic_write_ok(1) [of removed_path _ fs0 "()" fs1 "cache_path sha"] by auto
  with fs0(4) show "file_at fs1 (cache_path sha) = None" by simp
next
  assume "restore sha fs = (Inr (), fs2)"
  then show "set (list_removed fs2) = set (list_removed fs) - {sha}" by (rule restored)
next
  show "is_sha1_removed sha fs \<longleftrightarrow> sha \<in> set (list_removed fs)" by (rule removed_list_good [OF assms(2)])
qed

section \<open>The inventory, a page at a time\<close>

record inventory_entry =
  iv_sha1 :: str
  iv_size_bytes :: nat

text \<open>The jars of one shard after the cursor, in order; \<open>sz\<close> is what \<open>metadata().len()\<close> answers.\<close>

definition jar_sha :: "str \<Rightarrow> str option" where
  "jar_sha name =
     (case strip_suffix ''.jar'' name of
        Some sha \<Rightarrow> if is_hex sha \<and> length sha = 40 then Some sha else None
      | None \<Rightarrow> None)"

definition shard_jars :: "(node \<Rightarrow> nat) \<Rightarrow> str option \<Rightarrow> (str \<times> node) list \<Rightarrow> inventory_entry list" where
  "shard_jars sz after jars =
     sort_key iv_sha1 (List.map_filter (\<lambda>(name, n).
       case jar_sha name of
         Some sha \<Rightarrow>
           if (case after of None \<Rightarrow> True | Some cursor \<Rightarrow> cursor < sha)
           then Some \<lparr>iv_sha1 = sha, iv_size_bytes = sz n\<rparr> else None
       | None \<Rightarrow> None) jars)"

fun inventory_walk ::
  "(node \<Rightarrow> nat) \<Rightarrow> fs \<Rightarrow> str option \<Rightarrow> nat option \<Rightarrow> str list \<Rightarrow> inventory_entry list \<Rightarrow>
     api_error + inventory_entry list" where
  "inventory_walk sz fs after limit [] out = Inr out"
| "inventory_walk sz fs after limit (d # ds) out =
     (if (case after of None \<Rightarrow> False | Some cursor \<Rightarrow> d < take 2 cursor)
      then inventory_walk sz fs after limit ds out
      else case read_dir fs [''cache'', d] of
        None \<Rightarrow> Inl (Internal ''io'')
      | Some jars \<Rightarrow>
          let out = out @ shard_jars sz after jars in
          case limit of
            Some n \<Rightarrow> if n \<le> length out then Inr (take n out) else inventory_walk sz fs after limit ds out
          | None \<Rightarrow> inventory_walk sz fs after limit ds out)"

definition cache_inventory_after ::
  "(node \<Rightarrow> nat) \<Rightarrow> str option \<Rightarrow> nat option \<Rightarrow> fs \<Rightarrow> api_error + inventory_entry list" where
  "cache_inventory_after sz after limit fs =
     (case read_dir fs [''cache''] of
        None \<Rightarrow> Inr []
      | Some entries \<Rightarrow>
          inventory_walk sz fs after limit (sort (map fst (filter (\<lambda>(_, n). n = Dir) entries))) [])"

definition list_cache_inventory :: "(node \<Rightarrow> nat) \<Rightarrow> fs \<Rightarrow> api_error + inventory_entry list" where
  "list_cache_inventory sz fs = cache_inventory_after sz None None fs"

text \<open>A cache in which every jar is in its shard.\<close>

definition sharded :: "fs \<Rightarrow> bool" where
  "sharded fs \<longleftrightarrow> (\<forall>d name n sha. map_of fs [''cache'', d, name] = Some n \<longrightarrow> jar_sha name = Some sha \<longrightarrow> d = take 2 sha)"

definition past :: "str option \<Rightarrow> inventory_entry \<Rightarrow> bool" where
  "past after e \<longleftrightarrow> (case after of None \<Rightarrow> True | Some cursor \<Rightarrow> cursor < iv_sha1 e)"

lemma shard_jars_filter: "shard_jars sz after jars = filter (past after) (shard_jars sz None jars)"
proof -
  have "List.map_filter (\<lambda>(name, n). case jar_sha name of
         Some sha \<Rightarrow>
           if (case after of None \<Rightarrow> True | Some cursor \<Rightarrow> cursor < sha)
           then Some \<lparr>iv_sha1 = sha, iv_size_bytes = sz n\<rparr> else None
       | None \<Rightarrow> None) jars =
    filter (past after) (List.map_filter (\<lambda>(name, n). case jar_sha name of
         Some sha \<Rightarrow> Some \<lparr>iv_sha1 = sha, iv_size_bytes = sz n\<rparr> | None \<Rightarrow> None) jars)"
    by (induction jars) (auto simp: List.map_filter_def past_def split: option.splits)
  moreover have "(\<lambda>(name, n). case jar_sha name of None \<Rightarrow> None | Some sha \<Rightarrow>
         if (case None of None \<Rightarrow> True | Some cursor \<Rightarrow> cursor < sha)
         then Some \<lparr>iv_sha1 = sha, iv_size_bytes = sz n\<rparr> else None) =
    (\<lambda>(name, n). case jar_sha name of Some sha \<Rightarrow> Some \<lparr>iv_sha1 = sha, iv_size_bytes = sz n\<rparr> | None \<Rightarrow> None)"
    by (auto simp: fun_eq_iff split: option.splits)
  ultimately show ?thesis by (simp add: shard_jars_def filter_sort)
qed

lemma shard_less: "d = take 2 sha \<Longrightarrow> length sha = 40 \<Longrightarrow> d < take 2 cursor \<Longrightarrow> sha < (cursor :: str)"
proof -
  assume d: "d = take 2 sha" "length sha = 40" "d < take 2 cursor"
  then have "(take 2 sha, take 2 cursor) \<in> lexord {(u, v). u < v}" by (simp add: list_less_def)
  then have "(take 2 sha @ drop 2 sha, take 2 cursor @ drop 2 cursor) \<in> lexord {(u, v). u < v}"
    by (rule lexord_sufI) (use d(2) in simp)
  then show ?thesis by (simp add: list_less_def)
qed

text \<open>The whole inventory, as one list.\<close>

definition shard_dirs :: "fs \<Rightarrow> str list" where
  "shard_dirs fs = (case read_dir fs [''cache''] of None \<Rightarrow> []
     | Some entries \<Rightarrow> sort (map fst (filter (\<lambda>(_, n). n = Dir) entries)))"

definition shard_of :: "(node \<Rightarrow> nat) \<Rightarrow> fs \<Rightarrow> str option \<Rightarrow> str \<Rightarrow> inventory_entry list" where
  "shard_of sz fs after d = (case read_dir fs [''cache'', d] of None \<Rightarrow> [] | Some jars \<Rightarrow> shard_jars sz after jars)"

definition inventory :: "(node \<Rightarrow> nat) \<Rightarrow> fs \<Rightarrow> inventory_entry list" where
  "inventory sz fs = concat (map (shard_of sz fs None) (shard_dirs fs))"

lemma cache_inventory_walk:
  "cache_inventory_after sz after limit fs = inventory_walk sz fs after limit (shard_dirs fs) []"
  by (simp add: cache_inventory_after_def shard_dirs_def split: option.splits)

lemma in_shard_dirs:
  assumes "fs_ok fs"
  shows "d \<in> set (shard_dirs fs) \<longleftrightarrow> map_of fs [''cache'', d] = Some Dir"
proof -
  have "(d, Dir) \<in> set (case read_dir fs [''cache''] of None \<Rightarrow> [] | Some es \<Rightarrow> es) \<longleftrightarrow> map_of fs ([''cache''] @ [d]) = Some Dir"
    by (rule in_read_dir [OF assms]) simp
  then show ?thesis by (auto simp: shard_dirs_def image_iff split: option.splits)
qed

lemma shard_of_filter: "shard_of sz fs after d = filter (past after) (shard_of sz fs None d)"
  by (simp add: shard_of_def shard_jars_filter [of _ after] split: option.splits)

lemma in_shard:
  assumes "fs_ok fs" "e \<in> set (shard_of sz fs None d)"
  shows "\<exists>name n. map_of fs [''cache'', d, name] = Some n \<and> jar_sha name = Some (iv_sha1 e)"
proof -
  obtain jars where jars: "read_dir fs [''cache'', d] = Some jars" "e \<in> set (shard_jars sz None jars)"
    using assms(2) by (cases "read_dir fs [''cache'', d]") (auto simp: shard_of_def)
  then obtain name n where "(name, n) \<in> set jars" "jar_sha name = Some (iv_sha1 e)"
    by (auto simp: shard_jars_def List.map_filter_def split: option.splits)
  moreover from this have "map_of fs ([''cache'', d] @ [name]) = Some n"
    using in_read_dir [OF assms(1), of "[''cache'', d]" name n] jars by simp
  ultimately show ?thesis by auto
qed

lemma jar_sha_length: "jar_sha name = Some sha \<Longrightarrow> length sha = 40"
  by (auto simp: jar_sha_def split: option.splits if_splits)

lemma skipped_shard:
  assumes "fs_ok fs" "sharded fs" "d < take 2 cursor"
  shows "filter (past (Some cursor)) (shard_of sz fs None d) = []"
proof -
  have "\<not> past (Some cursor) e" if e: "e \<in> set (shard_of sz fs None d)" for e
  proof -
    obtain name n where n: "map_of fs [''cache'', d, name] = Some n" "jar_sha name = Some (iv_sha1 e)"
      using in_shard [OF assms(1) e] by blast
    with assms(2) have "d = take 2 (iv_sha1 e)" by (auto simp: sharded_def)
    from shard_less [OF this jar_sha_length [OF n(2)] assms(3)] show ?thesis by (simp add: past_def)
  qed
  then show ?thesis by (simp add: filter_empty_conv)
qed

lemma inventory_walk_slice:
  assumes "fs_ok fs" "sharded fs"
  shows "\<forall>d \<in> set ds. map_of fs [''cache'', d] = Some Dir \<Longrightarrow>
    (case limit of None \<Rightarrow> True | Some n \<Rightarrow> length out < n \<or> out = []) \<Longrightarrow>
    inventory_walk sz fs after limit ds out =
      Inr ((case limit of None \<Rightarrow> (\<lambda>xs. xs) | Some n \<Rightarrow> take n)
        (out @ filter (past after) (concat (map (shard_of sz fs None) ds))))"
proof (induction ds arbitrary: out)
  case Nil
  then show ?case by (auto split: option.splits)
next
  case (Cons d ds)
  from Cons.prems(1) obtain jars where jars: "read_dir fs [''cache'', d] = Some jars" by (auto simp: read_dir_def)
  have here: "shard_jars sz after jars = filter (past after) (shard_of sz fs None d)"
    using shard_of_filter [of sz fs after d] jars by (simp add: shard_of_def)
  show ?case
  proof (cases "case after of None \<Rightarrow> False | Some cursor \<Rightarrow> d < take 2 cursor")
    case True
    then obtain cursor where "after = Some cursor" "d < take 2 cursor" by (auto split: option.splits)
    with skipped_shard [OF assms, of d cursor sz] Cons True show ?thesis by simp
  next
    case False
    let ?out = "out @ filter (past after) (shard_of sz fs None d)"
    show ?thesis
    proof (cases limit)
      case None
      with Cons.IH [of ?out] Cons.prems False jars here show ?thesis by simp
    next
      case (Some n)
      with Cons.IH [of ?out] Cons.prems False jars here show ?thesis by (auto simp: not_le Let_def)
    qed
  qed
qed

text \<open>A page of the inventory is the slice of the whole inventory it names: the jars after the cursor,
  as many as asked for. Whole shards before the cursor are skipped without losing a jar.\<close>

theorem inventory_page_is_slice:
  assumes "fs_ok fs" "sharded fs"
  shows "list_cache_inventory sz fs = Inr (inventory sz fs) \<and>
    cache_inventory_after sz after (Some n) fs = Inr (take n (filter (past after) (inventory sz fs)))"
proof -
  have "\<forall>d \<in> set (shard_dirs fs). map_of fs [''cache'', d] = Some Dir"
    by (simp add: in_shard_dirs [OF assms(1)])
  from inventory_walk_slice [OF assms this, where limit = "Some n" and out = "[]" and after = after]
    inventory_walk_slice [OF assms this, where limit = None and out = "[]" and after = None]
  show ?thesis
    by (simp add: list_cache_inventory_def cache_inventory_walk inventory_def past_def)
qed

section \<open>The inventory is in order\<close>

lemma strip_suffix_Some: "strip_suffix p s = Some r \<Longrightarrow> s = r @ p"
  unfolding strip_suffix_def ends_with_def by (metis append_take_drop_id option.distinct(1) option.inject)

lemma jar_sha_name: "jar_sha a = Some s \<Longrightarrow> a = s @ ''.jar'' \<and> length s = 40"
  by (auto simp: jar_sha_def split: option.splits if_splits dest!: strip_suffix_Some)

lemma jar_sha_inject: "jar_sha a = Some s \<Longrightarrow> jar_sha b = Some s \<Longrightarrow> a = b"
  by (auto dest!: jar_sha_name)

lemma shard_jars_sorted:
  assumes "distinct (map fst jars)"
  shows "sorted_wrt (<) (map iv_sha1 (shard_jars sz None jars))"
proof -
  let ?f = "\<lambda>(name, n). case jar_sha name of Some sha \<Rightarrow> Some \<lparr>iv_sha1 = sha, iv_size_bytes = sz n\<rparr> | None \<Rightarrow> None"
  have sub: "iv_sha1 ` set (List.map_filter ?f js) = {s. \<exists>name \<in> fst ` set js. jar_sha name = Some s}" for js :: "(str \<times> node) list"
    by (induction js) (auto simp: List.map_filter_def split: option.splits)
  have "distinct (map iv_sha1 (List.map_filter ?f jars))" using assms
  proof (induction jars)
    case (Cons j js)
    show ?case
    proof (cases "jar_sha (fst j)")
      case None
      with Cons show ?thesis by (auto simp: List.map_filter_def split_def)
    next
      case (Some s)
      have "s \<notin> iv_sha1 ` set (List.map_filter ?f js)"
      proof
        assume "s \<in> iv_sha1 ` set (List.map_filter ?f js)"
        then obtain name where "name \<in> fst ` set js" "jar_sha name = Some s" unfolding sub by blast
        with jar_sha_inject [OF Some this(2)] Cons.prems show False by simp
      qed
      with Some Cons show ?thesis by (simp add: List.map_filter_simps split_def)
    qed
  qed (simp add: List.map_filter_simps)
  moreover have "shard_jars sz None jars = sort_key iv_sha1 (List.map_filter ?f jars)"
  proof -
    have "(\<lambda>(name, n). case jar_sha name of None \<Rightarrow> None | Some sha \<Rightarrow>
         if (case None of None \<Rightarrow> True | Some cursor \<Rightarrow> cursor < sha)
         then Some \<lparr>iv_sha1 = sha, iv_size_bytes = sz n\<rparr> else None) = ?f"
      by (auto simp: fun_eq_iff split: option.splits)
    then show ?thesis by (simp add: shard_jars_def)
  qed
  ultimately show ?thesis by (simp add: strict_sorted_iff distinct_map)
qed

lemma shard_dirs_sorted: "fs_ok fs \<Longrightarrow> sorted_wrt (<) (shard_dirs fs)"
proof (cases "read_dir fs [''cache'']")
  case (Some es)
  moreover assume "fs_ok fs"
  ultimately have "distinct (map fst (filter (\<lambda>(_, n). n = Dir) es))"
    by (intro distinct_keep read_dir_distinct)
  with Some show ?thesis by (simp add: shard_dirs_def strict_sorted_iff)
qed (simp add: shard_dirs_def)

lemma inventory_sorted:
  assumes "fs_ok fs" "sharded fs"
  shows "sorted_wrt (<) (map iv_sha1 (inventory sz fs))"
proof -
  have shard: "iv_sha1 e < iv_sha1 e'" if e: "e \<in> set (shard_of sz fs None d)" and e': "e' \<in> set (shard_of sz fs None d')" and d: "d < d'" for d d' e e'
  proof -
    obtain name n where n: "map_of fs [''cache'', d, name] = Some n" "jar_sha name = Some (iv_sha1 e)"
      using in_shard [OF assms(1) e] by blast
    obtain name' n' where n': "map_of fs [''cache'', d', name'] = Some n'" "jar_sha name' = Some (iv_sha1 e')"
      using in_shard [OF assms(1) e'] by blast
    from assms(2) n n' have "d = take 2 (iv_sha1 e)" "d' = take 2 (iv_sha1 e')" by (auto simp: sharded_def)
    with d show ?thesis using shard_less [of d "iv_sha1 e" "iv_sha1 e'"] jar_sha_length [OF n(2)] by simp
  qed
  have one: "sorted_wrt (<) (map iv_sha1 (shard_of sz fs None d))" for d
    using shard_jars_sorted read_dir_distinct [OF assms(1)] by (auto simp: shard_of_def split: option.splits)
  have "sorted_wrt (<) ds \<Longrightarrow> sorted_wrt (<) (map iv_sha1 (concat (map (shard_of sz fs None) ds)))" for ds
    by (induction ds) (auto simp: sorted_wrt_append one intro: shard)
  with shard_dirs_sorted [OF assms(1)] show ?thesis by (simp add: inventory_def)
qed

section \<open>On a concrete disk\<close>

definition some_sha :: str where
  "some_sha = replicate 40 CHR ''a''"

definition holding :: fs where
  "holding = snd (save_cache_jar (\<lambda>_. some_sha) some_sha ''jar'' [])"

lemma holding_reachable: "cache_reachable (\<lambda>_. some_sha) holding"
  unfolding holding_def by (rule cr_step [OF cr_empty]) (rule cs_upload [OF surjective_pairing])

theorem served_jar_is_what_it_says_witness:
  "get_cache_jar ''aa'' (some_sha @ ''.jar'') holding = Inr (CBytes ''jar'') \<and> some_sha \<notin> set (list_removed holding)"
proof -
  have "get_cache_jar ''aa'' (some_sha @ ''.jar'') holding = Inr (CBytes ''jar'')" by code_simp
  with served_jar_is_what_it_says [OF holding_reachable this] show ?thesis by simp
qed

definition taken_down :: fs where
  "taken_down = snd (takedown some_sha holding)"

theorem takedown_list_refines_set_witness:
  "list_removed holding = [] \<and> set (list_removed taken_down) = {some_sha} \<and>
   file_at taken_down (cache_path some_sha) = None"
proof -
  have t: "takedown some_sha holding = (Inr (), taken_down)" "good_sha some_sha" "list_removed holding = []"
    by (simp_all add: prod_eq_iff taken_down_def) code_simp+
  from takedown_list_refines_set [OF holding_reachable t(2), of taken_down] t(1,3) show ?thesis by simp
qed

text \<open>The check of an upload and its write are two steps: a takedown between them leaves the jar on
  the disk, although the mirror still refuses to serve it.\<close>

lemma takedown_between_check_and_write:
  "\<not> is_sha1_removed some_sha [] \<and>
   (let fs = snd (atomic_write (cache_path some_sha) (CBytes ''jar'') (snd (takedown some_sha []))) in
      file_at fs (cache_path some_sha) = Some (CBytes ''jar'') \<and> is_sha1_removed some_sha fs \<and>
      get_cache_jar ''aa'' (some_sha @ ''.jar'') fs = Inl NotFound)"
  by code_simp

text \<open>A hash in capitals passes the check of a takedown, is recorded as it is, and blocks nothing.\<close>

definition some_sha_upper :: str where
  "some_sha_upper = replicate 40 CHR ''A''"

lemma takedown_in_capitals_blocks_nothing:
  "fst (takedown some_sha_upper holding) = Inr () \<and>
   get_cache_jar ''aa'' (some_sha @ ''.jar'') (snd (takedown some_sha_upper holding)) = Inr (CBytes ''jar'')"
  by code_simp

end
