(* ===== verification/Paging.thy ===== *)
theory Paging
  imports Store_Cache Commits
begin

text \<open>
  Cursor paging (\<open>src/src/http/page.rs\<close>). The locale \<open>keyset\<close> is what a listing must promise for its
  pages to add up: it is interpreted for the commit log and for the cache inventory, and following
  the cursors from page to page then answers the listing itself. Base64 is a parameter, of which
  only that decoding undoes encoding is used.
\<close>

definition max_page :: nat where
  "max_page = 500"

record page_query =
  pq_limit :: "nat option"
  pq_after :: "str option"

definition page_clamp :: "nat \<Rightarrow> nat" where
  "page_clamp n = min (max n 1) max_page"

definition page_size :: "page_query \<Rightarrow> nat option" where
  "page_size q = map_option page_clamp (pq_limit q)"

text \<open>\<open>saturating_add\<close> never saturates below the ceiling.\<close>

definition probe :: "page_query \<Rightarrow> nat option" where
  "probe q = map_option (\<lambda>n. page_clamp n + 1) (pq_limit q)"

definition unit_sep :: char where
  "unit_sep = CHR 0x1F"

definition encode_cursor :: "(str \<Rightarrow> str) \<Rightarrow> str list \<Rightarrow> str" where
  "encode_cursor b64 parts = b64 (join [unit_sep] parts)"

definition decode_cursor :: "(str \<Rightarrow> str option) \<Rightarrow> str \<Rightarrow> str list option" where
  "decode_cursor unb64 cursor = map_option (split_on unit_sep) (unb64 cursor)"

definition page_cursor :: "(str \<Rightarrow> str option) \<Rightarrow> page_query \<Rightarrow> str list option" where
  "page_cursor unb64 q = Option.bind (pq_after q) (decode_cursor unb64)"

text \<open>\<open>PageQuery::split\<close>\<close>

definition split_page ::
  "(str \<Rightarrow> str) \<Rightarrow> page_query \<Rightarrow> 'r list \<Rightarrow> ('r \<Rightarrow> str list) \<Rightarrow> 'r list \<times> str option" where
  "split_page b64 q rows key =
     (case page_size q of
        None \<Rightarrow> (rows, None)
      | Some sz \<Rightarrow>
          let more = sz < length rows;
              rows = take sz rows
          in (rows, if more then (if rows = [] then None else Some (encode_cursor b64 (key (last rows)))) else None))"

text \<open>The address of the next page.\<close>

definition page_link :: "str \<Rightarrow> str option \<Rightarrow> str \<Rightarrow> str" where
  "page_link path query cursor =
     (let kept = filter (\<lambda>p. p \<noteq> [] \<and> \<not> starts_with p ''after='')
            (split_on CHR ''&'' (case query of Some s \<Rightarrow> s | None \<Rightarrow> []))
      in path @ ''?'' @ join ''&'' (kept @ [''after='' @ cursor]))"

text \<open>A caller that follows the cursors of a listing keyed by one string.\<close>

fun follow ::
  "(str \<Rightarrow> str) \<Rightarrow> (str \<Rightarrow> str option) \<Rightarrow> (str option \<Rightarrow> nat option \<Rightarrow> 'r list) \<Rightarrow> ('r \<Rightarrow> str) \<Rightarrow> nat \<Rightarrow>
     page_query \<Rightarrow> 'r list" where
  "follow b64 unb64 rows key 0 q = []"
| "follow b64 unb64 rows key (Suc fuel) q =
     (let after = Option.bind (page_cursor unb64 q) (\<lambda>parts. case parts of [] \<Rightarrow> None | p # _ \<Rightarrow> Some p);
          (page, next) = split_page b64 q (rows after (probe q)) (\<lambda>r. [key r])
      in page @ (case next of
           None \<Rightarrow> []
         | Some c \<Rightarrow> follow b64 unb64 rows key fuel (q\<lparr>pq_after := Some c\<rparr>)))"

lemma cursor_roundtrip:
  "unb64 (b64 s) = Some s \<Longrightarrow> unit_sep \<notin> set s \<Longrightarrow>
     page_cursor unb64 (q\<lparr>pq_after := Some (encode_cursor b64 [s])\<rparr>) = Some [s]"
  by (simp add: page_cursor_def decode_cursor_def encode_cursor_def)

section \<open>Listings whose pages add up\<close>

locale keyset =
  fixes ok :: "'s \<Rightarrow> bool"
    and rows :: "'s \<Rightarrow> str option \<Rightarrow> nat \<Rightarrow> 'r list"
    and key :: "'r \<Rightarrow> str"
  assumes bounded: "ok s \<Longrightarrow> length (rows s after n) \<le> n"
    and short: "ok s \<Longrightarrow> length (rows s after m) < m \<Longrightarrow> rows s after (m + n) = rows s after m"
    and continues: "ok s \<Longrightarrow> rows s after m \<noteq> [] \<Longrightarrow>
      rows s after (m + n) = rows s after m @ rows s (Some (key (last (rows s after m)))) n"
    and plain_key: "ok s \<Longrightarrow> r \<in> set (rows s after n) \<Longrightarrow> unit_sep \<notin> set (key r)"
begin

lemma prefix_rows: "ok s \<Longrightarrow> m \<le> n \<Longrightarrow> rows s after m = take m (rows s after n)"
proof -
  assume ok: "ok s" and mn: "m \<le> n"
  show ?thesis
  proof (cases "length (rows s after m) < m")
    case True
    with short [OF ok True, of "n - m"] mn show ?thesis by simp
  next
    case False
    with bounded [OF ok, of after m] have len: "length (rows s after m) = m" by simp
    show ?thesis
    proof (cases "m = 0")
      case True
      with len show ?thesis by simp
    next
      case False
      with len have "rows s after m \<noteq> []" by auto
      from continues [OF ok this, of "n - m"] mn len show ?thesis by simp
    qed
  qed
qed

lemma follow_whole:
  assumes ok: "ok s" and b: "\<And>x. unb64 (b64 x) = Some x" and lim: "pq_limit q = Some l"
  shows "length (rows s after n) < n \<Longrightarrow> n \<le> fuel \<Longrightarrow>
    after = Option.bind (page_cursor unb64 q) (\<lambda>parts. case parts of [] \<Rightarrow> None | p # _ \<Rightarrow> Some p) \<Longrightarrow>
    follow b64 unb64 (\<lambda>after limit. rows s after (the limit)) key fuel q = rows s after n"
  using lim
proof (induction fuel arbitrary: n after q)
  case (Suc fuel)
  let ?size = "page_clamp l" and ?got = "rows s after (page_clamp l + 1)"
  have size: "1 \<le> ?size" by (simp add: page_clamp_def max_page_def)
  have sp: "split_page b64 q ?got (\<lambda>r. [key r]) =
      (take ?size ?got, if ?size < length ?got then
         (if take ?size ?got = [] then None else Some (encode_cursor b64 [key (last (take ?size ?got))])) else None)"
    using Suc.prems(4) by (simp add: split_page_def page_size_def Let_def)
  show ?case
  proof (cases "?size < length ?got")
    case False
    have "rows s after n = ?got"
    proof (cases "n \<le> ?size + 1")
      case True
      with prefix_rows [OF ok True, of after] Suc.prems(1) False show ?thesis by simp
    next
      case more: False
      from short [OF ok, of after "?size + 1" "n - (?size + 1)"] False more show ?thesis by simp
    qed
    with sp False Suc.prems(3,4) show ?thesis by (simp add: probe_def)
  next
    case True
    have page: "take ?size ?got = rows s after ?size" using prefix_rows [OF ok, of ?size "?size + 1" after] by simp
    have ne: "rows s after ?size \<noteq> []" using page True size by (metis length_0_conv length_take min_absorb2 less_imp_le_nat not_one_le_zero)
    let ?k = "key (last (rows s after ?size))"
    have "?size < n"
    proof (rule ccontr)
      assume "\<not> ?size < n"
      with prefix_rows [OF ok, of n "?size + 1" after] True Suc.prems(1) show False by simp
    qed
    with continues [OF ok ne, of "n - ?size"] have n: "rows s after n = rows s after ?size @ rows s (Some ?k) (n - ?size)" by simp
    have "length (rows s after ?size) = ?size" using page True by (metis length_take min_absorb2 less_imp_le_nat)
    with n Suc.prems(1) have less: "length (rows s (Some ?k) (n - ?size)) < n - ?size" by simp
    have "unit_sep \<notin> set ?k" using plain_key [OF ok] ne by (meson last_in_set)
    then have c: "page_cursor unb64 (q\<lparr>pq_after := Some (encode_cursor b64 [?k])\<rparr>) = Some [?k]"
      by (rule cursor_roundtrip [of unb64, OF b])
    have "follow b64 unb64 (\<lambda>after limit. rows s after (the limit)) key fuel (q\<lparr>pq_after := Some (encode_cursor b64 [?k])\<rparr>) =
        rows s (Some ?k) (n - ?size)"
      by (rule Suc.IH [OF less]) (use Suc.prems(2,4) size c in simp_all)
    with sp True ne page n Suc.prems(3,4) show ?thesis by (simp add: probe_def)
  qed
qed simp

end

section \<open>The commit log is one\<close>

definition log_start :: "str \<Rightarrow> fs \<Rightarrow> str option \<Rightarrow> str option" where
  "log_start p fs after =
     (case after of
        None \<Rightarrow> commit_head p fs
      | Some cid \<Rightarrow> (case load_commit p cid fs of Inl _ \<Rightarrow> None | Inr c \<Rightarrow> cm_parent c))"

lemma commit_log_start: "commit_log p after n fs = walk_log p fs n (log_start p fs after)"
  by (auto simp: commit_log_def log_start_def split: option.splits sum.splits)

lemma log_start_starts: "history p fs \<Longrightarrow> starts p fs (log_start p fs after)"
  using head_starts [of p fs] parent_starts [of p fs]
  by (auto simp: log_start_def starts_def split: option.splits sum.splits)

lemma log_continues:
  assumes "history p fs" "commit_log p after m fs \<noteq> []"
  shows "commit_log p after (m + n) fs =
    commit_log p after m fs @ commit_log p (Some (cm_id (last (commit_log p after m fs)))) n fs"
proof -
  let ?w = "walk_log p fs m (log_start p fs after)"
  note facts = walk_log_facts [OF assms(1) log_start_starts [OF assms(1)] refl, of m after]
  have ne: "?w \<noteq> []" using assms(2) by (simp add: commit_log_start)
  have "load_commit p (cm_id (last ?w)) fs = Inr (last ?w)" using facts ne by simp
  moreover have "length ?w < m \<Longrightarrow> cm_parent (last ?w) = None" using facts ne by auto
  ultimately show ?thesis
    using ne by (auto simp: commit_log_start log_start_def walk_log_append Let_def)
qed

lemma log_short:
  assumes "length (commit_log p after m fs) < m"
  shows "commit_log p after (m + n) fs = commit_log p after m fs"
  using assms by (simp add: commit_log_start walk_log_append Let_def)

lemma commit_id_plain: "is_commit_id cid \<Longrightarrow> unit_sep \<notin> set cid"
  by (auto simp: is_commit_id_def list_all_iff unit_sep_def is_hexdigit_def is_digit_def)

interpretation log: keyset "\<lambda>(p, fs). history p fs" "\<lambda>(p, fs) after n. commit_log p after n fs" cm_id
proof (unfold_locales, goal_cases)
  case (1 s after n)
  then show ?case by (cases s) (simp add: commit_log_start walk_log_length)
next
  case (2 s after m n)
  then show ?case by (cases s) (simp add: log_short)
next
  case (3 s after m n)
  then show ?case by (cases s) (simp add: log_continues)
next
  case (4 s r after n)
  obtain p fs where s: "s = (p, fs)" by fastforce
  with 4 have h: "history p fs" and r: "r \<in> set (walk_log p fs n (log_start p fs after))"
    by (simp_all add: commit_log_start)
  have "load_commit p (cm_id r) fs = Inr r"
    using walk_log_facts [OF h log_start_starts [OF h] refl, of n after] r by blast
  then have "is_commit_id (cm_id r)" by (auto simp: load_commit_def split: if_splits)
  then show ?case by (rule commit_id_plain)
qed

section \<open>The cache inventory is one\<close>

definition inventory_rows :: "(node \<Rightarrow> nat) \<times> fs \<Rightarrow> str option \<Rightarrow> nat \<Rightarrow> inventory_entry list" where
  "inventory_rows s after n =
     (case cache_inventory_after (fst s) after (Some n) (snd s) of Inl _ \<Rightarrow> [] | Inr es \<Rightarrow> es)"

lemma inventory_rows_eq:
  "fs_ok fs \<Longrightarrow> sharded fs \<Longrightarrow> inventory_rows (sz, fs) after n = take n (filter (past after) (inventory sz fs))"
  by (simp add: inventory_rows_def inventory_page_is_slice)

lemma past_after_last:
  assumes "sorted_wrt (<) (map iv_sha1 es)" "take m (filter (past after) es) \<noteq> []"
  shows "filter (past (Some (iv_sha1 (last (take m (filter (past after) es)))))) es = drop m (filter (past after) es)"
proof -
  let ?fs = "filter (past after) es"
  let ?k = "iv_sha1 (last (take m ?fs))"
  have sorted: "sorted_wrt (<) (map iv_sha1 ?fs)"
    using assms(1) by (auto simp: sorted_wrt_map intro: sorted_wrt_filter)
  have "last (take m ?fs) \<in> set ?fs" using assms(2) by (meson in_set_takeD last_in_set)
  then have k: "past after (last (take m ?fs))" by simp
  have imp: "past (Some kk) e \<Longrightarrow> past after e" if "past after l" "kk = iv_sha1 l" for kk e l
    using that by (auto simp: past_def split: option.splits)
  have "filter (\<lambda>e. past after e \<and> past (Some ?k) e) es = filter (past (Some ?k)) es"
    by (rule filter_cong [OF refl]) (use imp [OF k refl] in blast)
  then have "filter (past (Some ?k)) es = filter (past (Some ?k)) ?fs" by (simp only: filter_filter)
  also have "\<dots> = filter (past (Some ?k)) (take m ?fs) @ filter (past (Some ?k)) (drop m ?fs)"
    by (metis append_take_drop_id filter_append)
  also have "filter (past (Some ?k)) (take m ?fs) = []"
  proof -
    have "sorted_wrt (<) (map iv_sha1 (take m ?fs))" using sorted by (metis sorted_wrt_take take_map)
    then have "iv_sha1 e \<le> ?k" if "e \<in> set (take m ?fs)" for e
      using that assms(2) by (cases "take m ?fs" rule: rev_cases) (auto simp: sorted_wrt_append less_imp_le)
    then show ?thesis by (auto simp: filter_empty_conv past_def not_less)
  qed
  also have "filter (past (Some ?k)) (drop m ?fs) = drop m ?fs"
  proof -
    have "sorted_wrt (<) (map iv_sha1 (take m ?fs) @ map iv_sha1 (drop m ?fs))"
      using sorted by (metis append_take_drop_id map_append)
    then have "?k < iv_sha1 e" if "e \<in> set (drop m ?fs)" for e
      using that assms(2) by (simp add: sorted_wrt_append)
    then show ?thesis by (auto simp: past_def intro!: filter_True)
  qed
  finally show ?thesis by simp
qed

interpretation inventory: keyset "\<lambda>(sz, fs). fs_ok fs \<and> sharded fs" inventory_rows iv_sha1
proof (unfold_locales, goal_cases)
  case (1 s after n)
  then show ?case by (cases s) (simp add: inventory_rows_eq)
next
  case (2 s after m n)
  then show ?case by (cases s) (auto simp: inventory_rows_eq min_def split: if_splits)
next
  case (3 s after m n)
  obtain sz fs where s: "s = (sz, fs)" by fastforce
  with 3 have ok: "fs_ok fs" "sharded fs" by auto
  let ?fs = "filter (past after) (inventory sz fs)"
  have "filter (past (Some (iv_sha1 (last (take m ?fs))))) (inventory sz fs) = drop m ?fs"
    by (rule past_after_last [OF inventory_sorted [OF ok]]) (use 3 s ok in \<open>simp add: inventory_rows_eq\<close>)
  then show ?case by (simp add: s inventory_rows_eq [OF ok] take_add)
next
  case (4 s r after n)
  obtain sz fs where s: "s = (sz, fs)" by fastforce
  with 4 have ok: "fs_ok fs" "sharded fs" by auto
  with 4 s have "r \<in> set (inventory sz fs)" by (auto simp: inventory_rows_eq dest: in_set_takeD)
  then obtain d where "r \<in> set (shard_of sz fs None d)" by (auto simp: inventory_def)
  from in_shard [OF ok(1) this] obtain name where j: "jar_sha name = Some (iv_sha1 r)" by blast
  then have "is_commit_id (iv_sha1 r)" by (auto simp: jar_sha_def is_hex_def is_commit_id_def split: option.splits if_splits)
  then show ?case by (rule commit_id_plain)
qed

section \<open>Following the pages\<close>

text \<open>C16: Whoever follows the cursors of the commit log reads the log, whatever page size was asked for.\<close>

theorem paged_log_is_the_log:
  assumes "history p fs" "\<And>x. unb64 (b64 x) = Some x" "pq_limit q = Some l" "pq_after q = None"
    and "length (commit_log p None n fs) < n" "n \<le> fuel"
  shows "follow b64 unb64 (\<lambda>after limit. commit_log p after (the limit) fs) cm_id fuel q = commit_log p None n fs"
  using log.follow_whole [of "(p, fs)" unb64 b64 q l None n fuel] assms
  by (simp add: page_cursor_def)

text \<open>Whoever follows the cursors of the cache inventory reads the whole inventory, in order.\<close>

theorem paged_inventory_is_the_inventory:
  assumes "fs_ok fs" "sharded fs" "\<And>x. unb64 (b64 x) = Some x" "pq_limit q = Some l" "pq_after q = None"
    and "length (inventory sz fs) < fuel"
  shows "follow b64 unb64 (\<lambda>after limit. inventory_rows (sz, fs) after (the limit)) iv_sha1 fuel q = inventory sz fs"
  using inventory.follow_whole [of "(sz, fs)" unb64 b64 q l None fuel fuel] assms
  by (simp add: page_cursor_def inventory_rows_eq past_def)

section \<open>On a concrete disk\<close>

definition one_by_one :: page_query where
  "one_by_one = \<lparr>pq_limit = Some 1, pq_after = None\<rparr>"

theorem paged_log_is_the_log_witness:
  "follow (\<lambda>x. x) Some (\<lambda>after limit. commit_log ''p'' after (the limit) two_commits) cm_id 3 one_by_one =
     [second_commit, first_commit]"
proof -
  have two: "commit_log ''p'' None 3 two_commits = [second_commit, first_commit]" by code_simp
  then have "follow (\<lambda>x. x) Some (\<lambda>after limit. commit_log ''p'' after (the limit) two_commits) cm_id 3 one_by_one =
      commit_log ''p'' None 3 two_commits"
    by (intro paged_log_is_the_log [OF history_two, where l = 1]) (simp_all add: one_by_one_def)
  with two show ?thesis by simp
qed

definition two_jars :: fs where
  "two_jars = snd (write_to_cache (replicate 40 CHR ''b'') ''B'' (snd (write_to_cache (replicate 40 CHR ''a'') ''A'' [])))"

lemma two_jars_eq: "two_jars =
  [(cache_path (replicate 40 CHR ''b''), File (CBytes ''B'')), ([''cache'', ''bb''], Dir),
   (cache_path (replicate 40 CHR ''a''), File (CBytes ''A'')), ([''cache'', ''aa''], Dir), ([''cache''], Dir)]"
  by code_simp

lemma two_jars_ok: "fs_ok two_jars" "sharded two_jars"
proof -
  show "fs_ok two_jars"
    by (rule fs_okI) (auto simp: two_jars_eq cache_path_def sha1_shard_def has_parent_def numeral_2_eq_2 split: if_splits)
  show "sharded two_jars"
    by (auto simp: sharded_def two_jars_eq cache_path_def sha1_shard_def split: if_splits dest!: jar_sha_name)
qed

theorem paged_inventory_is_the_inventory_witness:
  "follow (\<lambda>x. x) Some (\<lambda>after limit. inventory_rows (\<lambda>_. 7, two_jars) after (the limit)) iv_sha1 3 one_by_one =
     [\<lparr>iv_sha1 = replicate 40 CHR ''a'', iv_size_bytes = 7\<rparr>, \<lparr>iv_sha1 = replicate 40 CHR ''b'', iv_size_bytes = 7\<rparr>]"
proof -
  have two: "inventory (\<lambda>_. 7) two_jars =
      [\<lparr>iv_sha1 = replicate 40 CHR ''a'', iv_size_bytes = 7\<rparr>, \<lparr>iv_sha1 = replicate 40 CHR ''b'', iv_size_bytes = 7\<rparr>]"
    by code_simp
  then have "follow (\<lambda>x. x) Some (\<lambda>after limit. inventory_rows (\<lambda>_. 7, two_jars) after (the limit)) iv_sha1 3 one_by_one =
      inventory (\<lambda>_. 7) two_jars"
    by (intro paged_inventory_is_the_inventory [OF two_jars_ok, where l = 1]) (simp_all add: one_by_one_def)
  with two show ?thesis by simp
qed

end
