(* ===== verification/Jar_Meta.thy ===== *)
theory Jar_Meta
  imports Registry_Model Store_Cache
begin

text \<open>
  What the program reads out of a jar: \<open>mcmod.info\<close>, the loader marker and the icon
  (\<open>src/src/authoring/curator.rs\<close>, with the entry reader of \<open>archive.rs\<close>), and the declared metadata
  of modern jars (\<open>src/src/authoring/modmeta.rs\<close>). The zip reader, the UTF-8 decoder and the TOML and
  JSON parsers are not code of this program: they are the fields of \<open>jar_tools\<close>.
\<close>

section \<open>Reading a jar\<close>

definition max_entry_bytes :: nat where
  "max_entry_bytes = 512 * 1024 * 1024"

text \<open>An entry of a zip: the size its header declares, and what reading it yields (\<open>None\<close> is an I/O
  error). \<open>take(MAX + 1)\<close> reads at most one byte past the ceiling.\<close>

record zip_entry =
  ze_is_file :: bool
  ze_declared :: nat
  ze_bytes :: "str option"

definition read_zip_entry :: "zip_entry \<Rightarrow> str \<Rightarrow> str + str" where
  "read_zip_entry e name =
     (if ze_declared e > max_entry_bytes
      then Inl (''zip entry '' @ name @ '' declares too many bytes'')
      else case ze_bytes e of
        None \<Rightarrow> Inl (''reading zip entry '' @ name)
      | Some b \<Rightarrow>
          let buf = take (max_entry_bytes + 1) b in
          if length buf > max_entry_bytes
          then Inl (''zip entry '' @ name @ '' exceeds the byte cap'') else Inr buf)"

record mcmod_info =
  mi_modid :: str
  mi_name :: str
  mi_version :: str
  mi_mcversion :: str
  mi_description :: str
  mi_url :: str
  mi_dependencies :: "str list"
  mi_required_mods :: "str list"
  mi_authors :: "str list"
  mi_logo_file :: str

text \<open>An archive: its entries in order, and the lookup by name.\<close>

record zip =
  zp_entries :: "(str \<times> zip_entry) list"
  zp_by_name :: "str \<Rightarrow> zip_entry option"

text \<open>A JSON value, as far as the program looks into one.\<close>

datatype json = JString str | JArray "json list" | JObject "(str \<times> json) list" | JOther

text \<open>What the TOML of a Forge or NeoForge jar and the JSON of a Fabric jar deserialize to. The
  tables keyed by a name are hash maps: the list is the order one run iterates them in.\<close>

record toml_mod =
  tm_mod_id :: "str option"
  tm_display_name :: "str option"
  tm_version :: "str option"
  tm_logo_file :: "str option"
  tm_display_test :: "str option"

record toml_dep =
  td_mod_id :: "str option"
  td_mandatory :: "bool option"
  td_dep_type :: "str option"
  td_version_range :: "str option"
  td_side :: "str option"

record mods_toml =
  mt_mods :: "toml_mod list"
  mt_logo_file :: "str option"
  mt_dependencies :: "(str \<times> toml_dep list) list"

datatype version_predicate = One str | Many "str list"

record fabric_mod_json =
  fm_id :: "str option"
  fm_name :: "str option"
  fm_version :: "str option"
  fm_icon :: "json option"
  fm_environment :: "str option"
  fm_entrypoints :: "(str \<times> json) list"
  fm_depends :: "(str \<times> version_predicate) list"
  fm_recommends :: "(str \<times> version_predicate) list"
  fm_suggests :: "(str \<times> version_predicate) list"
  fm_breaks :: "(str \<times> version_predicate) list"
  fm_conflicts :: "(str \<times> version_predicate) list"

record jar_tools =
  jt_unzip :: "str \<Rightarrow> zip option"
  jt_utf8 :: "str \<Rightarrow> str option"
  jt_utf8_lossy :: "str \<Rightarrow> str"
  jt_toml :: "str \<Rightarrow> mods_toml option"
  jt_fabric :: "str \<Rightarrow> fabric_mod_json option"
  jt_mod_array :: "str \<Rightarrow> mcmod_info list option"
  jt_mod_list :: "str \<Rightarrow> mcmod_info list option"

text \<open>\<open>trim_start_matches\<close> on the byte order mark, which is three bytes in UTF-8.\<close>

fun trim_bom :: "str \<Rightarrow> str" where
  "trim_bom (a # b # c # s) =
     (if [a, b, c] = [CHR 0xEF, CHR 0xBB, CHR 0xBF] then trim_bom s else a # b # c # s)"
| "trim_bom s = s"

definition control_to_space :: "str \<Rightarrow> str" where
  "control_to_space s = map (\<lambda>c. if (of_char c :: nat) < 32 then CHR '' '' else c) s"

definition parse_mcmod_entries :: "jar_tools \<Rightarrow> str \<Rightarrow> mcmod_info list" where
  "parse_mcmod_entries jt raw =
     (let trimmed = trim (trim_bom (jt_utf8_lossy jt raw)) in
      if trimmed = [] then []
      else
        let src = control_to_space trimmed in
        if starts_with src ''['' then (case jt_mod_array jt src of None \<Rightarrow> [] | Some ms \<Rightarrow> ms)
        else (case jt_mod_list jt src of None \<Rightarrow> [] | Some ms \<Rightarrow> ms))"

definition parse_mcmod_info :: "jar_tools \<Rightarrow> str \<Rightarrow> mcmod_info option" where
  "parse_mcmod_info jt raw = (case parse_mcmod_entries jt raw of [] \<Rightarrow> None | m # _ \<Rightarrow> Some m)"

definition mcmod_modids :: "jar_tools \<Rightarrow> str \<Rightarrow> str list" where
  "mcmod_modids jt raw = filter (\<lambda>m. m \<noteq> []) (map mi_modid (parse_mcmod_entries jt raw))"

definition read_mcmod_info :: "jar_tools \<Rightarrow> str \<Rightarrow> str + mcmod_info option" where
  "read_mcmod_info jt jar =
     (case jt_unzip jt jar of
        None \<Rightarrow> Inr None
      | Some z \<Rightarrow>
          (case zp_by_name z ''mcmod.info'' of
             None \<Rightarrow> Inr None
           | Some e \<Rightarrow>
               (case read_zip_entry e ''mcmod.info'' of
                  Inl err \<Rightarrow> Inl err
                | Inr raw \<Rightarrow> Inr (parse_mcmod_info jt raw))))"

section \<open>The loader marker\<close>

definition jar_loader :: "jar_tools \<Rightarrow> str \<Rightarrow> str option" where
  "jar_loader jt jar =
     (case jt_unzip jt jar of
        None \<Rightarrow> None
      | Some z \<Rightarrow>
          let names = map fst (filter (\<lambda>(_, e). ze_is_file e) (zp_entries z)) in
          if ''mcmod.info'' \<in> set names \<or> ''META-INF/mods.toml'' \<in> set names then Some ''forge''
          else if ''fabric.mod.json'' \<in> set names then Some ''fabric'' else None)"

section \<open>Declared metadata\<close>

definition platform_modids :: "str list" where
  "platform_modids = [''minecraft'', ''java'', ''forge'', ''neoforge'', ''fabricloader'', ''fabric-loader'',
     ''quilt_loader'', ''quilt_base'', ''mcp'', ''fml'', ''javafml'', ''lowcodefml'']"

definition is_platform_modid :: "str \<Rightarrow> bool" where
  "is_platform_modid modid \<longleftrightarrow> to_lower modid \<in> set platform_modids"

definition loader_of_platform_modid :: "str \<Rightarrow> str option" where
  "loader_of_platform_modid modid =
     (let m = to_lower modid in
      if m = ''forge'' then Some ''forge''
      else if m = ''neoforge'' then Some ''neoforge''
      else if m = ''fabricloader'' \<or> m = ''fabric-loader'' then Some ''fabric''
      else if m = ''quilt_loader'' then Some ''quilt'' else None)"

record declared_dep =
  dd_modid :: str
  dd_kind :: rel_kind
  dd_severity :: "severity option"
  dd_version_range :: "str option"
  dd_side :: "str option"

record loader_req =
  lq_loader :: str
  lq_range :: str

record mod_meta =
  mm_modid :: "str option"
  mm_display_name :: "str option"
  mm_version :: "str option"
  mm_logo_file :: "str option"
  mm_mc :: "str option"
  mm_deps :: "declared_dep list"
  mm_loader_reqs :: "loader_req list"
  mm_environment :: "str option"
  mm_client_entrypoint :: bool
  mm_main_entrypoint :: bool
  mm_display_test :: "str option"

definition no_meta :: mod_meta where
  "no_meta = \<lparr>mm_modid = None, mm_display_name = None, mm_version = None, mm_logo_file = None,
     mm_mc = None, mm_deps = [], mm_loader_reqs = [], mm_environment = None,
     mm_client_entrypoint = False, mm_main_entrypoint = False, mm_display_test = None\<rparr>"

definition display_test_tolerant :: "mod_meta \<Rightarrow> bool" where
  "display_test_tolerant m \<longleftrightarrow>
     mm_display_test m \<in> {Some ''IGNORE_SERVER_VERSION'', Some ''IGNORE_ALL_VERSION'', Some ''NONE''}"

text \<open>\<open>Option::filter\<close>, \<open>to_ascii_uppercase\<close> and \<open>trim_start_matches('/')\<close>.\<close>

definition opt_filter :: "('a \<Rightarrow> bool) \<Rightarrow> 'a option \<Rightarrow> 'a option" where
  "opt_filter P x = Option.bind x (\<lambda>y. if P y then Some y else None)"

definition to_upper :: "str \<Rightarrow> str" where
  "to_upper s = map (\<lambda>c. if is_lower c then char_of ((of_char c :: nat) - 32) else c) s"

definition no_leading_slash :: "str \<Rightarrow> str" where
  "no_leading_slash s = dropWhile (\<lambda>c. c = CHR ''/'') s"

definition clean_text :: "str option \<Rightarrow> str option" where
  "clean_text v = opt_filter (\<lambda>s. s \<noteq> []) (map_option trim v)"

definition clean_range :: "str option \<Rightarrow> str option" where
  "clean_range r = opt_filter (\<lambda>s. s \<noteq> [] \<and> s \<noteq> ''*'') (map_option trim r)"

definition first_mc :: "str \<Rightarrow> str option" where
  "first_mc rng =
     (let r = dropWhile (\<lambda>c. \<not> is_digit c) rng in
      if r = [] then None
      else
        let v = rev (dropWhile (\<lambda>c. c = CHR ''.'') (rev (takeWhile (\<lambda>c. is_digit c \<or> c = CHR ''.'') r)))
        in if CHR ''.'' \<in> set v then Some v else None)"

subsection \<open>Forge and NeoForge\<close>

definition forge_dep_kind :: "toml_dep \<Rightarrow> (rel_kind \<times> severity option) option" where
  "forge_dep_kind d =
     (case td_dep_type d of
        Some t \<Rightarrow>
          (let t = to_lower t in
           if t = ''required'' then Some (Requires, None)
           else if t = ''optional'' then Some (OptionalDep, None)
           else if t = ''incompatible'' then Some (Conflicts, Some Hard)
           else if t = ''discouraged'' then Some (Conflicts, Some Soft)
           else None)
      | None \<Rightarrow>
          if td_mandatory d = Some False then Some (OptionalDep, None) else Some (Requires, None))"

text \<open>The identity fields: the first block with an id wins, a block before it leaves its other fields
  only until the next block is looked at.\<close>

record toml_head =
  th_modid :: "str option"
  th_display_name :: "str option"
  th_version :: "str option"
  th_logo_file :: "str option"
  th_display_test :: "str option"

definition upper_text :: "str option \<Rightarrow> str option" where
  "upper_text v = opt_filter (\<lambda>s. s \<noteq> []) (map_option (\<lambda>s. to_upper (trim s)) v)"

fun toml_heads :: "toml_mod list \<Rightarrow> toml_head \<Rightarrow> toml_head" where
  "toml_heads [] h = h"
| "toml_heads (m # ms) h = toml_heads ms
     (if th_modid h = None then
        \<lparr>th_modid = opt_filter (\<lambda>s. trim s \<noteq> []) (tm_mod_id m),
         th_display_name = clean_text (tm_display_name m), th_version = clean_text (tm_version m),
         th_logo_file = clean_text (tm_logo_file m), th_display_test = upper_text (tm_display_test m)\<rparr>
      else h)"

record toml_edges =
  te_deps :: "declared_dep list"
  te_loader_reqs :: "loader_req list"
  te_mc :: "str option"

definition toml_edge :: "toml_dep \<Rightarrow> toml_edges \<Rightarrow> toml_edges" where
  "toml_edge e st =
     (case forge_dep_kind e of
        None \<Rightarrow> st
      | Some (kind, severity) \<Rightarrow>
          (case opt_filter (\<lambda>s. s \<noteq> []) (map_option trim (td_mod_id e)) of
             None \<Rightarrow> st
           | Some target \<Rightarrow>
               if eq_ignore_case target ''minecraft'' then
                 (if te_mc st = None
                  then st\<lparr>te_mc := Option.bind (td_version_range e) first_mc\<rparr> else st)
               else if is_platform_modid target then
                 (case (loader_of_platform_modid target, clean_range (td_version_range e)) of
                    (Some loader, Some rng) \<Rightarrow>
                      st\<lparr>te_loader_reqs := te_loader_reqs st @ [\<lparr>lq_loader = loader, lq_range = rng\<rparr>]\<rparr>
                  | _ \<Rightarrow> st)
               else st\<lparr>te_deps := te_deps st @
                 [\<lparr>dd_modid = target, dd_kind = kind, dd_severity = severity,
                   dd_version_range = clean_range (td_version_range e), dd_side = upper_text (td_side e)\<rparr>]\<rparr>))"

definition parse_mods_toml :: "jar_tools \<Rightarrow> str \<Rightarrow> mod_meta" where
  "parse_mods_toml jt text =
     (case jt_toml jt text of
        None \<Rightarrow> no_meta
      | Some t \<Rightarrow>
          let h = toml_heads (mt_mods t) \<lparr>th_modid = None, th_display_name = None, th_version = None,
                th_logo_file = None, th_display_test = None\<rparr>;
              es = fold toml_edge (concat (map snd (mt_dependencies t)))
                \<lparr>te_deps = [], te_loader_reqs = [], te_mc = None\<rparr>;
              logo = (case th_logo_file h of Some l \<Rightarrow> Some l | None \<Rightarrow> clean_text (mt_logo_file t))
          in no_meta\<lparr>mm_modid := th_modid h, mm_display_name := th_display_name h,
               mm_version := th_version h, mm_logo_file := map_option no_leading_slash logo,
               mm_mc := te_mc es, mm_deps := te_deps es, mm_loader_reqs := te_loader_reqs es,
               mm_display_test := th_display_test h\<rparr>)"

subsection \<open>Fabric\<close>

fun predicate_range :: "version_predicate \<Rightarrow> str option" where
  "predicate_range (One s) = clean_range (Some s)"
| "predicate_range (Many v) = clean_range (Some (join '' || '' v))"

definition fabric_deps ::
  "(str \<times> version_predicate) list \<Rightarrow> rel_kind \<Rightarrow> severity option \<Rightarrow> declared_dep list" where
  "fabric_deps table kind severity =
     map (\<lambda>(modid, pred). \<lparr>dd_modid = modid, dd_kind = kind, dd_severity = severity,
           dd_version_range = predicate_range pred, dd_side = None\<rparr>)
       (filter (\<lambda>(modid, _). \<not> (trim modid = [] \<or> is_platform_modid modid)) table)"

definition has_entry :: "(str \<times> json) list \<Rightarrow> str \<Rightarrow> bool" where
  "has_entry entrypoints k =
     (case map_of entrypoints k of Some (JArray xs) \<Rightarrow> xs \<noteq> [] | _ \<Rightarrow> False)"

fun icon_text :: "json \<Rightarrow> str option" where
  "icon_text (JString s) = Some s"
| "icon_text (JObject kvs) =
     (case List.map_filter (\<lambda>(_, v). case v of JString s \<Rightarrow> Some s | _ \<Rightarrow> None) kvs of
        [] \<Rightarrow> None | s # _ \<Rightarrow> Some s)"
| "icon_text _ = None"

definition parse_fabric_json :: "jar_tools \<Rightarrow> str \<Rightarrow> mod_meta" where
  "parse_fabric_json jt bytes =
     (case jt_fabric jt bytes of
        None \<Rightarrow> no_meta
      | Some f \<Rightarrow>
          \<lparr>mm_modid = opt_filter (\<lambda>s. trim s \<noteq> []) (fm_id f),
           mm_display_name = clean_text (fm_name f),
           mm_version = clean_text (fm_version f),
           mm_logo_file = opt_filter (\<lambda>s. s \<noteq> [])
             (map_option (\<lambda>s. no_leading_slash (trim s)) (Option.bind (fm_icon f) icon_text)),
           mm_mc = Option.bind (Option.bind (map_of (fm_depends f) ''minecraft'') predicate_range) first_mc,
           mm_deps = sort_key dd_modid
             (fabric_deps (fm_depends f) Requires None @ fabric_deps (fm_recommends f) Recommends None @
              fabric_deps (fm_suggests f) OptionalDep None @
              fabric_deps (fm_breaks f) Conflicts (Some Hard) @
              fabric_deps (fm_conflicts f) Conflicts (Some Soft)),
           mm_loader_reqs = sort_key lq_loader (List.map_filter
             (\<lambda>(modid, pred). Option.bind (loader_of_platform_modid modid)
                (\<lambda>l. map_option (\<lambda>r. \<lparr>lq_loader = l, lq_range = r\<rparr>) (predicate_range pred)))
             (fm_depends f)),
           mm_environment = opt_filter (\<lambda>s. trim s \<noteq> []) (fm_environment f),
           mm_client_entrypoint = has_entry (fm_entrypoints f) ''client'',
           mm_main_entrypoint = has_entry (fm_entrypoints f) ''main'' \<or> has_entry (fm_entrypoints f) ''server'',
           mm_display_test = None\<rparr>)"

subsection \<open>A jar\<close>

definition read_named :: "zip \<Rightarrow> str \<Rightarrow> str option" where
  "read_named z name =
     Option.bind (zp_by_name z name)
       (\<lambda>e. case read_zip_entry e name of Inl _ \<Rightarrow> None | Inr raw \<Rightarrow> Some raw)"

definition read_mod_meta :: "jar_tools \<Rightarrow> str \<Rightarrow> mod_meta" where
  "read_mod_meta jt jar =
     (case jt_unzip jt jar of
        None \<Rightarrow> no_meta
      | Some z \<Rightarrow>
          (case Option.bind (read_named z ''META-INF/neoforge.mods.toml'') (jt_utf8 jt) of
             Some text \<Rightarrow> parse_mods_toml jt text
           | None \<Rightarrow>
          (case Option.bind (read_named z ''META-INF/mods.toml'') (jt_utf8 jt) of
             Some text \<Rightarrow> parse_mods_toml jt text
           | None \<Rightarrow>
          (case read_named z ''fabric.mod.json'' of
             Some raw \<Rightarrow> parse_fabric_json jt raw
           | None \<Rightarrow> no_meta))))"

section \<open>The icon\<close>

definition content_type_for :: "str \<Rightarrow> str" where
  "content_type_for name =
     (let n = to_lower name in
      if ends_with n ''.jpg'' \<or> ends_with n ''.jpeg'' then ''image/jpeg''
      else if ends_with n ''.gif'' then ''image/gif'' else ''image/png'')"

definition icon_candidates :: "jar_tools \<Rightarrow> str \<Rightarrow> str list" where
  "icon_candidates jt jar =
     (case read_mcmod_info jt jar of
        Inr (Some info) \<Rightarrow>
          (let lf = no_leading_slash (trim (mi_logo_file info)) in if lf = [] then [] else [lf])
      | _ \<Rightarrow> []) @
     (case mm_logo_file (read_mod_meta jt jar) of None \<Rightarrow> [] | Some logo \<Rightarrow> [logo]) @
     [''pack.png'', ''icon.png'', ''logo.png'']"

fun first_image :: "zip \<Rightarrow> str list \<Rightarrow> str + (str \<times> str) option" where
  "first_image z [] = Inr None"
| "first_image z (name # names) =
     (case zp_by_name z name of
        None \<Rightarrow> first_image z names
      | Some e \<Rightarrow>
          if \<not> ze_is_file e then first_image z names
          else (case read_zip_entry e name of
             Inl err \<Rightarrow> Inl err
           | Inr bytes \<Rightarrow>
               if bytes = [] then first_image z names
               else Inr (Some (bytes, content_type_for name))))"

definition jar_icon :: "jar_tools \<Rightarrow> str \<Rightarrow> str + (str \<times> str) option" where
  "jar_icon jt jar =
     (case jt_unzip jt jar of
        None \<Rightarrow> Inr None
      | Some z \<Rightarrow> first_image z (icon_candidates jt jar))"

section \<open>What the metadata can say\<close>

lemma list_all_sort_key [simp]: "list_all P (sort_key g xs) = list_all P xs"
  by (simp add: list_all_iff)

definition good_range :: "str option \<Rightarrow> bool" where
  "good_range r \<longleftrightarrow> (case r of None \<Rightarrow> True | Some s \<Rightarrow> s \<noteq> [] \<and> s \<noteq> ''*'' \<and> trim s = s)"

definition good_dep :: "declared_dep \<Rightarrow> bool" where
  "good_dep d \<longleftrightarrow> \<not> is_platform_modid (dd_modid d) \<and> trim (dd_modid d) \<noteq> [] \<and>
     (dd_severity d \<noteq> None \<longleftrightarrow> dd_kind d = Conflicts) \<and> dd_kind d \<noteq> Provides \<and>
     good_range (dd_version_range d)"

definition good_req :: "loader_req \<Rightarrow> bool" where
  "good_req q \<longleftrightarrow> lq_loader q \<in> {''forge'', ''neoforge'', ''fabric'', ''quilt''} \<and> good_range (Some (lq_range q))"

definition good_mc :: "str option \<Rightarrow> bool" where
  "good_mc v \<longleftrightarrow> (case v of None \<Rightarrow> True | Some s \<Rightarrow>
     s \<noteq> [] \<and> is_digit (hd s) \<and> CHR ''.'' \<in> set s \<and> list_all (\<lambda>c. is_digit c \<or> c = CHR ''.'') s)"

lemma dropWhile_twice: "dropWhile P (dropWhile P s) = dropWhile P s"
  by (induction s) auto

lemma trim_start_stays:
  assumes "dropWhile P s = s"
  shows "dropWhile P (rev (dropWhile P (rev s))) = rev (dropWhile P (rev s))"
proof -
  let ?t = "rev (dropWhile P (rev s))"
  have "s = ?t @ rev (takeWhile P (rev s))" by (metis rev_append rev_rev_ident takeWhile_dropWhile_id)
  then have "?t \<noteq> [] \<Longrightarrow> hd s = hd ?t \<and> s \<noteq> []" by (metis Nil_is_append_conv hd_append2)
  moreover have "s = [] \<or> \<not> P (hd s)" using assms dropWhile_eq_self_iff by blast
  ultimately show ?thesis unfolding dropWhile_eq_self_iff by metis
qed

lemma trim_end_keeps_hd: "\<not> P c \<Longrightarrow> rev (dropWhile P (rev (c # s))) = c # rev (dropWhile P (rev s))"
  by (simp add: dropWhile_append)

lemma trim_trim [simp]: "trim (trim s) = trim s"
  using trim_start_stays [of is_space "dropWhile is_space s"]
  by (simp add: trim_def dropWhile_twice)

lemma good_clean_range [simp]: "good_range (clean_range r)"
  by (auto simp: good_range_def clean_range_def opt_filter_def Option.bind_eq_Some_conv split: option.split)

lemma good_loader: "loader_of_platform_modid m = Some l \<Longrightarrow> l \<in> {''forge'', ''neoforge'', ''fabric'', ''quilt''}"
  by (auto simp: loader_of_platform_modid_def Let_def split: if_splits)

lemma good_first_mc: "good_mc (first_mc rng)"
proof (cases "dropWhile (\<lambda>c. \<not> is_digit c) rng")
  case (Cons c s)
  then have d: "is_digit c" by (metis dropWhile_eq_Cons_conv)
  let ?t = "takeWhile (\<lambda>c. is_digit c \<or> c = CHR ''.'') s"
  let ?v = "rev (dropWhile (\<lambda>c. c = CHR ''.'') (rev (c # ?t)))"
  have v: "?v = c # rev (dropWhile (\<lambda>c. c = CHR ''.'') (rev ?t))"
    by (rule trim_end_keeps_hd) (use d in \<open>auto simp: is_digit_def\<close>)
  have "set ?v \<subseteq> set (c # ?t)" using set_dropWhileD by fastforce
  then have "list_all (\<lambda>c. is_digit c \<or> c = CHR ''.'') ?v"
    using d set_takeWhileD by (fastforce simp: list_all_iff)
  moreover have "first_mc rng = (if CHR ''.'' \<in> set ?v then Some ?v else None)"
    by (simp add: first_mc_def Let_def Cons d)
  ultimately show ?thesis
    using v d by (simp add: good_mc_def)
qed (simp add: first_mc_def good_mc_def)

lemma good_no_meta [simp]: "mm_deps no_meta = []" "mm_loader_reqs no_meta = []" "mm_mc no_meta = None"
  by (simp_all add: no_meta_def)

lemma forge_kind_typed: "forge_dep_kind e = Some (k, sev) \<Longrightarrow> (sev \<noteq> None \<longleftrightarrow> k = Conflicts) \<and> k \<noteq> Provides"
  by (auto simp: forge_dep_kind_def Let_def split: option.splits if_splits)

lemma toml_edge_good:
  assumes "list_all good_dep (te_deps st)" "list_all good_req (te_loader_reqs st)" "good_mc (te_mc st)"
  shows "list_all good_dep (te_deps (toml_edge e st)) \<and> list_all good_req (te_loader_reqs (toml_edge e st)) \<and>
    good_mc (te_mc (toml_edge e st))"
proof -
  have mc: "good_mc (Option.bind (td_version_range e) first_mc)"
    using good_first_mc by (cases "td_version_range e") (auto simp: good_mc_def)
  have rng: "good_range (Some r)" if "clean_range x = Some r" for x r
    using good_clean_range [of x] that by simp
  have "trim t = t \<and> t \<noteq> []" if "opt_filter (\<lambda>s. s \<noteq> []) (map_option trim (td_mod_id e)) = Some t" for t
    using that by (auto simp: opt_filter_def Option.bind_eq_Some_conv split: if_splits)
  with assms mc show ?thesis
    using forge_kind_typed [of e]
    by (auto simp: toml_edge_def good_dep_def good_req_def rng split: option.split dest: good_loader)
qed

lemma toml_edges_good:
  "list_all good_dep (te_deps st) \<Longrightarrow> list_all good_req (te_loader_reqs st) \<Longrightarrow> good_mc (te_mc st) \<Longrightarrow>
   list_all good_dep (te_deps (fold toml_edge es st)) \<and> list_all good_req (te_loader_reqs (fold toml_edge es st)) \<and>
     good_mc (te_mc (fold toml_edge es st))"
  by (induction es arbitrary: st) (simp_all add: toml_edge_good)

definition good_meta :: "mod_meta \<Rightarrow> bool" where
  "good_meta m \<longleftrightarrow> list_all good_dep (mm_deps m) \<and> list_all good_req (mm_loader_reqs m) \<and> good_mc (mm_mc m)"

lemma good_mc_None [simp]: "good_mc None"
  by (simp add: good_mc_def)

lemma no_meta_good [simp]: "good_meta no_meta"
  by (simp add: good_meta_def)

lemma parse_toml_good: "good_meta (parse_mods_toml jt text)"
proof (cases "jt_toml jt text")
  case (Some m)
  with toml_edges_good [of "\<lparr>te_deps = [], te_loader_reqs = [], te_mc = None\<rparr>" "concat (map snd (mt_dependencies m))"]
  show ?thesis by (simp add: parse_mods_toml_def Let_def no_meta_def good_meta_def)
qed (simp add: parse_mods_toml_def)

lemma good_predicate_range [simp]: "good_range (predicate_range p)"
  by (cases p) (simp_all add: good_clean_range)

lemma fabric_deps_good [simp]:
  "(sev \<noteq> None \<longleftrightarrow> k = Conflicts) \<Longrightarrow> k \<noteq> Provides \<Longrightarrow> list_all good_dep (fabric_deps table k sev)"
  by (auto simp: fabric_deps_def good_dep_def list_all_iff)

lemma fabric_reqs_good:
  "list_all good_req (List.map_filter (\<lambda>(modid, pred). Option.bind (loader_of_platform_modid modid)
     (\<lambda>l. map_option (\<lambda>r. \<lparr>lq_loader = l, lq_range = r\<rparr>) (predicate_range pred))) table)"
proof (induction table)
  case (Cons x xs)
  obtain m p where x: "x = (m, p)" by (cases x)
  with Cons good_predicate_range [of p] show ?case
    by (auto simp del: good_predicate_range
        simp: List.map_filter_simps good_req_def Option.bind_eq_Some_conv split: option.split dest: good_loader)
qed (simp add: List.map_filter_simps)

lemma parse_fabric_good: "good_meta (parse_fabric_json jt bytes)"
proof (cases "jt_fabric jt bytes")
  case (Some f)
  have "good_mc (Option.bind (Option.bind (map_of (fm_depends f) ''minecraft'') predicate_range) first_mc)"
    using good_first_mc by (simp add: Option.bind_split)
  then show ?thesis
    using Some fabric_reqs_good [of "fm_depends f"] by (simp add: parse_fabric_json_def good_meta_def)
qed (simp add: parse_fabric_json_def)

lemma read_meta_good: "good_meta (read_mod_meta jt jar)"
  by (simp add: read_mod_meta_def parse_toml_good parse_fabric_good split: option.split)

text \<open>C23: What the mirror reads out of any jar is well typed: a dependency names a mod and never the
  platform, has an intensity exactly when it is a conflict, and carries a window only if that window
  restricts something; a window on the loader names one of the four loaders; and the game version is a
  dotted number.\<close>

theorem declared_metadata_well_typed:
  "list_all good_dep (mm_deps (read_mod_meta jt jar)) \<and>
   list_all good_req (mm_loader_reqs (read_mod_meta jt jar)) \<and> good_mc (mm_mc (read_mod_meta jt jar))"
  using read_meta_good [of jt jar] by (simp add: good_meta_def)

text \<open>The kind of a dependency on the loader is not looked at: a jar that declares itself
  incompatible with a range of loader builds is recorded as needing that range.\<close>

lemma incompatible_builds_become_the_window:
  assumes "td_dep_type e = Some ''incompatible''" "td_mod_id e = Some ''neoforge''"
    and "td_version_range e = Some ''[21.1.0,21.1.50]''"
  shows "te_loader_reqs (toml_edge e \<lparr>te_deps = [], te_loader_reqs = [], te_mc = None\<rparr>) =
    [\<lparr>lq_loader = ''neoforge'', lq_range = ''[21.1.0,21.1.50]''\<rparr>]"
proof -
  have "clean_range (Some ''[21.1.0,21.1.50]'') = Some ''[21.1.0,21.1.50]''" "trim ''neoforge'' = ''neoforge''"
    "\<not> eq_ignore_case ''neoforge'' ''minecraft''" "is_platform_modid ''neoforge''"
    "loader_of_platform_modid ''neoforge'' = Some ''neoforge''" "to_lower ''incompatible'' = ''incompatible''"
    by code_simp+
  with assms show ?thesis
    by (simp add: toml_edge_def forge_dep_kind_def opt_filter_def)
qed

end
