(* ===== verification/Enrich.thy ===== *)
theory Enrich
  imports Jar_Meta Config_Diff
begin

text \<open>
  Reading a jar's \<open>mcmod.info\<close> and the two passes a build runs over a copy of its config
  (\<open>src/src/authoring/curator.rs\<close>): names, descriptions and links from the cached jars, then the
  requires edges between the mods of the pack.
\<close>

section \<open>A version of the game\<close>

definition clean_mc_version :: "str \<Rightarrow> str option" where
  "clean_mc_version raw =
     (let v = trim raw in
      if v = [] \<or> CHR ''$'' \<in> set v \<or> CHR 0x7B \<in> set v then None
      else if is_digit (hd v) then Some v else None)"

section \<open>Pass one: what a mod is called\<close>

record enrich_report =
  er_with_info :: nat
  er_filled :: nat
  er_skipped_modrinth :: nat
  er_skipped_no_info :: nat
  er_skipped_complete :: nat

text \<open>\<open>if display.name.is_none() && !info.name.trim().is_empty()\<close>\<close>

definition fill_blank :: "str option \<Rightarrow> str \<Rightarrow> str option" where
  "fill_blank field value = (if field = None \<and> trim value \<noteq> [] then Some (trim value) else field)"

definition display_complete :: "display \<Rightarrow> bool" where
  "display_complete d \<longleftrightarrow> dp_name d \<noteq> None \<and> dp_description d \<noteq> None \<and> dp_url d \<noteq> None"

definition fill_display :: "mcmod_info \<Rightarrow> display \<Rightarrow> display" where
  "fill_display info d = d\<lparr>
     dp_name := fill_blank (dp_name d) (mi_name info),
     dp_description := fill_blank (dp_description d) (mi_description info),
     dp_url := fill_blank (dp_url d) (mi_url info)\<rparr>"

definition enrich_mod ::
  "jar_tools \<Rightarrow> fs \<Rightarrow> declared_mod \<Rightarrow> enrich_report \<Rightarrow> str + (declared_mod \<times> enrich_report)" where
  "enrich_mod jt fs m rep =
     (case dm_source m of
        Modrinth _ _ \<Rightarrow> Inr (m, rep\<lparr>er_skipped_modrinth := er_skipped_modrinth rep + 1\<rparr>)
      | SmrtStatic _ \<Rightarrow> Inr (m, rep)
      | SmrtCache sha \<Rightarrow>
          let d = display_or_default (dm_display m); m' = m\<lparr>dm_display := Some d\<rparr> in
          if display_complete d
          then Inr (m', rep\<lparr>er_skipped_complete := er_skipped_complete rep + 1\<rparr>)
          else case cache_jar_path_in sha of
            None \<Rightarrow> Inl (''invalid sha1: '' @ sha)
          | Some path \<Rightarrow>
              (case read_text fs path of
                 None \<Rightarrow> Inr (m', rep)
               | Some jar \<Rightarrow>
                   (case read_mcmod_info jt jar of
                      Inl e \<Rightarrow> Inl e
                    | Inr None \<Rightarrow> Inr (m', rep\<lparr>er_skipped_no_info := er_skipped_no_info rep + 1\<rparr>)
                    | Inr (Some info) \<Rightarrow>
                        Inr (m\<lparr>dm_display := Some (fill_display info d)\<rparr>,
                          rep\<lparr>er_with_info := er_with_info rep + 1,
                            er_filled := er_filled rep +
                              (if fill_display info d \<noteq> d then 1 else 0)\<rparr>))))"

fun enrich_all ::
  "jar_tools \<Rightarrow> fs \<Rightarrow> declared_mod list \<Rightarrow> enrich_report \<Rightarrow> str + (declared_mod list \<times> enrich_report)" where
  "enrich_all jt fs [] rep = Inr ([], rep)"
| "enrich_all jt fs (m # ms) rep =
     (case enrich_mod jt fs m rep of
        Inl e \<Rightarrow> Inl e
      | Inr (m, rep) \<Rightarrow>
          (case enrich_all jt fs ms rep of
             Inl e \<Rightarrow> Inl e
           | Inr (ms, rep) \<Rightarrow> Inr (m # ms, rep)))"

definition no_enrichment :: enrich_report where
  "no_enrichment = \<lparr>er_with_info = 0, er_filled = 0, er_skipped_modrinth = 0,
     er_skipped_no_info = 0, er_skipped_complete = 0\<rparr>"

definition enrich_from_mcmod_info ::
  "jar_tools \<Rightarrow> fs \<Rightarrow> pack_config \<Rightarrow> str + (pack_config \<times> enrich_report)" where
  "enrich_from_mcmod_info jt fs cfg =
     (case enrich_all jt fs (cf_mods cfg) no_enrichment of
        Inl e \<Rightarrow> Inl e
      | Inr (ms, rep) \<Rightarrow> Inr (cfg\<lparr>cf_mods := ms\<rparr>, rep))"

section \<open>Pass two: what a mod requires\<close>

record infer_report =
  ir_with_deps :: nat
  ir_edges_added :: nat
  ir_unresolved :: "(str \<times> str) list"

definition mcmod_of :: "jar_tools \<Rightarrow> fs \<Rightarrow> str \<Rightarrow> str + mcmod_info option" where
  "mcmod_of jt fs sha =
     (case cache_jar_path_in sha of
        None \<Rightarrow> Inl (''invalid sha1: '' @ sha)
      | Some path \<Rightarrow>
          (case read_text fs path of
             None \<Rightarrow> Inr None
           | Some jar \<Rightarrow> read_mcmod_info jt jar))"

fun modid_files ::
  "jar_tools \<Rightarrow> fs \<Rightarrow> declared_mod list \<Rightarrow> (str \<times> str) list \<Rightarrow> str + (str \<times> str) list" where
  "modid_files jt fs [] known = Inr known"
| "modid_files jt fs (m # ms) known =
     (case dm_source m of
        SmrtCache sha \<Rightarrow>
          (case mcmod_of jt fs sha of
             Inl e \<Rightarrow> Inl e
           | Inr None \<Rightarrow> modid_files jt fs ms known
           | Inr (Some info) \<Rightarrow>
               if mi_modid info = [] \<or> map_of known (mi_modid info) \<noteq> None
               then modid_files jt fs ms known
               else modid_files jt fs ms ((mi_modid info, dm_filename m) # known))
      | _ \<Rightarrow> modid_files jt fs ms known)"

definition sibling_edges :: "(str \<times> str) list \<Rightarrow> str list \<Rightarrow> requirement list" where
  "sibling_edges known deps =
     map (\<lambda>f. \<lparr>rq_filename = f, rq_version_range = None, rq_optional = False\<rparr>)
       (List.map_filter (map_of known) deps)"

definition has_requires :: "declared_mod \<Rightarrow> bool" where
  "has_requires m \<longleftrightarrow> (case dm_display m of None \<Rightarrow> False | Some d \<Rightarrow> dp_requires d \<noteq> [])"

definition infer_mod ::
  "jar_tools \<Rightarrow> fs \<Rightarrow> (str \<times> str) list \<Rightarrow> declared_mod \<Rightarrow> infer_report \<Rightarrow>
     str + (declared_mod \<times> infer_report)" where
  "infer_mod jt fs known m rep =
     (case dm_source m of
        SmrtCache sha \<Rightarrow>
          if has_requires m then Inr (m, rep)
          else (case mcmod_of jt fs sha of
             Inl e \<Rightarrow> Inl e
           | Inr None \<Rightarrow> Inr (m, rep)
           | Inr (Some info) \<Rightarrow>
               if mi_dependencies info = [] then Inr (m, rep)
               else
                 let edges = sibling_edges known (mi_dependencies info);
                     rep = rep\<lparr>ir_with_deps := ir_with_deps rep + 1,
                       ir_edges_added := ir_edges_added rep + length edges,
                       ir_unresolved := ir_unresolved rep @
                         map (Pair (dm_filename m))
                           (filter (\<lambda>d. map_of known d = None) (mi_dependencies info))\<rparr>
                 in if edges = [] then Inr (m, rep)
                    else Inr (m\<lparr>dm_display :=
                      Some ((display_or_default (dm_display m))\<lparr>dp_requires := edges\<rparr>)\<rparr>, rep))
      | _ \<Rightarrow> Inr (m, rep))"

fun infer_all ::
  "jar_tools \<Rightarrow> fs \<Rightarrow> (str \<times> str) list \<Rightarrow> declared_mod list \<Rightarrow> infer_report \<Rightarrow>
     str + (declared_mod list \<times> infer_report)" where
  "infer_all jt fs known [] rep = Inr ([], rep)"
| "infer_all jt fs known (m # ms) rep =
     (case infer_mod jt fs known m rep of
        Inl e \<Rightarrow> Inl e
      | Inr (m, rep) \<Rightarrow>
          (case infer_all jt fs known ms rep of
             Inl e \<Rightarrow> Inl e
           | Inr (ms, rep) \<Rightarrow> Inr (m # ms, rep)))"

definition infer_requires_from_mcmod_info ::
  "jar_tools \<Rightarrow> fs \<Rightarrow> pack_config \<Rightarrow> str + (pack_config \<times> infer_report)" where
  "infer_requires_from_mcmod_info jt fs cfg =
     (case modid_files jt fs (cf_mods cfg) [] of
        Inl e \<Rightarrow> Inl e
      | Inr known \<Rightarrow>
          (case infer_all jt fs known (cf_mods cfg)
                 \<lparr>ir_with_deps = 0, ir_edges_added = 0, ir_unresolved = []\<rparr> of
             Inl e \<Rightarrow> Inl e
           | Inr (ms, rep) \<Rightarrow> Inr (cfg\<lparr>cf_mods := ms\<rparr>, rep)))"

section \<open>What the passes leave alone\<close>

text \<open>A display after a pass still says everything it said before.\<close>

definition option_kept :: "'a option \<Rightarrow> 'a option \<Rightarrow> bool" where
  "option_kept x y \<longleftrightarrow> x = None \<or> y = x"

definition display_kept :: "display \<Rightarrow> display \<Rightarrow> bool" where
  "display_kept d d' \<longleftrightarrow>
     d' = d\<lparr>dp_name := dp_name d', dp_description := dp_description d', dp_url := dp_url d',
            dp_requires := dp_requires d'\<rparr> \<and>
     option_kept (dp_name d) (dp_name d') \<and> option_kept (dp_description d) (dp_description d') \<and>
     option_kept (dp_url d) (dp_url d') \<and> (dp_requires d \<noteq> [] \<longrightarrow> dp_requires d' = dp_requires d)"

definition mod_kept :: "declared_mod \<Rightarrow> declared_mod \<Rightarrow> bool" where
  "mod_kept m m' \<longleftrightarrow> m' = m\<lparr>dm_display := dm_display m'\<rparr> \<and>
     display_kept (display_or_default (dm_display m)) (display_or_default (dm_display m'))"

named_theorems kept "what a pass over a config leaves alone"

lemma option_kept_refl [kept, simp]: "option_kept x x"
  by (simp add: option_kept_def)

lemma option_kept_trans: "option_kept x y \<Longrightarrow> option_kept y z \<Longrightarrow> option_kept x z"
  by (auto simp: option_kept_def)

lemma display_kept_refl [kept, simp]: "display_kept d d"
  by (simp add: display_kept_def)

lemma display_kept_trans: "display_kept a b \<Longrightarrow> display_kept b c \<Longrightarrow> display_kept a c"
  by (cases a; cases b; cases c) (auto simp: display_kept_def option_kept_def)

lemma mod_kept_refl [kept, simp]: "mod_kept m m"
  by (simp add: mod_kept_def)

lemma mod_kept_trans: "mod_kept a b \<Longrightarrow> mod_kept b c \<Longrightarrow> mod_kept a c"
  unfolding mod_kept_def
  by (cases a; cases b; cases c) (auto intro: display_kept_trans)

lemma fill_blank_kept [simp]: "option_kept x (fill_blank x v)"
  by (simp add: option_kept_def fill_blank_def)

lemma fill_display_kept: "display_kept d (fill_display info d)"
  by (simp add: display_kept_def fill_display_def)

lemma display_or_default_Some [simp]: "display_or_default (Some d) = d"
  by (simp add: display_or_default_def)

lemma enrich_mod_kept: "enrich_mod jt fs m rep = Inr (m', rep') \<Longrightarrow> mod_kept m m'"
  by (auto simp: enrich_mod_def mod_kept_def Let_def fill_display_kept
      split: source_decl.splits if_splits option.splits sum.splits)

lemma infer_mod_kept:
  assumes "infer_mod jt fs known m rep = Inr (m', rep')"
  shows "mod_kept m m'"
proof (cases "m' = m")
  case False
  with assms have "\<not> has_requires m" and m': "\<exists>es. m' = m\<lparr>dm_display :=
      Some ((display_or_default (dm_display m))\<lparr>dp_requires := es\<rparr>)\<rparr>"
    by (auto simp: infer_mod_def Let_def split: source_decl.splits if_splits option.splits sum.splits)
  then have "dp_requires (display_or_default (dm_display m)) = []"
    by (auto simp: has_requires_def display_or_default_def display_default_def split: option.splits)
  with m' show ?thesis by (auto simp: mod_kept_def display_kept_def)
qed simp

lemma enrich_all_kept: "enrich_all jt fs ms rep = Inr (ms', rep') \<Longrightarrow> list_all2 mod_kept ms ms'"
  by (induction ms arbitrary: rep ms' rep') (auto split: sum.splits dest: enrich_mod_kept)

lemma infer_all_kept: "infer_all jt fs known ms rep = Inr (ms', rep') \<Longrightarrow> list_all2 mod_kept ms ms'"
  by (induction ms arbitrary: rep ms' rep') (auto split: sum.splits dest: infer_mod_kept)

lemma mods_kept_trans: "list_all2 mod_kept xs ys \<Longrightarrow> list_all2 mod_kept ys zs \<Longrightarrow> list_all2 mod_kept xs zs"
  by (rule list_all2_trans [of mod_kept mod_kept mod_kept]) (auto intro: mod_kept_trans)

section \<open>Where inferred edges point\<close>

lemma modid_files_from:
  "modid_files jt fs ms known = Inr known' \<Longrightarrow>
     snd ` set known' \<subseteq> snd ` set known \<union> dm_filename ` set ms"
proof (induction ms arbitrary: known)
  case (Cons m ms)
  show ?case
  proof (cases "modid_files jt fs ms known = Inr known'")
    case True
    with Cons.IH show ?thesis by auto
  next
    case False
    with Cons.prems obtain k where "modid_files jt fs ms ((k, dm_filename m) # known) = Inr known'"
      by (auto split: source_decl.splits sum.splits option.splits if_splits)
    from Cons.IH [OF this] show ?thesis by auto
  qed
qed simp

lemma sibling_edges_files: "r \<in> set (sibling_edges known deps) \<Longrightarrow> rq_filename r \<in> snd ` set known"
  by (force simp: sibling_edges_def List.map_filter_def dest: map_of_SomeD)

lemma infer_mod_edges:
  assumes "infer_mod jt fs known m rep = Inr (m', rep')" "r \<in> set (dp_requires (display_or_default (dm_display m')))"
  shows "r \<in> set (dp_requires (display_or_default (dm_display m))) \<or> rq_filename r \<in> snd ` set known"
  using assms by (auto simp: infer_mod_def Let_def sibling_edges_files
      split: source_decl.splits if_splits option.splits sum.splits)

lemma infer_all_edges:
  "infer_all jt fs known ms rep = Inr (ms', rep') \<Longrightarrow> m' \<in> set ms' \<Longrightarrow>
     r \<in> set (dp_requires (display_or_default (dm_display m'))) \<Longrightarrow>
     (\<exists>m \<in> set ms. r \<in> set (dp_requires (display_or_default (dm_display m)))) \<or> rq_filename r \<in> snd ` set known"
proof (induction ms arbitrary: rep ms' rep')
  case (Cons m ms)
  then obtain m1 rep1 ms1 where 1: "infer_mod jt fs known m rep = Inr (m1, rep1)"
    "infer_all jt fs known ms rep1 = Inr (ms1, rep')" "ms' = m1 # ms1"
    by (auto split: sum.splits)
  with Cons.prems(2) consider "m' = m1" | "m' \<in> set ms1" by auto
  then show ?case
    using infer_mod_edges [OF 1(1), of r] Cons.IH [OF 1(2) _ Cons.prems(3)] Cons.prems(3) by cases auto
qed simp

section \<open>Running a pass twice\<close>

lemma fill_display_again: "fill_display info (fill_display info d) = fill_display info d"
proof -
  have "fill_blank (fill_blank x v) v = fill_blank x v" for x v by (simp add: fill_blank_def)
  then show ?thesis by (simp add: fill_display_def)
qed

lemma enrich_mod_again:
  "enrich_mod jt fs m rep = Inr (m', rep') \<Longrightarrow> \<exists>rep2. enrich_mod jt fs m' r = Inr (m', rep2)"
  by (auto simp: enrich_mod_def Let_def fill_display_again
      split: source_decl.splits if_splits option.splits sum.splits)

lemma enrich_all_again:
  "enrich_all jt fs ms rep = Inr (ms', rep') \<Longrightarrow> \<exists>rep2. enrich_all jt fs ms' r = Inr (ms', rep2)"
proof (induction ms arbitrary: rep ms' rep' r)
  case (Cons m ms)
  then obtain m1 rep1 ms1 where 1: "enrich_mod jt fs m rep = Inr (m1, rep1)"
    "enrich_all jt fs ms rep1 = Inr (ms1, rep')" "ms' = m1 # ms1"
    by (auto split: sum.splits)
  from enrich_mod_again [OF 1(1)] obtain r1 where r1: "enrich_mod jt fs m1 r = Inr (m1, r1)" by blast
  from Cons.IH [OF 1(2)] obtain r2 where "enrich_all jt fs ms1 r1 = Inr (ms1, r2)" by blast
  with 1 r1 show ?case by simp
qed simp

lemma mod_kept_source [simp]: "mod_kept m m' \<Longrightarrow> dm_source m' = dm_source m" "mod_kept m m' \<Longrightarrow> dm_filename m' = dm_filename m"
  by (cases m; cases m'; simp add: mod_kept_def)+

lemma modid_files_kept: "list_all2 mod_kept ms ms' \<Longrightarrow> modid_files jt fs ms' known = modid_files jt fs ms known"
  by (induction arbitrary: known rule: list_all2_induct)
    (auto split: source_decl.split sum.split option.split)

lemma infer_mod_again:
  assumes "infer_mod jt fs known m rep = Inr (m', rep')"
  shows "\<exists>rep2. infer_mod jt fs known m' r = Inr (m', rep2)"
proof (cases "m' = m")
  case True
  with assms show ?thesis
    by (auto simp: infer_mod_def Let_def split: source_decl.splits if_splits option.splits sum.splits)
next
  case False
  with assms have "has_requires m'"
    by (auto simp: infer_mod_def has_requires_def Let_def split: source_decl.splits if_splits option.splits sum.splits)
  then show ?thesis by (auto simp: infer_mod_def split: source_decl.splits)
qed

lemma infer_all_again:
  "infer_all jt fs known ms rep = Inr (ms', rep') \<Longrightarrow> \<exists>rep2. infer_all jt fs known ms' r = Inr (ms', rep2)"
proof (induction ms arbitrary: rep ms' rep' r)
  case (Cons m ms)
  then obtain m1 rep1 ms1 where 1: "infer_mod jt fs known m rep = Inr (m1, rep1)"
    "infer_all jt fs known ms rep1 = Inr (ms1, rep')" "ms' = m1 # ms1"
    by (auto split: sum.splits)
  from infer_mod_again [OF 1(1)] obtain r1 where r1: "infer_mod jt fs known m1 r = Inr (m1, r1)" by blast
  from Cons.IH [OF 1(2)] obtain r2 where "infer_all jt fs known ms1 r1 = Inr (ms1, r2)" by blast
  with 1 r1 show ?case by simp
qed simp

lemma enrich_mod_requires:
  "enrich_mod jt fs m rep = Inr (m', rep') \<Longrightarrow>
     dp_requires (display_or_default (dm_display m')) = dp_requires (display_or_default (dm_display m))"
  by (auto simp: enrich_mod_def Let_def fill_display_def
      split: source_decl.splits if_splits option.splits sum.splits)

lemma enrich_all_requires:
  "enrich_all jt fs ms rep = Inr (ms', rep') \<Longrightarrow>
     map (\<lambda>m. dp_requires (display_or_default (dm_display m))) ms' =
     map (\<lambda>m. dp_requires (display_or_default (dm_display m))) ms"
proof (induction ms arbitrary: rep ms' rep')
  case (Cons m ms)
  then obtain m1 rep1 ms1 where 1: "enrich_mod jt fs m rep = Inr (m1, rep1)"
    "enrich_all jt fs ms rep1 = Inr (ms1, rep')" "ms' = m1 # ms1"
    by (auto split: sum.splits)
  from enrich_mod_requires [OF 1(1)] Cons.IH [OF 1(2)] 1(3) show ?case by simp
qed simp

lemma mods_kept_files: "list_all2 mod_kept ms ms' \<Longrightarrow> map dm_filename ms' = map dm_filename ms"
  by (induction rule: list_all2_induct) simp_all

section \<open>The passes of a build\<close>

text \<open>The two passes a build runs over its copy of the config change nothing but displays: every mod
  stays in its place with its file, source and default, what a person wrote on a mod stays word for
  word, a list of requirements that was written is not touched, and a requirement that appears names
  a file of the same pack.\<close>

theorem passes_keep_authored:
  assumes "enrich_from_mcmod_info jt fs cfg = Inr (cfg1, rep1)"
    and "infer_requires_from_mcmod_info jt fs cfg1 = Inr (cfg2, rep2)"
  shows "cfg2 = cfg\<lparr>cf_mods := cf_mods cfg2\<rparr> \<and> list_all2 mod_kept (cf_mods cfg) (cf_mods cfg2) \<and>
    (\<forall>m' \<in> set (cf_mods cfg2). \<forall>r \<in> set (dp_requires (display_or_default (dm_display m'))).
      (\<exists>m \<in> set (cf_mods cfg). r \<in> set (dp_requires (display_or_default (dm_display m)))) \<or>
      rq_filename r \<in> dm_filename ` set (cf_mods cfg))"
proof -
  from assms(1) obtain ms1 where 1: "enrich_all jt fs (cf_mods cfg) no_enrichment = Inr (ms1, rep1)"
    and cfg1: "cfg1 = cfg\<lparr>cf_mods := ms1\<rparr>"
    by (auto simp: enrich_from_mcmod_info_def split: sum.splits)
  from assms(2) obtain known ms2 where k: "modid_files jt fs ms1 [] = Inr known"
    and 2: "infer_all jt fs known ms1 \<lparr>ir_with_deps = 0, ir_edges_added = 0, ir_unresolved = []\<rparr> = Inr (ms2, rep2)"
    and cfg2: "cfg2 = cfg1\<lparr>cf_mods := ms2\<rparr>"
    by (auto simp: infer_requires_from_mcmod_info_def cfg1 split: sum.splits)
  note kept = enrich_all_kept [OF 1] and all_kept = mods_kept_trans [OF enrich_all_kept [OF 1] infer_all_kept [OF 2]]
  have files: "snd ` set known \<subseteq> dm_filename ` set (cf_mods cfg)"
    using modid_files_from [OF k] mods_kept_files [OF kept] by (metis image_empty list.set(1) list.set_map sup_bot_left)
  have same: "set (map (\<lambda>m. dp_requires (display_or_default (dm_display m))) ms1) =
      set (map (\<lambda>m. dp_requires (display_or_default (dm_display m))) (cf_mods cfg))"
    by (rule arg_cong [OF enrich_all_requires [OF 1]])
  have "(\<exists>m \<in> set (cf_mods cfg). r \<in> set (dp_requires (display_or_default (dm_display m)))) \<or>
      rq_filename r \<in> dm_filename ` set (cf_mods cfg)"
    if r: "m' \<in> set ms2" "r \<in> set (dp_requires (display_or_default (dm_display m')))" for m' r
    using infer_all_edges [OF 2 r] files same by (auto simp: set_eq_iff image_iff) metis
  with all_kept show ?thesis by (simp add: cfg1 cfg2)
qed

text \<open>Both passes are idempotent: over their own output they change nothing.\<close>

theorem passes_idempotent:
  assumes "enrich_from_mcmod_info jt fs cfg = Inr (cfg1, rep1)"
    and "infer_requires_from_mcmod_info jt fs cfg = Inr (cfg2, rep2)"
  shows "(\<exists>rep. enrich_from_mcmod_info jt fs cfg1 = Inr (cfg1, rep)) \<and>
    (\<exists>rep. infer_requires_from_mcmod_info jt fs cfg2 = Inr (cfg2, rep))"
proof
  from assms(1) obtain ms1 where 1: "enrich_all jt fs (cf_mods cfg) no_enrichment = Inr (ms1, rep1)"
    and cfg1: "cfg1 = cfg\<lparr>cf_mods := ms1\<rparr>"
    by (auto simp: enrich_from_mcmod_info_def split: sum.splits)
  from enrich_all_again [OF 1] obtain rep where "enrich_all jt fs ms1 no_enrichment = Inr (ms1, rep)" by blast
  then show "\<exists>rep. enrich_from_mcmod_info jt fs cfg1 = Inr (cfg1, rep)"
    by (simp add: enrich_from_mcmod_info_def cfg1)
next
  let ?r = "\<lparr>ir_with_deps = 0, ir_edges_added = 0, ir_unresolved = []\<rparr>"
  from assms(2) obtain known ms2 where k: "modid_files jt fs (cf_mods cfg) [] = Inr known"
    and 2: "infer_all jt fs known (cf_mods cfg) ?r = Inr (ms2, rep2)" and cfg2: "cfg2 = cfg\<lparr>cf_mods := ms2\<rparr>"
    by (auto simp: infer_requires_from_mcmod_info_def split: sum.splits)
  from infer_all_again [OF 2] obtain rep where "infer_all jt fs known ms2 ?r = Inr (ms2, rep)" by blast
  moreover have "modid_files jt fs ms2 [] = Inr known"
    using modid_files_kept [OF infer_all_kept [OF 2]] k by simp
  ultimately show "\<exists>rep. infer_requires_from_mcmod_info jt fs cfg2 = Inr (cfg2, rep)"
    by (simp add: infer_requires_from_mcmod_info_def cfg2)
qed

section \<open>Examples\<close>

definition jar_info :: "str \<Rightarrow> str list \<Rightarrow> mcmod_info" where
  "jar_info modid deps = \<lparr>mi_modid = modid, mi_name = modid, mi_version = [], mi_mcversion = [],
     mi_description = [], mi_url = [], mi_dependencies = deps, mi_required_mods = [], mi_authors = [],
     mi_logo_file = []\<rparr>"

definition one_entry :: "str \<Rightarrow> str \<Rightarrow> zip" where
  "one_entry name bytes = (let e = \<lparr>ze_is_file = True, ze_declared = length bytes, ze_bytes = Some bytes\<rparr> in
     \<lparr>zp_entries = [(name, e)], zp_by_name = (\<lambda>n. if n = name then Some e else None)\<rparr>)"

text \<open>A reader of jars that hold one entry, the word \<open>[core]\<close> or \<open>[addon]\<close>.\<close>

definition toy_tools :: jar_tools where
  "toy_tools = \<lparr>
     jt_unzip = (\<lambda>jar. Some (one_entry ''mcmod.info'' jar)),
     jt_utf8 = Some, jt_utf8_lossy = (\<lambda>s. s), jt_toml = (\<lambda>_. None), jt_fabric = (\<lambda>_. None),
     jt_mod_array = (\<lambda>s. if s = ''[core]'' then Some [jar_info ''core'' []]
                         else if s = ''[addon]'' then Some [jar_info ''addon'' [''core'', ''forge'']] else None),
     jt_mod_list = (\<lambda>_. None)\<rparr>"

definition core_sha :: str where "core_sha = replicate 40 CHR ''a''"
definition addon_sha :: str where "addon_sha = replicate 40 CHR ''b''"

definition two_cached :: fs where
  "two_cached = [([''cache'', ''aa'', core_sha @ ''.jar''], File (CBytes ''[core]'')),
                 ([''cache'', ''bb'', addon_sha @ ''.jar''], File (CBytes ''[addon]''))]"

definition cached_mod :: "str \<Rightarrow> str \<Rightarrow> declared_mod" where
  "cached_mod f sha = \<lparr>dm_filename = f, dm_default_enabled = True, dm_source = SmrtCache sha,
     dm_display = None, dm_slug = None, dm_pulled = False\<rparr>"

definition addon_pack :: pack_config where
  "addon_pack = sample_config [cached_mod ''core.jar'' core_sha, cached_mod ''addon.jar'' addon_sha]"

definition enriched_pack :: pack_config where
  "enriched_pack = (case enrich_from_mcmod_info toy_tools two_cached addon_pack of Inr (c, _) \<Rightarrow> c | _ \<Rightarrow> addon_pack)"

definition inferred_pack :: pack_config where
  "inferred_pack = (case infer_requires_from_mcmod_info toy_tools two_cached enriched_pack of Inr (c, _) \<Rightarrow> c | _ \<Rightarrow> addon_pack)"

lemma enriches: "enrich_from_mcmod_info toy_tools two_cached addon_pack =
    Inr (enriched_pack, \<lparr>er_with_info = 2, er_filled = 2, er_skipped_modrinth = 0, er_skipped_no_info = 0, er_skipped_complete = 0\<rparr>)"
  by code_simp

lemma infers: "infer_requires_from_mcmod_info toy_tools two_cached enriched_pack =
    Inr (inferred_pack, \<lparr>ir_with_deps = 1, ir_edges_added = 1, ir_unresolved = [(''addon.jar'', ''forge'')]\<rparr>)"
  by code_simp

theorem passes_keep_authored_witness:
  "list_all2 mod_kept (cf_mods addon_pack) (cf_mods inferred_pack) \<and>
   map (\<lambda>m. map rq_filename (dp_requires (display_or_default (dm_display m)))) (cf_mods inferred_pack) = [[], [''core.jar'']]"
  using passes_keep_authored [OF enriches infers] by (simp, code_simp)

theorem passes_idempotent_witness:
  "\<exists>rep. infer_requires_from_mcmod_info toy_tools two_cached inferred_pack = Inr (inferred_pack, rep)"
proof -
  have 1: "enrich_from_mcmod_info toy_tools two_cached enriched_pack = Inr (enriched_pack,
      \<lparr>er_with_info = 2, er_filled = 0, er_skipped_modrinth = 0, er_skipped_no_info = 0, er_skipped_complete = 0\<rparr>)"
    by code_simp
  from passes_idempotent [OF 1 infers] show ?thesis by blast
qed

end
