(* ===== verification/Loader_Window.thy ===== *)
theory Loader_Window
  imports Jar_Meta Resolve Sources Config_Diff
begin

text \<open>
  What each jar of a pack demands of the loader build, and whether the pinned build satisfies it
  (\<open>src/src/authoring/loaderreq.rs\<close>, with the table \<open>artifact_loader_req\<close> of
  \<open>src/src/registry/queries.rs\<close> and \<open>upsert.rs\<close>). The batched lookup of versions at Modrinth and the
  read of one entry of a remote jar are parameters, as is whether the registry answers at all; reads
  that run concurrently are listed in the order of the wanted, since each only adds its own answer.
\<close>

section \<open>What the registry remembers\<close>

record req_row =
  qr_key :: str
  qr_loader :: str
  qr_range :: "str option"

definition artifact_loader_reqs :: "req_row list \<Rightarrow> str \<Rightarrow> (str \<times> str) list option" where
  "artifact_loader_reqs rows key =
     (let found = sort_key qr_loader (filter (\<lambda>r. qr_key r = key) rows) in
      if found = [] then None
      else Some (List.map_filter
        (\<lambda>r. if qr_loader r = [] then None else map_option (Pair (qr_loader r)) (qr_range r)) found))"

text \<open>\<open>INSERT OR REPLACE\<close> under the primary key \<open>(artifact_key, loader)\<close>.\<close>

definition replace_row :: "str \<Rightarrow> str \<times> str \<Rightarrow> req_row list \<Rightarrow> req_row list" where
  "replace_row key req rows =
     (let loader = to_lower (fst req) in
      filter (\<lambda>r. \<not> (qr_key r = key \<and> qr_loader r = loader)) rows @
        [\<lparr>qr_key = key, qr_loader = loader, qr_range = Some (snd req)\<rparr>])"

definition set_artifact_loader_reqs :: "str \<Rightarrow> (str \<times> str) list \<Rightarrow> req_row list \<Rightarrow> req_row list" where
  "set_artifact_loader_reqs key reqs rows =
     (let others = filter (\<lambda>r. qr_key r \<noteq> key) rows in
      if reqs = [] then others @ [\<lparr>qr_key = key, qr_loader = [], qr_range = None\<rparr>]
      else fold (replace_row key) reqs others)"

section \<open>Reading an artifact\<close>

record window_env =
  we_tools :: jar_tools
  we_disk :: fs
  we_versions :: "str list \<Rightarrow> (str \<times> mr_version) list option"
  we_remote :: "str \<Rightarrow> (str \<times> str) option option"
  we_registry_reads :: bool
  we_registry_writes :: bool

definition artifact_key :: "source_decl \<Rightarrow> str option" where
  "artifact_key source =
     (case source of
        SmrtCache sha \<Rightarrow> Some sha
      | Modrinth _ version_id \<Rightarrow> Some (''modrinth:'' @ version_id)
      | SmrtStatic _ \<Rightarrow> None)"

definition flatten_reqs :: "loader_req list \<Rightarrow> (str \<times> str) list" where
  "flatten_reqs reqs = map (\<lambda>r. (to_lower (lq_loader r), lq_range r)) reqs"

definition read_local :: "window_env \<Rightarrow> path \<Rightarrow> (str \<times> str) list option" where
  "read_local env path =
     map_option (\<lambda>jar. flatten_reqs (mm_loader_reqs (read_mod_meta (we_tools env) jar)))
       (read_text (we_disk env) path)"

text \<open>A remote jar: \<open>None\<close> could not be read, \<open>Some None\<close> carries no modern manifest.\<close>

definition read_remote :: "window_env \<Rightarrow> str \<Rightarrow> (str \<times> str) list option" where
  "read_remote env url =
     (case we_remote env url of
        None \<Rightarrow> None
      | Some None \<Rightarrow> Some []
      | Some (Some (name, bytes)) \<Rightarrow>
          Some (flatten_reqs (mm_loader_reqs
            (if ends_with name ''.json'' then parse_fabric_json (we_tools env) bytes
             else parse_mods_toml (we_tools env) (jt_utf8_lossy (we_tools env) bytes)))))"

definition modrinth_file_urls :: "window_env \<Rightarrow> (str \<times> source_decl) list \<Rightarrow> (str \<times> str) list" where
  "modrinth_file_urls env wanted =
     (let ids = List.map_filter (\<lambda>(_, s). case s of Modrinth _ v \<Rightarrow> Some v | _ \<Rightarrow> None) wanted in
      if ids = [] then []
      else case we_versions env ids of
        None \<Rightarrow> []
      | Some versions \<Rightarrow>
          List.map_filter (\<lambda>(i, v). map_option (\<lambda>f. (i, vf_url f)) (primary_file v)) versions)"

definition read_artifact :: "window_env \<Rightarrow> (str \<times> str) list \<Rightarrow> source_decl \<Rightarrow> (str \<times> str) list option" where
  "read_artifact env urls source =
     (case source of
        SmrtCache sha \<Rightarrow> Option.bind (cache_jar_path_in sha) (read_local env)
      | Modrinth _ version_id \<Rightarrow> Option.bind (hash_of urls version_id) (read_remote env)
      | SmrtStatic _ \<Rightarrow> None)"

definition read_artifacts :: "window_env \<Rightarrow> (str \<times> source_decl) list \<Rightarrow> (str \<times> (str \<times> str) list) list" where
  "read_artifacts env wanted =
     (let urls = modrinth_file_urls env wanted in
      List.map_filter (\<lambda>(key, source). map_option (Pair key) (read_artifact env urls source)) wanted)"

section \<open>The check\<close>

record window_report =
  wr_issues :: "loader_version_issue list"
  wr_unchecked :: nat

definition declared_artifacts :: "pack_config \<Rightarrow> (str \<times> str \<times> source_decl) list" where
  "declared_artifacts cfg =
     List.map_filter (\<lambda>m. map_option (\<lambda>k. (dm_filename m, k, dm_source m)) (artifact_key (dm_source m))) (cf_mods cfg)"

definition read_known :: "window_env \<Rightarrow> req_row list \<Rightarrow> str \<Rightarrow> (str \<times> str) list option" where
  "read_known env rows key = (if we_registry_reads env then artifact_loader_reqs rows key else None)"

definition store_learned ::
  "window_env \<Rightarrow> (str \<times> (str \<times> str) list) list \<Rightarrow> req_row list \<Rightarrow> req_row list" where
  "store_learned env learned rows =
     (if we_registry_writes env then fold (\<lambda>(key, reqs). set_artifact_loader_reqs key reqs) learned rows
      else rows)"

definition pack_loader :: "pack_config \<Rightarrow> str" where
  "pack_loader cfg = to_lower (trim (ls_name (cf_loader cfg)))"

definition own_windows :: "pack_config \<Rightarrow> (str \<times> str) list \<Rightarrow> (str \<times> str) list" where
  "own_windows cfg reqs = filter (\<lambda>(loader, _). loader = pack_loader cfg) reqs"

definition judge_artifact ::
  "pack_config \<Rightarrow> (str \<Rightarrow> (str \<times> str) list option) \<Rightarrow> str \<times> str \<times> source_decl \<Rightarrow>
     loader_version_issue list \<times> nat" where
  "judge_artifact cfg known d =
     (case d of (filename, key, _) \<Rightarrow>
       (case known key of
          None \<Rightarrow> ([], 1)
        | Some reqs \<Rightarrow>
            let version = ls_version (cf_loader cfg); mine = own_windows cfg reqs in
            (map (\<lambda>(loader, rng). \<lparr>li_filename = filename, li_loader = loader,
                   li_pack_version = version, li_required_range = rng\<rparr>)
               (filter (\<lambda>(_, rng). in_range version rng = Some False) mine),
             length (filter (\<lambda>(_, rng). in_range version rng = None) mine))))"

definition judge_all ::
  "pack_config \<Rightarrow> (str \<Rightarrow> (str \<times> str) list option) \<Rightarrow> (str \<times> str \<times> source_decl) list \<Rightarrow> window_report" where
  "judge_all cfg known declared =
     (let js = map (judge_artifact cfg known) declared in
      \<lparr>wr_issues = sort_key (\<lambda>i. (li_filename i, li_loader i)) (concat (map fst js)),
       wr_unchecked = sum_list (map snd js)\<rparr>)"

definition window_misses :: "window_env \<Rightarrow> pack_config \<Rightarrow> req_row list \<Rightarrow> (str \<times> source_decl) list" where
  "window_misses env cfg rows =
     List.map_filter (\<lambda>(_, key, source). if read_known env rows key = None then Some (key, source) else None)
       (declared_artifacts cfg)"

definition learned_windows :: "window_env \<Rightarrow> pack_config \<Rightarrow> req_row list \<Rightarrow> (str \<times> (str \<times> str) list) list" where
  "learned_windows env cfg rows =
     (let wanted = window_misses env cfg rows in if wanted = [] then [] else read_artifacts env wanted)"

definition window_answer :: "window_env \<Rightarrow> pack_config \<Rightarrow> req_row list \<Rightarrow> str \<Rightarrow> (str \<times> str) list option" where
  "window_answer env cfg rows key =
     (case hash_of (learned_windows env cfg rows) key of
        Some reqs \<Rightarrow> Some reqs | None \<Rightarrow> read_known env rows key)"

definition loader_windows ::
  "window_env \<Rightarrow> pack_config \<Rightarrow> req_row list \<Rightarrow> window_report \<times> req_row list" where
  "loader_windows env cfg rows =
     (let declared = declared_artifacts cfg in
      if declared = [] then (\<lparr>wr_issues = [], wr_unchecked = 0\<rparr>, rows)
      else (judge_all cfg (window_answer env cfg rows) declared,
            store_learned env (learned_windows env cfg rows) rows))"

text \<open>\<open>LoaderWindowReport::apply\<close>\<close>

definition apply_windows :: "window_report \<Rightarrow> resolve_report \<Rightarrow> resolve_report" where
  "apply_windows w r = r\<lparr>
     rr_version_windows_unchecked := rr_version_windows_unchecked r + wr_unchecked w,
     rr_loader_version_issues := wr_issues w\<rparr>"

section \<open>What is found\<close>

lemma in_map_filter_iff: "y \<in> set (List.map_filter f xs) \<longleftrightarrow> (\<exists>x \<in> set xs. f x = Some y)"
  by (induction xs) (auto simp: List.map_filter_simps split: option.splits)

lemma judge_artifact_issue:
  "i \<in> set (fst (judge_artifact cfg known (f, key, src))) \<longleftrightarrow>
     (\<exists>reqs rng. known key = Some reqs \<and> (pack_loader cfg, rng) \<in> set reqs \<and>
        in_range (ls_version (cf_loader cfg)) rng = Some False \<and>
        i = \<lparr>li_filename = f, li_loader = pack_loader cfg, li_pack_version = ls_version (cf_loader cfg),
             li_required_range = rng\<rparr>)"
  by (auto simp: judge_artifact_def Let_def own_windows_def image_iff split: option.split)

lemma judge_all_issues: "set (wr_issues (judge_all cfg known ds)) = (\<Union>d \<in> set ds. set (fst (judge_artifact cfg known d)))"
  by (simp add: judge_all_def Let_def)

text \<open>A pack is told its pinned loader build is out of window exactly when some declared jar, as far as
  the mirror could read it, names a range for the loader of the pack that does not contain the pin; the
  finding names that jar, the pin and the range. A jar that could not be read is never a finding.\<close>

theorem window_issue_iff:
  "i \<in> set (wr_issues (fst (loader_windows env cfg rows))) \<longleftrightarrow>
     (\<exists>f key src reqs rng. (f, key, src) \<in> set (declared_artifacts cfg) \<and>
        window_answer env cfg rows key = Some reqs \<and> (pack_loader cfg, rng) \<in> set reqs \<and>
        in_range (ls_version (cf_loader cfg)) rng = Some False \<and>
        i = \<lparr>li_filename = f, li_loader = pack_loader cfg, li_pack_version = ls_version (cf_loader cfg),
             li_required_range = rng\<rparr>)"
proof -
  have "set (wr_issues (fst (loader_windows env cfg rows))) =
      (\<Union>d \<in> set (declared_artifacts cfg). set (fst (judge_artifact cfg (window_answer env cfg rows) d)))"
    by (simp add: loader_windows_def Let_def judge_all_issues)
  then have "i \<in> set (wr_issues (fst (loader_windows env cfg rows))) \<longleftrightarrow>
      (\<exists>f key src. (f, key, src) \<in> set (declared_artifacts cfg) \<and>
        i \<in> set (fst (judge_artifact cfg (window_answer env cfg rows) (f, key, src))))"
    by (simp add: Bex_def)
  then show ?thesis unfolding judge_artifact_issue by blast
qed

section \<open>What is remembered\<close>

text \<open>What a reading yields: loaders of the four the mirror knows, in lower case.\<close>

definition plain_reqs :: "(str \<times> str) list \<Rightarrow> bool" where
  "plain_reqs reqs \<longleftrightarrow> (\<forall>r \<in> set reqs. fst r \<noteq> [] \<and> to_lower (fst r) = fst r)"

lemma flatten_plain: "list_all good_req reqs \<Longrightarrow> plain_reqs (flatten_reqs reqs)"
proof -
  have "to_lower ''forge'' = ''forge''" "to_lower ''neoforge'' = ''neoforge''" "to_lower ''fabric'' = ''fabric''"
    "to_lower ''quilt'' = ''quilt''" by code_simp+
  then show "list_all good_req reqs \<Longrightarrow> ?thesis"
    by (auto simp: plain_reqs_def flatten_reqs_def list_all_iff good_req_def)
qed

lemma meta_plain: "good_meta m \<Longrightarrow> plain_reqs (flatten_reqs (mm_loader_reqs m))"
  by (simp add: good_meta_def flatten_plain)

lemma read_local_plain: "read_local env p = Some reqs \<Longrightarrow> plain_reqs reqs"
  by (auto simp: read_local_def meta_plain read_meta_good)

lemma read_remote_plain: "read_remote env url = Some reqs \<Longrightarrow> plain_reqs reqs"
  by (auto simp: read_remote_def meta_plain parse_toml_good parse_fabric_good plain_reqs_def [of "[]"]
      split: option.splits if_splits)

lemma read_artifact_plain: "read_artifact env urls s = Some reqs \<Longrightarrow> plain_reqs reqs"
  by (auto simp: read_artifact_def bind_eq_Some_conv read_local_plain read_remote_plain split: source_decl.splits)

lemma learned_plain: "(key, reqs) \<in> set (learned_windows env cfg rows) \<Longrightarrow> plain_reqs reqs"
  by (auto simp: learned_windows_def Let_def read_artifacts_def in_map_filter_iff read_artifact_plain split: if_splits)

lemma replace_rows:
  assumes "plain_reqs reqs" "distinct (map fst reqs)" "\<forall>r \<in> set rows. qr_key r = key \<longrightarrow> qr_loader r \<notin> fst ` set reqs"
  shows "filter (\<lambda>r. qr_key r = key) (fold (replace_row key) reqs rows) =
      filter (\<lambda>r. qr_key r = key) rows @ map (\<lambda>(l, rng). \<lparr>qr_key = key, qr_loader = l, qr_range = Some rng\<rparr>) reqs \<and>
    (\<forall>k. k \<noteq> key \<longrightarrow> filter (\<lambda>r. qr_key r = k) (fold (replace_row key) reqs rows) = filter (\<lambda>r. qr_key r = k) rows)"
  using assms
proof (induction reqs arbitrary: rows)
  case (Cons q reqs)
  obtain l rng where q: "q = (l, rng)" by (cases q)
  let ?row = "\<lparr>qr_key = key, qr_loader = l, qr_range = Some rng\<rparr>"
  from Cons.prems q have low: "to_lower l = l" and fresh: "\<forall>r \<in> set rows. qr_key r = key \<longrightarrow> qr_loader r \<noteq> l"
    by (auto simp: plain_reqs_def)
  then have step: "replace_row key q rows = rows @ [?row]"
    by (auto simp: replace_row_def q filter_id_conv)
  have "\<forall>r \<in> set (rows @ [?row]). qr_key r = key \<longrightarrow> qr_loader r \<notin> fst ` set reqs"
    using Cons.prems(2,3) q by auto
  moreover have "plain_reqs reqs" "distinct (map fst reqs)" using Cons.prems(1,2) by (auto simp: plain_reqs_def)
  ultimately show ?case
    using Cons.IH [of "rows @ [?row]"] by (simp add: step [unfolded q] q)
qed simp

lemma insort_map: "insort_key f (g x) (map g xs) = map g (insort_key (\<lambda>y. f (g y)) x xs)"
  by (induction xs) auto

lemma sort_map: "sort_key f (map g xs) = map g (sort_key (\<lambda>y. f (g y)) xs)"
  by (induction xs) (simp_all add: insort_map)

lemma sort_nil_iff: "sort_key f xs = [] \<longleftrightarrow> xs = []"
  by (metis length_0_conv length_sort)

lemma stored_other:
  assumes "plain_reqs reqs" "distinct (map fst reqs)" "k \<noteq> key"
  shows "artifact_loader_reqs (set_artifact_loader_reqs key reqs rows) k = artifact_loader_reqs rows k"
proof -
  let ?o = "filter (\<lambda>r. qr_key r \<noteq> key) rows"
  have "filter (\<lambda>r. qr_key r = k) (set_artifact_loader_reqs key reqs rows) = filter (\<lambda>r. qr_key r = k) ?o"
    using replace_rows [OF assms(1,2), of ?o key] assms(3)
    by (cases "reqs = []") (simp_all add: set_artifact_loader_reqs_def Let_def)
  also have "\<dots> = filter (\<lambda>r. qr_key r = k) rows"
    unfolding filter_filter using assms(3) by (intro filter_cong) auto
  finally show ?thesis by (simp add: artifact_loader_reqs_def)
qed

lemma stored_self:
  assumes "plain_reqs reqs" "distinct (map fst reqs)"
  shows "artifact_loader_reqs (set_artifact_loader_reqs key reqs rows) key = Some (sort_key fst reqs)"
proof (cases "reqs = []")
  case False
  let ?o = "filter (\<lambda>r. qr_key r \<noteq> key) rows"
  let ?row = "\<lambda>(l, rng). \<lparr>qr_key = key, qr_loader = l, qr_range = Some rng\<rparr>"
  have "filter (\<lambda>r. qr_key r = key) (set_artifact_loader_reqs key reqs rows) = map ?row reqs"
    using replace_rows [OF assms, of ?o key] False by (auto simp: set_artifact_loader_reqs_def filter_empty_conv)
  moreover have "sort_key qr_loader (map ?row reqs) = map ?row (sort_key fst reqs)"
    by (simp add: sort_map split_def)
  moreover have "List.map_filter (\<lambda>r. if qr_loader r = [] then None else map_option (Pair (qr_loader r)) (qr_range r)) (map ?row xs) = xs"
    if "\<forall>r \<in> set xs. fst r \<noteq> []" for xs
    using that by (induction xs) (auto simp: List.map_filter_simps)
  ultimately show ?thesis
    using False assms(1) by (simp add: artifact_loader_reqs_def plain_reqs_def sort_nil_iff)
qed (simp add: artifact_loader_reqs_def set_artifact_loader_reqs_def List.map_filter_simps filter_empty_conv)

lemma map_filter_Nil: "(\<forall>x \<in> set xs. f x = None) \<Longrightarrow> List.map_filter f xs = []"
  by (induction xs) (auto simp: List.map_filter_simps)

lemma stored_windows:
  assumes "\<And>k reqs. (k, reqs) \<in> set learned \<Longrightarrow> plain_reqs reqs \<and> distinct (map fst reqs)"
  shows "artifact_loader_reqs (fold (\<lambda>(key, reqs). set_artifact_loader_reqs key reqs) learned rows) key =
    (case hash_of learned key of Some reqs \<Rightarrow> Some (sort_key fst reqs) | None \<Rightarrow> artifact_loader_reqs rows key)"
  using assms
proof (induction learned rule: rev_induct)
  case (snoc x xs)
  obtain k reqs where x: "x = (k, reqs)" by (cases x)
  with snoc.prems [of k reqs] have r: "plain_reqs reqs" "distinct (map fst reqs)" by auto
  have ih: "artifact_loader_reqs (fold (\<lambda>(key, reqs). set_artifact_loader_reqs key reqs) xs rows) key =
      (case hash_of xs key of Some reqs \<Rightarrow> Some (sort_key fst reqs) | None \<Rightarrow> artifact_loader_reqs rows key)"
  proof (rule snoc.IH)
    show "plain_reqs q \<and> distinct (map fst q)" if "(k, q) \<in> set xs" for k q
      using snoc.prems [of k q] that by simp
  qed
  show ?case
    using ih stored_self [OF r, of k] stored_other [OF r, of key k]
    by (cases "key = k") (simp_all add: x hash_of_def)
qed (simp add: hash_of_def)

lemma sort_same_key: "(\<forall>x \<in> set xs. f x = c) \<Longrightarrow> sort_key f xs = xs"
  by (induction xs) (auto simp: insort_is_Cons)

lemma own_windows_sorted: "own_windows cfg (sort_key fst reqs) = own_windows cfg reqs"
  unfolding own_windows_def filter_sort by (rule sort_same_key [of _ _ "pack_loader cfg"]) auto

lemma judge_artifact_cong:
  assumes "map_option (own_windows cfg) (known1 key) = map_option (own_windows cfg) (known2 key)"
  shows "judge_artifact cfg known1 (f, key, src) = judge_artifact cfg known2 (f, key, src)"
  using assms by (cases "known1 key"; cases "known2 key") (simp_all add: judge_artifact_def)

text \<open>An artifact is read once. Once every declared jar has been read and the reading stored, the check
  answers the same from the registry alone, whatever has become of the network and the disk, as long as
  no jar names one loader twice.\<close>

theorem second_check_asks_nothing:
  assumes "we_registry_reads env" "we_registry_writes env" "we_registry_reads env2"
    and answered: "\<And>f key src. (f, key, src) \<in> set (declared_artifacts cfg) \<Longrightarrow> window_answer env cfg rows key \<noteq> None"
    and once: "\<And>key reqs. (key, reqs) \<in> set (learned_windows env cfg rows) \<Longrightarrow> distinct (map fst reqs)"
  shows "loader_windows env2 cfg (snd (loader_windows env cfg rows)) = loader_windows env cfg rows"
proof (cases "declared_artifacts cfg = []")
  case False
  let ?learned = "learned_windows env cfg rows"
  let ?rows' = "fold (\<lambda>(key, reqs). set_artifact_loader_reqs key reqs) ?learned rows"
  have known: "read_known env2 ?rows' key =
      (case hash_of ?learned key of Some reqs \<Rightarrow> Some (sort_key fst reqs) | None \<Rightarrow> artifact_loader_reqs rows key)" for key
    using stored_windows [of ?learned rows key] learned_plain once assms(3) by (auto simp: read_known_def)
  have first: "window_answer env cfg rows key =
      (case hash_of ?learned key of Some reqs \<Rightarrow> Some reqs | None \<Rightarrow> artifact_loader_reqs rows key)" for key
    using assms(1) by (simp add: window_answer_def read_known_def cong: option.case_cong)
  have none: "read_known env2 ?rows' key \<noteq> None" if "(f, key, src) \<in> set (declared_artifacts cfg)" for f key src
    using answered [OF that] known first by (auto split: option.splits)
  then have "window_misses env2 cfg ?rows' = []"
    unfolding window_misses_def by (intro map_filter_Nil) (force split: prod.split)
  then have learned2: "learned_windows env2 cfg ?rows' = []" by (simp add: learned_windows_def)
  then have second: "window_answer env2 cfg ?rows' = read_known env2 ?rows'"
    by (simp add: fun_eq_iff window_answer_def hash_of_def)
  have "judge_artifact cfg (read_known env2 ?rows') d = judge_artifact cfg (window_answer env cfg rows) d" for d
    by (cases d; simp only:; rule judge_artifact_cong)
      (simp add: known first own_windows_sorted split: option.split)
  then have "judge_all cfg (read_known env2 ?rows') ds = judge_all cfg (window_answer env cfg rows) ds" for ds
    by (simp add: judge_all_def comp_def)
  then show ?thesis
    using False assms(2) learned2 second by (simp add: loader_windows_def Let_def store_learned_def)
qed (simp add: loader_windows_def)

text \<open>A jar that bundles two mods, each with its own range for one loader, is judged by both ranges the
  first time and by the last of them from then on: the table has one row per jar and loader.\<close>

lemma second_window_replaces_first:
  "artifact_loader_reqs (set_artifact_loader_reqs ''k'' [(''neoforge'', ''[21.1.238,)''), (''neoforge'', ''[21,)'')] []) ''k'' =
     Some [(''neoforge'', ''[21,)'')]"
  by code_simp

section \<open>An example\<close>

definition jei_env :: "bool \<Rightarrow> window_env" where
  "jei_env up = \<lparr>
     we_tools = \<lparr>jt_unzip = (\<lambda>_. None), jt_utf8 = Some, jt_utf8_lossy = (\<lambda>s. s), jt_toml = (\<lambda>_. Some
         \<lparr>mt_mods = [], mt_logo_file = None, mt_dependencies = [(''jei'', [\<lparr>td_mod_id = Some ''neoforge'',
            td_mandatory = None, td_dep_type = Some ''required'', td_version_range = Some ''[21.1.238,)'',
            td_side = None\<rparr>])]\<rparr>), jt_fabric = (\<lambda>_. None), jt_mod_array = (\<lambda>_. None), jt_mod_list = (\<lambda>_. None)\<rparr>,
     we_disk = [], we_versions = (\<lambda>ids. if up then Some (map (\<lambda>i. (i, \<lparr>vr_id = i, vr_project_id = [], vr_name = [],
         vr_version_number = [], vr_version_type = [], vr_game_versions = [], vr_loaders = [],
         vr_files = [\<lparr>vf_sha1 = [], vf_url = i, vf_filename = [], vf_primary = True, vf_size = 1\<rparr>],
         vr_dependencies = []\<rparr>)) ids) else None),
     we_remote = (\<lambda>_. if up then Some (Some (''META-INF/neoforge.mods.toml'', [])) else None),
     we_registry_reads = True, we_registry_writes = True\<rparr>"

definition jei_pack :: pack_config where
  "jei_pack = (sample_config [jei])\<lparr>cf_loader := \<lparr>ls_name = ''NeoForge'', ls_version = ''21.1.234''\<rparr>\<rparr>"

lemma jei_first: "loader_windows (jei_env True) jei_pack [] =
   (\<lparr>wr_issues = [\<lparr>li_filename = ''jei.jar'', li_loader = ''neoforge'', li_pack_version = ''21.1.234'',
        li_required_range = ''[21.1.238,)''\<rparr>], wr_unchecked = 0\<rparr>,
    [\<lparr>qr_key = ''modrinth:V'', qr_loader = ''neoforge'', qr_range = Some ''[21.1.238,)''\<rparr>])"
  by code_simp

theorem second_check_asks_nothing_witness:
  "wr_issues (fst (loader_windows (jei_env False) jei_pack
     [\<lparr>qr_key = ''modrinth:V'', qr_loader = ''neoforge'', qr_range = Some ''[21.1.238,)''\<rparr>])) =
   [\<lparr>li_filename = ''jei.jar'', li_loader = ''neoforge'', li_pack_version = ''21.1.234'',
     li_required_range = ''[21.1.238,)''\<rparr>]"
proof -
  have d: "declared_artifacts jei_pack = [(''jei.jar'', ''modrinth:V'', Modrinth ''P'' ''V'')]" by code_simp
  have l: "learned_windows (jei_env True) jei_pack [] = [(''modrinth:V'', [(''neoforge'', ''[21.1.238,)'')])]" by code_simp
  have a: "window_answer (jei_env True) jei_pack [] ''modrinth:V'' \<noteq> None" by code_simp
  have flags: "we_registry_reads (jei_env u)" "we_registry_writes (jei_env u)" for u by (simp_all add: jei_env_def)
  have "loader_windows (jei_env False) jei_pack (snd (loader_windows (jei_env True) jei_pack [])) =
      loader_windows (jei_env True) jei_pack []"
    by (rule second_check_asks_nothing [OF flags(1,2) flags(1)]) (use a in \<open>auto simp only: d l list.set list.map fst_conv prod.inject empty_iff insert_iff distinct.simps\<close>)
  then show ?thesis by (simp add: jei_first)
qed

end
