(* ===== verification/Jobs.thy ===== *)
theory Jobs
  imports Disk_Frame
begin

text \<open>
  Background jobs (\<open>src/src/jobs.rs\<close>): the job with its log, the registry that mints ids and forgets
  old jobs, the snapshots on disk that survive a restart (\<open>src/src/storage.rs\<close>), and the event stream a
  client tails a job with (\<open>src/src/http/jobs.rs\<close>). The clock is an argument. The locks that serialize
  access are not modelled: each operation runs alone.
\<close>

section \<open>A job\<close>

record dry_run =
  dr_manifest :: pack_manifest
  dr_summary :: pack_summary

record job =
  jb_id :: str
  jb_kind :: str
  jb_pack_id :: str
  jb_log :: "str list"
  jb_status :: job_status
  jb_result :: "dry_run option"
  jb_blocked :: "str list"

definition job_line :: "str \<Rightarrow> job \<Rightarrow> job" where
  "job_line text j = j\<lparr>jb_log := jb_log j @ [text]\<rparr>"

definition job_finish :: "job_status \<Rightarrow> job \<Rightarrow> job" where
  "job_finish status j = j\<lparr>jb_status := status\<rparr>"

definition job_set_result :: "dry_run \<Rightarrow> job \<Rightarrow> job" where
  "job_set_result r j = j\<lparr>jb_result := Some r\<rparr>"

definition job_set_blocked :: "str list \<Rightarrow> job \<Rightarrow> job" where
  "job_set_blocked lines j = j\<lparr>jb_blocked := lines\<rparr>"

text \<open>\<open>log.get(from..)\<close> is nothing past the end.\<close>

definition job_since :: "nat \<Rightarrow> job \<Rightarrow> str list \<times> job_status" where
  "job_since from j = (drop from (jb_log j), jb_status j)"

definition snapshot_of :: "job \<Rightarrow> job_snapshot" where
  "snapshot_of j = (case job_since 0 j of (log, status) \<Rightarrow>
     \<lparr>js_job_id = jb_id j, js_kind = jb_kind j, js_pack_id = jb_pack_id j, js_status = status,
      js_log = log\<rparr>)"

section \<open>The registry\<close>

fun show_hex :: "nat \<Rightarrow> str" where
  "show_hex n = (let d = (\<lambda>k. char_of (if k < 10 then 48 + k else 87 + k)) in
     if n < 16 then [d n] else show_hex (n div 16) @ [d (n mod 16)])"

declare show_hex.simps [simp del]

text \<open>\<open>{:0w}\<close>\<close>

definition zero_pad :: "nat \<Rightarrow> str \<Rightarrow> str" where
  "zero_pad w s = replicate (w - length s) CHR ''0'' @ s"

definition mint_job_id :: "nat \<Rightarrow> nat \<Rightarrow> str" where
  "mint_job_id ms n = zero_pad 13 (show_hex ms) @ CHR ''-'' # zero_pad 8 (show_nat n)"

record job_registry =
  jr_jobs :: "(str \<times> job) list"
  jr_counter :: nat

definition get_job :: "str \<Rightarrow> job_registry \<Rightarrow> job option" where
  "get_job i reg = map_of (jr_jobs reg) i"

definition forget_job :: "str \<Rightarrow> (str \<times> job) list \<Rightarrow> (str \<times> job) list" where
  "forget_job i jobs = filter (\<lambda>(k, _). k \<noteq> i) jobs"

definition oldest_finished :: "(str \<times> job) list \<Rightarrow> str option" where
  "oldest_finished jobs =
     (case sort (map (\<lambda>(_, j). jb_id j) (filter (\<lambda>(_, j). jb_status j \<noteq> Running) jobs)) of
        [] \<Rightarrow> None | victim # _ \<Rightarrow> Some victim)"

definition evict_oldest :: "(str \<times> job) list \<Rightarrow> (str \<times> job) list" where
  "evict_oldest jobs =
     (if length jobs > 50
      then (case oldest_finished jobs of None \<Rightarrow> jobs | Some victim \<Rightarrow> forget_job victim jobs)
      else jobs)"

definition create_job :: "nat \<Rightarrow> str \<Rightarrow> str \<Rightarrow> job_registry \<Rightarrow> job \<times> job_registry" where
  "create_job now kind pack_id reg =
     (let n = jr_counter reg;
          i = mint_job_id now n;
          job = \<lparr>jb_id = i, jb_kind = kind, jb_pack_id = pack_id, jb_log = [], jb_status = Running,
                 jb_result = None, jb_blocked = []\<rparr>;
          jobs = (i, job) # forget_job i (jr_jobs reg)
      in (job, \<lparr>jr_jobs = evict_oldest jobs, jr_counter = (n + 1) mod 2 ^ 64\<rparr>))"

section \<open>Snapshots\<close>

definition jobs_dir :: path where
  "jobs_dir = [''jobs'']"

abbreviation job_file :: "str \<Rightarrow> path" where
  "job_file i \<equiv> jobs_dir @ [i @ ''.json'']"

definition save_job_snapshot :: "job_snapshot \<Rightarrow> fs \<Rightarrow> (api_error + unit) \<times> fs" where
  "save_job_snapshot snap fs =
     (if \<not> is_safe_job_id (js_job_id snap) then (bad_request ''invalid job id'', fs)
      else case create_dir_all jobs_dir fs of
        (Inl e, fs) \<Rightarrow> (Inl e, fs)
      | (Inr _, fs) \<Rightarrow> atomic_write (job_file (js_job_id snap)) (CJob snap) fs)"

definition load_job_snapshot :: "str \<Rightarrow> fs \<Rightarrow> api_error + job_snapshot option" where
  "load_job_snapshot i fs =
     (if \<not> is_safe_job_id i then bad_request ''invalid job id''
      else Inr (case fs_read fs (job_file i) of Some (CJob s) \<Rightarrow> Some s | _ \<Rightarrow> None))"

text \<open>\<open>persist\<close>: a write that fails is only logged.\<close>

definition persist :: "job \<Rightarrow> fs \<Rightarrow> fs" where
  "persist j fs = snd (save_job_snapshot (snapshot_of j) fs)"

definition interrupted :: "job_snapshot \<Rightarrow> job_snapshot" where
  "interrupted s = s\<lparr>js_status := Failed, js_log := js_log s @ [''interrupted by service restart'']\<rparr>"

fun mark_interrupted :: "str list \<Rightarrow> nat \<Rightarrow> fs \<Rightarrow> (api_error + nat) \<times> fs" where
  "mark_interrupted [] n fs = (Inr n, fs)"
| "mark_interrupted (i # is) n fs =
     (case load_job_snapshot i fs of
        Inl e \<Rightarrow> (Inl e, fs)
      | Inr None \<Rightarrow> mark_interrupted is n fs
      | Inr (Some snap) \<Rightarrow>
          if js_status snap = Running then
            (case save_job_snapshot (interrupted snap) fs of
               (Inl e, fs) \<Rightarrow> (Inl e, fs)
             | (Inr _, fs) \<Rightarrow> mark_interrupted is (n + 1) fs)
          else mark_interrupted is n fs)"

definition snapshot_ids :: "fs \<Rightarrow> str list" where
  "snapshot_ids fs = List.map_filter (strip_suffix ''.json'')
     (map fst (case read_dir fs jobs_dir of None \<Rightarrow> [] | Some es \<Rightarrow> es))"

definition sweep_job_snapshots :: "nat \<Rightarrow> fs \<Rightarrow> (api_error + nat) \<times> fs" where
  "sweep_job_snapshots keep fs =
     (case read_dir fs jobs_dir of
        None \<Rightarrow> (Inr 0, fs)
      | Some _ \<Rightarrow>
          let ids = snapshot_ids fs in
          case mark_interrupted ids 0 fs of
            (Inl e, fs) \<Rightarrow> (Inl e, fs)
          | (Inr n, fs) \<Rightarrow>
              (Inr n, fold (\<lambda>i. remove_file_quiet (job_file i))
                 (if length ids > keep then take (length ids - keep) (sort ids) else []) fs))"

section \<open>Tailing\<close>

datatype sse_event = SseLine str | SseDone | SseFailed

text \<open>One turn of the loop in \<open>job_events\<close>: what is sent, and whether the stream ends.\<close>

definition sse_turn :: "nat \<Rightarrow> job \<Rightarrow> sse_event list \<times> nat \<times> bool" where
  "sse_turn sent j =
     (case job_since sent j of (lines, status) \<Rightarrow>
        (map SseLine lines @ (case status of Running \<Rightarrow> [] | Done \<Rightarrow> [SseDone] | Failed \<Rightarrow> [SseFailed]),
         sent + length lines, status \<noteq> Running))"

text \<open>The stream over the states of the job at the turns of the loop.\<close>

fun sse_stream :: "nat \<Rightarrow> job list \<Rightarrow> sse_event list" where
  "sse_stream sent [] = []"
| "sse_stream sent (j # js) =
     (case sse_turn sent j of (out, sent', finished) \<Rightarrow>
        out @ (if finished then [] else sse_stream sent' js))"

text \<open>\<open>job_status\<close>: from memory, else from the snapshot.\<close>

record job_status_resp =
  rp_job_id :: str
  rp_kind :: str
  rp_pack_id :: str
  rp_status :: job_status
  rp_log :: "str list"
  rp_blocked :: "str list"
  rp_result :: "dry_run option"

definition job_status_of :: "str \<Rightarrow> job_registry \<Rightarrow> fs \<Rightarrow> api_error + job_status_resp" where
  "job_status_of i reg fs =
     (case get_job i reg of
        Some j \<Rightarrow> (case job_since 0 j of (log, status) \<Rightarrow>
          Inr \<lparr>rp_job_id = jb_id j, rp_kind = jb_kind j, rp_pack_id = jb_pack_id j, rp_status = status,
               rp_log = log, rp_blocked = jb_blocked j, rp_result = jb_result j\<rparr>)
      | None \<Rightarrow>
          (case load_job_snapshot i fs of
             Inl e \<Rightarrow> Inl e
           | Inr None \<Rightarrow> Inl NotFound
           | Inr (Some s) \<Rightarrow>
               Inr \<lparr>rp_job_id = js_job_id s, rp_kind = js_kind s, rp_pack_id = js_pack_id s,
                    rp_status = js_status s, rp_log = js_log s, rp_blocked = [], rp_result = None\<rparr>))"

section \<open>The stream loses no line\<close>

lemma sse_stream_tail:
  assumes "sent \<le> length (jb_log j)" "jb_status j \<noteq> Running"
    and "\<And>i. i < length js \<Longrightarrow> jb_status (js ! i) = Running"
    and "sorted_wrt (\<lambda>a b. prefix (jb_log a) (jb_log b)) (js @ [j])" "\<forall>a \<in> set js. sent \<le> length (jb_log a)"
  shows "sse_stream sent (js @ [j]) =
    map SseLine (drop sent (jb_log j)) @ [if jb_status j = Done then SseDone else SseFailed]"
  using assms
proof (induction js arbitrary: sent)
  case Nil
  then show ?case by (cases "jb_status j") (simp_all add: sse_turn_def job_since_def)
next
  case (Cons a js)
  have run: "jb_status a = Running" using Cons.prems(3) [of 0] by simp
  have pre: "prefix (jb_log a) (jb_log b)" if "b \<in> set (js @ [j])" for b
    using Cons.prems(4) that by auto
  have len: "length (jb_log a) \<le> length (jb_log b)" if "b \<in> set (js @ [j])" for b
    by (rule prefix_length_le [OF pre [OF that]])
  have "sse_stream (length (jb_log a)) (js @ [j]) =
      map SseLine (drop (length (jb_log a)) (jb_log j)) @ [if jb_status j = Done then SseDone else SseFailed]"
  proof (rule Cons.IH)
    show "jb_status (js ! i) = Running" if "i < length js" for i using Cons.prems(3) [of "Suc i"] that by simp
  qed (use Cons.prems(2,4) len in auto)
  moreover obtain r where "jb_log j = jb_log a @ r" using pre [of j] by (auto simp: prefix_def)
  moreover have "sent \<le> length (jb_log a)" using Cons.prems(5) by simp
  ultimately show ?case by (simp add: sse_turn_def job_since_def run)
qed

text \<open>C22: A client that tails a job sees every line of its log once and in order, then how it ended,
  whenever its turns of the loop happen to fall: at any instants the log only grew between, all but the
  last before the job finished.\<close>

theorem tail_loses_nothing:
  assumes "\<And>i. i < length js \<Longrightarrow> jb_status (js ! i) = Running" "jb_status j \<noteq> Running"
    and "sorted_wrt (\<lambda>a b. prefix (jb_log a) (jb_log b)) (js @ [j])"
  shows "sse_stream 0 (js @ [j]) =
    map SseLine (jb_log j) @ [if jb_status j = Done then SseDone else SseFailed]"
  using sse_stream_tail [of 0 j js] assms by simp

section \<open>The registry forgets only what is over\<close>

definition registry_ok :: "job_registry \<Rightarrow> bool" where
  "registry_ok reg \<longleftrightarrow> distinct (map fst (jr_jobs reg)) \<and> (\<forall>(i, j) \<in> set (jr_jobs reg). jb_id j = i)"

lemma map_of_forget: "map_of (forget_job v jobs) i = (if i = v then None else map_of jobs i)"
  by (induction jobs) (auto simp: forget_job_def)

lemma forget_distinct: "distinct (map fst jobs) \<Longrightarrow> distinct (map fst (forget_job v jobs))"
  by (induction jobs) (auto simp: forget_job_def)

lemma oldest_finished_Some:
  assumes "oldest_finished jobs = Some v" "\<forall>(i, j) \<in> set jobs. jb_id j = i"
  shows "(\<exists>j. (v, j) \<in> set jobs \<and> jb_status j \<noteq> Running) \<and>
    (\<forall>(i, j) \<in> set jobs. jb_status j \<noteq> Running \<longrightarrow> v \<le> i)"
proof -
  let ?ids = "map (\<lambda>(_, j). jb_id j) (filter (\<lambda>(_, j). jb_status j \<noteq> Running) jobs)"
  from assms(1) obtain vs where s: "sort ?ids = v # vs"
    by (auto simp: oldest_finished_def split: list.splits)
  have ids: "set ?ids = insert v (set vs)" by (metis s list.simps(15) set_sort)
  have "sorted (v # vs)" by (metis s sorted_sort)
  with ids have least: "\<forall>i \<in> set ?ids. v \<le> i" by auto
  have finished: "i \<in> set ?ids" if "(i, j) \<in> set jobs" "jb_status j \<noteq> Running" for i j
    using assms(2) that by (auto intro!: image_eqI [of _ _ "(i, j)"])
  from ids have "v \<in> set ?ids" by simp
  then obtain i j where "(i, j) \<in> set jobs" "jb_status j \<noteq> Running" "v = jb_id j" by auto
  moreover from this have "v = i" using assms(2) by auto
  ultimately show ?thesis using least finished by blast
qed

lemma finished_removed:
  "oldest_finished jobs = Some v \<Longrightarrow> \<forall>(i, j) \<in> set jobs. jb_id j = i \<Longrightarrow>
     length (forget_job v jobs) < length jobs"
  unfolding forget_job_def
  using oldest_finished_Some [of jobs v] by (auto intro!: length_filter_less)

lemma create_job_parts:
  assumes "create_job now kind pack_id reg = (job, reg')"
  shows "jb_id job = mint_job_id now (jr_counter reg)" "jb_status job = Running"
    and "jr_jobs reg' = evict_oldest ((jb_id job, job) # forget_job (jb_id job) (jr_jobs reg))"
  using assms by (auto simp: create_job_def Let_def)

text \<open>Creating a job keeps the registry well formed, never drops a job that is still running, and when
  it drops a finished one there were more than fifty and no finished job has a smaller id; a registry
  of at most fifty jobs stays one, unless every job in it is running.\<close>

theorem eviction_keeps_running:
  assumes "registry_ok reg" "create_job now kind pack_id reg = (job, reg')"
  shows "registry_ok reg' \<and> get_job (jb_id job) reg' = Some job \<and>
    (\<forall>i j. i \<noteq> jb_id job \<and> get_job i reg = Some j \<and> get_job i reg' \<noteq> Some j \<longrightarrow>
       jb_status j \<noteq> Running \<and> length (jr_jobs reg) \<ge> 50 \<and>
       (\<forall>i' j'. get_job i' reg' = Some j' \<and> jb_status j' \<noteq> Running \<longrightarrow> i \<le> i')) \<and>
    (length (jr_jobs reg) \<le> 50 \<and> (\<exists>i j. i \<noteq> jb_id job \<and> get_job i reg = Some j \<and> jb_status j \<noteq> Running) \<longrightarrow>
       length (jr_jobs reg') \<le> 50)"
proof -
  let ?i = "jb_id job"
  let ?jobs = "(?i, job) # forget_job ?i (jr_jobs reg)"
  have job: "jb_status job = Running" by (rule create_job_parts(2) [OF assms(2)])
  have jobs': "jr_jobs reg' = (if length ?jobs > 50
      then (case oldest_finished ?jobs of None \<Rightarrow> ?jobs | Some v \<Rightarrow> forget_job v ?jobs) else ?jobs)"
    using create_job_parts(3) [OF assms(2)] by (simp only: evict_oldest_def)
  have ok: "distinct (map fst ?jobs)" "\<forall>(i, j) \<in> set ?jobs. jb_id j = i"
    using assms(1) forget_distinct [of "jr_jobs reg" ?i]
    by (auto simp: registry_ok_def forget_job_def)
  have look: "map_of ?jobs i = (if i = ?i then Some job else get_job i reg)" for i
    by (simp add: map_of_forget get_job_def)
  show ?thesis
  proof (cases "length ?jobs > 50 \<and> oldest_finished ?jobs \<noteq> None")
    case False
    then have same: "jr_jobs reg' = ?jobs" by (simp add: jobs' split: option.split)
    have "oldest_finished ?jobs \<noteq> None" if "map_of ?jobs i = Some j" "jb_status j \<noteq> Running" for i j
    proof -
      have "j \<in> snd ` set (filter (\<lambda>(_, j). jb_status j \<noteq> Running) ?jobs)"
        using map_of_SomeD [OF that(1)] that(2) by force
      then have "sort (map (\<lambda>(_, j). jb_id j) (filter (\<lambda>(_, j). jb_status j \<noteq> Running) ?jobs)) \<noteq> []"
        by (metis (no_types, lifting) empty_iff image_is_empty length_0_conv length_map length_sort list.set(1))
      then show ?thesis by (auto simp: oldest_finished_def split: list.split)
    qed
    then have "length ?jobs \<le> 50" if "\<exists>i j. i \<noteq> ?i \<and> get_job i reg = Some j \<and> jb_status j \<noteq> Running"
      using that False look by (metis not_le)
    then show ?thesis
      using ok look job by (auto simp: registry_ok_def get_job_def same)
  next
    case True
    then obtain v where v: "oldest_finished ?jobs = Some v" by blast
    note old = oldest_finished_Some [OF v ok(2)]
    have fewer: "length (forget_job v ?jobs) < length ?jobs" by (rule finished_removed [OF v ok(2)])
    have new: "jr_jobs reg' = forget_job v ?jobs" using True v by (simp add: jobs')
    have vi: "v \<noteq> ?i" using old ok job by (auto simp: forget_job_def)
    have len: "length ?jobs \<le> Suc (length (jr_jobs reg))" by (simp add: forget_job_def)
    have victim: "jb_status j \<noteq> Running" if "get_job v reg = Some j" for j
      using old that look vi ok(1) by (metis map_of_is_SomeI option.inject)
    have least: "v \<le> i'" if "map_of ?jobs i' = Some j'" "jb_status j' \<noteq> Running" for i' j'
      using old map_of_SomeD [OF that(1)] that(2) by auto
    have get': "get_job i reg' = (if i = v then None else map_of ?jobs i)" for i
      unfolding get_job_def new by (rule map_of_forget)
    have "registry_ok reg'"
      using ok forget_distinct [OF ok(1), of v] by (auto simp: registry_ok_def new forget_job_def)
    moreover have "get_job i reg' = Some j" if "i \<noteq> ?i" "get_job i reg = Some j" "i \<noteq> v" for i j
      using that look [of i] get' [of i] by simp
    moreover have "length (jr_jobs reg) \<ge> 50" using True len by linarith
    moreover have "length (jr_jobs reg') \<le> 50" if "length (jr_jobs reg) \<le> 50"
      using that len fewer by (simp add: new)
    ultimately show ?thesis
      using vi victim least get' look by (metis option.distinct(1))
  qed
qed

section \<open>The sweep at start-up\<close>

text \<open>The jobs directory as a map from file names, and the snapshot it holds for an id.\<close>

abbreviation jobs_in :: "fs \<Rightarrow> str \<Rightarrow> content option" where
  "jobs_in \<equiv> files_in jobs_dir"

definition snapshot_in :: "(str \<Rightarrow> content option) \<Rightarrow> str \<Rightarrow> job_snapshot option" where
  "snapshot_in f i = (case f (i @ ''.json'') of Some (CJob s) \<Rightarrow> Some s | _ \<Rightarrow> None)"

text \<open>Every snapshot is filed under its own id, as \<open>save_job_snapshot\<close> files it.\<close>

definition filed :: "(str \<Rightarrow> content option) \<Rightarrow> bool" where
  "filed f \<longleftrightarrow> (\<forall>i s. snapshot_in f i = Some s \<longrightarrow> js_job_id s = i)"

lemma save_snapshot_files:
  assumes "save_job_snapshot s fs = (Inr u, fs')" "no_links jobs_dir fs"
  shows "no_links jobs_dir fs'" "jobs_in fs' = (jobs_in fs)(js_job_id s @ ''.json'' := Some (CJob s))"
proof -
  from assms(1) obtain fs1 u1 where 1: "create_dir_all jobs_dir fs = (Inr u1, fs1)"
    and 2: "atomic_write (job_file (js_job_id s)) (CJob s) fs1 = (Inr u, fs')"
    by (auto simp: save_job_snapshot_def bad_request_def split: if_splits prod.splits sum.splits)
  have l: "no_links jobs_dir fs1" "jobs_in fs1 = jobs_in fs"
    using updates_mkdir [of jobs_dir jobs_dir] 1 assms(2) by (auto simp: updates_def)
  then show "no_links jobs_dir fs'" "jobs_in fs' = (jobs_in fs)(js_job_id s @ ''.json'' := Some (CJob s))"
    using updates_write [of jobs_dir "js_job_id s @ ''.json''" "CJob s"] 2 by (auto simp: updates_def)
qed

lemma load_snapshot_in:
  "no_links jobs_dir fs \<Longrightarrow> is_safe_job_id i \<Longrightarrow> load_job_snapshot i fs = Inr (snapshot_in (jobs_in fs) i)"
  by (simp add: load_job_snapshot_def read_no_links snapshot_in_def)

lemma snapshot_in_upd [simp]:
  "snapshot_in (f(j @ ''.json'' := Some (CJob s))) i = (if i = j then Some s else snapshot_in f i)"
  by (simp add: snapshot_in_def)

text \<open>What the sweep makes of the snapshot of an id it looks at.\<close>

definition settled :: "job_snapshot \<Rightarrow> job_snapshot" where
  "settled s = (if js_status s = Running then interrupted s else s)"

lemma settled_facts [simp]: "js_status (settled s) \<noteq> Running" "js_job_id (settled s) = js_job_id s"
  "settled (settled s) = settled s"
  by (simp_all add: settled_def interrupted_def)

definition running_in :: "(str \<Rightarrow> content option) \<Rightarrow> str \<Rightarrow> bool" where
  "running_in f i \<longleftrightarrow> (\<exists>s. snapshot_in f i = Some s \<and> js_status s = Running)"

lemma mark_interrupted_files:
  assumes "mark_interrupted ids n fs = (Inr n', fs')" "no_links jobs_dir fs" "filed (jobs_in fs)" "distinct ids"
  shows "no_links jobs_dir fs' \<and> filed (jobs_in fs') \<and> list_all is_safe_job_id ids \<and>
    (\<forall>i. snapshot_in (jobs_in fs') i =
      (if i \<in> set ids then map_option settled (snapshot_in (jobs_in fs) i) else snapshot_in (jobs_in fs) i)) \<and>
    n' = n + length (filter (running_in (jobs_in fs)) ids)"
  using assms
proof (induction ids n fs rule: mark_interrupted.induct)
  case (2 i ids n fs)
  have safe: "is_safe_job_id i"
    using "2.prems"(1) by (auto simp: load_job_snapshot_def bad_request_def split: if_splits)
  note load = load_snapshot_in [OF "2.prems"(2) safe]
  have rest: "i \<notin> set ids" "distinct ids" using "2.prems"(4) by auto
  show ?case
  proof (cases "snapshot_in (jobs_in fs) i")
    case None
    with "2.prems"(1) load have "mark_interrupted ids n fs = (Inr n', fs')" by simp
    with "2.IH"(1) [of "None :: job_snapshot option"] load None "2.prems"(2,3) rest safe show ?thesis
      by (auto simp: running_in_def)
  next
    case (Some s)
    then have own: "js_job_id s = i" using "2.prems"(3) by (simp add: filed_def)
    show ?thesis
    proof (cases "js_status s = Running")
      case False
      with "2.prems"(1) load Some have "mark_interrupted ids n fs = (Inr n', fs')" by simp
      with "2.IH"(3) [of "Some s" s] False load Some "2.prems"(2,3) rest safe show ?thesis
        by (auto simp: running_in_def settled_def)
    next
      case True
      with "2.prems"(1) load Some obtain u fs1 where w: "save_job_snapshot (interrupted s) fs = (Inr u, fs1)"
        and r: "mark_interrupted ids (n + 1) fs1 = (Inr n', fs')"
        by (auto split: prod.splits sum.splits)
      note f1 = save_snapshot_files [OF w "2.prems"(2)]
      have look: "snapshot_in (jobs_in fs1) k = (if k = i then Some (interrupted s) else snapshot_in (jobs_in fs) k)" for k
        using own by (simp add: f1(2) interrupted_def)
      have "filed (jobs_in fs1)" using "2.prems"(3) look own by (auto simp: filed_def interrupted_def)
      from "2.IH"(2) [OF _ _ True w [symmetric] refl _ f1(1) this rest(2)] load Some r
      have ih: "no_links jobs_dir fs' \<and> filed (jobs_in fs') \<and> list_all is_safe_job_id ids \<and>
        (\<forall>k. snapshot_in (jobs_in fs') k =
          (if k \<in> set ids then map_option settled (snapshot_in (jobs_in fs1) k) else snapshot_in (jobs_in fs1) k)) \<and>
        n' = n + 1 + length (filter (running_in (jobs_in fs1)) ids)" by simp
      have "running_in (jobs_in fs1) k = running_in (jobs_in fs) k" if "k \<in> set ids" for k
        using that rest(1) by (auto simp: running_in_def look)
      then have "filter (running_in (jobs_in fs1)) ids = filter (running_in (jobs_in fs)) ids"
        by (simp cong: filter_cong)
      moreover have "running_in (jobs_in fs) i" using Some True by (simp add: running_in_def)
      ultimately show ?thesis using ih rest(1) safe Some True by (auto simp: look settled_def)
    qed
  qed
qed simp

lemma prune_files:
  "jobs_in (fold (\<lambda>i. remove_file_quiet (job_file i)) is fs) =
     (\<lambda>name. if name \<in> (\<lambda>i. i @ ''.json'') ` set is then None else jobs_in fs name)"
  by (induction "is" arbitrary: fs) (auto simp: fun_eq_iff files_in_def remove_file_quiet_file)

lemma prune_no_links: "no_links jobs_dir fs \<Longrightarrow> no_links jobs_dir (fold (\<lambda>i. remove_file_quiet (job_file i)) is fs)"
proof (induction "is" arbitrary: fs)
  case (Cons i "is")
  have "no_links jobs_dir (remove_file_quiet (job_file i) fs)"
    using updates_remove [of jobs_dir "i @ ''.json''"] Cons.prems by (auto simp: updates_def)
  from Cons.IH [OF this] show ?case by simp
qed simp

lemma strip_json: "strip_suffix ''.json'' name = Some i \<longleftrightarrow> name = i @ ''.json''"
  by (auto simp: strip_suffix_def ends_with_def) (metis append_take_drop_id)

lemma strip_json_append [simp]: "strip_suffix ''.json'' (i @ ''.json'') = Some i"
  by (simp only: strip_json)

lemma in_map_filter_name: "i \<in> set (List.map_filter (strip_suffix ''.json'') names) \<longleftrightarrow> i @ ''.json'' \<in> set names"
  by (induction names) (auto simp: List.map_filter_simps strip_json split: option.splits)

lemma map_filter_names_distinct:
  "distinct names \<Longrightarrow> distinct (List.map_filter (strip_suffix ''.json'') names)"
  by (induction names)
    (auto simp: List.map_filter_simps in_map_filter_name strip_json split: option.splits)

lemma in_snapshot_ids: "fs_ok fs \<Longrightarrow> i \<in> set (snapshot_ids fs) \<longleftrightarrow> map_of fs (job_file i) \<noteq> None"
  using in_read_dir [of fs jobs_dir "i @ ''.json''"]
  by (force simp: snapshot_ids_def in_map_filter_name jobs_dir_def)

lemma snapshot_ids_distinct: "fs_ok fs \<Longrightarrow> distinct (snapshot_ids fs)"
  using read_dir_distinct [of fs jobs_dir]
  by (auto simp: snapshot_ids_def List.map_filter_simps intro!: map_filter_names_distinct split: option.split)

lemma job_file_entry: "no_links jobs_dir fs \<Longrightarrow> snapshot_in (jobs_in fs) i = Some s \<Longrightarrow> map_of fs (job_file i) \<noteq> None"
  by (auto simp: snapshot_in_def files_in_def file_at_def split: option.splits)

lemma kept_ids:
  "distinct ids \<Longrightarrow> i \<in> set (drop k (sort ids)) \<longleftrightarrow> i \<in> set ids \<and> i \<notin> set (take k (sort ids))"
proof -
  assume d: "distinct ids"
  have "set (take k (sort ids)) \<union> set (drop k (sort ids)) = set ids"
    by (metis append_take_drop_id set_append set_sort)
  moreover have "set (take k (sort ids)) \<inter> set (drop k (sort ids)) = {}"
    by (rule set_take_disj_set_drop_if_distinct) (simp_all add: d)
  ultimately show ?thesis by blast
qed

text \<open>What the start-up sweep leaves: the snapshots of the newest \<open>keep\<close> ids and no other, each as it was
  but for those that still said running, which now say failed and why; so no id ever reads as running
  again. The number it returns is how many those were.\<close>

theorem sweep_settles:
  assumes "fs_ok fs" "no_links jobs_dir fs" "filed (jobs_in fs)" "sweep_job_snapshots keep fs = (Inr n, fs')"
  shows "(\<forall>i s. load_job_snapshot i fs' = Inr (Some s) \<longleftrightarrow>
      i \<in> set (drop (length (snapshot_ids fs) - keep) (sort (snapshot_ids fs))) \<and>
      (\<exists>s0. load_job_snapshot i fs = Inr (Some s0) \<and> s = settled s0)) \<and>
    n = length (filter (running_in (jobs_in fs)) (snapshot_ids fs))"
proof (cases "read_dir fs jobs_dir")
  case None
  then have none: "snapshot_ids fs = []" "fs' = fs" "n = 0"
    using assms(4) by (simp_all add: snapshot_ids_def sweep_job_snapshots_def List.map_filter_simps)
  then have "map_of fs (job_file i) = None" for i
    using in_snapshot_ids [OF assms(1), of i] by simp
  then have "fs_read fs (job_file i) = None" for i by (simp add: fs_read_def file_at_def)
  then show ?thesis by (simp add: none load_job_snapshot_def bad_request_def)
next
  case (Some es)
  let ?ids = "snapshot_ids fs" and ?old = "take (length (snapshot_ids fs) - keep) (sort (snapshot_ids fs))"
  from assms(4) Some obtain fs1 where m: "mark_interrupted ?ids 0 fs = (Inr n, fs1)"
    and fs': "fs' = fold (\<lambda>i. remove_file_quiet (job_file i)) ?old fs1"
    by (auto simp: sweep_job_snapshots_def Let_def split: prod.splits sum.splits if_splits)
  note d = snapshot_ids_distinct [OF assms(1)]
  note mark = mark_interrupted_files [OF m assms(2,3) d]
  have nl: "no_links jobs_dir fs'" using mark by (auto simp: fs' intro!: prune_no_links)
  have dis: "i \<in> set (drop (length ?ids - keep) (sort ?ids)) \<longleftrightarrow> i \<in> set ?ids \<and> i \<notin> set ?old" for i
    by (rule kept_ids [OF d])
  have after: "snapshot_in (jobs_in fs') i = (if i \<in> set ?old then None else
      if i \<in> set ?ids then map_option settled (snapshot_in (jobs_in fs) i) else snapshot_in (jobs_in fs) i)" for i
    using mark by (auto simp: fs' prune_files snapshot_in_def)
  have known: "i \<in> set ?ids" if "snapshot_in (jobs_in fs) i = Some s" for i s
    using job_file_entry [OF assms(2) that] in_snapshot_ids [OF assms(1)] by simp
  have now: "snapshot_in (jobs_in fs') i = (if i \<in> set ?old then None else map_option settled (snapshot_in (jobs_in fs) i))" for i
    using after [of i] known [of i] by (cases "snapshot_in (jobs_in fs) i") auto
  have "load_job_snapshot i fs' = Inr (Some s) \<longleftrightarrow> is_safe_job_id i \<and> snapshot_in (jobs_in fs') i = Some s" for i s
    using load_snapshot_in [OF nl, of i] by (auto simp: load_job_snapshot_def bad_request_def)
  moreover have "load_job_snapshot i fs = Inr (Some s) \<longleftrightarrow> is_safe_job_id i \<and> snapshot_in (jobs_in fs) i = Some s" for i s
    using load_snapshot_in [OF assms(2), of i] by (auto simp: load_job_snapshot_def bad_request_def)
  ultimately show ?thesis using mark now known dis by auto
qed

text \<open>A stray file in the jobs directory whose stem is no job id stops the sweep: nothing is pruned.\<close>

lemma stray_file_stops_sweep:
  assumes "fs_ok fs" "no_links jobs_dir fs" "filed (jobs_in fs)"
    and "i \<in> set (snapshot_ids fs)" "\<not> is_safe_job_id i"
  shows "\<exists>e. fst (sweep_job_snapshots keep fs) = Inl e"
proof (cases "mark_interrupted (snapshot_ids fs) 0 fs")
  case (Pair r fs1)
  then show ?thesis
  proof (cases r)
    case (Inr n)
    with mark_interrupted_files [OF Pair [unfolded Inr] assms(2,3) snapshot_ids_distinct [OF assms(1)]] assms(4,5)
    show ?thesis by (auto simp: list_all_iff)
  next
    case (Inl e)
    have "read_dir fs jobs_dir \<noteq> None"
    proof
      assume "read_dir fs jobs_dir = None"
      then have "snapshot_ids fs = []" by (simp add: snapshot_ids_def List.map_filter_simps)
      with assms(4) show False by simp
    qed
    with Pair Inl show ?thesis by (auto simp: sweep_job_snapshots_def Let_def)
  qed
qed

section \<open>Ids sort by time\<close>

text \<open>A number in exactly \<open>w\<close> digits to base \<open>b\<close>.\<close>

fun fixed :: "(nat \<Rightarrow> char) \<Rightarrow> nat \<Rightarrow> nat \<Rightarrow> nat \<Rightarrow> str" where
  "fixed d b 0 n = []"
| "fixed d b (Suc w) n = fixed d b w (n div b) @ [d (n mod b)]"

lemma length_fixed [simp]: "length (fixed d b w n) = w"
  by (induction w arbitrary: n) auto

lemma fixed_zero: "fixed d b w 0 = replicate w (d 0)"
  by (induction w) (simp_all add: replicate_append_same)

lemma snoc_less: "length xs = length ys \<Longrightarrow> xs @ [x] < ys @ [y] \<longleftrightarrow> xs < ys \<or> xs = ys \<and> x < (y :: 'a::linorder)"
  by (induction rule: list_induct2) auto

lemma fixed_less:
  assumes "1 < b" "\<And>i j. i < b \<Longrightarrow> j < b \<Longrightarrow> d i < d j \<longleftrightarrow> i < j"
  shows "m < b ^ w \<Longrightarrow> n < b ^ w \<Longrightarrow> (fixed d b w m < fixed d b w n \<longleftrightarrow> m < n) \<and> (fixed d b w m = fixed d b w n \<longleftrightarrow> m = n)"
proof (induction w arbitrary: m n)
  case (Suc w)
  have inj: "d i = d j \<longleftrightarrow> i = j" if "i < b" "j < b" for i j
    using assms(2) [OF that] assms(2) [OF that(2,1)] by (metis less_irrefl linorder_neqE_nat)
  have mods: "m mod b < b" "n mod b < b" using assms(1) by simp_all
  have divs: "m div b < b ^ w" "n div b < b ^ w"
    using Suc.prems assms(1) by (simp_all add: less_mult_imp_div_less mult.commute)
  have "m < n \<longleftrightarrow> m div b < n div b \<or> m div b = n div b \<and> m mod b < n mod b"
    by (metis div_le_mono div_mult_mod_eq linorder_not_less nat_add_left_cancel_less nat_less_le)
  moreover have "m = n \<longleftrightarrow> m div b = n div b \<and> m mod b = n mod b"
    by (metis div_mult_mod_eq)
  ultimately show ?case
    using Suc.IH [OF divs] assms(2) [OF mods] inj [OF mods] by (simp add: snoc_less)
qed simp

lemma zero_pad_fixed:
  assumes sh: "\<And>n. sh n = (if n < b then [d n] else sh (n div b) @ [d (n mod b)])" and "d 0 = CHR ''0''" "1 < b"
  shows "n < b ^ w \<Longrightarrow> 0 < w \<Longrightarrow> zero_pad w (sh n) = fixed d b w n \<and> length (sh n) \<le> w"
proof (induction w arbitrary: n)
  case (Suc w)
  show ?case
  proof (cases "n < b")
    case True
    then show ?thesis by (subst (1 2) sh) (simp add: zero_pad_def fixed_zero assms(2))
  next
    case False
    with Suc.prems(1) assms(3) have w: "0 < w" by (cases w) auto
    have "n div b < b ^ w" using Suc.prems(1) assms(3) by (simp add: less_mult_imp_div_less mult.commute)
    from Suc.IH [OF this w] False show ?thesis by (subst (1 2) sh) (simp add: zero_pad_def)
  qed
qed simp

definition hex_digit :: "nat \<Rightarrow> char" where
  "hex_digit k = char_of (if k < 10 then 48 + k else 87 + k)"

definition dec_digit :: "nat \<Rightarrow> char" where
  "dec_digit k = char_of (48 + k)"

lemma less_char_nat: "(c < d) = ((of_char c :: nat) < of_char d)" for c d :: char
  by (simp add: less_char_def)

lemma digit_order: "i < 16 \<Longrightarrow> j < 16 \<Longrightarrow> hex_digit i < hex_digit j \<longleftrightarrow> i < j"
    "i < 10 \<Longrightarrow> j < 10 \<Longrightarrow> dec_digit i < dec_digit j \<longleftrightarrow> i < j"
  by (auto simp: less_char_nat hex_digit_def dec_digit_def of_char_of)

lemma zero_digit [simp]: "char_of (48 :: nat) = CHR ''0''"
  by code_simp

lemma padded:
  "n < 16 ^ w \<Longrightarrow> 0 < w \<Longrightarrow> zero_pad w (show_hex n) = fixed hex_digit 16 w n \<and> length (show_hex n) \<le> w"
  "n < 10 ^ w \<Longrightarrow> 0 < w \<Longrightarrow> zero_pad w (show_nat n) = fixed dec_digit 10 w n \<and> length (show_nat n) \<le> w"
proof -
  show "n < 16 ^ w \<Longrightarrow> 0 < w \<Longrightarrow> zero_pad w (show_hex n) = fixed hex_digit 16 w n \<and> length (show_hex n) \<le> w"
    by (rule zero_pad_fixed) (subst show_hex.simps, simp add: hex_digit_def Let_def, simp_all add: hex_digit_def)
  show "n < 10 ^ w \<Longrightarrow> 0 < w \<Longrightarrow> zero_pad w (show_nat n) = fixed dec_digit 10 w n \<and> length (show_nat n) \<le> w"
    by (rule zero_pad_fixed) (subst show_nat.simps, simp add: dec_digit_def, simp_all add: dec_digit_def)
qed

lemma show_hex_chars: "list_all (\<lambda>c. is_hexdigit c \<and> \<not> is_upper c) (show_hex n)"
proof (induction n rule: show_hex.induct)
  case (1 n)
  have "is_hexdigit (hex_digit k) \<and> \<not> is_upper (hex_digit k)" if "k < 16" for k
    using that by (auto simp: hex_digit_def is_hexdigit_def is_upper_def is_digit_def of_char_of)
  with 1 show ?case by (subst show_hex.simps) (simp add: Let_def flip: hex_digit_def)
qed

lemma append_less: "length xs = length ys \<Longrightarrow> xs @ us < ys @ vs \<longleftrightarrow> xs < ys \<or> xs = ys \<and> us < (vs :: 'a::linorder list)"
  by (induction rule: list_induct2) auto

text \<open>The ids the registry mints are ids its snapshots accept, for any clock and any counter; and as
  long as the millisecond fits its thirteen digits and the counter its eight, ids sort by the time
  they were minted and then by the counter, so that the smallest id is the oldest job.\<close>

theorem minted_ids:
  "(ms < 2 ^ 128 \<and> n < 2 ^ 64 \<longrightarrow> is_safe_job_id (mint_job_id ms n)) \<and>
   (ms < 16 ^ 13 \<and> ms' < 16 ^ 13 \<and> n < 10 ^ 8 \<and> n' < 10 ^ 8 \<longrightarrow>
      (mint_job_id ms n < mint_job_id ms' n' \<longleftrightarrow> ms < ms' \<or> ms = ms' \<and> n < n'))"
proof (intro conjI impI)
  assume b: "ms < 2 ^ 128 \<and> n < 2 ^ 64"
  have "ms < 16 ^ 32" "n < 10 ^ 20" using b by simp_all
  from padded(1) [OF this(1)] padded(2) [OF this(2)]
  have "length (show_hex ms) \<le> 32" "length (show_nat n) \<le> 20" by simp_all
  then have "length (mint_job_id ms n) \<le> 64" by (simp add: mint_job_id_def zero_pad_def)
  moreover have "list_all (\<lambda>c. is_hexdigit c \<and> \<not> is_upper c \<or> c = CHR ''-'') (mint_job_id ms n)"
  proof -
    have "list_all (\<lambda>c. is_hexdigit c \<and> \<not> is_upper c) (show_nat n)"
      using show_nat_digits [of n] by (auto simp: list_all_iff is_hexdigit_def is_digit_def is_upper_def)
    with show_hex_chars [of ms] show ?thesis
      by (auto simp: mint_job_id_def zero_pad_def list_all_iff is_hexdigit_def is_digit_def is_upper_def)
  qed
  moreover have "mint_job_id ms n \<noteq> []" by (simp add: mint_job_id_def)
  ultimately show "is_safe_job_id (mint_job_id ms n)" unfolding is_safe_job_id_def by blast
next
  assume b: "ms < 16 ^ 13 \<and> ms' < 16 ^ 13 \<and> n < 10 ^ 8 \<and> n' < 10 ^ 8"
  have "mint_job_id ms n = fixed hex_digit 16 13 ms @ CHR ''-'' # fixed dec_digit 10 8 n"
    "mint_job_id ms' n' = fixed hex_digit 16 13 ms' @ CHR ''-'' # fixed dec_digit 10 8 n'"
    using b padded(1) [of ms 13] padded(1) [of ms' 13] padded(2) [of n 8] padded(2) [of n' 8]
    by (simp_all add: mint_job_id_def)
  moreover have "fixed hex_digit 16 13 ms < fixed hex_digit 16 13 ms' \<longleftrightarrow> ms < ms'"
    "fixed hex_digit 16 13 ms = fixed hex_digit 16 13 ms' \<longleftrightarrow> ms = ms'"
    using fixed_less [of 16 hex_digit ms 13 ms'] digit_order(1) b by simp_all
  moreover have "fixed dec_digit 10 8 n < fixed dec_digit 10 8 n' \<longleftrightarrow> n < n'"
    using fixed_less [of 10 dec_digit n 8 n'] digit_order(2) b by simp
  ultimately show "mint_job_id ms n < mint_job_id ms' n' \<longleftrightarrow> ms < ms' \<or> ms = ms' \<and> n < n'"
    by (simp only: append_less length_fixed Cons_less_Cons) auto
qed

section \<open>Examples\<close>

definition started :: job where
  "started = fst (create_job 1700000000000 ''build'' ''p'' \<lparr>jr_jobs = [], jr_counter = 0\<rparr>)"

definition ended :: job where
  "ended = job_finish Done (job_line ''two'' (job_line ''one'' started))"

theorem tail_loses_nothing_witness:
  "sse_stream 0 [started, job_line ''one'' started, ended] = [SseLine ''one'', SseLine ''two'', SseDone]"
proof -
  have s: "jb_status started = Running" "jb_log started = []" by code_simp+
  have "sse_stream 0 ([started, job_line ''one'' started] @ [ended]) =
      map SseLine (jb_log ended) @ [if jb_status ended = Done then SseDone else SseFailed]"
    by (rule tail_loses_nothing)
      (auto simp: ended_def job_finish_def job_line_def s nth_Cons split: nat.split)
  then show ?thesis by (simp add: ended_def job_finish_def job_line_def s)
qed

definition one_job :: job_registry where
  "one_job = snd (create_job 1700000000000 ''build'' ''p'' \<lparr>jr_jobs = [], jr_counter = 0\<rparr>)"

theorem eviction_keeps_running_witness:
  "get_job (jb_id started) one_job = Some started"
proof -
  have "registry_ok \<lparr>jr_jobs = [], jr_counter = 0\<rparr>" by (simp add: registry_ok_def)
  moreover have "create_job 1700000000000 ''build'' ''p'' \<lparr>jr_jobs = [], jr_counter = 0\<rparr> = (started, one_job)"
    by (simp add: started_def one_job_def)
  ultimately show ?thesis using eviction_keeps_running by blast
qed

theorem minted_ids_witness:
  "is_safe_job_id (mint_job_id 1700000000000 7) \<and> mint_job_id 1700000000000 7 < mint_job_id 1700000000000 12"
  using minted_ids [of 1700000000000 7 1700000000000 12] by simp

definition crashed :: fs where
  "crashed = persist ended (persist (started\<lparr>jb_id := ''0-1''\<rparr>) [])"

definition swept :: fs where
  "swept = snd (sweep_job_snapshots 1 crashed)"

lemma sweeps: "sweep_job_snapshots 1 crashed = (Inr 1, swept)"
proof -
  have "fst (sweep_job_snapshots 1 crashed) = Inr 1" by code_simp
  then show ?thesis by (simp add: swept_def prod_eq_iff)
qed

lemma crashed_entries: "crashed = [([''jobs'', jb_id ended @ ''.json''], File (CJob (snapshot_of ended))),
    ([''jobs'', ''0-1.json''], File (CJob (snapshot_of (started\<lparr>jb_id := ''0-1''\<rparr>)))), ([''jobs''], Dir)]"
  by code_simp

theorem sweep_settles_witness:
  "load_job_snapshot (jb_id ended) swept = Inr (Some (snapshot_of ended)) \<and>
   load_job_snapshot ''0-1'' swept = Inr None"
proof -
  have ok: "fs_ok crashed" "no_links jobs_dir crashed"
    unfolding crashed_entries fs_ok_def has_parent_def no_links_def jobs_dir_def by (auto split: if_splits) code_simp
  have "filed (jobs_in crashed)"
    unfolding filed_def snapshot_in_def files_in_def file_at_def crashed_entries jobs_dir_def
    by (auto simp: snapshot_of_def job_since_def split: if_splits)
  note iff = conjunct1 [OF sweep_settles [OF ok this sweeps], rule_format]
  have d: "drop (length (snapshot_ids crashed) - 1) (sort (snapshot_ids crashed)) = [jb_id ended]" by code_simp
  have l: "load_job_snapshot (jb_id ended) crashed = Inr (Some (snapshot_of ended))"
    "snapshot_of ended = settled (snapshot_of ended)" by code_simp+
  have ne: "''0-1'' \<noteq> jb_id ended" by code_simp
  have "load_job_snapshot (jb_id ended) swept = Inr (Some (snapshot_of ended))"
    unfolding iff d by (intro conjI exI [of _ "snapshot_of ended"]) (simp, rule l(1), rule l(2))
  moreover have "load_job_snapshot ''0-1'' swept \<noteq> Inr (Some s)" for s
    unfolding iff d using ne by simp
  moreover have "is_safe_job_id ''0-1''" by code_simp
  then obtain x where "load_job_snapshot ''0-1'' swept = Inr x" by (simp add: load_job_snapshot_def)
  ultimately show ?thesis by (cases x) (simp, metis)
qed

end
