(* ===== verification/Accounts.thy ===== *)
theory Accounts
  imports Wire_Model
begin

text \<open>
  The accounts store (\<open>src/src/accounts/mod.rs\<close>): who somebody is, what they were granted on one pack,
  who was stopped, and what is said about a pack. A table is the list of its rows in the order they were
  inserted; an operation is a function on the whole store. The clock and the random token are arguments.
  A statement SQLite refuses is \<open>Inl\<close>, and leaves the store as it was. Where a query leaves the order of
  ties to the database, the model answers in the order of insertion.
\<close>

section \<open>Vocabularies\<close>

datatype role = Member | Admin | Debug

fun role_rank :: "role \<Rightarrow> nat" where
  "role_rank Member = 0" | "role_rank Admin = 1" | "role_rank Debug = 2"

instantiation role :: linorder
begin

definition less_eq_role :: "role \<Rightarrow> role \<Rightarrow> bool" where
  "less_eq_role a b \<longleftrightarrow> role_rank a \<le> role_rank b"

definition less_role :: "role \<Rightarrow> role \<Rightarrow> bool" where
  "less_role a b \<longleftrightarrow> role_rank a < role_rank b"

instance
proof
  fix a b :: role
  show "a \<le> b \<Longrightarrow> b \<le> a \<Longrightarrow> a = b"
    by (cases a; cases b) (simp_all add: less_eq_role_def)
qed (auto simp: less_eq_role_def less_role_def)

end

definition role_as_str :: "role \<Rightarrow> str" where
  "role_as_str r = (case r of Member \<Rightarrow> ''member'' | Admin \<Rightarrow> ''admin'' | Debug \<Rightarrow> ''debug'')"

definition role_from_db :: "str \<Rightarrow> role" where
  "role_from_db s = (if s = ''debug'' then Debug else if s = ''admin'' then Admin else Member)"

datatype pack_level = View | Edit | Own

fun level_rank :: "pack_level \<Rightarrow> nat" where
  "level_rank View = 0" | "level_rank Edit = 1" | "level_rank Own = 2"

instantiation pack_level :: linorder
begin

definition less_eq_pack_level :: "pack_level \<Rightarrow> pack_level \<Rightarrow> bool" where
  "less_eq_pack_level a b \<longleftrightarrow> level_rank a \<le> level_rank b"

definition less_pack_level :: "pack_level \<Rightarrow> pack_level \<Rightarrow> bool" where
  "less_pack_level a b \<longleftrightarrow> level_rank a < level_rank b"

instance
proof
  fix a b :: pack_level
  show "a \<le> b \<Longrightarrow> b \<le> a \<Longrightarrow> a = b"
    by (cases a; cases b) (simp_all add: less_eq_pack_level_def)
qed (auto simp: less_eq_pack_level_def less_pack_level_def)

end

definition level_as_str :: "pack_level \<Rightarrow> str" where
  "level_as_str l = (case l of View \<Rightarrow> ''view'' | Edit \<Rightarrow> ''edit'' | Own \<Rightarrow> ''own'')"

definition level_parse :: "str \<Rightarrow> pack_level option" where
  "level_parse s = (if s = ''view'' then Some View else if s = ''edit'' then Some Edit
     else if s = ''own'' then Some Own else None)"

record caller =
  cl_uid :: int
  cl_login :: str
  cl_role :: role

definition owns_or_admin :: "caller \<Rightarrow> int \<Rightarrow> bool" where
  "owns_or_admin who owner_uid \<longleftrightarrow> cl_uid who = owner_uid \<or> cl_role who \<ge> Admin"

definition break_glass_uid :: int where
  "break_glass_uid = 0"

definition session_ttl :: int where
  "session_ttl = 86400"

section \<open>The tables\<close>

record user_row =
  us_id :: int
  us_uid :: int
  us_login :: str
  us_role :: str
  us_created_at :: int
  us_last_login_at :: int

record session_row =
  se_id :: str
  se_user :: int
  se_created_at :: int
  se_expires_at :: int

record access_row =
  pa_pack :: str
  pa_uid :: int
  pa_level :: str
  pa_by :: int
  pa_at :: int

record block_row =
  pb_pack :: str
  pb_uid :: int
  pb_reason :: "str option"
  pb_by :: int
  pb_at :: int

record suspension_row =
  su_uid :: int
  su_reason :: "str option"
  su_by :: int
  su_at :: int

record thread_row =
  th_id :: int
  th_pack :: str
  th_kind :: str
  th_title :: str
  th_body :: str
  th_by :: int
  th_status :: str
  th_source_pack :: "str option"
  th_source_commit :: "str option"
  th_merged_commit :: "str option"
  th_created_at :: int
  th_decided_at :: "int option"
  th_decided_by :: "int option"

record comment_row =
  co_id :: int
  co_thread :: int
  co_by :: int
  co_body :: str
  co_created_at :: int
  co_hidden_at :: "int option"
  co_hidden_by :: "int option"

record notification_row =
  nt_id :: int
  nt_uid :: int
  nt_kind :: str
  nt_thread :: int
  nt_actor :: int
  nt_created_at :: int
  nt_read_at :: "int option"

record feed_key_row =
  fk_uid :: int
  fk_key :: str
  fk_created_at :: int

record upload_row =
  up_id :: int
  up_uploader :: int
  up_pack :: str
  up_filename :: str
  up_sha1 :: str
  up_size_bytes :: int
  up_status :: str
  up_note :: "str option"
  up_created_at :: int
  up_decided_at :: "int option"
  up_upstream :: "str option"
  up_decided_by :: "int option"

record audit_row =
  ar_id :: int
  ar_actor_uid :: int
  ar_actor_login :: str
  ar_action :: str
  ar_target :: "str option"
  ar_detail :: "str option"
  ar_created_at :: int

record accounts =
  ac_users :: "user_row list"
  ac_sessions :: "session_row list"
  ac_access :: "access_row list"
  ac_blocks :: "block_row list"
  ac_suspensions :: "suspension_row list"
  ac_threads :: "thread_row list"
  ac_comments :: "comment_row list"
  ac_notifications :: "notification_row list"
  ac_feed_keys :: "feed_key_row list"
  ac_uploads :: "upload_row list"
  ac_terms :: "(int \<times> int) list"
  ac_audit :: "audit_row list"

definition empty_accounts :: accounts where
  "empty_accounts = \<lparr>ac_users = [], ac_sessions = [], ac_access = [], ac_blocks = [], ac_suspensions = [],
     ac_threads = [], ac_comments = [], ac_notifications = [], ac_feed_keys = [], ac_uploads = [],
     ac_terms = [], ac_audit = []\<rparr>"

text \<open>An \<open>INTEGER PRIMARY KEY\<close> that is not given is one past the largest there is.\<close>

definition next_rowid :: "('a \<Rightarrow> int) \<Rightarrow> 'a list \<Rightarrow> int" where
  "next_rowid key rows = fold (\<lambda>r m. max (key r) m) rows 0 + 1"

text \<open>\<open>INSERT ... ON CONFLICT DO UPDATE\<close>: the row of the key is changed in place, or a new one appended.\<close>

definition upsert :: "('a \<Rightarrow> bool) \<Rightarrow> ('a \<Rightarrow> 'a) \<Rightarrow> 'a \<Rightarrow> 'a list \<Rightarrow> 'a list" where
  "upsert same update new rows =
     (if list_ex same rows then map (\<lambda>r. if same r then update r else r) rows else rows @ [new])"

definition show_int :: "int \<Rightarrow> str" where
  "show_int i = (if i < 0 then CHR ''-'' # show_nat (nat (- i)) else show_nat (nat i))"

text \<open>\<open>{:?}\<close> of a text without characters to escape; the kinds and statuses that reach it are literals.\<close>

definition quoted :: "str \<Rightarrow> str" where
  "quoted s = CHR 0x22 # s @ [CHR 0x22]"

definition login_of :: "accounts \<Rightarrow> int \<Rightarrow> str option" where
  "login_of acc uid = map_option us_login (find (\<lambda>u. us_uid u = uid) (ac_users acc))"

definition limited :: "nat option \<Rightarrow> 'a list \<Rightarrow> 'a list" where
  "limited limit rows = (case limit of None \<Rightarrow> rows | Some n \<Rightarrow> take n rows)"

section \<open>Signing in\<close>

definition upsert_user :: "int \<Rightarrow> str \<Rightarrow> role option \<Rightarrow> int \<Rightarrow> user_row list \<Rightarrow> user_row list" where
  "upsert_user uid login forced now users =
     upsert (\<lambda>u. us_uid u = uid)
       (\<lambda>u. u\<lparr>us_login := login, us_last_login_at := now,
              us_role := (case forced of Some r \<Rightarrow> role_as_str r | None \<Rightarrow> us_role u)\<rparr>)
       \<lparr>us_id = next_rowid us_id users, us_uid = uid, us_login = login,
        us_role = (case forced of Some r \<Rightarrow> role_as_str r | None \<Rightarrow> ''member''),
        us_created_at = now, us_last_login_at = now\<rparr> users"

definition insert_session :: "int \<Rightarrow> int \<Rightarrow> str \<Rightarrow> session_row list \<Rightarrow> str + session_row list" where
  "insert_session user_id now token rows =
     (if list_ex (\<lambda>s. se_id s = token) rows then Inl ''insert session''
      else Inr (rows @ [\<lparr>se_id = token, se_user = user_id, se_created_at = now,
                         se_expires_at = now + session_ttl\<rparr>]))"

definition sign_in_github ::
  "int \<Rightarrow> str \<Rightarrow> role option \<Rightarrow> int \<Rightarrow> str \<Rightarrow> accounts \<Rightarrow> (str + str) \<times> accounts" where
  "sign_in_github uid login forced now token acc =
     (let users = upsert_user uid login forced now (ac_users acc) in
      case find (\<lambda>u. us_uid u = uid) users of
        None \<Rightarrow> (Inl ''read user id'', acc)
      | Some u \<Rightarrow>
          (case insert_session (us_id u) now token (ac_sessions acc) of
             Inl e \<Rightarrow> (Inl e, acc)
           | Inr sessions \<Rightarrow> (Inr token, acc\<lparr>ac_users := users, ac_sessions := sessions\<rparr>)))"

definition delete_session :: "str \<Rightarrow> accounts \<Rightarrow> accounts" where
  "delete_session sid acc = acc\<lparr>ac_sessions := filter (\<lambda>s. se_id s \<noteq> sid) (ac_sessions acc)\<rparr>"

definition caller_of :: "user_row \<Rightarrow> caller" where
  "caller_of u = \<lparr>cl_uid = us_uid u, cl_login = us_login u, cl_role = role_from_db (us_role u)\<rparr>"

definition session_identity :: "str \<Rightarrow> int \<Rightarrow> accounts \<Rightarrow> caller option \<times> accounts" where
  "session_identity sid now acc =
     (case find (\<lambda>s. se_id s = sid) (ac_sessions acc) of
        None \<Rightarrow> (None, acc)
      | Some s \<Rightarrow>
          (case find (\<lambda>u. us_id u = se_user s) (ac_users acc) of
             None \<Rightarrow> (None, acc)
           | Some u \<Rightarrow>
               if se_expires_at s > now then (Some (caller_of u), acc)
               else (None, delete_session sid acc)))"

definition identity_of :: "int \<Rightarrow> accounts \<Rightarrow> caller option" where
  "identity_of uid acc = map_option caller_of (find (\<lambda>u. us_uid u = uid) (ac_users acc))"

definition set_role :: "int \<Rightarrow> str \<Rightarrow> accounts \<Rightarrow> (str + unit) \<times> accounts" where
  "set_role uid role acc =
     (if uid = break_glass_uid then (Inl ''cannot change the reserved uid 0'', acc)
      else if role \<noteq> ''member'' \<and> role \<noteq> ''admin'' \<and> role \<noteq> ''debug''
        then (Inl (''invalid role '' @ CHR 0x27 # role @ [CHR 0x27]), acc)
      else if \<not> list_ex (\<lambda>u. us_uid u = uid) (ac_users acc) then (Inl (''no user with uid '' @ show_int uid), acc)
      else (Inr (), acc\<lparr>ac_users := map (\<lambda>u. if us_uid u = uid then u\<lparr>us_role := role\<rparr> else u)
                                     (ac_users acc)\<rparr>))"

definition operator_uids :: "accounts \<Rightarrow> int list" where
  "operator_uids acc =
     map us_uid (filter (\<lambda>u. us_role u = ''admin'' \<or> us_role u = ''debug'') (ac_users acc))"

section \<open>Access to one pack\<close>

definition pack_access_level :: "str \<Rightarrow> int \<Rightarrow> accounts \<Rightarrow> pack_level option" where
  "pack_access_level pack uid acc =
     Option.bind (find (\<lambda>r. pa_pack r = pack \<and> pa_uid r = uid) (ac_access acc)) (\<lambda>r. level_parse (pa_level r))"

definition reserved_uid :: str where
  "reserved_uid = ''uid 0 is reserved''"

definition grant_pack_access ::
  "str \<Rightarrow> int \<Rightarrow> pack_level \<Rightarrow> int \<Rightarrow> int \<Rightarrow> accounts \<Rightarrow> (str + unit) \<times> accounts" where
  "grant_pack_access pack uid level granted_by now acc =
     (if uid = break_glass_uid then (Inl reserved_uid, acc)
      else (let row = \<lparr>pa_pack = pack, pa_uid = uid, pa_level = level_as_str level, pa_by = granted_by,
                       pa_at = now\<rparr>
            in (Inr (), acc\<lparr>ac_access :=
                  upsert (\<lambda>r. pa_pack r = pack \<and> pa_uid r = uid) (\<lambda>_. row) row (ac_access acc)\<rparr>)))"

definition revoke_pack_access :: "str \<Rightarrow> int \<Rightarrow> accounts \<Rightarrow> bool \<times> accounts" where
  "revoke_pack_access pack uid acc =
     (let rows = filter (\<lambda>r. \<not> (pa_pack r = pack \<and> pa_uid r = uid)) (ac_access acc)
      in (length rows < length (ac_access acc), acc\<lparr>ac_access := rows\<rparr>))"

record pack_grant =
  pg_uid :: int
  pg_login :: "str option"
  pg_level :: pack_level
  pg_by :: int
  pg_by_login :: "str option"
  pg_at :: int

definition level_or_view :: "str \<Rightarrow> pack_level" where
  "level_or_view s = (case level_parse s of None \<Rightarrow> View | Some l \<Rightarrow> l)"

definition list_pack_access :: "str \<Rightarrow> accounts \<Rightarrow> pack_grant list" where
  "list_pack_access pack acc =
     map (\<lambda>r. \<lparr>pg_uid = pa_uid r, pg_login = login_of acc (pa_uid r), pg_level = level_or_view (pa_level r),
               pg_by = pa_by r, pg_by_login = login_of acc (pa_by r), pg_at = pa_at r\<rparr>)
       (sort_key (\<lambda>r. (if pa_level r = ''own'' then 0 else if pa_level r = ''edit'' then 1 else 2 :: nat, pa_at r))
          (filter (\<lambda>r. pa_pack r = pack) (ac_access acc)))"

definition packs_granted_to :: "int \<Rightarrow> accounts \<Rightarrow> (str \<times> pack_level) list" where
  "packs_granted_to uid acc =
     map (\<lambda>r. (pa_pack r, level_or_view (pa_level r)))
       (sort_key pa_pack (filter (\<lambda>r. pa_uid r = uid) (ac_access acc)))"

definition forget_pack_access :: "str \<Rightarrow> accounts \<Rightarrow> accounts" where
  "forget_pack_access pack acc = acc\<lparr>ac_access := filter (\<lambda>r. pa_pack r \<noteq> pack) (ac_access acc)\<rparr>"

section \<open>Who was stopped\<close>

definition block_from_pack ::
  "str \<Rightarrow> int \<Rightarrow> str option \<Rightarrow> int \<Rightarrow> int \<Rightarrow> accounts \<Rightarrow> (str + unit) \<times> accounts" where
  "block_from_pack pack uid reason blocked_by now acc =
     (if uid = break_glass_uid then (Inl reserved_uid, acc)
      else (let row = \<lparr>pb_pack = pack, pb_uid = uid, pb_reason = reason, pb_by = blocked_by, pb_at = now\<rparr>
            in (Inr (), acc\<lparr>ac_blocks :=
                  upsert (\<lambda>r. pb_pack r = pack \<and> pb_uid r = uid) (\<lambda>_. row) row (ac_blocks acc)\<rparr>)))"

definition unblock_from_pack :: "str \<Rightarrow> int \<Rightarrow> accounts \<Rightarrow> bool \<times> accounts" where
  "unblock_from_pack pack uid acc =
     (let rows = filter (\<lambda>r. \<not> (pb_pack r = pack \<and> pb_uid r = uid)) (ac_blocks acc)
      in (length rows < length (ac_blocks acc), acc\<lparr>ac_blocks := rows\<rparr>))"

record pack_block =
  bl_uid :: int
  bl_login :: "str option"
  bl_reason :: "str option"
  bl_by :: int
  bl_by_login :: "str option"
  bl_at :: int

definition block_view :: "accounts \<Rightarrow> block_row \<Rightarrow> pack_block" where
  "block_view acc r = \<lparr>bl_uid = pb_uid r, bl_login = login_of acc (pb_uid r), bl_reason = pb_reason r,
     bl_by = pb_by r, bl_by_login = login_of acc (pb_by r), bl_at = pb_at r\<rparr>"

definition block_on :: "str \<Rightarrow> int \<Rightarrow> accounts \<Rightarrow> pack_block option" where
  "block_on pack uid acc =
     map_option (block_view acc) (find (\<lambda>r. pb_pack r = pack \<and> pb_uid r = uid) (ac_blocks acc))"

definition list_pack_blocks :: "str \<Rightarrow> accounts \<Rightarrow> pack_block list" where
  "list_pack_blocks pack acc =
     map (block_view acc) (sort_key (\<lambda>r. - pb_at r) (filter (\<lambda>r. pb_pack r = pack) (ac_blocks acc)))"

definition forget_pack_blocks :: "str \<Rightarrow> accounts \<Rightarrow> accounts" where
  "forget_pack_blocks pack acc = acc\<lparr>ac_blocks := filter (\<lambda>r. pb_pack r \<noteq> pack) (ac_blocks acc)\<rparr>"

definition suspend_account ::
  "int \<Rightarrow> str option \<Rightarrow> int \<Rightarrow> int \<Rightarrow> accounts \<Rightarrow> (str + unit) \<times> accounts" where
  "suspend_account uid reason who now acc =
     (if uid = break_glass_uid then (Inl reserved_uid, acc)
      else (let row = \<lparr>su_uid = uid, su_reason = reason, su_by = who, su_at = now\<rparr>
            in (Inr (), acc\<lparr>ac_suspensions := upsert (\<lambda>r. su_uid r = uid) (\<lambda>_. row) row (ac_suspensions acc)\<rparr>)))"

definition lift_suspension :: "int \<Rightarrow> accounts \<Rightarrow> bool \<times> accounts" where
  "lift_suspension uid acc =
     (let rows = filter (\<lambda>r. su_uid r \<noteq> uid) (ac_suspensions acc)
      in (length rows < length (ac_suspensions acc), acc\<lparr>ac_suspensions := rows\<rparr>))"

record suspension =
  sp_reason :: "str option"
  sp_by_uid :: int
  sp_by_login :: "str option"
  sp_at :: int

definition suspension_of :: "int \<Rightarrow> accounts \<Rightarrow> suspension option" where
  "suspension_of uid acc =
     map_option (\<lambda>r. \<lparr>sp_reason = su_reason r, sp_by_uid = su_by r, sp_by_login = login_of acc (su_by r),
                      sp_at = su_at r\<rparr>)
       (find (\<lambda>r. su_uid r = uid) (ac_suspensions acc))"

record user_view =
  uv_uid :: int
  uv_login :: str
  uv_role :: str
  uv_created_at :: int
  uv_last_login_at :: int
  uv_suspension :: "suspension option"

definition list_users :: "accounts \<Rightarrow> user_view list" where
  "list_users acc =
     map (\<lambda>u. \<lparr>uv_uid = us_uid u, uv_login = us_login u, uv_role = us_role u, uv_created_at = us_created_at u,
               uv_last_login_at = us_last_login_at u, uv_suspension = suspension_of (us_uid u) acc\<rparr>)
       (sort_key (\<lambda>u. - us_last_login_at u) (filter (\<lambda>u. us_uid u \<noteq> 0) (ac_users acc)))"

section \<open>Threads\<close>

definition open_thread ::
  "str \<Rightarrow> str \<Rightarrow> str \<Rightarrow> str \<Rightarrow> int \<Rightarrow> (str \<times> str) option \<Rightarrow> int \<Rightarrow> accounts \<Rightarrow> (str + int) \<times> accounts" where
  "open_thread pack kind title body who source now acc =
     (if kind \<noteq> ''issue'' \<and> kind \<noteq> ''proposal'' then (Inl (''unknown thread kind '' @ quoted kind), acc)
      else (let i = next_rowid th_id (ac_threads acc)
            in (Inr i, acc\<lparr>ac_threads := ac_threads acc @
                  [\<lparr>th_id = i, th_pack = pack, th_kind = kind, th_title = title, th_body = body, th_by = who,
                    th_status = ''open'', th_source_pack = map_option fst source,
                    th_source_commit = map_option snd source, th_merged_commit = None, th_created_at = now,
                    th_decided_at = None, th_decided_by = None\<rparr>]\<rparr>)))"

text \<open>A thread as it is served: the row with the opener's login and the number of comments joined on.\<close>

record thread_view =
  tv_row :: thread_row
  tv_by_login :: "str option"
  tv_comments :: nat

definition thread_from_row :: "accounts \<Rightarrow> thread_row \<Rightarrow> thread_view" where
  "thread_from_row acc t = \<lparr>tv_row = t, tv_by_login = login_of acc (th_by t),
     tv_comments = length (filter (\<lambda>c. co_thread c = th_id t) (ac_comments acc))\<rparr>"

definition thread_by_id :: "int \<Rightarrow> accounts \<Rightarrow> thread_view option" where
  "thread_by_id i acc = map_option (thread_from_row acc) (find (\<lambda>t. th_id t = i) (ac_threads acc))"

definition threads_for ::
  "str \<Rightarrow> str option \<Rightarrow> bool \<Rightarrow> (int \<times> int) option \<Rightarrow> nat option \<Rightarrow> accounts \<Rightarrow> thread_view list" where
  "threads_for pack kind open_only after limit acc =
     map (thread_from_row acc) (limited limit
       (sort_key (\<lambda>t. (- th_created_at t, - th_id t))
         (filter (\<lambda>t. th_pack t = pack \<and>
              (case kind of None \<Rightarrow> True | Some k \<Rightarrow> th_kind t = k) \<and>
              (open_only \<longrightarrow> th_status t = ''open'') \<and>
              (case after of None \<Rightarrow> True
               | Some (at, i) \<Rightarrow> th_created_at t < at \<or> th_created_at t = at \<and> th_id t < i))
            (ac_threads acc))))"

definition threads_by :: "int \<Rightarrow> accounts \<Rightarrow> thread_view list" where
  "threads_by who acc =
     map (thread_from_row acc) (sort_key (\<lambda>t. - th_created_at t) (filter (\<lambda>t. th_by t = who) (ac_threads acc)))"

definition change_threads :: "(thread_row \<Rightarrow> bool) \<Rightarrow> (thread_row \<Rightarrow> thread_row) \<Rightarrow> accounts \<Rightarrow> bool \<times> accounts" where
  "change_threads which change acc =
     (list_ex which (ac_threads acc),
      acc\<lparr>ac_threads := map (\<lambda>t. if which t then change t else t) (ac_threads acc)\<rparr>)"

definition settle_thread ::
  "int \<Rightarrow> str \<Rightarrow> int \<Rightarrow> str option \<Rightarrow> int \<Rightarrow> accounts \<Rightarrow> (str + bool) \<times> accounts" where
  "settle_thread i status who merged now acc =
     (if status \<notin> {''closed'', ''merged'', ''declined'', ''withdrawn''}
      then (Inl (''unknown thread status '' @ quoted status), acc)
      else (case change_threads (\<lambda>t. th_id t = i \<and> th_status t = ''open'')
                   (\<lambda>t. t\<lparr>th_status := status, th_decided_at := Some now, th_decided_by := Some who,
                          th_merged_commit := merged\<rparr>) acc of
              (n, acc) \<Rightarrow> (Inr n, acc)))"

definition reopen_issue :: "int \<Rightarrow> accounts \<Rightarrow> bool \<times> accounts" where
  "reopen_issue i =
     change_threads (\<lambda>t. th_id t = i \<and> th_kind t = ''issue'' \<and> th_status t = ''closed'')
       (\<lambda>t. t\<lparr>th_status := ''open'', th_decided_at := None, th_decided_by := None\<rparr>)"

text \<open>Deleting threads takes their comments and notifications along.\<close>

definition drop_threads :: "(thread_row \<Rightarrow> bool) \<Rightarrow> accounts \<Rightarrow> accounts" where
  "drop_threads which acc =
     (let gone = map th_id (filter which (ac_threads acc)) in
      acc\<lparr>ac_threads := filter (\<lambda>t. \<not> which t) (ac_threads acc),
          ac_comments := filter (\<lambda>c. co_thread c \<notin> set gone) (ac_comments acc),
          ac_notifications := filter (\<lambda>n. nt_thread n \<notin> set gone) (ac_notifications acc)\<rparr>)"

definition forget_pack_threads :: "str \<Rightarrow> accounts \<Rightarrow> accounts" where
  "forget_pack_threads pack = drop_threads (\<lambda>t. th_pack t = pack \<or> th_source_pack t = Some pack)"

section \<open>Comments\<close>

definition comment :: "int \<Rightarrow> int \<Rightarrow> str \<Rightarrow> int \<Rightarrow> accounts \<Rightarrow> (str + int) \<times> accounts" where
  "comment thread who body now acc =
     (if \<not> list_ex (\<lambda>t. th_id t = thread) (ac_threads acc) then (Inl ''foreign key'', acc)
      else (let i = next_rowid co_id (ac_comments acc)
            in (Inr i, acc\<lparr>ac_comments := ac_comments acc @
                  [\<lparr>co_id = i, co_thread = thread, co_by = who, co_body = body, co_created_at = now,
                    co_hidden_at = None, co_hidden_by = None\<rparr>]\<rparr>)))"

record comment_view =
  cv_id :: int
  cv_by_uid :: int
  cv_by_login :: "str option"
  cv_body :: "str option"
  cv_hidden :: bool
  cv_created_at :: int

definition comment_from_row :: "accounts \<Rightarrow> comment_row \<Rightarrow> comment_view" where
  "comment_from_row acc c = \<lparr>cv_id = co_id c, cv_by_uid = co_by c, cv_by_login = login_of acc (co_by c),
     cv_body = (if co_hidden_at c \<noteq> None then None else Some (co_body c)),
     cv_hidden = (co_hidden_at c \<noteq> None), cv_created_at = co_created_at c\<rparr>"

definition comments_on :: "int \<Rightarrow> int option \<Rightarrow> nat option \<Rightarrow> accounts \<Rightarrow> comment_view list" where
  "comments_on thread after limit acc =
     map (comment_from_row acc) (limited limit
       (sort_key co_id (filter (\<lambda>c. co_thread c = thread \<and> co_id c > (case after of None \<Rightarrow> 0 | Some i \<Rightarrow> i))
          (ac_comments acc))))"

definition comment_by_id :: "int \<Rightarrow> accounts \<Rightarrow> comment_view option" where
  "comment_by_id i acc = map_option (comment_from_row acc) (find (\<lambda>c. co_id c = i) (ac_comments acc))"

definition hidden_row :: "int \<Rightarrow> bool \<Rightarrow> int \<Rightarrow> int \<Rightarrow> comment_row \<Rightarrow> comment_row" where
  "hidden_row i hidden who now c =
     (if co_id c \<noteq> i then c
      else if hidden then c\<lparr>co_hidden_at := Some now, co_hidden_by := Some who\<rparr>
      else c\<lparr>co_hidden_at := None, co_hidden_by := None\<rparr>)"

definition set_comment_hidden :: "int \<Rightarrow> bool \<Rightarrow> int \<Rightarrow> int \<Rightarrow> accounts \<Rightarrow> bool \<times> accounts" where
  "set_comment_hidden i hidden who now acc =
     (list_ex (\<lambda>c. co_id c = i) (ac_comments acc),
      acc\<lparr>ac_comments := map (hidden_row i hidden who now) (ac_comments acc)\<rparr>)"

definition thread_of_comment :: "int \<Rightarrow> accounts \<Rightarrow> int option" where
  "thread_of_comment i acc = map_option co_thread (find (\<lambda>c. co_id c = i) (ac_comments acc))"

definition speakers_on :: "int \<Rightarrow> accounts \<Rightarrow> int list" where
  "speakers_on thread acc = remdups (map co_by (filter (\<lambda>c. co_thread c = thread) (ac_comments acc)))"

definition recent_by :: "str \<Rightarrow> int \<Rightarrow> int \<Rightarrow> accounts \<Rightarrow> str + nat" where
  "recent_by table who since acc =
     (if table = ''threads''
      then Inr (length (filter (\<lambda>t. th_by t = who \<and> th_created_at t > since) (ac_threads acc)))
      else if table = ''comments''
      then Inr (length (filter (\<lambda>c. co_by c = who \<and> co_created_at c > since) (ac_comments acc)))
      else Inl (''no rate window for '' @ table))"

section \<open>Notifications\<close>

definition told :: "int list \<Rightarrow> int \<Rightarrow> int list" where
  "told uids actor = remdups (sort (filter (\<lambda>u. u \<noteq> actor \<and> u \<noteq> break_glass_uid) uids))"

definition add_notification :: "str \<Rightarrow> int \<Rightarrow> int \<Rightarrow> int \<Rightarrow> int \<Rightarrow> notification_row list \<Rightarrow> notification_row list" where
  "add_notification kind thread actor now uid rows =
     rows @ [\<lparr>nt_id = next_rowid nt_id rows, nt_uid = uid, nt_kind = kind, nt_thread = thread,
              nt_actor = actor, nt_created_at = now, nt_read_at = None\<rparr>]"

definition notification_kinds :: "str set" where
  "notification_kinds = {''comment'', ''opened'', ''settled''}"

definition notify :: "int list \<Rightarrow> str \<Rightarrow> int \<Rightarrow> int \<Rightarrow> int \<Rightarrow> accounts \<Rightarrow> (str + unit) \<times> accounts" where
  "notify uids kind thread actor now acc =
     (if kind \<notin> notification_kinds then (Inl (''unknown notification kind '' @ quoted kind), acc)
      else if told uids actor = [] then (Inr (), acc)
      else if \<not> list_ex (\<lambda>t. th_id t = thread) (ac_threads acc) then (Inl ''foreign key'', acc)
      else (Inr (), acc\<lparr>ac_notifications :=
              fold (add_notification kind thread actor now) (told uids actor) (ac_notifications acc)\<rparr>))"

definition forget_notifications_about :: "str \<Rightarrow> int \<Rightarrow> accounts \<Rightarrow> accounts" where
  "forget_notifications_about pack uid acc =
     (let about = map th_id (filter (\<lambda>t. th_pack t = pack) (ac_threads acc)) in
      acc\<lparr>ac_notifications :=
        filter (\<lambda>n. \<not> (nt_uid n = uid \<and> nt_thread n \<in> set about)) (ac_notifications acc)\<rparr>)"

record notification_view =
  nv_row :: notification_row
  nv_pack :: str
  nv_title :: str
  nv_status :: str
  nv_actor_login :: "str option"
  nv_read :: bool

definition notification_view_of :: "accounts \<Rightarrow> notification_row \<Rightarrow> notification_view option" where
  "notification_view_of acc n =
     map_option (\<lambda>t. \<lparr>nv_row = n, nv_pack = th_pack t, nv_title = th_title t, nv_status = th_status t,
                      nv_actor_login = login_of acc (nt_actor n), nv_read = (nt_read_at n \<noteq> None)\<rparr>)
       (find (\<lambda>t. th_id t = nt_thread n) (ac_threads acc))"

definition notifications_for ::
  "int \<Rightarrow> bool \<Rightarrow> int option \<Rightarrow> nat option \<Rightarrow> accounts \<Rightarrow> notification_view list" where
  "notifications_for uid unread_only after limit acc =
     limited limit (List.map_filter (notification_view_of acc)
       (sort_key (\<lambda>n. - nt_id n) (filter (\<lambda>n. nt_uid n = uid \<and> (unread_only \<longrightarrow> nt_read_at n = None) \<and>
            (case after of None \<Rightarrow> True | Some i \<Rightarrow> nt_id n < i)) (ac_notifications acc))))"

definition unread_count :: "int \<Rightarrow> accounts \<Rightarrow> nat" where
  "unread_count uid acc = length (filter (\<lambda>n. nt_uid n = uid \<and> nt_read_at n = None) (ac_notifications acc))"

definition mark_read :: "int \<Rightarrow> int option \<Rightarrow> int \<Rightarrow> accounts \<Rightarrow> accounts" where
  "mark_read uid i now acc = acc\<lparr>ac_notifications :=
     map (\<lambda>n. if nt_uid n = uid \<and> (case i of None \<Rightarrow> True | Some k \<Rightarrow> nt_id n = k) \<and> nt_read_at n = None
              then n\<lparr>nt_read_at := Some now\<rparr> else n) (ac_notifications acc)\<rparr>"

section \<open>Feed keys, uploads, terms, the trail\<close>

definition feed_key :: "int \<Rightarrow> str \<Rightarrow> int \<Rightarrow> accounts \<Rightarrow> (str + str) \<times> accounts" where
  "feed_key uid token now acc =
     (if uid = break_glass_uid then (Inl reserved_uid, acc)
      else (case find (\<lambda>k. fk_uid k = uid) (ac_feed_keys acc) of
              Some k \<Rightarrow> (Inr (fk_key k), acc)
            | None \<Rightarrow>
                if list_ex (\<lambda>k. fk_key k = token) (ac_feed_keys acc) then (Inl ''unique'', acc)
                else (Inr token, acc\<lparr>ac_feed_keys := ac_feed_keys acc @
                       [\<lparr>fk_uid = uid, fk_key = token, fk_created_at = now\<rparr>]\<rparr>)))"

definition rotate_feed_key :: "int \<Rightarrow> str \<Rightarrow> int \<Rightarrow> accounts \<Rightarrow> (str + str) \<times> accounts" where
  "rotate_feed_key uid token now acc =
     feed_key uid token now (acc\<lparr>ac_feed_keys := filter (\<lambda>k. fk_uid k \<noteq> uid) (ac_feed_keys acc)\<rparr>)"

definition uid_for_feed_key :: "str \<Rightarrow> accounts \<Rightarrow> int option" where
  "uid_for_feed_key key acc = map_option fk_uid (find (\<lambda>k. fk_key k = key) (ac_feed_keys acc))"

definition enqueue_upload ::
  "int \<Rightarrow> str \<Rightarrow> str \<Rightarrow> str \<Rightarrow> int \<Rightarrow> str option \<Rightarrow> int \<Rightarrow> accounts \<Rightarrow> int \<times> accounts" where
  "enqueue_upload uploader pack filename sha1 size_bytes upstream now acc =
     (let i = next_rowid up_id (ac_uploads acc)
      in (i, acc\<lparr>ac_uploads := ac_uploads acc @
            [\<lparr>up_id = i, up_uploader = uploader, up_pack = pack, up_filename = filename, up_sha1 = sha1,
              up_size_bytes = size_bytes, up_status = ''pending'', up_note = None, up_created_at = now,
              up_decided_at = None, up_upstream = upstream, up_decided_by = None\<rparr>]\<rparr>))"

definition list_pending_uploads :: "accounts \<Rightarrow> upload_row list" where
  "list_pending_uploads acc = sort_key up_created_at (filter (\<lambda>u. up_status u = ''pending'') (ac_uploads acc))"

definition list_user_uploads :: "int \<Rightarrow> accounts \<Rightarrow> upload_row list" where
  "list_user_uploads uploader acc =
     sort_key (\<lambda>u. - up_created_at u) (filter (\<lambda>u. up_uploader u = uploader) (ac_uploads acc))"

definition get_upload :: "int \<Rightarrow> accounts \<Rightarrow> upload_row option" where
  "get_upload i acc = find (\<lambda>u. up_id u = i) (ac_uploads acc)"

definition set_upload_status ::
  "int \<Rightarrow> str \<Rightarrow> str option \<Rightarrow> int option \<Rightarrow> int \<Rightarrow> accounts \<Rightarrow> (str + unit) \<times> accounts" where
  "set_upload_status i status note decided_by now acc =
     (if status \<noteq> ''approved'' \<and> status \<noteq> ''rejected''
      then (Inl (''invalid upload status '' @ CHR 0x27 # status @ [CHR 0x27]), acc)
      else if \<not> list_ex (\<lambda>u. up_id u = i) (ac_uploads acc) then (Inl (''no upload with id '' @ show_int i), acc)
      else (Inr (), acc\<lparr>ac_uploads := map (\<lambda>u. if up_id u = i
              then u\<lparr>up_status := status, up_note := note, up_decided_at := Some now, up_decided_by := decided_by\<rparr>
              else u) (ac_uploads acc)\<rparr>))"

definition accept_terms :: "int \<Rightarrow> int \<Rightarrow> accounts \<Rightarrow> accounts" where
  "accept_terms uid now acc =
     acc\<lparr>ac_terms := filter (\<lambda>(u, _). u \<noteq> uid) (ac_terms acc) @ [(uid, now)]\<rparr>"

definition terms_accepted :: "int \<Rightarrow> accounts \<Rightarrow> bool" where
  "terms_accepted uid acc \<longleftrightarrow> list_ex (\<lambda>(u, _). u = uid) (ac_terms acc)"

definition record_audit :: "int \<Rightarrow> str \<Rightarrow> str \<Rightarrow> str option \<Rightarrow> str option \<Rightarrow> int \<Rightarrow> accounts \<Rightarrow> accounts" where
  "record_audit actor_uid actor_login action target detail now acc =
     acc\<lparr>ac_audit := ac_audit acc @ [\<lparr>ar_id = next_rowid ar_id (ac_audit acc), ar_actor_uid = actor_uid,
       ar_actor_login = actor_login, ar_action = action, ar_target = target, ar_detail = detail,
       ar_created_at = now\<rparr>]\<rparr>"

text \<open>SQLite reads a negative limit as none.\<close>

definition list_audit :: "int \<Rightarrow> int option \<Rightarrow> accounts \<Rightarrow> audit_row list" where
  "list_audit limit prior acc =
     limited (if limit < 0 then None else Some (nat limit)) (sort_key (\<lambda>r. - ar_id r)
       (filter (\<lambda>r. case prior of None \<Rightarrow> True | Some i \<Rightarrow> ar_id r < i) (ac_audit acc)))"

section \<open>Facts on tables\<close>

definition ascending :: "('a \<Rightarrow> int) \<Rightarrow> 'a list \<Rightarrow> bool" where
  "ascending key rows \<longleftrightarrow> sorted_wrt (<) (map key rows)"

lemma next_rowid_gt: "r \<in> set rows \<Longrightarrow> key r < next_rowid key rows"
proof -
  have "m \<le> fold (\<lambda>r m. max (key r) m) rows m \<and> (r \<in> set rows \<longrightarrow> key r \<le> fold (\<lambda>r m. max (key r) m) rows m)" for m
  proof (induction rows arbitrary: m)
    case (Cons a rows)
    from Cons.IH [of "max (key a) m"] show ?case by auto
  qed simp
  from this [of 0] show "r \<in> set rows \<Longrightarrow> ?thesis" by (simp add: next_rowid_def)
qed

lemma next_rowid_pos: "next_rowid key rows > 0"
proof -
  have "m \<le> fold (\<lambda>r m. max (key r) m) rows m" for m
  proof (induction rows arbitrary: m)
    case (Cons a rows)
    from Cons.IH [of "max (key a) m"] show ?case by simp
  qed simp
  from this [of 0] show ?thesis by (simp add: next_rowid_def)
qed

lemma ascending_Nil [simp]: "ascending key []"
  by (simp add: ascending_def)

lemma ascending_snoc: "ascending key rows \<Longrightarrow> key new = next_rowid key rows \<Longrightarrow> ascending key (rows @ [new])"
  by (auto simp: ascending_def sorted_wrt_append next_rowid_gt)

lemma ascending_filter: "ascending key rows \<Longrightarrow> ascending key (filter P rows)"
  unfolding ascending_def by (induction rows) auto

lemma ascending_map: "(\<And>r. key (f r) = key r) \<Longrightarrow> ascending key (map f rows) \<longleftrightarrow> ascending key rows"
  by (simp add: ascending_def comp_def)

lemma ascending_distinct: "ascending key rows \<Longrightarrow> distinct (map key rows)"
  unfolding ascending_def by (simp add: strict_sorted_iff)

lemma ascending_inj: "ascending key rows \<Longrightarrow> r \<in> set rows \<Longrightarrow> s \<in> set rows \<Longrightarrow> key r = key s \<Longrightarrow> r = s"
  using ascending_distinct [of key rows] by (simp add: distinct_map inj_on_def)

lemma find_unique: "distinct (map key rows) \<Longrightarrow> r \<in> set rows \<Longrightarrow> find (\<lambda>s. key s = key r) rows = Some r"
  by (induction rows) (auto simp: image_iff)

lemma set_upsert:
  "set (upsert same update new rows) = update ` {r \<in> set rows. same r} \<union> {r \<in> set rows. \<not> same r} \<union>
     (if list_ex same rows then {} else {new})"
  by (auto simp: upsert_def list_ex_iff)

lemma upsert_keys:
  assumes "\<And>r. same r \<longleftrightarrow> key r = k" "\<And>r. same r \<Longrightarrow> key (update r) = k" "key new = k"
  shows "map key (upsert same update new rows) = (if k \<in> set (map key rows) then map key rows else map key rows @ [k])"
proof -
  have "list_ex same rows \<longleftrightarrow> k \<in> set (map key rows)" using assms(1) by (force simp: list_ex_iff)
  then show ?thesis using assms by (auto simp: upsert_def)
qed

lemma upsert_distinct:
  assumes "\<And>r. same r \<longleftrightarrow> key r = k" "\<And>r. same r \<Longrightarrow> key (update r) = k" "key new = k" "distinct (map key rows)"
  shows "distinct (map key (upsert same update new rows))"
  using upsert_keys [of same key k update new rows, OF assms(1-3)] assms(4) by (simp split: if_splits)

lemma find_append: "find P (xs @ ys) = (case find P xs of None \<Rightarrow> find P ys | Some x \<Rightarrow> Some x)"
  by (induction xs) auto

lemma find_map_update:
  "(\<And>r. same r \<longleftrightarrow> key r = k) \<Longrightarrow> (\<And>r. same r \<Longrightarrow> key (update r) = k) \<Longrightarrow>
    find (\<lambda>r. key r = j) (map (\<lambda>r. if same r then update r else r) rows) =
    (if j = k then map_option update (find same rows) else find (\<lambda>r. key r = j) rows)"
  by (induction rows) auto

lemma find_upsert:
  assumes "\<And>r. same r \<longleftrightarrow> key r = k" "\<And>r. same r \<Longrightarrow> key (update r) = k" "key new = k"
  shows "find (\<lambda>r. key r = j) (upsert same update new rows) =
    (if j = k then Some (case find same rows of None \<Rightarrow> new | Some r \<Rightarrow> update r) else find (\<lambda>r. key r = j) rows)"
proof (cases "find same rows")
  case None
  then have "\<not> list_ex same rows" by (simp add: find_None_iff list_ex_iff)
  moreover have "find (\<lambda>r. key r = k) rows = None" using None assms(1) by (simp add: find_None_iff)
  ultimately show ?thesis using assms(3) None by (simp add: upsert_def find_append split: option.split)
next
  case (Some r)
  then have "list_ex same rows" by (auto simp: find_Some_iff list_ex_iff)
  with Some find_map_update [of same key k update, OF assms(1,2)] show ?thesis by (simp add: upsert_def)
qed

section \<open>The invariant of the store\<close>

definition role_names :: "str set" where
  "role_names = {''member'', ''admin'', ''debug''}"

definition users_ok :: "user_row list \<Rightarrow> bool" where
  "users_ok rows \<longleftrightarrow> ascending us_id rows \<and> distinct (map us_uid rows) \<and>
     us_role ` set rows \<subseteq> role_names"

definition sessions_ok :: "user_row list \<Rightarrow> session_row list \<Rightarrow> bool" where
  "sessions_ok users rows \<longleftrightarrow> distinct (map se_id rows) \<and> se_user ` set rows \<subseteq> us_id ` set users"

definition access_ok :: "access_row list \<Rightarrow> bool" where
  "access_ok rows \<longleftrightarrow> distinct (map (\<lambda>r. (pa_pack r, pa_uid r)) rows) \<and>
     (\<forall>r \<in> set rows. pa_uid r \<noteq> break_glass_uid \<and> level_parse (pa_level r) \<noteq> None)"

definition blocks_ok :: "block_row list \<Rightarrow> bool" where
  "blocks_ok rows \<longleftrightarrow> distinct (map (\<lambda>r. (pb_pack r, pb_uid r)) rows) \<and>
     (\<forall>r \<in> set rows. pb_uid r \<noteq> break_glass_uid)"

definition suspensions_ok :: "suspension_row list \<Rightarrow> bool" where
  "suspensions_ok rows \<longleftrightarrow> distinct (map su_uid rows) \<and> (\<forall>r \<in> set rows. su_uid r \<noteq> break_glass_uid)"

definition thread_kinds :: "str set" where
  "thread_kinds = {''issue'', ''proposal''}"

definition settled_statuses :: "str set" where
  "settled_statuses = {''closed'', ''merged'', ''declined'', ''withdrawn''}"

definition decided_uploads :: "str set" where
  "decided_uploads = {''approved'', ''rejected''}"

definition thread_ok :: "thread_row \<Rightarrow> bool" where
  "thread_ok t \<longleftrightarrow> th_kind t \<in> thread_kinds \<and>
     (if th_status t = ''open'' then th_decided_at t = None \<and> th_decided_by t = None
      else th_status t \<in> settled_statuses \<and> th_decided_at t \<noteq> None \<and> th_decided_by t \<noteq> None)"

definition threads_ok :: "thread_row list \<Rightarrow> bool" where
  "threads_ok rows \<longleftrightarrow> ascending th_id rows \<and> (\<forall>t \<in> set rows. thread_ok t)"

definition comments_ok :: "thread_row list \<Rightarrow> comment_row list \<Rightarrow> bool" where
  "comments_ok threads rows \<longleftrightarrow> ascending co_id rows \<and> co_thread ` set rows \<subseteq> th_id ` set threads \<and>
     (\<forall>c \<in> set rows. co_id c > 0 \<and> (co_hidden_at c = None \<longleftrightarrow> co_hidden_by c = None))"

definition notifications_ok :: "thread_row list \<Rightarrow> notification_row list \<Rightarrow> bool" where
  "notifications_ok threads rows \<longleftrightarrow> ascending nt_id rows \<and> nt_thread ` set rows \<subseteq> th_id ` set threads \<and>
     (\<forall>n \<in> set rows. nt_uid n \<noteq> nt_actor n \<and> nt_uid n \<noteq> break_glass_uid \<and>
        nt_kind n \<in> notification_kinds)"

definition feed_keys_ok :: "feed_key_row list \<Rightarrow> bool" where
  "feed_keys_ok rows \<longleftrightarrow> distinct (map fk_uid rows) \<and> distinct (map fk_key rows) \<and>
     (\<forall>k \<in> set rows. fk_uid k \<noteq> break_glass_uid)"

definition uploads_ok :: "upload_row list \<Rightarrow> bool" where
  "uploads_ok rows \<longleftrightarrow> ascending up_id rows \<and> (\<forall>u \<in> set rows.
     if up_status u = ''pending'' then up_decided_at u = None
     else up_status u \<in> decided_uploads \<and> up_decided_at u \<noteq> None)"

definition acc_ok :: "accounts \<Rightarrow> bool" where
  "acc_ok acc \<longleftrightarrow> users_ok (ac_users acc) \<and> sessions_ok (ac_users acc) (ac_sessions acc) \<and>
     access_ok (ac_access acc) \<and> blocks_ok (ac_blocks acc) \<and> suspensions_ok (ac_suspensions acc) \<and>
     threads_ok (ac_threads acc) \<and> comments_ok (ac_threads acc) (ac_comments acc) \<and>
     notifications_ok (ac_threads acc) (ac_notifications acc) \<and> feed_keys_ok (ac_feed_keys acc) \<and>
     uploads_ok (ac_uploads acc) \<and> distinct (map fst (ac_terms acc)) \<and> ascending ar_id (ac_audit acc)"

text \<open>Every write of the store, by anybody, in any order.\<close>

inductive acc_step :: "accounts \<Rightarrow> accounts \<Rightarrow> bool" where
  s_sign_in: "acc_step acc (snd (sign_in_github uid login forced now token acc))"
| s_session: "acc_step acc (snd (session_identity sid now acc))"
| s_logout: "acc_step acc (delete_session sid acc)"
| s_role: "acc_step acc (snd (set_role uid r acc))"
| s_grant: "acc_step acc (snd (grant_pack_access pack uid level who now acc))"
| s_revoke: "acc_step acc (snd (revoke_pack_access pack uid acc))"
| s_forget_access: "acc_step acc (forget_pack_access pack acc)"
| s_block: "acc_step acc (snd (block_from_pack pack uid reason who now acc))"
| s_unblock: "acc_step acc (snd (unblock_from_pack pack uid acc))"
| s_forget_blocks: "acc_step acc (forget_pack_blocks pack acc)"
| s_suspend: "acc_step acc (snd (suspend_account uid reason who now acc))"
| s_lift: "acc_step acc (snd (lift_suspension uid acc))"
| s_open: "acc_step acc (snd (open_thread pack kind title body who source now acc))"
| s_settle: "acc_step acc (snd (settle_thread i status who merged now acc))"
| s_reopen: "acc_step acc (snd (reopen_issue i acc))"
| s_forget_threads: "acc_step acc (forget_pack_threads pack acc)"
| s_comment: "acc_step acc (snd (comment thread who body now acc))"
| s_hide: "acc_step acc (snd (set_comment_hidden i hidden who now acc))"
| s_notify: "acc_step acc (snd (notify uids kind thread actor now acc))"
| s_forget_told: "acc_step acc (forget_notifications_about pack uid acc)"
| s_read: "acc_step acc (mark_read uid which now acc)"
| s_feed: "acc_step acc (snd (feed_key uid token now acc))"
| s_rotate: "acc_step acc (snd (rotate_feed_key uid token now acc))"
| s_upload: "acc_step acc (snd (enqueue_upload uploader pack file sha n upstream now acc))"
| s_decide: "acc_step acc (snd (set_upload_status i status note decider now acc))"
| s_terms: "acc_step acc (accept_terms uid now acc)"
| s_audit: "acc_step acc (record_audit uid login action target detail now acc)"

inductive acc_reach :: "accounts \<Rightarrow> bool" where
  r_empty: "acc_reach empty_accounts"
| r_step: "acc_reach acc \<Longrightarrow> acc_step acc acc' \<Longrightarrow> acc_reach acc'"

section \<open>Every write keeps it\<close>

lemma level_parse_str [simp]: "level_parse (level_as_str l) = Some l"
  by (cases l) (simp_all add: level_as_str_def level_parse_def)

lemma role_from_str [simp]: "role_from_db (role_as_str r) = r"
  by (cases r) (simp_all add: role_as_str_def role_from_db_def)

lemma role_str_vocab [simp]: "role_as_str r \<in> role_names" "''member'' \<in> role_names"
  by (cases r) (simp_all add: role_as_str_def role_names_def)

lemma distinct_map_filter_key: "distinct (map key rows) \<Longrightarrow> distinct (map key (filter P rows))"
  by (induction rows) auto

lemma upsert_user_ids:
  "us_id ` set rows \<subseteq> us_id ` set (upsert_user uid login forced now rows)"
  by (auto simp: upsert_user_def set_upsert image_Un image_image)

lemma users_ok_upsert: "users_ok rows \<Longrightarrow> users_ok (upsert_user uid login forced now rows)"
proof -
  assume ok: "users_ok rows"
  let ?new = "upsert_user uid login forced now rows"
  have "ascending us_id ?new"
  proof (cases "list_ex (\<lambda>u. us_uid u = uid) rows")
    case True
    with ok show ?thesis by (simp add: upsert_user_def upsert_def users_ok_def ascending_map)
  next
    case False
    with ok show ?thesis by (simp add: upsert_user_def upsert_def users_ok_def ascending_snoc)
  qed
  moreover have "distinct (map us_uid ?new)"
    unfolding upsert_user_def by (rule upsert_distinct [where k = uid]) (use ok in \<open>auto simp: users_ok_def\<close>)
  moreover have "us_role ` set ?new \<subseteq> role_names"
    using ok by (auto simp: upsert_user_def set_upsert users_ok_def split: option.split)
  ultimately show ?thesis by (simp add: users_ok_def)
qed

lemma sign_in_ok:
  assumes "acc_ok acc"
  shows "acc_ok (snd (sign_in_github uid login forced now token acc))"
proof -
  let ?users = "upsert_user uid login forced now (ac_users acc)"
  have "users_ok ?users" using assms by (simp add: acc_ok_def users_ok_upsert)
  moreover have "sessions_ok ?users rows'"
    if "find (\<lambda>u. us_uid u = uid) ?users = Some u" "insert_session (us_id u) now token (ac_sessions acc) = Inr rows'" for u rows'
  proof -
    have u: "u \<in> set ?users" using that(1) by (auto simp: find_Some_iff)
    have sub: "se_user ` set (ac_sessions acc) \<subseteq> us_id ` set ?users"
      using assms subset_trans [OF _ upsert_user_ids] by (auto simp only: acc_ok_def sessions_ok_def)
    with u show ?thesis
      using that(2) assms
      by (auto simp: insert_session_def acc_ok_def sessions_ok_def list_ex_iff intro: subsetD [OF sub imageI] split: if_splits)
  qed
  ultimately show ?thesis
    using assms by (auto simp: sign_in_github_def Let_def acc_ok_def split: option.split sum.split)
qed

lemma session_ok: "acc_ok acc \<Longrightarrow> acc_ok (delete_session sid acc)"
  by (auto simp: delete_session_def acc_ok_def sessions_ok_def distinct_map_filter_key)

lemma users_ok_map:
  assumes "users_ok rows" "\<And>u. us_id (f u) = us_id u" "\<And>u. us_uid (f u) = us_uid u"
    and "\<And>u. us_role (f u) = us_role u \<or> us_role (f u) \<in> role_names"
  shows "users_ok (map f rows)"
proof -
  have "us_role (f u) \<in> role_names" if "u \<in> set rows" for u
    using assms(4) [of u] assms(1) that by (auto simp: users_ok_def)
  then show ?thesis
    using assms(1) by (auto simp: users_ok_def ascending_map [of us_id f, OF assms(2)] assms(3) comp_def)
qed

lemma sessions_ok_map: "(\<And>u. us_id (f u) = us_id u) \<Longrightarrow> sessions_ok (map f users) rows = sessions_ok users rows"
  by (simp add: sessions_ok_def image_image)

lemma set_role_ok: "acc_ok acc \<Longrightarrow> acc_ok (snd (set_role uid r acc))"
proof (cases "r \<in> role_names")
  case True
  let ?f = "\<lambda>u. if us_uid u = uid then u\<lparr>us_role := r\<rparr> else u"
  assume ok: "acc_ok acc"
  then have "users_ok (map ?f (ac_users acc))"
    by (intro users_ok_map) (simp_all add: acc_ok_def True)
  moreover have "sessions_ok (map ?f (ac_users acc)) rows = sessions_ok (ac_users acc) rows" for rows
    by (rule sessions_ok_map) simp
  ultimately have "acc_ok (acc\<lparr>ac_users := map ?f (ac_users acc)\<rparr>)" using ok by (simp add: acc_ok_def)
  with ok show ?thesis by (simp add: set_role_def)
qed (simp add: set_role_def role_names_def)

lemma access_upsert:
  assumes "access_ok rows" "pa_uid row \<noteq> break_glass_uid" "level_parse (pa_level row) \<noteq> None"
  shows "access_ok (upsert (\<lambda>r. pa_pack r = pa_pack row \<and> pa_uid r = pa_uid row) (\<lambda>_. row) row rows)"
proof -
  have "distinct (map (\<lambda>r. (pa_pack r, pa_uid r)) (upsert (\<lambda>r. pa_pack r = pa_pack row \<and> pa_uid r = pa_uid row) (\<lambda>_. row) row rows))"
    by (rule upsert_distinct [where k = "(pa_pack row, pa_uid row)"]) (use assms(1) in \<open>simp_all add: access_ok_def\<close>)
  with assms show ?thesis by (auto simp: access_ok_def set_upsert)
qed

lemma blocks_upsert:
  assumes "blocks_ok rows" "pb_uid row \<noteq> break_glass_uid"
  shows "blocks_ok (upsert (\<lambda>r. pb_pack r = pb_pack row \<and> pb_uid r = pb_uid row) (\<lambda>_. row) row rows)"
proof -
  have "distinct (map (\<lambda>r. (pb_pack r, pb_uid r)) (upsert (\<lambda>r. pb_pack r = pb_pack row \<and> pb_uid r = pb_uid row) (\<lambda>_. row) row rows))"
    by (rule upsert_distinct [where k = "(pb_pack row, pb_uid row)"]) (use assms(1) in \<open>simp_all add: blocks_ok_def\<close>)
  with assms show ?thesis by (auto simp: blocks_ok_def set_upsert)
qed

lemma suspensions_upsert:
  assumes "suspensions_ok rows" "su_uid row \<noteq> break_glass_uid"
  shows "suspensions_ok (upsert (\<lambda>r. su_uid r = su_uid row) (\<lambda>_. row) row rows)"
proof -
  have "distinct (map su_uid (upsert (\<lambda>r. su_uid r = su_uid row) (\<lambda>_. row) row rows))"
    by (rule upsert_distinct [where k = "su_uid row"]) (use assms(1) in \<open>simp_all add: suspensions_ok_def\<close>)
  with assms show ?thesis by (auto simp: suspensions_ok_def set_upsert)
qed

lemma grants_ok:
  assumes "acc_ok acc"
  shows "acc_ok (snd (grant_pack_access pack uid level who now acc))"
    "acc_ok (snd (block_from_pack pack uid reason who now acc))"
    "acc_ok (snd (suspend_account uid reason who now acc))"
  using assms
    access_upsert [of "ac_access acc" "\<lparr>pa_pack = pack, pa_uid = uid, pa_level = level_as_str level, pa_by = who, pa_at = now\<rparr>"]
    blocks_upsert [of "ac_blocks acc" "\<lparr>pb_pack = pack, pb_uid = uid, pb_reason = reason, pb_by = who, pb_at = now\<rparr>"]
    suspensions_upsert [of "ac_suspensions acc" "\<lparr>su_uid = uid, su_reason = reason, su_by = who, su_at = now\<rparr>"]
  by (simp_all add: acc_ok_def grant_pack_access_def block_from_pack_def suspend_account_def Let_def)

lemma removals_ok:
  assumes "acc_ok acc"
  shows "acc_ok (snd (revoke_pack_access pack uid acc))" "acc_ok (forget_pack_access pack acc)"
    "acc_ok (snd (unblock_from_pack pack uid acc))" "acc_ok (forget_pack_blocks pack acc)"
    "acc_ok (snd (lift_suspension uid acc))"
  using assms
  by (auto simp: acc_ok_def revoke_pack_access_def forget_pack_access_def unblock_from_pack_def forget_pack_blocks_def
      lift_suspension_def Let_def access_ok_def blocks_ok_def suspensions_ok_def distinct_map_filter_key)

lemma below_threads:
  "comments_ok threads rows \<Longrightarrow> th_id ` set threads \<subseteq> th_id ` set threads' \<Longrightarrow> comments_ok threads' rows"
  "notifications_ok threads ns \<Longrightarrow> th_id ` set threads \<subseteq> th_id ` set threads' \<Longrightarrow> notifications_ok threads' ns"
  unfolding comments_ok_def notifications_ok_def by blast+

lemma open_ok: "acc_ok acc \<Longrightarrow> acc_ok (snd (open_thread pack kind title body who source now acc))"
proof (cases "kind \<in> thread_kinds")
  case True
  assume ok: "acc_ok acc"
  let ?t = "\<lparr>th_id = next_rowid th_id (ac_threads acc), th_pack = pack, th_kind = kind, th_title = title,
     th_body = body, th_by = who, th_status = ''open'', th_source_pack = map_option fst source,
     th_source_commit = map_option snd source, th_merged_commit = None, th_created_at = now,
     th_decided_at = None, th_decided_by = None\<rparr>"
  have "threads_ok (ac_threads acc @ [?t])"
    using ok True by (auto simp: acc_ok_def threads_ok_def thread_ok_def ascending_snoc)
  moreover have "comments_ok (ac_threads acc @ [?t]) (ac_comments acc)" "notifications_ok (ac_threads acc @ [?t]) (ac_notifications acc)"
    using ok by (auto simp: acc_ok_def intro: below_threads)
  ultimately have "acc_ok (acc\<lparr>ac_threads := ac_threads acc @ [?t]\<rparr>)" using ok by (simp add: acc_ok_def)
  with True ok show ?thesis by (simp add: open_thread_def Let_def)
qed (simp add: open_thread_def thread_kinds_def)

lemma change_ok:
  assumes "acc_ok acc" "\<And>t. th_id (change t) = th_id t"
    and "\<And>t. which t \<Longrightarrow> thread_ok t \<Longrightarrow> thread_ok (change t)"
  shows "acc_ok (snd (change_threads which change acc))"
proof -
  let ?f = "\<lambda>t. if which t then change t else t"
  have i: "th_id (?f t) = th_id t" for t using assms(2) by simp
  have "threads_ok (map ?f (ac_threads acc))"
    using assms(1,3) by (auto simp: acc_ok_def threads_ok_def ascending_map [of th_id ?f, OF i])
  moreover have "map th_id (map ?f (ac_threads acc)) = map th_id (ac_threads acc)" using i by simp
  then have "th_id ` set (map ?f (ac_threads acc)) = th_id ` set (ac_threads acc)" by (metis set_map)
  ultimately show ?thesis
    using assms(1) below_threads [of "ac_threads acc" _ "map ?f (ac_threads acc)"]
    by (auto simp: acc_ok_def change_threads_def)
qed

lemma settle_ok: "acc_ok acc \<Longrightarrow> acc_ok (snd (settle_thread i status who merged now acc))"
proof (cases "status \<in> settled_statuses")
  case True
  assume ok: "acc_ok acc"
  have ne: "status \<noteq> ''open''" using True by (auto simp: settled_statuses_def)
  have "acc_ok (snd (change_threads (\<lambda>t. th_id t = i \<and> th_status t = ''open'')
     (\<lambda>t. t\<lparr>th_status := status, th_decided_at := Some now, th_decided_by := Some who, th_merged_commit := merged\<rparr>) acc))"
    by (rule change_ok [OF ok]) (simp_all add: thread_ok_def True ne)
  with True show ?thesis by (simp add: settle_thread_def settled_statuses_def split_beta)
qed (simp add: settle_thread_def settled_statuses_def)

lemma reopen_ok: "acc_ok acc \<Longrightarrow> acc_ok (snd (reopen_issue i acc))"
  unfolding reopen_issue_def by (rule change_ok) (simp_all add: thread_ok_def)

lemma kept_keys:
  "k ` A \<subseteq> th_id ` set rows \<Longrightarrow> k ` {x \<in> A. k x \<notin> th_id ` {t \<in> set rows. P t}} \<subseteq> th_id ` {t \<in> set rows. \<not> P t}"
  by blast

lemma drop_ok: "acc_ok acc \<Longrightarrow> acc_ok (forget_pack_threads pack acc)"
  using kept_keys [of co_thread "set (ac_comments acc)" "ac_threads acc" "\<lambda>t. th_pack t = pack \<or> th_source_pack t = Some pack"]
    kept_keys [of nt_thread "set (ac_notifications acc)" "ac_threads acc" "\<lambda>t. th_pack t = pack \<or> th_source_pack t = Some pack"]
  by (simp add: forget_pack_threads_def drop_threads_def Let_def acc_ok_def threads_ok_def comments_ok_def
      notifications_ok_def ascending_filter)

lemma comment_ok: "acc_ok acc \<Longrightarrow> acc_ok (snd (comment thread who body now acc))"
proof (cases "list_ex (\<lambda>t. th_id t = thread) (ac_threads acc)")
  case True
  then have "thread \<in> th_id ` set (ac_threads acc)" by (auto simp: list_ex_iff)
  then show "acc_ok acc \<Longrightarrow> ?thesis"
    by (simp add: comment_def True Let_def acc_ok_def comments_ok_def ascending_snoc next_rowid_pos)
qed (simp add: comment_def)

lemma hidden_row_keys [simp]: "co_id (hidden_row i h who now c) = co_id c"
  "co_thread (hidden_row i h who now c) = co_thread c"
  by (simp_all add: hidden_row_def)

lemma hide_ok: "acc_ok acc \<Longrightarrow> acc_ok (snd (set_comment_hidden i hidden who now acc))"
proof -
  assume ok: "acc_ok acc"
  have hidden: "(co_hidden_at (hidden_row i hidden who now c) = None \<longleftrightarrow> co_hidden_by (hidden_row i hidden who now c) = None)"
    if "co_hidden_at c = None \<longleftrightarrow> co_hidden_by c = None" for c
    using that by (simp add: hidden_row_def)
  have "comments_ok (ac_threads acc) (map (hidden_row i hidden who now) (ac_comments acc))"
    using ok hidden unfolding acc_ok_def comments_ok_def ascending_map [of co_id "hidden_row i hidden who now", OF hidden_row_keys(1)]
      set_map image_image hidden_row_keys by auto
  with ok show ?thesis by (simp add: set_comment_hidden_def acc_ok_def)
qed

lemma notified_rows:
  assumes "ascending nt_id rows"
  shows "ascending nt_id (fold (add_notification kind thread actor now) us rows) \<and>
    set rows \<subseteq> set (fold (add_notification kind thread actor now) us rows) \<and>
    (\<forall>n \<in> set (fold (add_notification kind thread actor now) us rows). n \<in> set rows \<or>
       nt_kind n = kind \<and> nt_thread n = thread \<and> nt_actor n = actor \<and> nt_uid n \<in> set us \<and> nt_read_at n = None)"
  using assms
proof (induction us arbitrary: rows)
  case (Cons u us)
  have asc: "ascending nt_id (add_notification kind thread actor now u rows)"
    using Cons.prems by (simp add: add_notification_def ascending_snoc)
  have sub: "set rows \<subseteq> set (add_notification kind thread actor now u rows)" by (auto simp: add_notification_def)
  show ?case
    using Cons.IH [OF asc] sub by (auto simp: add_notification_def)
qed auto

lemma set_told: "set (told uids actor) = {u \<in> set uids. u \<noteq> actor \<and> u \<noteq> break_glass_uid}"
  by (auto simp: told_def)

lemma notify_ok: "acc_ok acc \<Longrightarrow> acc_ok (snd (notify uids kind thread actor now acc))"
proof (cases "kind \<in> notification_kinds \<and> list_ex (\<lambda>t. th_id t = thread) (ac_threads acc)")
  case True
  assume ok: "acc_ok acc"
  let ?new = "fold (add_notification kind thread actor now) (told uids actor) (ac_notifications acc)"
  from ok have "ascending nt_id (ac_notifications acc)" by (simp add: acc_ok_def notifications_ok_def)
  note n = notified_rows [OF this, of kind thread actor now "told uids actor"]
  have t: "thread \<in> th_id ` set (ac_threads acc)" using True by (auto simp: list_ex_iff)
  have "notifications_ok (ac_threads acc) ?new"
    unfolding notifications_ok_def
  proof (intro conjI ballI subsetI)
    show "ascending nt_id ?new" using n by blast
    fix x assume "x \<in> nt_thread ` set ?new"
    then obtain r where "r \<in> set ?new" and x: "x = nt_thread r" by blast
    with n have "r \<in> set (ac_notifications acc) \<or> nt_thread r = thread" by blast
    moreover have "nt_thread ` set (ac_notifications acc) \<subseteq> th_id ` set (ac_threads acc)"
      using ok by (simp add: acc_ok_def notifications_ok_def)
    ultimately show "x \<in> th_id ` set (ac_threads acc)" using t x by blast
  next
    fix r assume "r \<in> set ?new"
    with n have r: "r \<in> set (ac_notifications acc) \<or> nt_kind r = kind \<and> nt_actor r = actor \<and> nt_uid r \<in> set (told uids actor)"
      by blast
    with ok True show "nt_uid r \<noteq> nt_actor r" "nt_uid r \<noteq> break_glass_uid" "nt_kind r \<in> notification_kinds"
      by (auto simp: acc_ok_def notifications_ok_def set_told)
  qed
  with ok have "acc_ok (acc\<lparr>ac_notifications := ?new\<rparr>)" by (simp add: acc_ok_def)
  with ok show ?thesis by (simp add: notify_def)
qed (auto simp: notify_def)

lemma lists_ok:
  assumes "acc_ok acc"
  shows "acc_ok (forget_notifications_about pack uid acc)" "acc_ok (mark_read uid which now acc)"
    "acc_ok (accept_terms uid now acc)" "acc_ok (record_audit uid login action target detail now acc)"
proof -
  show "acc_ok (forget_notifications_about pack uid acc)"
    using assms by (auto simp: forget_notifications_about_def acc_ok_def notifications_ok_def Let_def ascending_filter)
  let ?f = "\<lambda>n. if nt_uid n = uid \<and> (case which of None \<Rightarrow> True | Some k \<Rightarrow> nt_id n = k) \<and> nt_read_at n = None
              then n\<lparr>nt_read_at := Some now\<rparr> else n"
  have keys: "nt_id (?f n) = nt_id n" "nt_thread (?f n) = nt_thread n" "nt_uid (?f n) = nt_uid n"
    "nt_actor (?f n) = nt_actor n" "nt_kind (?f n) = nt_kind n" for n by simp_all
  have "notifications_ok (ac_threads acc) (map ?f (ac_notifications acc))"
    using assms unfolding acc_ok_def notifications_ok_def ascending_map [of nt_id ?f, OF keys(1)] set_map image_image keys
    by (auto simp: keys)
  with assms show "acc_ok (mark_read uid which now acc)" by (simp add: mark_read_def acc_ok_def)
  have "uid \<notin> fst ` set (filter (\<lambda>(u, _). u \<noteq> uid) (ac_terms acc))" by auto
  with assms show "acc_ok (accept_terms uid now acc)"
    by (simp add: accept_terms_def acc_ok_def distinct_map_filter_key)
  show "acc_ok (record_audit uid login action target detail now acc)"
    using assms by (simp add: record_audit_def acc_ok_def ascending_snoc)
qed

lemma feed_ok: "acc_ok acc \<Longrightarrow> acc_ok (snd (feed_key uid token now acc))"
proof -
  assume ok: "acc_ok acc"
  have "uid \<notin> fk_uid ` set (ac_feed_keys acc)" if "find (\<lambda>k. fk_uid k = uid) (ac_feed_keys acc) = None"
    using that by (auto simp: find_None_iff)
  moreover have "token \<notin> fk_key ` set (ac_feed_keys acc)" if "\<not> list_ex (\<lambda>k. fk_key k = token) (ac_feed_keys acc)"
    using that by (auto simp: list_ex_iff)
  ultimately show ?thesis
    using ok by (simp add: feed_key_def acc_ok_def feed_keys_ok_def split: option.split)
qed

lemma rotate_ok: "acc_ok acc \<Longrightarrow> acc_ok (snd (rotate_feed_key uid token now acc))"
  unfolding rotate_feed_key_def
  by (rule feed_ok) (auto simp: acc_ok_def feed_keys_ok_def distinct_map_filter_key)

lemma uploads_ok_steps:
  assumes "acc_ok acc"
  shows "acc_ok (snd (enqueue_upload uploader pack file sha n upstream now acc))"
    "acc_ok (snd (set_upload_status i status note decider now acc))"
proof -
  show "acc_ok (snd (enqueue_upload uploader pack file sha n upstream now acc))"
    using assms by (simp add: enqueue_upload_def Let_def acc_ok_def uploads_ok_def ascending_snoc)
  show "acc_ok (snd (set_upload_status i status note decider now acc))"
  proof (cases "status \<in> decided_uploads")
    case True
    let ?f = "\<lambda>u. if up_id u = i
       then u\<lparr>up_status := status, up_note := note, up_decided_at := Some now, up_decided_by := decider\<rparr> else u"
    have "up_id (?f u) = up_id u" for u by simp
    moreover have "status \<noteq> ''pending''" using True by (auto simp: decided_uploads_def)
    ultimately have "uploads_ok (map ?f (ac_uploads acc))"
      using assms True by (auto simp: acc_ok_def uploads_ok_def ascending_map [of up_id ?f])
    with assms have "acc_ok (acc\<lparr>ac_uploads := map ?f (ac_uploads acc)\<rparr>)" by (simp add: acc_ok_def)
    with assms show ?thesis by (simp add: set_upload_status_def)
  qed (simp add: set_upload_status_def decided_uploads_def assms)
qed

lemma session_read_ok: "acc_ok acc \<Longrightarrow> acc_ok (snd (session_identity sid now acc))"
  by (simp add: session_identity_def session_ok split: option.split)

lemmas acc_ok_steps = sign_in_ok session_read_ok session_ok set_role_ok grants_ok removals_ok open_ok settle_ok
  reopen_ok drop_ok comment_ok hide_ok notify_ok lists_ok feed_ok rotate_ok uploads_ok_steps

lemma acc_step_ok: "acc_step acc acc' \<Longrightarrow> acc_ok acc \<Longrightarrow> acc_ok acc'"
  by (induction rule: acc_step.induct) (rule acc_ok_steps, assumption)+

lemma acc_reach_ok: "acc_reach acc \<Longrightarrow> acc_ok acc"
proof (induction rule: acc_reach.induct)
  case r_empty
  show ?case
    by (simp add: acc_ok_def empty_accounts_def users_ok_def sessions_ok_def access_ok_def blocks_ok_def suspensions_ok_def
        threads_ok_def comments_ok_def notifications_ok_def feed_keys_ok_def uploads_ok_def)
next
  case (r_step acc acc')
  then show ?case by (simp add: acc_step_ok)
qed


section \<open>What the store promises\<close>

lemma quiet_steps:
  "ac_threads (snd (sign_in_github uid login forced now token acc)) = ac_threads acc"
  "ac_threads (snd (session_identity sid now acc)) = ac_threads acc"
  "ac_threads (snd (set_role uid r acc)) = ac_threads acc"
  "ac_threads (snd (grant_pack_access pack uid level who now acc)) = ac_threads acc"
  "ac_threads (snd (block_from_pack pack uid reason who now acc)) = ac_threads acc"
  "ac_threads (snd (suspend_account uid reason who now acc)) = ac_threads acc"
  "ac_threads (snd (comment i who body now acc)) = ac_threads acc"
  "ac_threads (snd (notify uids kind i actor now acc)) = ac_threads acc"
  "ac_threads (snd (feed_key uid token now acc)) = ac_threads acc"
  "ac_threads (snd (rotate_feed_key uid token now acc)) = ac_threads acc"
  "ac_threads (snd (set_upload_status i status note decider now acc)) = ac_threads acc"
  by (simp_all add: sign_in_github_def Let_def session_identity_def delete_session_def set_role_def
      grant_pack_access_def block_from_pack_def suspend_account_def comment_def notify_def feed_key_def
      rotate_feed_key_def set_upload_status_def split: option.split sum.split)

lemma settled_step:
  assumes "acc_step acc acc'" and t: "t \<in> set (ac_threads acc)" "th_status t \<noteq> ''open''"
  shows "t \<in> set (ac_threads acc') \<or> (\<exists>pack. acc' = forget_pack_threads pack acc \<and> (th_pack t = pack \<or> th_source_pack t = Some pack))
    \<or> th_kind t = ''issue'' \<and> th_status t = ''closed'' \<and> acc' = snd (reopen_issue (th_id t) acc)"
  using assms(1)
proof (cases rule: acc_step.cases)
  case (s_settle i status who merged now)
  then show ?thesis using t
    by (auto simp: settle_thread_def change_threads_def image_iff intro!: disjI1 bexI [of _ t])
next
  case (s_reopen i)
  show ?thesis
  proof (cases "th_id t = i \<and> th_kind t = ''issue'' \<and> th_status t = ''closed''")
    case False
    then show ?thesis using t s_reopen by (auto simp: reopen_issue_def change_threads_def image_iff intro!: disjI1 bexI [of _ t])
  qed (use s_reopen in blast)
next
  case (s_forget_threads pack)
  then show ?thesis using t by (auto simp: forget_pack_threads_def drop_threads_def Let_def)
qed (use t quiet_steps in \<open>simp_all add: delete_session_def revoke_pack_access_def forget_pack_access_def
  unblock_from_pack_def forget_pack_blocks_def lift_suspension_def open_thread_def set_comment_hidden_def
  forget_notifications_about_def mark_read_def enqueue_upload_def accept_terms_def record_audit_def Let_def\<close>)

lemma open_steps: "acc_step\<^sup>*\<^sup>* acc acc' \<Longrightarrow> acc_ok acc \<Longrightarrow> acc_ok acc'"
  by (induction rule: rtranclp.induct) (auto simp: acc_step_ok)

lemma role_from_member [simp]: "role_from_db ''member'' = Member"
  by (simp add: role_from_db_def)

lemma session_gone: "session_identity sid now (delete_session sid acc) = (None, delete_session sid acc)"
proof -
  have "find (\<lambda>s. se_id s = sid) (ac_sessions (delete_session sid acc)) = None"
    by (simp add: find_None_iff delete_session_def)
  then show ?thesis by (simp add: session_identity_def)
qed

text \<open>A session token that nobody else holds opens the account it was issued to.\<close>

lemma users_id_unique: "users_ok rows \<Longrightarrow> u \<in> set rows \<Longrightarrow> find (\<lambda>v. us_id v = us_id u) rows = Some u"
  by (rule find_unique) (auto simp: users_ok_def ascending_distinct)

lemma users_uid_unique: "users_ok rows \<Longrightarrow> u \<in> set rows \<Longrightarrow> find (\<lambda>v. us_uid v = us_uid u) rows = Some u"
  by (rule find_unique) (auto simp: users_ok_def)

lemma signed_in_user:
  "find (\<lambda>u. us_uid u = v) (upsert_user uid login forced now users) =
     (if v = uid then Some (case find (\<lambda>u. us_uid u = uid) users of
        None \<Rightarrow> \<lparr>us_id = next_rowid us_id users, us_uid = uid, us_login = login,
                 us_role = (case forced of Some r \<Rightarrow> role_as_str r | None \<Rightarrow> ''member''),
                 us_created_at = now, us_last_login_at = now\<rparr>
      | Some u \<Rightarrow> u\<lparr>us_login := login, us_last_login_at := now,
                    us_role := (case forced of Some r \<Rightarrow> role_as_str r | None \<Rightarrow> us_role u)\<rparr>)
      else find (\<lambda>u. us_uid u = v) users)"
  unfolding upsert_user_def by (rule find_upsert) simp_all

lemma signed_in_session:
  assumes "acc_ok acc" "token \<notin> se_id ` set (ac_sessions acc)"
    and "acc' = snd (sign_in_github uid login forced now token acc)"
    and "role = (case forced of Some r \<Rightarrow> r | None \<Rightarrow> (case identity_of uid acc of Some c \<Rightarrow> cl_role c | None \<Rightarrow> Member))"
  shows "fst (sign_in_github uid login forced now token acc) = Inr token \<and>
    session_identity token at acc' =
      (if at < now + session_ttl then (Some \<lparr>cl_uid = uid, cl_login = login, cl_role = role\<rparr>, acc')
       else (None, delete_session token acc')) \<and>
    fst (session_identity token later (delete_session token acc')) = None \<and>
    (v \<noteq> uid \<longrightarrow> identity_of v acc' = identity_of v acc)"
proof -
  let ?users = "upsert_user uid login forced now (ac_users acc)"
  obtain u where u: "find (\<lambda>u. us_uid u = uid) ?users = Some u" by (simp add: signed_in_user)
  have who: "caller_of u = \<lparr>cl_uid = uid, cl_login = login, cl_role = role\<rparr>"
  proof (cases "find (\<lambda>u. us_uid u = uid) (ac_users acc)")
    case None
    with u assms(4) show ?thesis by (auto simp: signed_in_user caller_of_def identity_of_def split: option.split)
  next
    case (Some r)
    then have "us_uid r = uid" by (simp add: find_Some_iff split_beta) blast
    with Some u assms(4) show ?thesis by (auto simp: signed_in_user caller_of_def identity_of_def split: option.split)
  qed
  have "users_ok ?users" using assms(1) by (simp add: acc_ok_def users_ok_upsert)
  moreover have "u \<in> set ?users" using u by (auto simp: find_Some_iff)
  ultimately have by_id: "find (\<lambda>v. us_id v = us_id u) ?users = Some u" by (rule users_id_unique)
  have new: "\<not> list_ex (\<lambda>s. se_id s = token) (ac_sessions acc)" "find (\<lambda>s. se_id s = token) (ac_sessions acc) = None"
    using assms(2) by (auto simp: list_ex_iff find_None_iff)
  have result: "sign_in_github uid login forced now token acc = (Inr token, acc\<lparr>ac_users := ?users,
      ac_sessions := ac_sessions acc @ [\<lparr>se_id = token, se_user = us_id u, se_created_at = now,
        se_expires_at = now + session_ttl\<rparr>]\<rparr>)"
    using u new by (simp add: sign_in_github_def Let_def insert_session_def)
  then have acc': "acc' = acc\<lparr>ac_users := ?users,
      ac_sessions := ac_sessions acc @ [\<lparr>se_id = token, se_user = us_id u, se_created_at = now,
        se_expires_at = now + session_ttl\<rparr>]\<rparr>" using assms(3) by simp
  then have "session_identity token at acc' =
      (if at < now + session_ttl then (Some \<lparr>cl_uid = uid, cl_login = login, cl_role = role\<rparr>, acc')
       else (None, delete_session token acc'))"
    using new by_id who by (simp add: session_identity_def find_append)
  moreover have "v \<noteq> uid \<longrightarrow> identity_of v acc' = identity_of v acc"
    using acc' by (simp add: identity_of_def signed_in_user)
  ultimately show ?thesis using result by (simp add: session_gone)
qed

text \<open>
  Signing in with a token nobody holds opens a session, and until it lapses the session answers with
  the account: its login now, and the role that was forced, else the one it had, else plain member. No
  other account changes. Past its day the session answers nothing and is removed.
\<close>

theorem sign_in_opens_the_account:
  assumes "acc_ok acc" "token \<notin> se_id ` set (ac_sessions acc)"
    and "acc' = snd (sign_in_github uid login forced now token acc)"
    and "role = (case forced of Some r \<Rightarrow> r | None \<Rightarrow> (case identity_of uid acc of Some c \<Rightarrow> cl_role c | None \<Rightarrow> Member))"
  shows "fst (sign_in_github uid login forced now token acc) = Inr token \<and>
    session_identity token at acc' =
      (if at < now + session_ttl then (Some \<lparr>cl_uid = uid, cl_login = login, cl_role = role\<rparr>, acc')
       else (None, delete_session token acc')) \<and>
    fst (session_identity token later (delete_session token acc')) = None \<and>
    (v \<noteq> uid \<longrightarrow> identity_of v acc' = identity_of v acc)"
  by (rule signed_in_session [OF assms])

definition demo_accounts :: accounts where
  "demo_accounts = snd (sign_in_github 7 ''ada'' (Some Admin) 100 ''t7'' (snd (sign_in_github 8 ''bob'' None 90 ''t8'' empty_accounts)))"

lemma demo_accounts_ok: "acc_ok demo_accounts"
  unfolding demo_accounts_def by (intro sign_in_ok acc_reach_ok r_empty)

lemma sign_in_opens_the_account_witness:
  "session_identity ''t9'' 200 (snd (sign_in_github 7 ''ada'' None 150 ''t9'' demo_accounts)) =
     (Some \<lparr>cl_uid = 7, cl_login = ''ada'', cl_role = Admin\<rparr>,
      snd (sign_in_github 7 ''ada'' None 150 ''t9'' demo_accounts))"
proof -
  have "''t9'' \<notin> se_id ` set (ac_sessions demo_accounts)" by code_simp
  moreover have "Admin = (case None of Some r \<Rightarrow> r | None \<Rightarrow>
      (case identity_of 7 demo_accounts of Some c \<Rightarrow> cl_role c | None \<Rightarrow> Member))" by code_simp
  ultimately show ?thesis
    using sign_in_opens_the_account [OF demo_accounts_ok, where token = "''t9''" and uid = 7 and login = "''ada''"
        and forced = None and now = 150 and at = 200 and role = Admin, OF _ refl]
    by (simp add: session_ttl_def)
qed

text \<open>C14: 
  However the operations of the store are interleaved, starting from nothing, it stays well formed: one
  row per account, per pack and person, per feed; roles, levels, kinds and statuses of the vocabulary;
  a thread is undecided exactly while it is open; every session, comment and notification belongs to
  an account or a thread that is there; nobody is told about what they did themselves; and the
  reserved uid is never granted, blocked, suspended or told anything.
\<close>

theorem accounts_well_formed: "acc_reach acc \<Longrightarrow> acc_ok acc"
  by (rule acc_reach_ok)

lemma accounts_well_formed_witness:
  "acc_ok (snd (open_thread ''p'' ''issue'' ''crash'' ''on start'' 8 None 120 demo_accounts))"
  unfolding demo_accounts_def
  by (intro accounts_well_formed r_step [OF _ s_open] r_step [OF _ s_sign_in] r_empty)

text \<open>C15: 
  What was decided stays decided: after any one operation of the store a settled thread is still there,
  word for word, unless the operation forgets the pack it is about (or was made from), or reopens it;
  and only a closed issue is ever reopened, never a proposal.
\<close>

theorem settled_stays_settled:
  assumes "acc_step acc acc'" "t \<in> set (ac_threads acc)" "th_status t \<noteq> ''open''" "t \<notin> set (ac_threads acc')"
  shows "(\<exists>pack. acc' = forget_pack_threads pack acc \<and> (th_pack t = pack \<or> th_source_pack t = Some pack))
    \<or> th_kind t = ''issue'' \<and> th_status t = ''closed'' \<and> acc' = snd (reopen_issue (th_id t) acc)"
  using settled_step [OF assms(1-3)] assms(4) by blast

definition demo_settled :: accounts where
  "demo_settled = snd (settle_thread 1 ''closed'' 7 None 130
     (snd (open_thread ''p'' ''issue'' ''crash'' ''on start'' 8 None 120 demo_accounts)))"

lemma settled_stays_settled_witness:
  "\<exists>t \<in> set (ac_threads demo_settled). snd (reopen_issue 1 demo_settled) \<noteq> demo_settled \<and> th_kind t = ''issue''"
proof -
  let ?t = "hd (ac_threads demo_settled)" and ?after = "snd (reopen_issue 1 demo_settled)"
  have t: "?t \<in> set (ac_threads demo_settled)" "th_status ?t \<noteq> ''open''" "?t \<notin> set (ac_threads ?after)"
    "th_pack ?t = ''p''" "th_source_pack ?t = None" "th_kind ?t = ''issue''" by code_simp+
  have "acc_step demo_settled ?after" by (rule s_reopen)
  from settled_stays_settled [OF this t(1-3)] have "?after \<noteq> demo_settled" using t by auto
  with t show ?thesis by blast
qed


lemma set_told_iff: "u \<in> set (told uids actor) \<longleftrightarrow> u \<in> set uids \<and> u \<noteq> actor \<and> u \<noteq> break_glass_uid"
  by (auto simp: told_def)

lemma notified_block:
  "\<exists>new. fold (add_notification kind thread actor now) us rows = rows @ new \<and> map nt_uid new = us \<and>
     (\<forall>n \<in> set new. nt_read_at n = None \<and> nt_kind n = kind \<and> nt_thread n = thread \<and> nt_actor n = actor)"
proof (induction us arbitrary: rows)
  case (Cons u us)
  let ?row = "\<lparr>nt_id = next_rowid nt_id rows, nt_uid = u, nt_kind = kind, nt_thread = thread,
      nt_actor = actor, nt_created_at = now, nt_read_at = None\<rparr>"
  from Cons obtain new where "fold (add_notification kind thread actor now) us (rows @ [?row]) = (rows @ [?row]) @ new"
    "map nt_uid new = us"
    "\<forall>n \<in> set new. nt_read_at n = None \<and> nt_kind n = kind \<and> nt_thread n = thread \<and> nt_actor n = actor" by blast
  moreover have "add_notification kind thread actor now u rows = rows @ [?row]" by (simp add: add_notification_def)
  ultimately show ?case by (intro exI [of _ "?row # new"]) simp
qed simp

lemma count_told: "distinct (map nt_uid new) \<Longrightarrow> \<forall>n \<in> set new. nt_read_at n = None \<Longrightarrow>
  length (filter (\<lambda>n. nt_uid n = u \<and> nt_read_at n = None) new) = (if u \<in> nt_uid ` set new then 1 else 0)"
proof (induction new)
  case (Cons a new)
  show ?case
  proof (cases "nt_uid a = u")
    case True
    with Cons.prems have "u \<notin> nt_uid ` set new" by auto
    with True Cons show ?thesis by simp
  next
    case False
    with Cons show ?thesis by auto
  qed
qed simp

text \<open>
  Telling people about a thread adds one unread notification for everybody named, however often they are
  named, except for whoever did it and the reserved uid; it changes nothing that was there.
\<close>

theorem everybody_told_once:
  assumes "kind \<in> notification_kinds" "thread \<in> th_id ` set (ac_threads acc)"
    and "acc' = snd (notify uids kind thread actor now acc)"
  shows "unread_count u acc' = unread_count u acc +
      (if u \<in> set uids \<and> u \<noteq> actor \<and> u \<noteq> break_glass_uid then 1 else 0) \<and>
    (\<exists>new. acc' = acc\<lparr>ac_notifications := ac_notifications acc @ new\<rparr> \<and>
       (\<forall>n \<in> set new. nt_kind n = kind \<and> nt_thread n = thread \<and> nt_actor n = actor))"
proof -
  obtain new where new: "fold (add_notification kind thread actor now) (told uids actor) (ac_notifications acc) =
      ac_notifications acc @ new" "map nt_uid new = told uids actor" 
    "\<forall>n \<in> set new. nt_read_at n = None \<and> nt_kind n = kind \<and> nt_thread n = thread \<and> nt_actor n = actor"
    using notified_block by blast
  have "acc' = acc\<lparr>ac_notifications := ac_notifications acc @ new\<rparr>"
  proof (cases "told uids actor = []")
    case True
    with new(2) assms show ?thesis by (simp add: notify_def)
  next
    case False
    have "list_ex (\<lambda>t. th_id t = thread) (ac_threads acc)" using assms(2) by (auto simp: list_ex_iff)
    with False new(1) assms(1,3) show ?thesis by (simp add: notify_def)
  qed
  moreover have "distinct (told uids actor)" by (simp add: told_def)
  with new(2) have "distinct (map nt_uid new)" "nt_uid ` set new = set (told uids actor)" by (simp_all flip: set_map)
  with count_told [of new u] new(3)
  have "length (filter (\<lambda>n. nt_uid n = u \<and> nt_read_at n = None) new) =
      (if u \<in> set uids \<and> u \<noteq> actor \<and> u \<noteq> break_glass_uid then 1 else 0)" by (simp add: set_told_iff)
  ultimately show ?thesis using new(3) by (auto simp: unread_count_def)
qed

definition demo_thread :: accounts where
  "demo_thread = snd (open_thread ''p'' ''issue'' ''crash'' ''on start'' 8 None 120 demo_accounts)"

lemma everybody_told_once_witness:
  "unread_count 8 (snd (notify [8, 7, 8, 0] ''comment'' 1 7 125 demo_thread)) = 1 \<and>
   unread_count 7 (snd (notify [8, 7, 8, 0] ''comment'' 1 7 125 demo_thread)) = 0"
proof -
  have k: "''comment'' \<in> notification_kinds" by (simp add: notification_kinds_def)
  have t: "1 \<in> th_id ` set (ac_threads demo_thread)" by code_simp
  have "unread_count 8 demo_thread = 0" "unread_count 7 demo_thread = 0" by code_simp+
  then show ?thesis
    using everybody_told_once [OF k t refl, of 8 "[8, 7, 8, 0]" 7 125]
      everybody_told_once [OF k t refl, of 7 "[8, 7, 8, 0]" 7 125] by (simp add: break_glass_uid_def)
qed

lemma filter_map_same: "(\<And>x. P (g x) \<longleftrightarrow> P x) \<Longrightarrow> filter P (map g xs) = map g (filter P xs)"
  by (induction xs) auto

lemma sort_key_map_same: "(\<And>x. f (g x) = f x) \<Longrightarrow> sort_key f (map g xs) = map g (sort_key f xs)"
proof (induction xs)
  case (Cons x xs)
  have "insort_key f (g x) (map g ys) = map g (insort_key f x ys)" for ys
    by (induction ys) (simp_all add: Cons.prems)
  with Cons show ?case by simp
qed simp

lemma limited_map: "limited limit (map g xs) = map g (limited limit xs)"
  by (simp add: limited_def take_map split: option.split)

lemma comments_on_changed:
  assumes "\<And>c. co_id (g c) = co_id c" "\<And>c. co_thread (g c) = co_thread c"
  shows "comments_on thread after limit (acc\<lparr>ac_comments := map g (ac_comments acc)\<rparr>) =
    map (\<lambda>c. comment_from_row acc (g c)) (limited limit (sort_key co_id
      (filter (\<lambda>c. co_thread c = thread \<and> co_id c > (case after of None \<Rightarrow> 0 | Some i \<Rightarrow> i)) (ac_comments acc))))"
  by (simp add: comments_on_def filter_map_same sort_key_map_same limited_map assms comp_def comment_from_row_def login_of_def)

lemma hidden_row_view: "comment_from_row acc (hidden_row i True who now c) =
  (if cv_id (comment_from_row acc c) = i then (comment_from_row acc c)\<lparr>cv_body := None, cv_hidden := True\<rparr>
   else comment_from_row acc c)"
  by (simp add: hidden_row_def comment_from_row_def)

lemma hidden_row_undone: "hidden_row i False who' now' (hidden_row i True who now c) = hidden_row i False who' now' c"
  by (simp add: hidden_row_def)

lemma hidden_rows: "snd (set_comment_hidden i h who now acc) = acc\<lparr>ac_comments := map (hidden_row i h who now) (ac_comments acc)\<rparr>"
  by (simp add: set_comment_hidden_def)

text \<open>
  A hidden comment keeps its place on every page of the discussion and its author, and is served without a
  word of its body; showing it again serves the discussion as if it had never been hidden.
\<close>

theorem hidden_comment_keeps_place:
  "comments_on thread after limit (snd (set_comment_hidden i True who now acc)) =
     map (\<lambda>v. if cv_id v = i then v\<lparr>cv_body := None, cv_hidden := True\<rparr> else v) (comments_on thread after limit acc) \<and>
   comments_on thread after limit (snd (set_comment_hidden i False who' now' (snd (set_comment_hidden i True who now acc)))) =
     comments_on thread after limit (snd (set_comment_hidden i False who' now' acc))"
proof
  show "comments_on thread after limit (snd (set_comment_hidden i True who now acc)) =
     map (\<lambda>v. if cv_id v = i then v\<lparr>cv_body := None, cv_hidden := True\<rparr> else v) (comments_on thread after limit acc)"
    unfolding hidden_rows comments_on_changed [OF hidden_row_keys] hidden_row_view
    by (simp add: comments_on_def)
qed (simp add: hidden_rows comp_def hidden_row_undone)

end
