(* ===== verification/Access.thy ===== *)
theory Access
  imports Accounts File_System Paths "HOL-Library.Word"
begin

text \<open>
  Who is calling and what they may do (\<open>src/src/http/auth.rs\<close>): the bearer tokens, the session cookie,
  the GitHub callback, the guards of the router and the one gate for every read and write of a pack.
  The accounts store is \<open>None\<close> when it cannot be read; GitHub's answer, the clock and the random tokens
  are arguments.
\<close>

section \<open>The gate of one pack\<close>

text \<open>\<open>str::parse::<i64>\<close>: one optional sign, digits, the range of the type.\<close>

definition parse_i64 :: "str \<Rightarrow> int option" where
  "parse_i64 s =
     (let neg = starts_with s ''-'';
          d = (if neg \<or> starts_with s ''+'' then tl s else s)
      in if d = [] \<or> \<not> list_all is_digit d then None
         else (let v = (if neg then - int (digits_val d) else int (digits_val d))
               in if - (2 ^ 63) \<le> v \<and> v < 2 ^ 63 then Some v else None))"

definition pack_namespace_uid :: "str \<Rightarrow> int option" where
  "pack_namespace_uid pack_id =
     Option.bind (strip_prefix ''u/'' pack_id) (\<lambda>r.
       case split2 CHR ''/'' r of (uid, Some _) \<Rightarrow> parse_i64 uid | (_, None) \<Rightarrow> None)"

definition inherent_level :: "caller \<Rightarrow> str \<Rightarrow> pack_level option" where
  "inherent_level who pack_id =
     (if cl_role who \<ge> Admin then Some Own
      else (case pack_namespace_uid pack_id of
              Some uid \<Rightarrow> if cl_uid who = uid then Some Own else None
            | None \<Rightarrow> None))"

definition granted_level :: "accounts option \<Rightarrow> int \<Rightarrow> str \<Rightarrow> pack_level option" where
  "granted_level db uid pack_id = Option.bind db (pack_access_level pack_id uid)"

definition suspended_text :: "str option \<Rightarrow> str" where
  "suspended_text reason = (case reason of
     Some r \<Rightarrow> ''this account is suspended. reason: '' @ r | None \<Rightarrow> ''this account is suspended'')"

definition not_suspended :: "accounts option \<Rightarrow> caller \<Rightarrow> api_error + unit" where
  "not_suspended db who =
     (if cl_role who \<ge> Admin then Inr ()
      else (case Option.bind db (suspension_of (cl_uid who)) of
              None \<Rightarrow> Inr ()
            | Some s \<Rightarrow> Inl (Refused (suspended_text (sp_reason s)))))"

definition authorize :: "accounts option \<Rightarrow> caller \<Rightarrow> str \<Rightarrow> pack_level \<Rightarrow> api_error + unit" where
  "authorize db who pack_id need =
     (case (if need \<ge> Edit then not_suspended db who else Inr ()) of
        Inl e \<Rightarrow> Inl e
      | Inr _ \<Rightarrow>
          (case inherent_level who pack_id of
             Some level \<Rightarrow> if level \<ge> need then Inr () else Inl Forbidden
           | None \<Rightarrow>
               (case granted_level db (cl_uid who) pack_id of
                  Some level \<Rightarrow> if level \<ge> need then Inr () else Inl Forbidden
                | None \<Rightarrow> Inl Forbidden)))"

definition may :: "accounts option \<Rightarrow> caller \<Rightarrow> str \<Rightarrow> pack_level \<Rightarrow> bool" where
  "may db who pack_id need \<longleftrightarrow> authorize db who pack_id need = Inr ()"

definition may_uid :: "accounts option \<Rightarrow> str \<Rightarrow> int \<Rightarrow> pack_level \<Rightarrow> bool" where
  "may_uid db pack_id uid need =
     may db (case Option.bind db (identity_of uid) of
               Some who \<Rightarrow> who | None \<Rightarrow> \<lparr>cl_uid = uid, cl_login = [], cl_role = Member\<rparr>) pack_id need"

definition filter_may :: "accounts option \<Rightarrow> caller \<Rightarrow> str list \<Rightarrow> pack_level \<Rightarrow> str list" where
  "filter_may db who packs need =
     (let granted = (case db of None \<Rightarrow> [] | Some acc \<Rightarrow> packs_granted_to (cl_uid who) acc)
      in filter (\<lambda>p. case inherent_level who p of
            Some level \<Rightarrow> level \<ge> need
          | None \<Rightarrow> (case hash_of granted p of Some level \<Rightarrow> level \<ge> need | None \<Rightarrow> False)) packs)"

definition require_terms :: "accounts option \<Rightarrow> int \<Rightarrow> api_error + unit" where
  "require_terms db uid =
     (case db of
        None \<Rightarrow> Inl (Internal ''terms'')
      | Some acc \<Rightarrow> if terms_accepted uid acc then Inr () else Inl Forbidden)"

section \<open>Who is calling\<close>

record auth_config =
  ax_admin_token :: "str option"
  ax_debug_token :: "str option"
  ax_client_id :: "str option"
  ax_client_secret :: "str option"
  ax_admin_uids :: "nat list"
  ax_debug_uids :: "nat list"
  ax_cookie_secure :: bool

text \<open>The two headers that are read, where they are text.\<close>

record auth_headers =
  ah_authorization :: "str option"
  ah_cookie :: "str option"

definition constant_time_eq :: "8 word list \<Rightarrow> 8 word list \<Rightarrow> bool" where
  "constant_time_eq a b =
     (if length a \<noteq> length b then False
      else fold (\<lambda>(x, y) diff. or diff (xor x y)) (zip a b) 0 = 0)"

definition bytes :: "str \<Rightarrow> 8 word list" where
  "bytes s = map of_char s"

definition cookie_name :: str where
  "cookie_name = ''smrt_session''"

definition state_cookie_name :: str where
  "state_cookie_name = ''smrt_oauth_state''"

fun first_of :: "('a \<Rightarrow> 'b option) \<Rightarrow> 'a list \<Rightarrow> 'b option" where
  "first_of f [] = None"
| "first_of f (x # xs) = (case f x of None \<Rightarrow> first_of f xs | Some y \<Rightarrow> Some y)"

definition cookie_value :: "str option \<Rightarrow> str \<Rightarrow> str option" where
  "cookie_value cookies name =
     Option.bind cookies (\<lambda>s.
       first_of (\<lambda>kv. strip_prefix (name @ ''='') kv) (map trim (split_on CHR '';'' s)))"

definition break_glass :: "role \<Rightarrow> caller" where
  "break_glass r = \<lparr>cl_uid = 0, cl_login = ''break-glass'', cl_role = r\<rparr>"

definition token_is :: "str option \<Rightarrow> str \<Rightarrow> bool" where
  "token_is expected tok = (case expected of None \<Rightarrow> False | Some e \<Rightarrow> constant_time_eq (bytes e) (bytes tok))"

definition resolve_identity ::
  "auth_config \<Rightarrow> auth_headers \<Rightarrow> int \<Rightarrow> accounts option \<Rightarrow> caller option \<times> accounts option" where
  "resolve_identity cfg h now db =
     (let bearer = Option.bind (ah_authorization h) (strip_prefix ''Bearer '');
          by_token = Option.bind bearer (\<lambda>tok.
            if token_is (ax_debug_token cfg) tok then Some (break_glass Debug)
            else if token_is (ax_admin_token cfg) tok then Some (break_glass Admin) else None)
      in case by_token of
           Some who \<Rightarrow> (Some who, db)
         | None \<Rightarrow>
             (case cookie_value (ah_cookie h) cookie_name of
                None \<Rightarrow> (None, db)
              | Some sid \<Rightarrow>
                  (case db of
                     None \<Rightarrow> (None, None)
                   | Some acc \<Rightarrow> (case session_identity sid now acc of (who, acc) \<Rightarrow> (who, Some acc)))))"

definition require_role :: "role \<Rightarrow> caller option \<Rightarrow> api_error + caller" where
  "require_role least who = (case who of
     None \<Rightarrow> Inl Unauthorized | Some i \<Rightarrow> if cl_role i < least then Inl Forbidden else Inr i)"

definition require_auth :: "caller option \<Rightarrow> api_error + caller" where
  "require_auth = require_role Admin"

definition require_debug :: "caller option \<Rightarrow> api_error + caller" where
  "require_debug = require_role Debug"

definition require_session :: "caller option \<Rightarrow> api_error + caller" where
  "require_session who = (case who of None \<Rightarrow> Inl Unauthorized | Some i \<Rightarrow> Inr i)"

section \<open>Cookies, signing in and out\<close>

definition build_cookie :: "str \<Rightarrow> str \<Rightarrow> bool \<Rightarrow> str \<Rightarrow> str \<Rightarrow> nat \<Rightarrow> str" where
  "build_cookie name value secure same_site path max_age =
     name @ ''='' @ value @ ''; HttpOnly; SameSite='' @ same_site @ ''; Path='' @ path @ ''; Max-Age='' @
     show_nat max_age @ (if secure then ''; Secure'' else [])"

definition session_cookie :: "str \<Rightarrow> bool \<Rightarrow> bool \<Rightarrow> str" where
  "session_cookie value secure clear =
     build_cookie cookie_name value secure ''Strict'' ''/'' (if clear then 0 else 86400)"

definition state_cookie :: "str \<Rightarrow> bool \<Rightarrow> bool \<Rightarrow> str" where
  "state_cookie value secure clear =
     build_cookie state_cookie_name value secure ''Lax'' ''/v1/auth'' (if clear then 0 else 600)"

text \<open>The deprecated form: gone for the right token, else unauthorized.\<close>

definition login_form :: "auth_config \<Rightarrow> str \<Rightarrow> api_error + nat" where
  "login_form cfg tok =
     (case ax_admin_token cfg of
        None \<Rightarrow> Inl Unauthorized
      | Some e \<Rightarrow> if \<not> constant_time_eq (bytes e) (bytes tok) then Inl Unauthorized else Inr 410)"

record redirect =
  rd_to :: str
  rd_cookies :: "str list"

definition clearing_state :: "auth_config \<Rightarrow> str \<Rightarrow> redirect" where
  "clearing_state cfg to = \<lparr>rd_to = to, rd_cookies = [state_cookie [] (ax_cookie_secure cfg) True]\<rparr>"

text \<open>The way to GitHub, with a fresh nonce; percent-encoding is a parameter.\<close>

definition callback_uri :: "str \<Rightarrow> str" where
  "callback_uri mirror_base = mirror_base @ ''/v1/auth/github/callback''"

definition github_login :: "(str \<Rightarrow> str) \<Rightarrow> str \<Rightarrow> auth_config \<Rightarrow> str \<Rightarrow> redirect" where
  "github_login enc mirror_base cfg csrf =
     (case ax_client_id cfg of
        None \<Rightarrow> \<lparr>rd_to = ''/?auth=unconfigured'', rd_cookies = []\<rparr>
      | Some cid \<Rightarrow>
          \<lparr>rd_to = ''https://github.com/login/oauth/authorize?client_id='' @ enc cid @ ''&redirect_uri='' @
             enc (callback_uri mirror_base) @ ''&scope=read:user&state='' @ enc csrf @ ''&allow_signup=false'',
           rd_cookies = [state_cookie csrf (ax_cookie_secure cfg) False]\<rparr>)"

text \<open>The cast \<open>u64 as i64\<close>.\<close>

definition as_i64 :: "nat \<Rightarrow> int" where
  "as_i64 n = sint (of_nat n :: 64 word)"

definition forced_role :: "auth_config \<Rightarrow> nat \<Rightarrow> role option" where
  "forced_role cfg uid =
     (if uid \<in> set (ax_debug_uids cfg) then Some Debug
      else if uid \<in> set (ax_admin_uids cfg) then Some Admin else None)"

definition github_callback ::
  "auth_config \<Rightarrow> (str \<Rightarrow> str \<Rightarrow> str \<Rightarrow> (nat \<times> str) option) \<Rightarrow> str option \<Rightarrow> str option \<Rightarrow> auth_headers \<Rightarrow>
     int \<Rightarrow> str \<Rightarrow> accounts \<Rightarrow> redirect \<times> accounts" where
  "github_callback cfg exchange code ret_state h now token acc =
     (let failed = (clearing_state cfg ''/?auth=failed'', acc) in
      case (code, ret_state, cookie_value (ah_cookie h) state_cookie_name) of
        (Some code, Some ret_state, Some exp_state) \<Rightarrow>
          if \<not> constant_time_eq (bytes ret_state) (bytes exp_state) then failed
          else (case (ax_client_id cfg, ax_client_secret cfg) of
                  (Some cid, Some secret) \<Rightarrow>
                    (case exchange cid secret code of
                       None \<Rightarrow> failed
                     | Some (uid, login) \<Rightarrow>
                         (case sign_in_github (as_i64 uid) login (forced_role cfg uid) now token acc of
                            (Inl _, acc) \<Rightarrow> (clearing_state cfg ''/?auth=failed'', acc)
                          | (Inr sid, acc) \<Rightarrow>
                              (\<lparr>rd_to = ''/'', rd_cookies = [session_cookie sid (ax_cookie_secure cfg) False,
                                 state_cookie [] (ax_cookie_secure cfg) True]\<rparr>, acc)))
                | _ \<Rightarrow> (clearing_state cfg ''/?auth=unconfigured'', acc))
      | _ \<Rightarrow> failed)"

definition logout :: "auth_config \<Rightarrow> auth_headers \<Rightarrow> accounts \<Rightarrow> str \<times> accounts" where
  "logout cfg h acc =
     (session_cookie [] (ax_cookie_secure cfg) True,
      case cookie_value (ah_cookie h) cookie_name of None \<Rightarrow> acc | Some sid \<Rightarrow> delete_session sid acc)"

record me_view =
  me_uid :: int
  me_login :: str
  me_role :: str
  me_accepted_terms :: bool
  me_suspension :: "suspension option"

definition me :: "caller option \<Rightarrow> accounts option \<Rightarrow> api_error + me_view" where
  "me who db =
     (case who of
        None \<Rightarrow> Inl Unauthorized
      | Some i \<Rightarrow> Inr \<lparr>me_uid = cl_uid i, me_login = cl_login i, me_role = role_as_str (cl_role i),
          me_accepted_terms = (case db of None \<Rightarrow> False | Some acc \<Rightarrow> terms_accepted (cl_uid i) acc),
          me_suspension = Option.bind db (suspension_of (cl_uid i))\<rparr>)"

section \<open>What the gate decides\<close>

lemma level_order: "View \<le> l" "l \<le> Own" "Edit \<le> l \<longleftrightarrow> l \<noteq> View"
  by (cases l; simp add: less_eq_pack_level_def)+

text \<open>C11: 
  The gate lets a caller through exactly when the pack is theirs, or they are an operator, or it grants them
  enough; and for anything beyond reading, only an account that is not known to be suspended. A store that
  cannot be read grants nothing.
\<close>

theorem authorize_iff:
  "authorize db who p need = Inr () \<longleftrightarrow>
     cl_role who \<ge> Admin \<or>
     (need = View \<or> Option.bind db (suspension_of (cl_uid who)) = None) \<and>
     (pack_namespace_uid p = Some (cl_uid who) \<or> (\<exists>l. Option.bind db (pack_access_level p (cl_uid who)) = Some l \<and> l \<ge> need))"
  by (auto simp: authorize_def not_suspended_def inherent_level_def granted_level_def level_order
      split: option.splits if_splits)

lemma not_admin [simp]: "\<not> Admin \<le> r \<longleftrightarrow> r = Member" "Admin \<le> r \<longleftrightarrow> r \<noteq> Member"
  by (cases r; simp add: less_eq_role_def)+

lemma xor_is_zero: "xor x y = 0 \<longleftrightarrow> x = (y::8 word)"
proof
  assume "xor x y = 0"
  then have "xor (xor x y) y = y" by simp
  then show "x = y" by (simp add: xor.assoc)
qed simp

lemma constant_time_fold: "length a = length b \<Longrightarrow>
  fold (\<lambda>(x, y) diff. or diff (xor x y)) (zip a b) d = 0 \<longleftrightarrow> d = (0::8 word) \<and> a = b"
proof (induction a b arbitrary: d rule: list_induct2)
  case (Cons x xs y ys)
  have "or d (xor x y) = 0 \<longleftrightarrow> d = 0 \<and> x = y" by (simp add: or_eq_0_iff xor_is_zero)
  with Cons.IH show ?case by auto
qed simp

lemma constant_time_eq_iff: "constant_time_eq a b \<longleftrightarrow> a = b"
  using constant_time_fold [of a b 0] by (auto simp: constant_time_eq_def)

lemma bytes_inj [simp]: "bytes s = bytes t \<longleftrightarrow> s = t"
proof -
  have "inj (of_char :: char \<Rightarrow> 8 word)"
  proof (rule injI)
    fix c d :: char assume "(of_char c :: 8 word) = of_char d"
    then have "unat (of_nat (of_char c) :: 8 word) = unat (of_nat (of_char d) :: 8 word)"
      by (simp only: of_nat_of_char)
    then have "(of_char c :: nat) mod 256 = of_char d mod 256" by (simp only: unat_of_nat) simp
    then show "c = d" by (simp only: of_char_mod_256 of_char_eq_iff)
  qed
  then show ?thesis by (auto simp: bytes_def inj_map_eq_map)
qed

lemma token_is_iff: "token_is expected tok \<longleftrightarrow> expected = Some tok"
  by (auto simp: token_is_def constant_time_eq_iff split: option.split)

section \<open>Listings and single reads agree\<close>

lemma granted_row:
  assumes "access_ok (ac_access acc)"
  shows "hash_of (packs_granted_to uid acc) p = pack_access_level p uid acc"
proof -
  let ?mine = "filter (\<lambda>r. pa_uid r = uid) (ac_access acc)"
  have dist: "distinct (map fst (packs_granted_to uid acc))"
  proof -
    have "inj_on pa_pack (set ?mine)" "distinct ?mine"
      using assms by (auto simp: access_ok_def distinct_map inj_on_def)
    then have "distinct (map pa_pack (sort_key pa_pack ?mine))" by (simp add: distinct_map)
    then show ?thesis by (simp add: packs_granted_to_def comp_def)
  qed
  show ?thesis
  proof (cases "find (\<lambda>r. pa_pack r = p \<and> pa_uid r = uid) (ac_access acc)")
    case None
    then have "p \<notin> fst ` set (packs_granted_to uid acc)"
      by (auto simp: packs_granted_to_def find_None_iff)
    with None show ?thesis by (simp add: pack_access_level_def hash_of_None)
  next
    case (Some r)
    then have r: "r \<in> set (ac_access acc)" "pa_pack r = p" "pa_uid r = uid"
      by (auto simp: find_Some_iff)
    with assms obtain l where l: "level_parse (pa_level r) = Some l" by (auto simp: access_ok_def)
    have "(p, l) \<in> set (packs_granted_to uid acc)"
      using r l by (auto simp: packs_granted_to_def level_or_view_def image_iff intro!: bexI [of _ r])
    with hash_of_distinct [OF dist] Some l show ?thesis by (simp add: pack_access_level_def)
  qed
qed

text \<open>
  The listing that asks the access list once keeps exactly the packs the gate would let the caller read one
  by one; and beyond reading, exactly those when the caller is not suspended.
\<close>

theorem filter_may_is_may:
  assumes "acc_ok acc" "need = View \<or> suspension_of (cl_uid who) acc = None \<or> cl_role who \<ge> Admin"
  shows "filter_may (Some acc) who packs need = filter (\<lambda>p. may (Some acc) who p need) packs"
proof -
  have "access_ok (ac_access acc)" using assms(1) by (simp add: acc_ok_def)
  note g = granted_row [OF this]
  show ?thesis
    unfolding filter_may_def Let_def option.case g
    by (rule filter_cong [OF refl])
      (use assms(2) in \<open>auto simp: may_def authorize_def not_suspended_def granted_level_def level_order inherent_level_def
        split: option.splits if_splits\<close>)
qed

section \<open>A grant reaches one person on one pack\<close>

lemma pack_access_after_grant:
  "u \<noteq> break_glass_uid \<Longrightarrow> pack_access_level q v (snd (grant_pack_access p u l who now acc)) =
     (if q = p \<and> v = u then Some l else pack_access_level q v acc)"
proof -
  assume u: "u \<noteq> break_glass_uid"
  let ?row = "\<lparr>pa_pack = p, pa_uid = u, pa_level = level_as_str l, pa_by = who, pa_at = now\<rparr>"
  have key: "(\<lambda>r. pa_pack r = a \<and> pa_uid r = b) = (\<lambda>r. (pa_pack r, pa_uid r) = (a, b))" for a b by auto
  have "find (\<lambda>r. (pa_pack r, pa_uid r) = (q, v)) (upsert (\<lambda>r. (pa_pack r, pa_uid r) = (p, u)) (\<lambda>_. ?row) ?row (ac_access acc)) =
      (if (q, v) = (p, u) then Some ?row else find (\<lambda>r. (pa_pack r, pa_uid r) = (q, v)) (ac_access acc))"
    using find_upsert [of "\<lambda>r. (pa_pack r, pa_uid r) = (p, u)" "\<lambda>r. (pa_pack r, pa_uid r)" "(p, u)" "\<lambda>_. ?row" ?row "(q, v)" "ac_access acc"]
    by (simp split: option.split)
  moreover have upd: "ac_access (acc\<lparr>ac_access := rows\<rparr>) = rows" for rows by simp
  ultimately have "find (\<lambda>r. pa_pack r = q \<and> pa_uid r = v) (ac_access (snd (grant_pack_access p u l who now acc))) =
      (if (q, v) = (p, u) then Some ?row else find (\<lambda>r. pa_pack r = q \<and> pa_uid r = v) (ac_access acc))"
    using u by (simp only: grant_pack_access_def key Let_def if_False snd_conv upd)
  then show ?thesis by (simp add: pack_access_level_def)
qed

lemma suspension_after_grant: "suspension_of v (snd (grant_pack_access p u l who now acc)) = suspension_of v acc"
  by (simp add: grant_pack_access_def suspension_of_def login_of_def Let_def)

lemma pack_access_after_revoke:
  "pack_access_level q v (snd (revoke_pack_access p u acc)) =
     (if q = p \<and> v = u then None else pack_access_level q v acc)"
proof -
  have "find (\<lambda>r. pa_pack r = q \<and> pa_uid r = v) (filter (\<lambda>r. \<not> (pa_pack r = p \<and> pa_uid r = u)) rows) =
     (if q = p \<and> v = u then None else find (\<lambda>r. pa_pack r = q \<and> pa_uid r = v) rows)" for rows
    by (induction rows) auto
  note found = this [of "ac_access acc"]
  have "find (\<lambda>r. pa_pack r = q \<and> pa_uid r = v) (ac_access (snd (revoke_pack_access p u acc))) =
     (if q = p \<and> v = u then None else find (\<lambda>r. pa_pack r = q \<and> pa_uid r = v) (ac_access acc))"
    unfolding found [symmetric] by (simp add: revoke_pack_access_def Let_def)
  then show ?thesis by (simp add: pack_access_level_def)
qed

lemma suspension_after_revoke: "suspension_of v (snd (revoke_pack_access p u acc)) = suspension_of v acc"
  by (simp add: revoke_pack_access_def suspension_of_def login_of_def Let_def)


lemma authorize_cases:
  "authorize (Some acc) who q need =
     (if need \<ge> Edit \<and> cl_role who = Member \<and> suspension_of (cl_uid who) acc \<noteq> None
      then Inl (Refused (suspended_text (sp_reason (the (suspension_of (cl_uid who) acc)))))
      else if inherent_level who q \<noteq> None then Inr ()
      else (case pack_access_level q (cl_uid who) acc of None \<Rightarrow> Inl Forbidden
            | Some l \<Rightarrow> if need \<le> l then Inr () else Inl Forbidden))"
  by (auto simp: authorize_def not_suspended_def granted_level_def inherent_level_def level_order split: option.split)

text \<open>C13: 
  Granting somebody a level of a pack changes the answer of the gate for that person on that pack only: there
  it lets a plain account that is not suspended and does not own the pack do what is at or below the level,
  no more, whatever it was granted before. Revoking it takes all of that away, and nothing else.
\<close>

theorem grant_reaches_one_pack:
  assumes "u \<noteq> break_glass_uid"
  shows "authorize (Some (snd (grant_pack_access p u l by now acc))) who q need =
      (if q = p \<and> cl_uid who = u \<and> inherent_level who q = None \<and> (need = View \<or> suspension_of u acc = None)
       then (if need \<le> l then Inr () else Inl Forbidden)
       else authorize (Some acc) who q need) \<and>
    authorize (Some (snd (revoke_pack_access p u acc))) who q need =
      (if q = p \<and> cl_uid who = u \<and> inherent_level who q = None \<and> (need = View \<or> suspension_of u acc = None)
       then Inl Forbidden
       else authorize (Some acc) who q need)"
proof (cases "inherent_level who q")
  case (Some level)
  then show ?thesis by (simp add: authorize_cases suspension_after_grant suspension_after_revoke)
next
  case None
  then have member: "cl_role who = Member" by (auto simp: inherent_level_def split: if_splits)
  note facts = authorize_cases suspension_after_grant suspension_after_revoke pack_access_after_grant [OF assms]
    pack_access_after_revoke level_order(3) None member
  show ?thesis
  proof (cases "q = p \<and> cl_uid who = u")
    case True
    then have q: "q = p" "cl_uid who = u" "inherent_level who p = None" using None by simp_all
    show ?thesis by (simp add: facts q)
  next
    case False
    then have "(if q = p \<and> cl_uid who = u then a else b) = b" "\<not> (q = p \<and> cl_uid who = u \<and> c)" for a b :: "pack_level option" and c by auto
    then show ?thesis by (simp only: facts if_False)
  qed
qed


section \<open>From the callback to the next request\<close>

text \<open>The header a browser sends for the cookies it holds.\<close>

definition cookie_header :: "(str \<times> str) list \<Rightarrow> str" where
  "cookie_header pairs = join ''; '' (map (\<lambda>(n, v). n @ ''='' @ v) pairs)"

definition plain_cookie :: "str \<Rightarrow> bool" where
  "plain_cookie s \<longleftrightarrow> (\<forall>c \<in> set s. c \<noteq> CHR '';'' \<and> \<not> is_space c)"

lemma trim_plain: "plain_cookie s \<Longrightarrow> trim s = s"
proof -
  assume p: "plain_cookie s"
  have "dropWhile is_space t = t" if "plain_cookie t" for t using that by (cases t) (auto simp: plain_cookie_def)
  moreover have "plain_cookie (rev s)" using p by (simp add: plain_cookie_def)
  ultimately show ?thesis using p by (simp add: trim_def)
qed

lemma trim_blank: "trim (CHR '' '' # s) = trim s"
  by (simp add: trim_def is_space_def)

lemma split_blank: "map trim (split_on CHR '';'' (CHR '' '' # s)) = map trim (split_on CHR '';'' s)"
  by (cases "split_on CHR '';'' s") (simp_all add: trim_blank)

lemma cookies_split:
  "xs \<noteq> [] \<Longrightarrow> \<forall>x \<in> set xs. plain_cookie x \<Longrightarrow> map trim (split_on CHR '';'' (join ''; '' xs)) = xs"
proof (induction "''; ''" xs rule: join.induct)
  case (2 x)
  then have "CHR '';'' \<notin> set x" by (auto simp: plain_cookie_def)
  with 2 show ?case by (simp add: trim_plain)
next
  case (3 x y xs)
  then have "CHR '';'' \<notin> set x" by (auto simp: plain_cookie_def)
  then have "split_on CHR '';'' (join ''; '' (x # y # xs)) = x # split_on CHR '';'' (CHR '' '' # join ''; '' (y # xs))"
    by (simp add: split_on_append)
  then have "map trim (split_on CHR '';'' (join ''; '' (x # y # xs))) = trim x # map trim (split_on CHR '';'' (join ''; '' (y # xs)))"
    by (simp only: list.map split_blank)
  with 3 show ?case by (simp add: trim_plain)
qed simp

lemma plain_append [simp]: "plain_cookie (a @ b) \<longleftrightarrow> plain_cookie a \<and> plain_cookie b"
  by (auto simp: plain_cookie_def)

lemma split_at_char: "c \<notin> set n \<Longrightarrow> c \<notin> set m \<Longrightarrow> m @ c # v = n @ c # r \<longleftrightarrow> m = n \<and> v = r"
proof (induction m arbitrary: n)
  case Nil
  then show ?case by (cases n) auto
next
  case (Cons a m)
  then show ?case by (cases n) auto
qed

lemma strip_name:
  assumes "CHR ''='' \<notin> set n" "CHR ''='' \<notin> set m"
  shows "strip_prefix (n @ ''='') (m @ ''='' @ v) = (if m = n then Some v else None)"
proof (cases "strip_prefix (n @ ''='') (m @ ''='' @ v)")
  case None
  have "strip_prefix (n @ ''='') (n @ ''='' @ v) = Some v" by (simp add: strip_prefix_Some)
  with None show ?thesis by auto
next
  case (Some r)
  then show ?thesis by (simp add: strip_prefix_Some split_at_char [OF assms])
qed

lemma cookie_read:
  assumes "\<forall>(n, v) \<in> set pairs. plain_cookie n \<and> plain_cookie v \<and> CHR ''='' \<notin> set n" "CHR ''='' \<notin> set name" "pairs \<noteq> []"
  shows "cookie_value (Some (cookie_header pairs)) name = map_of pairs name"
proof -
  let ?kv = "\<lambda>(n, v). n @ ''='' @ v"
  have eq: "plain_cookie ''=''" by (simp add: plain_cookie_def is_space_def)
  have "\<forall>x \<in> set (map ?kv pairs). plain_cookie x"
  proof
    fix x assume "x \<in> set (map ?kv pairs)"
    then obtain n v where nv: "(n, v) \<in> set pairs" "x = n @ ''='' @ v" by auto
    from bspec [OF assms(1) nv(1)] show "plain_cookie x" using eq by (simp only: nv(2) plain_append prod.case)
  qed
  with assms(3) have "map trim (split_on CHR '';'' (cookie_header pairs)) = map ?kv pairs"
    unfolding cookie_header_def by (intro cookies_split) simp_all
  moreover have "first_of (strip_prefix (name @ ''='')) (map ?kv pairs) = map_of pairs name"
    using assms(1)
  proof (induction pairs)
    case (Cons p pairs)
    obtain n v where p: "p = (n, v)" by (cases p)
    with Cons.prems have "CHR ''='' \<notin> set n" by simp
    with Cons show ?case by (simp add: p strip_name [OF assms(2), unfolded append_Cons append_Nil])
  qed simp
  ultimately show ?thesis by (simp add: cookie_value_def)
qed

lemma cookie_name_plain [simp]: "CHR ''='' \<notin> set cookie_name"
  by (simp add: cookie_name_def)

lemma callback_signs_in:
  assumes "github_callback cfg exchange code ret h now token acc = (rd, acc')" "rd_to rd = ''/''"
  obtains cid secret c uid login where "code = Some c" "ret = cookie_value (ah_cookie h) state_cookie_name" "ret \<noteq> None"
    "ax_client_id cfg = Some cid" "ax_client_secret cfg = Some secret" "exchange cid secret c = Some (uid, login)"
    "sign_in_github (as_i64 uid) login (forced_role cfg uid) now token acc = (Inr token, acc')"
    "rd_cookies rd = [session_cookie token (ax_cookie_secure cfg) False, state_cookie [] (ax_cookie_secure cfg) True]"
proof -
  have failed: "rd_to (clearing_state cfg to) = to" for to by (simp add: clearing_state_def)
  have sid: "fst (sign_in_github u l f now token acc) = Inr sid \<Longrightarrow> sid = token" for u l f sid
    by (auto simp: sign_in_github_def Let_def split: option.splits sum.splits)
  let ?run = "\<lambda>u l. sign_in_github (as_i64 u) l (forced_role cfg u) now token acc"
  show thesis
  proof (cases code)
    case None
    with assms show thesis by (auto simp: github_callback_def failed Let_def)
  next
    case c: (Some c)
    show thesis
    proof (cases ret)
      case None
      with assms show thesis by (auto simp: github_callback_def failed Let_def split: option.splits)
    next
      case r: (Some r)
      show thesis
      proof (cases "cookie_value (ah_cookie h) state_cookie_name = Some r \<and> ax_client_id cfg \<noteq> None \<and> ax_client_secret cfg \<noteq> None")
        case False
        with assms c r show thesis
          by (auto simp: github_callback_def failed Let_def constant_time_eq_iff split: option.splits if_splits)
      next
        case True
        then obtain cid secret where k: "ax_client_id cfg = Some cid" "ax_client_secret cfg = Some secret"
          "cookie_value (ah_cookie h) state_cookie_name = Some r" by auto
        show thesis
        proof (cases "exchange cid secret c")
          case None
          with assms c r k show thesis by (auto simp: github_callback_def failed Let_def constant_time_eq_iff)
        next
          case (Some x)
          obtain uid login where x: "x = (uid, login)" by (cases x)
          note run = assms(1) [unfolded github_callback_def, simplified c r k Some x option.case prod.case Let_def
              constant_time_eq_iff not_not simp_thms if_False refl]
          obtain res acc1 where res: "?run uid login = (res, acc1)" by fastforce
          show thesis
          proof (cases res)
            case (Inl e)
            with run assms(2) res show thesis by (auto simp: failed)
          next
            case (Inr s)
            with res sid have "s = token" by (metis fst_conv)
            with Inr run res c r k Some x show thesis by (intro that [of c cid secret uid login]) auto
          qed
        qed
      qed
    qed
  qed
qed



section \<open>On a concrete store\<close>

definition bob :: caller where
  "bob = \<lparr>cl_uid = 8, cl_login = ''bob'', cl_role = Member\<rparr>"

lemma grant_reaches_one_pack_witness:
  "authorize (Some (snd (grant_pack_access ''p'' 8 Edit 7 100 demo_accounts))) bob ''p'' Edit = Inr () \<and>
   authorize (Some (snd (grant_pack_access ''p'' 8 Edit 7 100 demo_accounts))) bob ''p'' Own = Inl Forbidden \<and>
   authorize (Some (snd (revoke_pack_access ''p'' 8 demo_accounts))) bob ''p'' View = Inl Forbidden"
proof -
  have u: "(8::int) \<noteq> break_glass_uid" by (simp add: break_glass_uid_def)
  have "inherent_level bob ''p'' = None" "suspension_of 8 demo_accounts = None" "cl_uid bob = 8" by code_simp+
  moreover have "Edit \<le> Edit" "\<not> Own \<le> Edit" by (simp_all add: less_eq_pack_level_def)
  ultimately show ?thesis
    using grant_reaches_one_pack [OF u, of "''p''" Edit 7 100 demo_accounts bob "''p''" Edit]
      grant_reaches_one_pack [OF u, of "''p''" Edit 7 100 demo_accounts bob "''p''" Own]
      grant_reaches_one_pack [OF u, of "''p''" Edit 7 100 demo_accounts bob "''p''" View] by simp
qed

lemma filter_may_is_may_witness:
  "filter_may (Some demo_accounts) bob [''u/8/mine'', ''p'', ''u/9/theirs''] View =
     filter (\<lambda>p. may (Some demo_accounts) bob p View) [''u/8/mine'', ''p'', ''u/9/theirs'']"
  by (rule filter_may_is_may [OF demo_accounts_ok]) simp

definition demo_auth :: auth_config where
  "demo_auth = \<lparr>ax_admin_token = Some ''secret'', ax_debug_token = None, ax_client_id = Some ''cid'',
     ax_client_secret = Some ''cs'', ax_admin_uids = [9], ax_debug_uids = [], ax_cookie_secure = True\<rparr>"


end
