(* ===== verification/Publish.thy ===== *)
theory Publish
  imports Accounts Build Resolve Gate Enrich Loader_Window Store_Packs Jobs Placement
begin

text \<open>
  Building a pack (\<open>run_build\<close> and \<open>spawn_build\<close> of \<open>src/src/jobs.rs\<close>) and the request that starts it
  (\<open>src/src/http/jobs.rs\<close>): the composition of the passes over the config, the resolver, the gate, the
  manifest build and the storage layer. The upstream client, the readers of jars, the hash, the clock
  and whether the registry and the audit log answer are the fields of \<open>build_deps\<close>.
\<close>

section \<open>What a build works with\<close>

record 'n build_deps =
  bd_tools :: jar_tools
  bd_fetch :: "'n fetch"
  bd_net :: 'n
  bd_sha1 :: "str \<Rightarrow> str"
  bd_enc :: "str \<Rightarrow> str"
  bd_mirror_base :: str
  bd_now :: str
  bd_registry :: "str + registry"
  bd_client :: "str option"
  bd_versions :: "str list \<Rightarrow> (str \<times> mr_version) list option"
  bd_remote :: "str \<Rightarrow> (str \<times> str) option option"
  bd_registry_reads :: bool
  bd_registry_writes :: bool
  bd_audit_writes :: bool
  bd_clock :: int
  bd_show :: "build_error \<Rightarrow> str"

record build_request =
  bq_dry_run :: bool
  bq_pack_version :: "str option"
  bq_channel :: version_channel
  bq_changelog :: "str option"
  bq_changelog_i18n :: "(str \<times> str) list option"
  bq_override_checks :: bool
  bq_overwrite_version :: bool
  bq_from_commit :: "str option"
  bq_actor :: "caller option"

text \<open>What a build can change: the store, the remembered loader windows and the accounts (its audit trail).\<close>

record service =
  sv_store :: storage
  sv_rows :: "req_row list"
  sv_accounts :: accounts

datatype run_error =
    NoInputs str api_error
  | PassFailed str str
  | RegistryFailed str
  | Blocked nat
  | NotBuilt build_error
  | NotWritten api_error

fun run_error_text :: "(build_error \<Rightarrow> str) \<Rightarrow> run_error \<Rightarrow> str" where
  "run_error_text f (NoInputs what e) = what @ error_text e"
| "run_error_text f (PassFailed what e) = what @ e"
| "run_error_text f (RegistryFailed e) = ''registry check failed: '' @ e"
| "run_error_text f (Blocked n) = show_nat n @
     '' problem(s) would keep this pack from starting -- fix them, or build again over the check''"
| "run_error_text f (NotBuilt e) = ''resolve failed: '' @ f e"
| "run_error_text f (NotWritten e) = error_text e"

text \<open>The storage root as the build reads it.\<close>

definition disk_of :: "fs \<Rightarrow> disk" where
  "disk_of fs = \<lparr>dk_size = (\<lambda>p. map_option length (read_text fs p)), dk_bytes = read_text fs\<rparr>"

definition manifest_files :: "str \<Rightarrow> fs \<Rightarrow> str list" where
  "manifest_files pack_id fs =
     map fst (case read_dir fs (manifests_dir pack_id) of None \<Rightarrow> [] | Some es \<Rightarrow> es)"

definition build_env_of :: "'n build_deps \<Rightarrow> registry \<Rightarrow> pack_config \<Rightarrow> fs \<Rightarrow> 'n build_env" where
  "build_env_of deps rg cfg fs = \<lparr>be_fetch = bd_fetch deps, be_disk = disk_of fs,
     be_sha1 = bd_sha1 deps, be_enc = bd_enc deps, be_registry = rg,
     be_mirror_base = bd_mirror_base deps, be_now = bd_now deps,
     be_manifests = manifest_files (cf_pack_id cfg) fs\<rparr>"

definition window_env_of :: "'n build_deps \<Rightarrow> fs \<Rightarrow> window_env" where
  "window_env_of deps fs = \<lparr>we_tools = bd_tools deps, we_disk = fs, we_versions = bd_versions deps,
     we_remote = bd_remote deps, we_registry_reads = bd_registry_reads deps, we_registry_writes = bd_registry_writes deps\<rparr>"

section \<open>The steps\<close>

text \<open>Loading the inputs and running the passes over a copy of them.\<close>

definition load_inputs :: "build_request \<Rightarrow> str \<Rightarrow> fs \<Rightarrow> run_error + pack_config" where
  "load_inputs req pack_id fs =
     (case bq_from_commit req of
        Some i \<Rightarrow>
          (case load_commit_config pack_id i fs of
             Inl e \<Rightarrow> Inl (NoInputs ''no such commit: '' e) | Inr c \<Rightarrow> Inr c)
      | None \<Rightarrow>
          (case load_pack_config pack_id fs of
             Inl e \<Rightarrow> Inl (NoInputs ''no authoring config: '' e) | Inr c \<Rightarrow> Inr c))"

definition enriched :: "jar_tools \<Rightarrow> fs \<Rightarrow> pack_config \<Rightarrow> run_error + pack_config" where
  "enriched jt fs cfg =
     (case enrich_from_mcmod_info jt fs cfg of
        Inl e \<Rightarrow> Inl (PassFailed ''enrich-mcmod failed: '' e)
      | Inr (cfg, _) \<Rightarrow>
          (case infer_requires_from_mcmod_info jt fs cfg of
             Inl e \<Rightarrow> Inl (PassFailed ''infer-requires failed: '' e)
           | Inr (cfg, _) \<Rightarrow> Inr cfg))"

text \<open>The report the gate judges: the resolver's, with the loader windows folded in where an HTTP client
  could be made. What the step logs beside it is its last part.\<close>

definition full_report ::
  "'n build_deps \<Rightarrow> registry \<Rightarrow> pack_config \<Rightarrow> fs \<Rightarrow> req_row list \<Rightarrow>
     resolve_report \<times> req_row list \<times> str list" where
  "full_report deps rg cfg fs rows =
     (let report = resolve_pack rg cfg in
      case bd_client deps of
        Some e \<Rightarrow> (report, rows, [''no http client for the loader-window check ('' @ e @
            ''); the pinned build stays unchecked''])
      | None \<Rightarrow>
          (case loader_windows (window_env_of deps fs) cfg rows of
             (w, rows) \<Rightarrow> (apply_windows w report, rows, [])))"

definition actor_name :: "caller option \<Rightarrow> str" where
  "actor_name actor = (case actor of None \<Rightarrow> ''an unattributed caller'' | Some i \<Rightarrow> cl_login i)"

definition judge :: "build_request \<Rightarrow> build_checks \<Rightarrow> job \<Rightarrow> (run_error + build_checks) \<times> job" where
  "judge req checks job =
     (let job = fold (\<lambda>l. job_line (''blocking: '' @ l)) (bc_blocking checks) job;
          job = fold (\<lambda>l. job_line (''noted: '' @ l)) (bc_advisory checks) job;
          job = job_set_blocked (bc_blocking checks) job;
          n = length (bc_blocking checks)
      in if bc_blocking checks = [] then (Inr checks, job)
         else if bq_dry_run req then
           (Inr checks, job_line (show_nat n @ '' problem(s) would stop a real build of this pack'') job)
         else if \<not> bq_override_checks req then (Inl (Blocked n), job)
         else (Inr (checks\<lparr>bc_overridden := True\<rparr>),
           job_line (''publishing over '' @ show_nat n @ '' blocking problem(s), at '' @
             actor_name (bq_actor req) @ CHR 0x27 # ''s explicit request'') job))"

text \<open>What is known about the build goes on the manifest itself.\<close>

definition with_provenance :: "build_request \<Rightarrow> build_checks \<Rightarrow> pack_manifest \<Rightarrow> pack_manifest" where
  "with_provenance req checks m = m\<lparr>
     pm_checks := (if checks_is_empty checks then None else Some checks),
     pm_built_from := bq_from_commit req\<rparr>"

definition counted :: "pack_manifest \<Rightarrow> str" where
  "counted m = pm_pack_version m @ '' ('' @ show_nat (length (pm_mods m)) @ '' mods, '' @
     show_nat (length (pm_assets m)) @ '' assets)''"

definition record_override ::
  "'n build_deps \<Rightarrow> caller option \<Rightarrow> str \<Rightarrow> str \<Rightarrow> nat \<Rightarrow> accounts \<Rightarrow> accounts" where
  "record_override deps actor pack_id pack_version blocking acc =
     (let (uid, login) = (case actor of None \<Rightarrow> (0, ''unknown'') | Some i \<Rightarrow> (cl_uid i, cl_login i));
          detail = pack_version @ '' published over '' @ show_nat blocking @ '' blocking check(s)''
      in if bd_audit_writes deps
         then record_audit uid login ''build.override_checks'' (Some pack_id) (Some detail) (bd_clock deps) acc
         else acc)"

definition publish ::
  "'n build_deps \<Rightarrow> build_request \<Rightarrow> str \<Rightarrow> pack_manifest \<Rightarrow> pack_summary \<Rightarrow> nat option \<Rightarrow> job \<Rightarrow>
     service \<Rightarrow> (run_error + unit) \<times> job \<times> service" where
  "publish deps req pack_id manifest summary published_over job st =
     (let version = pm_pack_version manifest;
          job = (if bq_overwrite_version req
            then job_line (''publishing over '' @ version @ '' if it already exists, as asked -- anyone holding that version keeps what they downloaded until they refetch'') job
            else job);
          job = job_line (''writing manifest '' @ counted manifest) job
      in case save_manifest pack_id manifest (bq_overwrite_version req) (sv_store st) of
        (Inl e, store) \<Rightarrow> (Inl (NotWritten e), job, st\<lparr>sv_store := store\<rparr>)
      | (Inr _, store) \<Rightarrow>
          (case at_fs store (set_latest_manifest pack_id version (st_fs store)) of
             (Inl e, store) \<Rightarrow> (Inl (NotWritten e), job, st\<lparr>sv_store := store\<rparr>)
           | (Inr _, store) \<Rightarrow>
               (case at_fs store (save_pack_summary summary (st_fs store)) of
                  (Inl e, store) \<Rightarrow> (Inl (NotWritten e), job, st\<lparr>sv_store := store\<rparr>)
                | (Inr _, store) \<Rightarrow>
                    (Inr (), job_line (''build complete: '' @ pack_id @ '' is now '' @ version) job,
                     st\<lparr>sv_store := store, sv_accounts := (case published_over of None \<Rightarrow> sv_accounts st
                       | Some n \<Rightarrow> record_override deps (bq_actor req) pack_id version n (sv_accounts st))\<rparr>))))"

definition fell_back_line :: "str list \<Rightarrow> str" where
  "fell_back_line fs = ''Modrinth unreachable for '' @ show_nat (length fs) @
     '' mod(s); resolved from the registry: '' @ join '', '' fs"

definition finish_build ::
  "'n build_deps \<Rightarrow> build_request \<Rightarrow> registry \<Rightarrow> pack_config \<Rightarrow> build_checks \<Rightarrow> job \<Rightarrow> service \<Rightarrow>
     (run_error + unit) \<times> job \<times> service" where
  "finish_build deps req rg cfg checks job st =
     (let pack_id = jb_pack_id job;
          job = job_line ''resolving sources (Modrinth lookups + cache reads)'' job
      in case build_manifest (build_env_of deps rg cfg (st_fs (sv_store st))) (bd_net deps) cfg
              (bq_pack_version req) (bq_channel req) (bq_changelog req) (bq_changelog_i18n req)
              (classify_pack rg cfg) of
        Inl e \<Rightarrow> (Inl (NotBuilt e), job, st)
      | Inr b \<Rightarrow>
          let manifest = with_provenance req checks (bu_manifest b);
              over = (if bc_overridden checks then Some (length (bc_blocking checks)) else None);
              fell_back = bu_resolved_from_registry b;
              job = (if fell_back \<noteq> [] then job_line (fell_back_line fell_back) job else job);
              summary = make_pack_summary cfg (pm_pack_version manifest)
          in if bq_dry_run req
             then (Inr (), job_set_result \<lparr>dr_manifest = manifest, dr_summary = summary\<rparr>
                    (job_line (''dry run: resolved '' @ counted manifest @ '' -- not publishing'') job), st)
             else publish deps req pack_id manifest summary over job st)"

definition run_build ::
  "'n build_deps \<Rightarrow> build_request \<Rightarrow> job \<Rightarrow> service \<Rightarrow> (run_error + unit) \<times> job \<times> service" where
  "run_build deps req job st =
     (let pack_id = jb_pack_id job; fs = st_fs (sv_store st);
          job = job_line (''build '' @ pack_id @ '': loading authoring inputs'') job;
          job = (case bq_from_commit req of None \<Rightarrow> job | Some i \<Rightarrow> job_line (''building from commit '' @ i) job)
      in case load_inputs req pack_id fs of
        Inl e \<Rightarrow> (Inl e, job, st)
      | Inr cfg \<Rightarrow>
          let job = job_line (''config: '' @ show_nat (length (cf_mods cfg)) @ '' mods, '' @
                show_nat (length (cf_assets cfg)) @ '' assets'') job;
              job = job_line ''running enrichment passes (enrich-mcmod / infer-requires)'' job
          in case enriched (bd_tools deps) fs cfg of
            Inl e \<Rightarrow> (Inl e, job, st)
          | Inr cfg \<Rightarrow>
              let job = job_line ''classifying mods and checking the pack against the registry'' job in
              case bd_registry deps of
                Inl e \<Rightarrow> (Inl (RegistryFailed e), job, st)
              | Inr rg \<Rightarrow>
                  (case full_report deps rg cfg fs (sv_rows st) of
                     (report, rows, said) \<Rightarrow>
                       let job = job_line ''checking the pinned loader build against what the mods declare'' job;
                           job = fold job_line said job
                       in (case judge req (check report) job of
                             (Inl e, job) \<Rightarrow> (Inl e, job, st\<lparr>sv_rows := rows\<rparr>)
                           | (Inr checks, job) \<Rightarrow>
                               finish_build deps req rg cfg checks job (st\<lparr>sv_rows := rows\<rparr>))))"

section \<open>Around it\<close>

text \<open>The task \<open>spawn_build\<close> runs: \<open>settled\<close> is whether the harvester is at rest, and if not whether it
  came to rest within five minutes. What it announces is the event and the poke of the harvester.\<close>

datatype harvest_wait = AtRest | CameToRest | StillBusy

definition build_task ::
  "'n build_deps \<Rightarrow> build_request \<Rightarrow> harvest_wait \<Rightarrow> job \<Rightarrow> service \<Rightarrow> job \<times> service \<times> (str \<times> str) list" where
  "build_task deps req wait job st =
     (let on_disk = (\<lambda>job st. st\<lparr>sv_store := (sv_store st)\<lparr>st_fs := persist job (st_fs (sv_store st))\<rparr>\<rparr>);
          st = on_disk job st;
          job = (if wait = AtRest then job else job_line ''waiting for the registry harvest to settle'' job);
          job = (if wait = StillBusy then job_line ''harvest still busy after 5 minutes; building against current state'' job else job)
      in case run_build deps req job st of
        (Inr _, job, st) \<Rightarrow>
          let job = job_finish Done job
          in (job, on_disk job st, if bq_dry_run req then [] else [(jb_pack_id job, ''published'')])
      | (Inl e, job, st) \<Rightarrow>
          let job = job_finish Failed (job_line (''failed: '' @ run_error_text (bd_show deps) e) job)
          in (job, on_disk job st, []))"

section \<open>The request\<close>

record build_params =
  bp_dry_run :: bool
  bp_pack_version :: "str option"
  bp_channel :: "str option"
  bp_override_checks :: bool
  bp_overwrite_version :: bool
  bp_from_commit :: "str option"

definition resolve_build_commit :: "str \<Rightarrow> build_params \<Rightarrow> fs \<Rightarrow> api_error + str option" where
  "resolve_build_commit pack_id p fs =
     (case opt_filter (\<lambda>s. s \<noteq> []) (map_option trim (bp_from_commit p)) of
        Some i \<Rightarrow> (case load_commit pack_id i fs of Inl e \<Rightarrow> Inl e | Inr _ \<Rightarrow> Inr (Some i))
      | None \<Rightarrow>
          if bp_dry_run p then Inr None
          else (case commit_head pack_id fs of
            None \<Rightarrow> Inl (Conflict ''this pack has no commits yet, and a build is made from one -- declare a checkpoint first'')
          | Some head \<Rightarrow>
              (case load_pack_config pack_id fs of
                 Inl e \<Rightarrow> Inl e
               | Inr live \<Rightarrow>
                   let head_config = (case load_commit_config pack_id head fs of Inl _ \<Rightarrow> None | Inr c \<Rightarrow> Some c);
                       pending = uncommitted head_config live
                   in if pending > 0 then Inl (Conflict (show_nat pending @
                        '' change(s) since the last commit; commit them or build that commit by name''))
                      else Inr (Some head))))"

definition clean_i18n :: "(str \<times> str) list option \<Rightarrow> (str \<times> str) list option" where
  "clean_i18n m = opt_filter (\<lambda>m. m \<noteq> []) (map_option
     (\<lambda>m. fold (\<lambda>(k, v) acc. bt_insert k v acc)
        (filter (\<lambda>(k, v). k \<noteq> [] \<and> v \<noteq> []) (map (\<lambda>(k, v). (to_lower (trim k), trim v)) m)) []) m)"

definition release_notes ::
  "str option \<Rightarrow> (str \<times> str) list option \<Rightarrow> str option \<times> (str \<times> str) list option" where
  "release_notes changelog i18n =
     (let i18n = clean_i18n i18n;
          fallback = Option.bind i18n (\<lambda>m. case map_of m ''en'' of
            Some n \<Rightarrow> Some n | None \<Rightarrow> (case m of [] \<Rightarrow> None | (_, v) # _ \<Rightarrow> Some v))
      in (case clean_text changelog of Some c \<Rightarrow> Some c | None \<Rightarrow> fallback, i18n))"

text \<open>\<open>build_pack\<close> past the permission check: the request a job is started with.\<close>

definition build_request_of ::
  "str \<Rightarrow> build_params \<Rightarrow> str option \<Rightarrow> (str \<times> str) list option \<Rightarrow> caller \<Rightarrow> fs \<Rightarrow> api_error + build_request" where
  "build_request_of pack_id p changelog i18n who fs =
     (case resolve_build_commit pack_id p fs of
        Inl e \<Rightarrow> Inl e
      | Inr from_commit \<Rightarrow>
          (case (case bp_channel p of
                   None \<Rightarrow> Some Beta
                 | Some c \<Rightarrow> channel_parse c) of
             None \<Rightarrow> bad_request ''channel must be release, beta or alpha''
           | Some channel \<Rightarrow>
               (case release_notes changelog i18n of
                  (changelog, i18n) \<Rightarrow>
                    Inr \<lparr>bq_dry_run = bp_dry_run p,
                         bq_pack_version = opt_filter (\<lambda>v. trim v \<noteq> []) (bp_pack_version p),
                         bq_channel = channel, bq_changelog = changelog, bq_changelog_i18n = i18n,
                         bq_override_checks = bp_override_checks p,
                         bq_overwrite_version = bp_overwrite_version p,
                         bq_from_commit = from_commit, bq_actor = Some who\<rparr>)))"

section \<open>The steps, one at a time\<close>

lemma job_facts [simp]:
  "jb_pack_id (job_line t j) = jb_pack_id j" "jb_blocked (job_line t j) = jb_blocked j"
  "jb_result (job_line t j) = jb_result j"
  "jb_pack_id (job_set_blocked ls j) = jb_pack_id j" "jb_blocked (job_set_blocked ls j) = ls"
  "jb_pack_id (job_set_result r j) = jb_pack_id j" "jb_blocked (job_set_result r j) = jb_blocked j"
  "jb_result (job_set_result r j) = Some r"
  by (simp_all add: job_line_def job_set_blocked_def job_set_result_def)

lemma fold_job_line [simp]:
  "jb_pack_id (fold (\<lambda>l. job_line (f l)) ls j) = jb_pack_id j"
  "jb_pack_id (fold job_line ls j) = jb_pack_id j"
  by (induction ls arbitrary: j) simp_all

lemma judge_job: "judge req c j = (r, j') \<Longrightarrow> jb_pack_id j' = jb_pack_id j \<and> jb_blocked j' = bc_blocking c"
  by (auto simp: judge_def Let_def split: if_splits)

lemma judge_Inl:
  "judge req c j = (Inl e, j') \<Longrightarrow>
     bc_blocking c \<noteq> [] \<and> \<not> bq_dry_run req \<and> \<not> bq_override_checks req \<and> e = Blocked (length (bc_blocking c))"
  by (auto simp: judge_def Let_def split: if_splits)

text \<open>What the gate lets through, and the mark an override leaves.\<close>

lemma judge_Inr:
  "judge req c j = (Inr c', j') \<Longrightarrow>
     (bc_blocking c = [] \<or> bq_dry_run req \<or> bq_override_checks req) \<and>
     c' = c\<lparr>bc_overridden := bc_overridden c \<or> (bc_blocking c \<noteq> [] \<and> \<not> bq_dry_run req)\<rparr>"
  by (auto simp: judge_def Let_def split: if_splits)

text \<open>The stages before the gate: the config that is built and the report it is judged by.\<close>

definition judged ::
  "'n build_deps \<Rightarrow> build_request \<Rightarrow> str \<Rightarrow> service \<Rightarrow> run_error + registry \<times> pack_config \<times> resolve_report" where
  "judged deps req pack_id st =
     (let fs = st_fs (sv_store st) in
      case load_inputs req pack_id fs of
        Inl e \<Rightarrow> Inl e
      | Inr cfg \<Rightarrow>
          (case enriched (bd_tools deps) fs cfg of
             Inl e \<Rightarrow> Inl e
           | Inr cfg \<Rightarrow>
               (case bd_registry deps of
                  Inl e \<Rightarrow> Inl (RegistryFailed e)
                | Inr rg \<Rightarrow> Inr (rg, cfg, fst (full_report deps rg cfg fs (sv_rows st))))))"

lemma run_build_stopped:
  "judged deps req (jb_pack_id job) st = Inl e \<Longrightarrow>
     \<exists>job'. run_build deps req job st = (Inl e, job', st) \<and> (\<forall>err. e \<noteq> NotWritten err)"
  by (auto simp: judged_def run_build_def Let_def load_inputs_def enriched_def
      split: sum.splits option.splits prod.splits)

lemma run_build_judged:
  assumes "judged deps req (jb_pack_id job) st = Inr (rg, cfg, report)"
  obtains job1 rows where "jb_pack_id job1 = jb_pack_id job"
    "run_build deps req job st =
       (case judge req (check report) job1 of
          (Inl e, job2) \<Rightarrow> (Inl e, job2, st\<lparr>sv_rows := rows\<rparr>)
        | (Inr checks, job2) \<Rightarrow> finish_build deps req rg cfg checks job2 (st\<lparr>sv_rows := rows\<rparr>))"
proof -
  let ?fs = "st_fs (sv_store st)"
  obtain rows said where f: "full_report deps rg cfg ?fs (sv_rows st) = (report, rows, said)"
    using assms
    by (cases "full_report deps rg cfg ?fs (sv_rows st)") (auto simp: judged_def Let_def split: sum.splits)
  obtain cfg0 where "load_inputs req (jb_pack_id job) ?fs = Inr cfg0" "enriched (bd_tools deps) ?fs cfg0 = Inr cfg"
    "bd_registry deps = Inr rg"
    using assms by (auto simp: judged_def Let_def split: sum.splits)
  with f show thesis
    by (intro that [of "fold job_line said (job_line ''checking the pinned loader build against what the mods declare''
          (job_line ''classifying mods and checking the pack against the registry''
          (job_line ''running enrichment passes (enrich-mcmod / infer-requires)''
          (job_line (''config: '' @ show_nat (length (cf_mods cfg0)) @ '' mods, '' @
                show_nat (length (cf_assets cfg0)) @ '' assets'')
          (case bq_from_commit req of None \<Rightarrow> job_line (''build '' @ jb_pack_id job @ '': loading authoring inputs'') job
            | Some i \<Rightarrow> job_line (''building from commit '' @ i)
               (job_line (''build '' @ jb_pack_id job @ '': loading authoring inputs'') job))))))" rows])
      (simp_all add: run_build_def Let_def split: option.split)
qed

section \<open>What a build leaves behind\<close>

lemma finish_build_dry:
  "bq_dry_run req \<Longrightarrow> finish_build deps req rg cfg checks job st = (r, job', st') \<Longrightarrow>
     st' = st \<and> (\<forall>err. r \<noteq> Inl (NotWritten err)) \<and>
     (r = Inr () \<longrightarrow> (\<exists>m. jb_result job' = Some m \<and> pm_built_from (dr_manifest m) = bq_from_commit req))"
  by (auto simp: finish_build_def Let_def with_provenance_def split: sum.splits)

lemma finish_build_built:
  assumes "finish_build deps req rg cfg checks job st = (r, job', st')" "\<not> bq_dry_run req"
  obtains (failed) e where "r = Inl (NotBuilt e)" "st' = st"
  | (wrote) b job1 where "build_manifest (build_env_of deps rg cfg (st_fs (sv_store st))) (bd_net deps) cfg
        (bq_pack_version req) (bq_channel req) (bq_changelog req) (bq_changelog_i18n req) (classify_pack rg cfg) = Inr b"
      "publish deps req (jb_pack_id job) (with_provenance req checks (bu_manifest b))
         (make_pack_summary cfg (pm_pack_version (bu_manifest b)))
         (if bc_overridden checks then Some (length (bc_blocking checks)) else None) job1 st = (r, job', st')"
  using assms
  by (auto simp: finish_build_def Let_def with_provenance_def split: sum.splits)

lemma publish_steps:
  assumes "publish deps req p m s over job st = (r, job', st')"
  obtains (failed) e where "r = Inl (NotWritten e)" "sv_accounts st' = sv_accounts st"
  | (stored) store1 fs2 fs3 where "r = Inr ()"
      "save_manifest p m (bq_overwrite_version req) (sv_store st) = (Inr (), store1)"
      "set_latest_manifest p (pm_pack_version m) (st_fs store1) = (Inr (), fs2)"
      "save_pack_summary s fs2 = (Inr (), fs3)" "st_fs (sv_store st') = fs3"
      "sv_accounts st' = (case over of None \<Rightarrow> sv_accounts st
         | Some n \<Rightarrow> record_override deps (bq_actor req) p (pm_pack_version m) n (sv_accounts st))"
proof -
  obtain r1 store1 where s1: "save_manifest p m (bq_overwrite_version req) (sv_store st) = (r1, store1)" by fastforce
  obtain r2 fs2 where s2: "set_latest_manifest p (pm_pack_version m) (st_fs store1) = (r2, fs2)" by fastforce
  obtain r3 fs3 where s3: "save_pack_summary s fs2 = (r3, fs3)" by fastforce
  note steps = assms [unfolded publish_def Let_def s1] and at = s2 s3 at_fs_def
  show thesis
  proof (cases r1)
    case (Inl e)
    with steps show thesis by (intro failed [of e]) auto
  next
    case r1: (Inr u)
    show thesis
    proof (cases r2)
      case (Inl e)
      with steps r1 show thesis by (intro failed [of e]) (auto simp: at)
    next
      case r2: (Inr u)
      show thesis
      proof (cases r3)
        case (Inl e)
        with steps r1 r2 show thesis by (intro failed [of e]) (auto simp: at)
      next
        case (Inr u)
        with steps r1 r2 s1 s2 s3 show thesis by (intro stored [of store1 fs2 fs3]) (auto simp: at)
      qed
    qed
  qed
qed

lemma summary_keeps_latest:
  assumes "save_pack_summary s fs = (r, fs')" "is_safe_id p"
  shows "load_latest_manifest p fs' = load_latest_manifest p fs"
proof -
  have "subtree (manifests_dir p) fs' = subtree (manifests_dir p) fs"
    by (rule touches_subtree [OF touches_summary [OF assms(1)]]) (rule inputs_parallel [OF assms(2)])
  then have "fs_read fs' (latest_path p) = fs_read fs (latest_path p)"
    by (rule same_subtree_read) (simp_all add: latest_path_def)
  then show ?thesis by (simp add: load_latest_manifest_def)
qed

lemma published_manifest_reads:
  assumes "save_manifest p m over st = (Inr (), st1)"
    "set_latest_manifest p (pm_pack_version m) (st_fs st1) = (Inr (), fs2)" "save_pack_summary s fs2 = (r, fs3)"
  shows "load_latest_manifest p fs3 = Inr m"
proof -
  have "is_safe_id p" using assms(1) by (auto simp: save_manifest_def bad_request_def split: if_splits)
  with summary_keeps_latest [OF assms(3)] manifest_reads_back [OF assms(1,2)] show ?thesis by simp
qed

text \<open>C1: The gate. A build whose report blocks is refused unless it is a dry run or was asked to publish
  over the check: it reports the lines, and leaves the mirror and the audit trail as they were.\<close>

theorem gate_stops_build:
  assumes "judged deps req (jb_pack_id job) st = Inr (rg, cfg, report)" "bc_blocking (check report) \<noteq> []"
    "\<not> bq_dry_run req" "\<not> bq_override_checks req"
  shows "\<exists>job' st'. run_build deps req job st = (Inl (Blocked (length (bc_blocking (check report)))), job', st') \<and>
     jb_blocked job' = bc_blocking (check report) \<and> sv_store st' = sv_store st \<and> sv_accounts st' = sv_accounts st"
proof -
  obtain job1 rows where "run_build deps req job st =
       (case judge req (check report) job1 of
          (Inl e, job2) \<Rightarrow> (Inl e, job2, st\<lparr>sv_rows := rows\<rparr>)
        | (Inr checks, job2) \<Rightarrow> finish_build deps req rg cfg checks job2 (st\<lparr>sv_rows := rows\<rparr>))"
    using run_build_judged [OF assms(1)] by blast
  moreover obtain r job2 where j: "judge req (check report) job1 = (r, job2)" by fastforce
  moreover have "r = Inl (Blocked (length (bc_blocking (check report))))"
    using judge_Inl [of req "check report" job1 _ job2] judge_Inr [of req "check report" job1 _ job2] j assms(2-4)
    by (cases r) auto
  ultimately show ?thesis using judge_job [OF j] by auto
qed

text \<open>Only a publication writes. A dry run, and a build that fails before it writes, leave the mirror and
  the audit trail exactly as they were; a dry run that succeeds holds the manifest it would have made.\<close>

theorem only_publishing_writes:
  assumes "run_build deps req job st = (r, job', st')"
    "bq_dry_run req \<or> (\<exists>e. r = Inl e \<and> (\<forall>err. e \<noteq> NotWritten err))"
  shows "sv_store st' = sv_store st \<and> sv_accounts st' = sv_accounts st \<and>
     (r = Inr () \<longrightarrow> (\<exists>m. jb_result job' = Some m \<and> pm_built_from (dr_manifest m) = bq_from_commit req))"
proof (cases "judged deps req (jb_pack_id job) st")
  case (Inl e)
  from run_build_stopped [OF this] assms(1) show ?thesis by auto
next
  case (Inr x)
  obtain rg cfg report where "x = (rg, cfg, report)" by (cases x)
  with Inr obtain job1 rows where run: "run_build deps req job st =
       (case judge req (check report) job1 of
          (Inl e, job2) \<Rightarrow> (Inl e, job2, st\<lparr>sv_rows := rows\<rparr>)
        | (Inr checks, job2) \<Rightarrow> finish_build deps req rg cfg checks job2 (st\<lparr>sv_rows := rows\<rparr>))"
    using run_build_judged [of deps req job st rg cfg report] by blast
  obtain v job2 where j: "judge req (check report) job1 = (v, job2)" by fastforce
  show ?thesis
  proof (cases v)
    case (Inr checks)
    with run j assms(1) have f: "finish_build deps req rg cfg checks job2 (st\<lparr>sv_rows := rows\<rparr>) = (r, job', st')" by simp
    show ?thesis
    proof (cases "bq_dry_run req")
      case True
      with finish_build_dry [OF True f] show ?thesis by simp
    next
      case False
      with assms(2) obtain e where e: "r = Inl e" "\<forall>err. e \<noteq> NotWritten err" by auto
      from f False show ?thesis
      proof (cases rule: finish_build_built)
        case (wrote b job1)
        from wrote(2) e show ?thesis by (cases rule: publish_steps) auto
      qed (simp add: e)
    qed
  qed (use run j assms(1) in auto)
qed

lemma finish_build_blocked:
  "finish_build deps req rg cfg checks job st = (r, job', st') \<Longrightarrow> jb_blocked job' = jb_blocked job"
  by (auto simp: finish_build_def publish_def Let_def at_fs_def split: sum.splits prod.splits if_splits)

lemma record_override_row:
  "bd_audit_writes deps \<Longrightarrow> \<exists>row. record_override deps actor p v n acc = acc\<lparr>ac_audit := ac_audit acc @ [row]\<rparr> \<and>
     ar_action row = ''build.override_checks'' \<and> ar_target row = Some p \<and>
     ar_actor_uid row = (case actor of None \<Rightarrow> 0 | Some i \<Rightarrow> cl_uid i) \<and> (\<forall>r \<in> set (ac_audit acc). ar_id r < ar_id row)"
  "\<not> bd_audit_writes deps \<Longrightarrow> record_override deps actor p v n acc = acc"
  by (auto simp: record_override_def record_audit_def next_rowid_gt split: option.split)

text \<open>C2: What a finished build published. Its manifest is the latest one of the pack and names the commit
  it was made from; it carries the blocking lines it was published over, which there are only on an
  explicit request, and exactly such a build adds a row to the audit trail.\<close>

theorem published_build_is_recorded:
  assumes "run_build deps req job st = (Inr (), job', st')" "\<not> bq_dry_run req"
  shows "\<exists>m. load_latest_manifest (jb_pack_id job) (st_fs (sv_store st')) = Inr m \<and>
     pm_built_from m = bq_from_commit req \<and>
     (case pm_checks m of None \<Rightarrow> jb_blocked job' = []
      | Some c \<Rightarrow> bc_blocking c = jb_blocked job' \<and> (bc_overridden c \<longleftrightarrow> jb_blocked job' \<noteq> [])) \<and>
     (jb_blocked job' \<noteq> [] \<longrightarrow> bq_override_checks req) \<and>
     (if jb_blocked job' = [] \<or> \<not> bd_audit_writes deps then sv_accounts st' = sv_accounts st
      else \<exists>row. sv_accounts st' = (sv_accounts st)\<lparr>ac_audit := ac_audit (sv_accounts st) @ [row]\<rparr> \<and>
        ar_action row = ''build.override_checks'' \<and> ar_target row = Some (jb_pack_id job) \<and>
        ar_actor_uid row = (case bq_actor req of None \<Rightarrow> 0 | Some i \<Rightarrow> cl_uid i) \<and>
        (\<forall>r \<in> set (ac_audit (sv_accounts st)). ar_id r < ar_id row))"
proof -
  obtain rg cfg report where "judged deps req (jb_pack_id job) st = Inr (rg, cfg, report)"
    using run_build_stopped [of deps req job st] assms(1)
    by (cases "judged deps req (jb_pack_id job) st") auto
  then obtain job1 rows where pid: "jb_pack_id job1 = jb_pack_id job" and run: "run_build deps req job st =
       (case judge req (check report) job1 of
          (Inl e, job2) \<Rightarrow> (Inl e, job2, st\<lparr>sv_rows := rows\<rparr>)
        | (Inr checks, job2) \<Rightarrow> finish_build deps req rg cfg checks job2 (st\<lparr>sv_rows := rows\<rparr>))"
    using run_build_judged by blast
  obtain v job2 where j: "judge req (check report) job1 = (v, job2)" by fastforce
  with run assms(1) obtain checks where v: "v = Inr checks"
    and f: "finish_build deps req rg cfg checks job2 (st\<lparr>sv_rows := rows\<rparr>) = (Inr (), job', st')"
    by (cases v) auto
  have blocked: "jb_blocked job' = bc_blocking (check report)"
    using finish_build_blocked [OF f] judge_job [OF j] by simp
  have c: "bc_blocking checks = jb_blocked job'" "bc_overridden checks \<longleftrightarrow> jb_blocked job' \<noteq> []"
    "jb_blocked job' \<noteq> [] \<longrightarrow> bq_override_checks req"
    using judge_Inr [OF j [unfolded v]] assms(2) by (auto simp: blocked check_def)
  from f assms(2) show ?thesis
  proof (cases rule: finish_build_built)
    case (wrote b job3)
    let ?m = "with_provenance req checks (bu_manifest b)"
    have m: "pm_pack_version ?m = pm_pack_version (bu_manifest b)" "pm_built_from ?m = bq_from_commit req"
      "pm_checks ?m = (if checks_is_empty checks then None else Some checks)"
      by (simp_all add: with_provenance_def)
    have k: "case pm_checks ?m of None \<Rightarrow> jb_blocked job' = []
      | Some c \<Rightarrow> bc_blocking c = jb_blocked job' \<and> (bc_overridden c \<longleftrightarrow> jb_blocked job' \<noteq> [])"
      using c by (auto simp: m checks_is_empty_def)
    from wrote(2) show ?thesis
    proof (cases rule: publish_steps)
      case (stored store1 fs2 fs3)
      have "load_latest_manifest (jb_pack_id job) (st_fs (sv_store st')) = Inr ?m"
        using published_manifest_reads [OF stored(2,3,4)] stored(5) judge_job [OF j] pid by simp
      moreover have "sv_accounts st' = (if jb_blocked job' = [] then sv_accounts st
         else record_override deps (bq_actor req) (jb_pack_id job) (pm_pack_version ?m) (length (jb_blocked job')) (sv_accounts st))"
        using stored(6) judge_job [OF j] pid by (simp add: c)
      then have "if jb_blocked job' = [] \<or> \<not> bd_audit_writes deps then sv_accounts st' = sv_accounts st
        else \<exists>row. sv_accounts st' = (sv_accounts st)\<lparr>ac_audit := ac_audit (sv_accounts st) @ [row]\<rparr> \<and>
          ar_action row = ''build.override_checks'' \<and> ar_target row = Some (jb_pack_id job) \<and>
          ar_actor_uid row = (case bq_actor req of None \<Rightarrow> 0 | Some i \<Rightarrow> cl_uid i) \<and>
          (\<forall>r \<in> set (ac_audit (sv_accounts st)). ar_id r < ar_id row)"
        using record_override_row(1) record_override_row(2) by (cases "jb_blocked job' = []"; cases "bd_audit_writes deps") simp_all
      ultimately show ?thesis using k c(3) m(2) by blast
    qed simp
  qed simp
qed

text \<open>A build that names no commit and is not a dry run is made from the head of the pack's history, and
  the config it reads differs from the one on disk in nothing.\<close>

theorem real_build_is_committed:
  assumes "build_request_of pack_id p changelog i18n who fs = Inr req" "\<not> bp_dry_run p"
    "opt_filter (\<lambda>s. s \<noteq> []) (map_option trim (bp_from_commit p)) = None"
  shows "\<exists>i live. bq_from_commit req = Some i \<and> commit_head pack_id fs = Some i \<and> \<not> bq_dry_run req \<and>
     load_pack_config pack_id fs = Inr live \<and> (\<forall>c. load_inputs req pack_id fs = Inr c \<longrightarrow> diff_configs c live = [])"
proof -
  from assms(1) obtain chosen where r: "resolve_build_commit pack_id p fs = Inr chosen"
    and req: "bq_from_commit req = chosen" "bq_dry_run req = bp_dry_run p"
    by (auto simp: build_request_of_def bad_request_def split: sum.splits option.splits prod.splits)
  from r assms(2,3) obtain head live where "commit_head pack_id fs = Some head"
      and live: "load_pack_config pack_id fs = Inr live" "chosen = Some head"
      and "uncommitted (case load_commit_config pack_id head fs of Inl _ \<Rightarrow> None | Inr c \<Rightarrow> Some c) live = 0"
    by (auto simp: resolve_build_commit_def Let_def split: option.splits sum.splits if_splits)
  then show ?thesis
    using assms(2) by (auto simp: req live load_inputs_def uncommitted_def split: sum.splits)
qed


lemma split_any_chars: "c \<in> set s \<Longrightarrow> c \<in> set cs \<or> (\<exists>x \<in> set (split_any cs s). c \<in> set x)"
proof (induction s)
  case (Cons a s)
  then show ?case by (cases "split_any cs s") (auto split: if_splits)
qed simp

lemma no_slash_digit: "list_all is_digit s \<Longrightarrow> CHR ''/'' \<notin> set s"
  by (auto simp: list_all_iff is_digit_def)

lemma valid_version_no_slash: "validate_pack_version v = None \<Longrightarrow> CHR ''/'' \<notin> set v"
proof -
  assume v: "validate_pack_version v = None"
  have "CHR ''/'' \<notin> set (version_body v)"
    using v split_any_chars [of "CHR ''/''" "version_body v" "''-.''"]
    by (auto simp: validate_None good_segment_def list.pred_set [of good_segment] no_slash_digit)
  moreover have "v = version_body v \<or> v = ''SNAPSHOT-'' @ version_body v"
    by (auto simp: version_body_def strip_prefix_Some split: option.splits)
  moreover have "CHR ''/'' \<notin> set ''SNAPSHOT-''" by simp
  ultimately show ?thesis by (metis Un_iff set_append)
qed

text \<open>The number a build picks is of no file on the disk.\<close>

lemma auto_version_free:
  assumes "resolve_auto_version cfg (manifest_files p fs) = Inr v" "fs_ok fs" "is_safe_version v"
    and "\<forall>w \<in> set (existing_versions (manifest_files p fs)).
      counter_of (case cf_version cfg of None \<Rightarrow> ''0.0'' | Some b \<Rightarrow> b) w \<noteq> Some (2 ^ 64 - 1)"
  shows "\<not> fs_exists fs (manifest_path p v)"
proof
  let ?base = "case cf_version cfg of None \<Rightarrow> ''0.0'' | Some b \<Rightarrow> b"
  assume ex: "fs_exists fs (manifest_path p v)"
  from assms(1) have v: "v = next_auto_version ?base (existing_versions (manifest_files p fs))"
    and ok: "validate_pack_version v = None"
    by (auto simp: resolve_auto_version_def Let_def split: option.splits)
  obtain n where n: "v = ?base @ ''.'' @ show_nat n" "n < 2 ^ 64"
    and less: "\<forall>w \<in> set (existing_versions (manifest_files p fs)). \<forall>k. counter_of ?base w = Some k \<longrightarrow> k < n"
    using next_auto_version_counter [OF assms(4)] v by auto
  have "manifest_path p v = manifests_dir p @ [v @ ''.json'']"
    using valid_version_no_slash [OF ok]
    by (simp add: manifest_path_safe [OF assms(3)] split_on_no_sep)
  with ex obtain nd where "map_of fs (manifests_dir p @ [v @ ''.json'']) = Some nd"
    by (auto simp: fs_exists_def split: option.splits)
  then have "(v @ ''.json'', nd) \<in> set (case read_dir fs (manifests_dir p) of None \<Rightarrow> [] | Some es \<Rightarrow> es)"
    using in_read_dir [OF assms(2), of "manifests_dir p"] by (simp add: manifests_dir_def)
  then have "v @ ''.json'' \<in> set (manifest_files p fs)" by (force simp: manifest_files_def)
  moreover have "v \<noteq> ''latest''" using ok by (auto simp: validate_pack_version_def strip_prefix_def starts_with_def is_digit_def)
  ultimately have "v \<in> set (existing_versions (manifest_files p fs))"
    by (force simp: existing_versions_def in_map_filter)
  with less counter_of_show [OF n(2), of ?base] n(1) show False by auto
qed

lemma publish_no_conflict:
  assumes "publish deps req p m s over job st = (r, job', st')" "\<not> fs_exists (st_fs (sv_store st)) (manifest_path p (pm_pack_version m))"
  shows "r \<noteq> Inl (NotWritten (Conflict why))"
proof -
  obtain r1 store1 where s1: "save_manifest p m (bq_overwrite_version req) (sv_store st) = (r1, store1)" by fastforce
  obtain r2 fs2 where s2: "set_latest_manifest p (pm_pack_version m) (st_fs store1) = (r2, fs2)" by fastforce
  obtain r3 fs3 where s3: "save_pack_summary s fs2 = (r3, fs3)" by fastforce
  have aw: "fst (atomic_write q c fs) \<noteq> Inl (Conflict why)" for q c fs
    using atomic_write_error [of q c fs] by (cases "atomic_write q c fs") auto
  have "r1 \<noteq> Inl (Conflict why)"
    using s1 assms(2) aw
    by (auto simp: save_manifest_def bad_request_def Let_def at_fs_def dest: atomic_write_error
        split: if_splits sum.splits prod.splits)
  moreover have "r2 \<noteq> Inl (Conflict why)"
    using s2
    by (auto simp: set_latest_manifest_def bad_request_def Let_def create_dir_all_def split: if_splits sum.splits prod.splits option.splits)
  moreover have "r3 \<noteq> Inl (Conflict why)"
    using s3 by (auto simp: save_pack_summary_def bad_request_def dest: atomic_write_error split: if_splits)
  ultimately show ?thesis
    using assms(1) [unfolded publish_def Let_def s1] s2 s3
    by (cases r1; cases r2; cases r3) (auto simp: at_fs_def)
qed

text \<open>A build that lets the server number it never meets a version that is already published, as long as
  the counter has not reached the end of its range.\<close>

theorem auto_version_never_conflicts:
  assumes "run_build deps req job st = (Inl (NotWritten err), job', st')"
    and "judged deps req (jb_pack_id job) st = Inr (rg, cfg, report)"
    and "bq_pack_version req = None" "cf_pack_id cfg = jb_pack_id job" "fs_ok (st_fs (sv_store st))"
    and "\<forall>v \<in> set (existing_versions (manifest_files (jb_pack_id job) (st_fs (sv_store st)))).
      counter_of (case cf_version cfg of None \<Rightarrow> ''0.0'' | Some b \<Rightarrow> b) v \<noteq> Some (2 ^ 64 - 1)"
  shows "err \<noteq> Conflict why"
proof
  assume err: "err = Conflict why"
  obtain job1 rows where pid: "jb_pack_id job1 = jb_pack_id job" and run: "run_build deps req job st =
       (case judge req (check report) job1 of
          (Inl e, job2) \<Rightarrow> (Inl e, job2, st\<lparr>sv_rows := rows\<rparr>)
        | (Inr checks, job2) \<Rightarrow> finish_build deps req rg cfg checks job2 (st\<lparr>sv_rows := rows\<rparr>))"
    using run_build_judged [OF assms(2)] by blast
  obtain v job2 where j: "judge req (check report) job1 = (v, job2)" by fastforce
  with run assms(1) judge_Inl [of req "check report" job1 _ job2] obtain checks where
    f: "finish_build deps req rg cfg checks job2 (st\<lparr>sv_rows := rows\<rparr>) = (Inl (NotWritten err), job', st')"
    by (cases v) auto
  then have dry: "\<not> bq_dry_run req" using finish_build_dry by fastforce
  from f dry show False
  proof (cases rule: finish_build_built)
    case (wrote b job3)
    let ?v = "pm_pack_version (bu_manifest b)" and ?fs = "st_fs (sv_store st)"
    from wrote(1) have "chosen_version (build_env_of deps rg cfg ?fs) cfg None = Inr ?v"
      using assms(3) by (auto elim: build_manifest_Inr)
    then have auto: "resolve_auto_version cfg (manifest_files (jb_pack_id job) ?fs) = Inr ?v"
      by (simp add: chosen_version_def build_env_of_def assms(4))
    show False
    proof (cases "is_safe_version ?v")
      case True
      from auto_version_free [OF auto assms(5) True assms(6)] publish_no_conflict [OF wrote(2), of why]
      show False using judge_job [OF j] pid err by (simp add: with_provenance_def)
    next
      case False
      then have "save_manifest p (with_provenance req checks (bu_manifest b)) ow sto =
          (Inl (BadRequest w), sto)" if "w = (if is_safe_id p then ''invalid pack version'' else ''invalid pack id'')" for p ow sto w
        by (simp add: that save_manifest_def with_provenance_def bad_request_def)
      with wrote(2) err show False
        by (auto simp: publish_def Let_def with_provenance_def)
    qed
  qed simp
qed

section \<open>An example\<close>

text \<open>A pack of one mod whose jar says it needs another, built from its first commit.\<close>

definition needy_registry :: registry where
  "needy_registry = known_version\<lparr>rg_aliases := [\<lparr>al_mod_id = 1, al_source = ''modrinth'', al_key = ''P''\<rparr>],
     rg_relations := [example_requires 1 ''core'' ''jar-meta'']\<rparr>"

definition example_deps :: "unit build_deps" where
  "example_deps = \<lparr>bd_tools = \<lparr>jt_unzip = (\<lambda>_. None), jt_utf8 = Some, jt_utf8_lossy = (\<lambda>s. s), jt_toml = (\<lambda>_. None),
       jt_fabric = (\<lambda>_. None), jt_mod_array = (\<lambda>_. None), jt_mod_list = (\<lambda>_. None)\<rparr>,
     bd_fetch = fetch_down, bd_net = (), bd_sha1 = (\<lambda>s. s), bd_enc = (\<lambda>s. s), bd_mirror_base = ''https://m'',
     bd_now = ''now'', bd_registry = Inr needy_registry, bd_client = Some ''off'', bd_versions = (\<lambda>_. None),
     bd_remote = (\<lambda>_. None), bd_registry_reads = True, bd_registry_writes = True, bd_audit_writes = True, bd_clock = 100,
     bd_show = (\<lambda>_. ''e'')\<rparr>"

definition needy_pack :: pack_config where
  "needy_pack = sample_config [jei]"

definition needy_service :: service where
  "needy_service = \<lparr>sv_store = \<lparr>st_fs = snd (save_commit ''p'' first_commit needy_pack (snd (save_pack_config ''p'' needy_pack []))),
     st_builds = []\<rparr>, sv_rows = [], sv_accounts = empty_accounts\<rparr>"

definition build_head :: "bool \<Rightarrow> build_request" where
  "build_head over = \<lparr>bq_dry_run = False, bq_pack_version = None, bq_channel = Beta, bq_changelog = None,
     bq_changelog_i18n = None, bq_override_checks = over, bq_overwrite_version = False,
     bq_from_commit = Some (cm_id first_commit), bq_actor = None\<rparr>"

lemma needy_published:
  "fst (run_build example_deps (build_head True) started needy_service) = Inr ()"
  by code_simp
lemma needy_blocks:
  "bc_blocking (check (resolve_pack needy_registry needy_pack)) \<noteq> []"
  by code_simp
lemma needy_judged:
  "judged example_deps (build_head False) (jb_pack_id started) needy_service = Inr (needy_registry, needy_pack, resolve_pack needy_registry needy_pack)"
  by code_simp
theorem gate_stops_build_witness:
  "\<exists>job' st'. run_build example_deps (build_head False) started needy_service = (Inl (Blocked 1), job', st') \<and>
     sv_store st' = sv_store needy_service"
proof -
  have "length (bc_blocking (check (resolve_pack needy_registry needy_pack))) = 1"
  by code_simp
  with gate_stops_build [OF needy_judged] needy_blocks show ?thesis by (auto simp: build_head_def)
qed
lemma needy_preview:
   "fst (run_build example_deps ((build_head True)\<lparr>bq_dry_run := True\<rparr>) started needy_service) = Inr ()"
  by code_simp
theorem only_publishing_writes_witness:
  "\<exists>job' st' m. run_build example_deps ((build_head True)\<lparr>bq_dry_run := True\<rparr>) started needy_service = (Inr (), job', st') \<and>
     sv_store st' = sv_store needy_service \<and> jb_result job' = Some m"
proof -
  obtain job' st' where r: "run_build example_deps ((build_head True)\<lparr>bq_dry_run := True\<rparr>) started needy_service = (Inr (), job', st')"
    using needy_preview by (auto simp: prod_eq_iff)
  from only_publishing_writes [OF r] show ?thesis using r by auto
qed
theorem published_build_is_recorded_witness:
  "\<exists>job' st' m. run_build example_deps (build_head True) started needy_service = (Inr (), job', st') \<and>
     load_latest_manifest (jb_pack_id started) (st_fs (sv_store st')) = Inr m \<and> pm_built_from m = Some (cm_id first_commit)"
proof -
  obtain job' st' where r: "run_build example_deps (build_head True) started needy_service = (Inr (), job', st')"
    using needy_published by (auto simp: prod_eq_iff)
  from published_build_is_recorded [OF r] show ?thesis using r by (auto simp: build_head_def)
qed

definition plain_build :: build_params where
  "plain_build = \<lparr>bp_dry_run = False, bp_pack_version = None, bp_channel = None, bp_override_checks = False,
     bp_overwrite_version = False, bp_from_commit = Some '' ''\<rparr>"

theorem real_build_is_committed_witness:
  "\<exists>req c. build_request_of ''p'' plain_build None None \<lparr>cl_uid = 1, cl_login = ''ann'', cl_role = Member\<rparr> (st_fs (sv_store needy_service)) = Inr req \<and>
     load_inputs req ''p'' (st_fs (sv_store needy_service)) = Inr c \<and> diff_configs c needy_pack = []"
proof -
  let ?fs = "st_fs (sv_store needy_service)"
  let ?r = "build_request_of ''p'' plain_build None None \<lparr>cl_uid = 1, cl_login = ''ann'', cl_role = Member\<rparr> ?fs"
  have "(case ?r of Inl _ \<Rightarrow> False | Inr req \<Rightarrow> load_inputs req ''p'' ?fs = Inr needy_pack)" by code_simp
  then obtain req where r: "?r = Inr req" "load_inputs req ''p'' ?fs = Inr needy_pack" by (auto split: sum.splits)
  have "\<not> bp_dry_run plain_build" "opt_filter (\<lambda>s. s \<noteq> []) (map_option trim (bp_from_commit plain_build)) = None"
    by code_simp+
  note committed = real_build_is_committed [OF r(1) this]
  have live: "load_pack_config ''p'' ?fs = Inr needy_pack" by code_simp
  from committed have "diff_configs needy_pack needy_pack = []" unfolding live r(2) by auto
  with r show ?thesis by blast
qed

definition stuck_service :: service where
  "stuck_service = needy_service\<lparr>sv_store := \<lparr>st_fs = snd (create_dir_all (summary_path ''p'') (st_fs (sv_store needy_service))),
     st_builds = []\<rparr>\<rparr>"

lemma stuck_run:
  "fst (run_build example_deps (build_head True) started stuck_service) = Inl (NotWritten (Internal ''io''))"
  "judged example_deps (build_head True) (jb_pack_id started) stuck_service =
     Inr (needy_registry, needy_pack, resolve_pack needy_registry needy_pack)"
  by code_simp+

lemma stuck_ok: "fs_ok (st_fs (sv_store stuck_service))"
proof -
  have "fs_ok (snd (save_pack_config ''p'' needy_pack []))"
    by (rule touches_ok [OF touches_config [OF surjective_pairing]]) simp
  then have "fs_ok (snd (save_commit ''p'' first_commit needy_pack (snd (save_pack_config ''p'' needy_pack []))))"
    by (rule touches_ok [OF touches_commit [OF surjective_pairing]])
  then show ?thesis
    by (simp add: stuck_service_def needy_service_def fs_ok_mkdir [OF surjective_pairing])
qed

theorem auto_version_never_conflicts_witness:
  "\<exists>job' st'. run_build example_deps (build_head True) started stuck_service = (Inl (NotWritten (Internal ''io'')), job', st') \<and>
     Internal ''io'' \<noteq> Conflict []"
proof -
  obtain job' st' where r: "run_build example_deps (build_head True) started stuck_service =
      (Inl (NotWritten (Internal ''io'')), job', st')"
    using stuck_run(1) by (auto simp: prod_eq_iff)
  have "existing_versions (manifest_files (jb_pack_id started) (st_fs (sv_store stuck_service))) = []" by code_simp
  moreover have "cf_pack_id needy_pack = jb_pack_id started" by code_simp
  ultimately have "Internal ''io'' \<noteq> Conflict []"
    by (intro auto_version_never_conflicts [OF r stuck_run(2) _ _ stuck_ok]) (simp_all add: build_head_def)
  with r show ?thesis by blast
qed

end
