(* ===== verification/Pack_Edit.thy ===== *)
theory Pack_Edit
  imports Access Publish Depfill Store_Cache Pack_Copy Paging
begin

text \<open>
  Editing a pack over HTTP (the config and history part of \<open>src/src/http/admin.rs\<close>, with
  \<open>src/src/authoring/reconstruct.rs\<close>): the conditional save, the settling of the fields the server owns,
  checkpoints, restores and reverts, and the deletion of a pack with what was said about it. A handler
  that takes the lock of the pack is one step. The live documents of \<open>packdoc.rs\<close> are a parameter:
  a table from packs to documents, the seeding of a document, the merge of an update and the reading of a
  document as a config.
\<close>

section \<open>The service a handler works on\<close>

record ('n, 'd) edit_env =
  ee_upstream :: "'n upstream"
  ee_net :: 'n
  ee_registry :: registry
  ee_size :: "node \<Rightarrow> nat"
  ee_sha1 :: "str \<Rightarrow> str"
  ee_json :: "pack_config \<Rightarrow> str"
  ee_now :: str
  ee_clock :: int
  ee_percent_decode :: "str \<Rightarrow> str"
  ee_to_config :: "'d \<Rightarrow> pack_config \<Rightarrow> str + pack_config"
  ee_from_config :: "pack_config \<Rightarrow> str + 'd"
  ee_apply :: "'d \<Rightarrow> str \<Rightarrow> str + 'd"
  ee_encode :: "'d \<Rightarrow> str"
  ee_base64 :: "str \<Rightarrow> str"

datatype panel_event =
    EvSaved str str str
  | EvCommitted str str str str
  | EvDoc str str str
  | EvPack str str
  | EvModeration str
  | EvCatalog str
  | EvPoke

record 'd panel =
  pn_store :: storage
  pn_acc :: accounts
  pn_docs :: "(str \<times> 'd) list"
  pn_tickets :: "(str \<times> nat) list"
  pn_events :: "panel_event list"

abbreviation pn_fs :: "'d panel \<Rightarrow> fs" where
  "pn_fs st \<equiv> st_fs (pn_store st)"

definition set_fs :: "fs \<Rightarrow> 'd panel \<Rightarrow> 'd panel" where
  "set_fs fs st = st\<lparr>pn_store := (pn_store st)\<lparr>st_fs := fs\<rparr>\<rparr>"

definition emit :: "panel_event \<Rightarrow> 'd panel \<Rightarrow> 'd panel" where
  "emit e st = st\<lparr>pn_events := pn_events st @ [e]\<rparr>"

definition forget_doc :: "str \<Rightarrow> 'd panel \<Rightarrow> 'd panel" where
  "forget_doc pack_id st = st\<lparr>pn_docs := filter (\<lambda>(p, _). p \<noteq> pack_id) (pn_docs st)\<rparr>"

definition audit :: "('n, 'd) edit_env \<Rightarrow> caller \<Rightarrow> str \<Rightarrow> str option \<Rightarrow> str option \<Rightarrow> 'd panel \<Rightarrow> 'd panel" where
  "audit env who action target detail st =
     st\<lparr>pn_acc := record_audit (cl_uid who) (cl_login who) action target detail (ee_clock env) (pn_acc st)\<rparr>"

abbreviation gate :: "'d panel \<Rightarrow> caller \<Rightarrow> str \<Rightarrow> pack_level \<Rightarrow> api_error + unit" where
  "gate st \<equiv> authorize (Some (pn_acc st))"

section \<open>Revisions\<close>

datatype precondition = AnyConfig | Rev str

definition trim_quotes :: "str \<Rightarrow> str" where
  "trim_quotes s = rev (dropWhile (\<lambda>c. c = CHR 0x22) (rev (dropWhile (\<lambda>c. c = CHR 0x22) s)))"

definition precondition_of :: "str option \<Rightarrow> precondition option" where
  "precondition_of if_match =
     Option.bind if_match (\<lambda>h.
       let raw = trim h in
       if raw = ''*'' then Some AnyConfig
       else (let tag = trim_quotes (case strip_prefix ''W/'' raw of Some r \<Rightarrow> r | None \<Rightarrow> raw)
             in if tag = [] then None else Some (Rev tag)))"

definition saved_by_someone_else :: "str \<Rightarrow> str \<Rightarrow> str \<Rightarrow> str" where
  "saved_by_someone_else pack_id want now =
     ''pack '' @ quoted pack_id @ '' was saved by someone else since this edit began (edited '' @ take 8 want @
     '', now '' @ take 8 now @ ''); reload the config and reapply the change''"

definition nothing_to_match :: "str \<Rightarrow> str" where
  "nothing_to_match pack_id =
     ''pack '' @ quoted pack_id @ '' has no stored config to match against; it was deleted or never existed''"

definition check_precondition :: "precondition option \<Rightarrow> str option \<Rightarrow> str \<Rightarrow> api_error + unit" where
  "check_precondition pre current pack_id =
     (case (pre, current) of
        (None, _) \<Rightarrow> Inr ()
      | (Some AnyConfig, Some _) \<Rightarrow> Inr ()
      | (Some (Rev want), Some now) \<Rightarrow>
          if want = now then Inr () else Inl (Conflict (saved_by_someone_else pack_id want now))
      | (Some _, None) \<Rightarrow> Inl (Conflict (nothing_to_match pack_id)))"

definition rev_of :: "('n, 'd) edit_env \<Rightarrow> pack_config \<Rightarrow> str" where
  "rev_of env = edit_rev (\<lambda>c. ee_sha1 env (ee_json env c))"

definition etag :: "str \<Rightarrow> str" where
  "etag r = CHR 0x22 # r @ [CHR 0x22]"

definition get_pack_config :: "('n, 'd) edit_env \<Rightarrow> caller \<Rightarrow> str \<Rightarrow> 'd panel \<Rightarrow> api_error + str \<times> pack_config" where
  "get_pack_config env who pack_id st =
     (case gate st who pack_id View of
        Inl e \<Rightarrow> Inl e
      | Inr _ \<Rightarrow> (case load_pack_config pack_id (pn_fs st) of
          Inl e \<Rightarrow> Inl e | Inr cfg \<Rightarrow> Inr (etag (rev_of env cfg), cfg)))"

section \<open>Saving\<close>

text \<open>The declarations compared through their serialised form.\<close>

definition fill_needed :: "pack_config option \<Rightarrow> pack_config \<Rightarrow> bool" where
  "fill_needed prior cfg =
     (case prior of None \<Rightarrow> True
      | Some b \<Rightarrow> (cf_mods b, cf_assets b) \<noteq> (cf_mods cfg, cf_assets cfg))"

definition store_edited_config ::
  "('n, 'd) edit_env \<Rightarrow> str \<Rightarrow> pack_config \<Rightarrow> str \<Rightarrow> bool \<Rightarrow> 'd panel \<Rightarrow>
     (api_error + pack_config \<times> str) \<times> 'd panel" where
  "store_edited_config env pack_id cfg by_login fill st =
     (let cached = (case list_cache_inventory (ee_size env) (pn_fs st) of Inl _ \<Rightarrow> [] | Inr es \<Rightarrow> map iv_sha1 es);
          cfg = (if fill then fst (fill_dependencies (ee_upstream env) (ee_registry env) cached (ee_net env) cfg) else cfg)
      in case save_pack_config pack_id cfg (pn_fs st) of
           (Inl e, fs) \<Rightarrow> (Inl e, set_fs fs st)
         | (Inr _, fs) \<Rightarrow>
             (let fs = snd (note_pending_author pack_id by_login fs);
                  r = rev_of env cfg
              in (Inr (cfg, r), emit (EvSaved pack_id r by_login) (set_fs fs st))))"

definition dup_text :: "duplicate \<Rightarrow> str" where
  "dup_text d = (case d of
     DupIdentity what filename \<Rightarrow> what @ '' is declared twice (second row: '' @ quoted filename @ '')''
   | DupFilename filename \<Rightarrow> ''filename '' @ quoted filename @ '' is declared twice''
   | DupDest dest \<Rightarrow> ''asset dest '' @ quoted dest @ '' is declared twice'')"

text \<open>What the server owns is carried from the stored config, or follows from the id on a first save.\<close>

definition settle_config ::
  "('n, 'd) edit_env \<Rightarrow> caller \<Rightarrow> str \<Rightarrow> precondition option \<Rightarrow> pack_config \<Rightarrow> 'd panel \<Rightarrow>
     api_error + pack_config \<times> bool" where
  "settle_config env who pack_id pre cfg st =
     (case load_pack_config pack_id (pn_fs st) of
        Inr existing \<Rightarrow>
          (case check_precondition pre (Some (rev_of env existing)) pack_id of
             Inl e \<Rightarrow> Inl e
           | Inr _ \<Rightarrow>
               (let cfg = merge_pulled existing (cfg\<lparr>cf_owner := cf_owner existing, cf_tier := cf_tier existing,
                      cf_visibility := cf_visibility existing, cf_fork_of := cf_fork_of existing\<rparr>)
                in Inr (cfg, fill_needed (Some existing) cfg)))
      | Inl _ \<Rightarrow>
          (case check_precondition pre None pack_id of
             Inl e \<Rightarrow> Inl e
           | Inr _ \<Rightarrow>
               (case pack_namespace_uid pack_id of
                  Some uid \<Rightarrow>
                    (case require_terms (Some (pn_acc st)) (cl_uid who) of
                       Inl e \<Rightarrow> Inl e
                     | Inr _ \<Rightarrow> Inr (cfg\<lparr>cf_owner := uid, cf_tier := Community, cf_visibility := Draft,
                                       cf_fork_of := None\<rparr>, True))
                | None \<Rightarrow> Inr (cfg\<lparr>cf_owner := cl_uid who, cf_tier := Official, cf_visibility := Published,
                                  cf_fork_of := None\<rparr>, True))))"

definition put_pack_config ::
  "('n, 'd) edit_env \<Rightarrow> caller \<Rightarrow> str \<Rightarrow> str option \<Rightarrow> pack_config \<Rightarrow> 'd panel \<Rightarrow>
     (api_error + str \<times> pack_config) \<times> 'd panel" where
  "put_pack_config env who pack_id if_match cfg st =
     (if cf_pack_id cfg \<noteq> pack_id
      then (Inl (BadRequest (''body pack_id '' @ quoted (cf_pack_id cfg) @ '' does not match path '' @ quoted pack_id)), st)
      else case gate st who pack_id Edit of
        Inl e \<Rightarrow> (Inl e, st)
      | Inr _ \<Rightarrow>
          (case duplicate_declaration cfg of
             Some d \<Rightarrow> (Inl (BadRequest (dup_text d)), st)
           | None \<Rightarrow>
               (case settle_config env who pack_id (precondition_of if_match) cfg st of
                  Inl e \<Rightarrow> (Inl e, st)
                | Inr (cfg, fill) \<Rightarrow>
                    (case store_edited_config env pack_id cfg (cl_login who) fill (forget_doc pack_id st) of
                       (Inl e, st) \<Rightarrow> (Inl e, st)
                     | (Inr (cfg, r), st) \<Rightarrow>
                         (Inr (etag r, cfg),
                          audit env who ''pack.config'' (Some pack_id)
                            (Some (show_nat (length (cf_mods cfg)) @ '' mods'')) st)))))"

text \<open>The document of a pack written to its config, when it reads as one and something moved.\<close>

definition materialise :: "('n, 'd) edit_env \<Rightarrow> str \<Rightarrow> str \<Rightarrow> 'd panel \<Rightarrow> 'd panel" where
  "materialise env pack_id by_login st =
     (case map_of (pn_docs st) pack_id of
        None \<Rightarrow> st
      | Some doc \<Rightarrow>
          (case load_pack_config pack_id (pn_fs st) of
             Inl _ \<Rightarrow> st
           | Inr existing \<Rightarrow>
               (case ee_to_config env doc existing of
                  Inl _ \<Rightarrow> st
                | Inr cfg \<Rightarrow>
                    (let cfg = merge_pulled existing cfg in
                     if cfg = existing then st
                     else snd (store_edited_config env pack_id cfg by_login (fill_needed (Some existing) cfg) st)))))"

text \<open>The document an editor joins, seeded from the config on the first ask; and an edit to it, passed on to
  the others and written once nobody has typed since.\<close>

definition get_or_seed :: "('n, 'd) edit_env \<Rightarrow> str \<Rightarrow> pack_config \<Rightarrow> 'd panel \<Rightarrow> (api_error + 'd) \<times> 'd panel" where
  "get_or_seed env pack_id cfg st =
     (case map_of (pn_docs st) pack_id of
        Some doc \<Rightarrow> (Inr doc, st)
      | None \<Rightarrow>
          (case ee_from_config env cfg of
             Inl e \<Rightarrow> (Inl (Internal e), st)
           | Inr doc \<Rightarrow> (Inr doc, st\<lparr>pn_docs := (pack_id, doc) # pn_docs st\<rparr>)))"

definition get_pack_doc :: "('n, 'd) edit_env \<Rightarrow> caller \<Rightarrow> str \<Rightarrow> 'd panel \<Rightarrow> (api_error + str) \<times> 'd panel" where
  "get_pack_doc env who pack_id st =
     (case gate st who pack_id View of
        Inl e \<Rightarrow> (Inl e, st)
      | Inr _ \<Rightarrow>
          (case load_pack_config pack_id (pn_fs st) of
             Inl e \<Rightarrow> (Inl e, st)
           | Inr cfg \<Rightarrow>
               (case get_or_seed env pack_id cfg st of
                  (Inl e, st) \<Rightarrow> (Inl e, st) | (Inr doc, st) \<Rightarrow> (Inr (ee_encode env doc), st))))"

definition touch_doc :: "str \<Rightarrow> 'd panel \<Rightarrow> nat \<times> 'd panel" where
  "touch_doc pack_id st =
     (let n = (case map_of (pn_tickets st) pack_id of Some n \<Rightarrow> n | None \<Rightarrow> 0) + 1
      in (n, st\<lparr>pn_tickets := (pack_id, n) # filter (\<lambda>(p, _). p \<noteq> pack_id) (pn_tickets st)\<rparr>))"

definition post_pack_doc ::
  "('n, 'd) edit_env \<Rightarrow> caller \<Rightarrow> str \<Rightarrow> str \<Rightarrow> 'd panel \<Rightarrow> (api_error + nat) \<times> 'd panel" where
  "post_pack_doc env who pack_id body st =
     (case gate st who pack_id Edit of
        Inl e \<Rightarrow> (Inl e, st)
      | Inr _ \<Rightarrow>
          (case (case map_of (pn_docs st) pack_id of
                   Some doc \<Rightarrow> (Inr doc, st)
                 | None \<Rightarrow>
                     (case load_pack_config pack_id (pn_fs st) of
                        Inl e \<Rightarrow> (Inl e, st) | Inr cfg \<Rightarrow> get_or_seed env pack_id cfg st)) of
             (Inl e, st) \<Rightarrow> (Inl e, st)
           | (Inr doc, st) \<Rightarrow>
               (case ee_apply env doc body of
                  Inl e \<Rightarrow> (Inl (BadRequest e), st)
                | Inr doc \<Rightarrow>
                    (let st = st\<lparr>pn_docs := map (\<lambda>(p, d). (p, if p = pack_id then doc else d)) (pn_docs st)\<rparr>;
                         st = emit (EvDoc pack_id (cl_login who) (ee_base64 env body)) st
                     in case touch_doc pack_id st of (ticket, st) \<Rightarrow> (Inr ticket, st)))))"

definition after_typing :: "('n, 'd) edit_env \<Rightarrow> str \<Rightarrow> nat \<Rightarrow> str \<Rightarrow> 'd panel \<Rightarrow> 'd panel" where
  "after_typing env pack_id ticket by_login st =
     (if map_of (pn_tickets st) pack_id \<noteq> Some ticket then st else materialise env pack_id by_login st)"

section \<open>History\<close>

definition commit_and_tell ::
  "('n, 'd) edit_env \<Rightarrow> str \<Rightarrow> pack_config \<Rightarrow> caller \<Rightarrow> str \<Rightarrow> str list \<Rightarrow> 'd panel \<Rightarrow> (api_error + commit) \<times> 'd panel" where
  "commit_and_tell env pack_id cfg who message contributors st =
     (case make_commit (ee_sha1 env) (ee_json env) cfg (commit_head pack_id (pn_fs st)) (cl_login who) message
             contributors (ee_now env) of
        (commit, snapshot) \<Rightarrow>
          (case save_commit pack_id commit snapshot (pn_fs st) of
             (Inl e, fs) \<Rightarrow> (Inl e, set_fs fs st)
           | (Inr _, fs) \<Rightarrow>
               (Inr commit, emit (EvCommitted pack_id (cm_id commit) (cl_login who) (cm_message commit)) (set_fs fs st))))"

definition checkpoint ::
  "('n, 'd) edit_env \<Rightarrow> str \<Rightarrow> pack_config \<Rightarrow> caller \<Rightarrow> str \<Rightarrow> 'd panel \<Rightarrow> (api_error + commit) \<times> 'd panel" where
  "checkpoint env pack_id cfg who message = commit_and_tell env pack_id cfg who message [cl_login who]"

definition signed_by :: "str \<Rightarrow> str list \<Rightarrow> str list" where
  "signed_by login pending = fold (\<lambda>who cs. if who \<in> set cs then cs else cs @ [who]) pending [login]"

definition create_commit ::
  "('n, 'd) edit_env \<Rightarrow> caller \<Rightarrow> str \<Rightarrow> str \<Rightarrow> 'd panel \<Rightarrow> (api_error + commit) \<times> 'd panel" where
  "create_commit env who pack_id message st =
     (case gate st who pack_id Edit of
        Inl e \<Rightarrow> (Inl e, st)
      | Inr _ \<Rightarrow>
          (let message = trim message in
           if message = []
           then (Inl (BadRequest ''a commit needs a message; an unlabelled checkpoint is one nobody can read later''), st)
           else case load_pack_config pack_id (pn_fs st) of
             Inl e \<Rightarrow> (Inl e, st)
           | Inr cfg \<Rightarrow>
               (case commit_and_tell env pack_id cfg who message
                       (signed_by (cl_login who) (pending_authors pack_id (pn_fs st))) st of
                  (Inl e, st) \<Rightarrow> (Inl e, st)
                | (Inr commit, st) \<Rightarrow> (Inr commit, audit env who ''pack.commit'' (Some pack_id) (Some (cm_id commit)) st))))"

definition named_or :: "str option \<Rightarrow> str \<Rightarrow> str" where
  "named_or message fallback =
     (case opt_filter (\<lambda>m. m \<noteq> []) (map_option trim message) of Some m \<Rightarrow> m | None \<Rightarrow> fallback)"

definition short_commit :: "str \<Rightarrow> str" where
  "short_commit i = take 8 i"

definition restore_commit ::
  "('n, 'd) edit_env \<Rightarrow> caller \<Rightarrow> str \<Rightarrow> str \<Rightarrow> str option \<Rightarrow> 'd panel \<Rightarrow> (api_error + commit) \<times> 'd panel" where
  "restore_commit env who pack_id commit_id message st =
     (case gate st who pack_id Edit of
        Inl e \<Rightarrow> (Inl e, st)
      | Inr _ \<Rightarrow>
          (case load_commit_config pack_id commit_id (pn_fs st) of
             Inl e \<Rightarrow> (Inl e, st)
           | Inr restored \<Rightarrow>
               (case store_edited_config env pack_id restored (cl_login who) False (forget_doc pack_id st) of
                  (Inl e, st) \<Rightarrow> (Inl e, st)
                | (Inr (cfg, _), st) \<Rightarrow>
                    (case checkpoint env pack_id cfg who (named_or message (''restore '' @ short_commit commit_id)) st of
                       (Inl e, st) \<Rightarrow> (Inl e, st)
                     | (Inr commit, st) \<Rightarrow>
                         (Inr commit, audit env who ''pack.commit.restore'' (Some pack_id) (Some commit_id) st)))))"

text \<open>A config read back from a published build (\<open>reconstruct.rs\<close>). What percent-decoding yields is a parameter.\<close>

fun after_marker :: "str \<Rightarrow> str \<Rightarrow> str option" where
  "after_marker marker [] = (if marker = [] then Some [] else None)"
| "after_marker marker (c # s) =
     (case strip_prefix marker (c # s) of Some r \<Rightarrow> Some r | None \<Rightarrow> after_marker marker s)"

fun until_marker :: "str \<Rightarrow> str \<Rightarrow> str" where
  "until_marker marker [] = []"
| "until_marker marker (c # s) = (if starts_with (c # s) marker then [] else c # until_marker marker s)"

definition rel_from_static_url :: "(str \<Rightarrow> str) \<Rightarrow> str \<Rightarrow> str" where
  "rel_from_static_url decode url =
     (let tail = (case after_marker ''/static/'' url of Some r \<Rightarrow> until_marker ''/static/'' r | None \<Rightarrow> url)
      in join ''/'' (map decode (split_on CHR ''/'' tail)))"

definition source_decl_of :: "(str \<Rightarrow> str) \<Rightarrow> source \<Rightarrow> str \<Rightarrow> source_decl" where
  "source_decl_of decode source sha1 = (case source of
     SModrinth p v \<Rightarrow> Modrinth p v | SSmrtCache _ \<Rightarrow> SmrtCache sha1 | SSmrtStatic url \<Rightarrow> SmrtStatic (rel_from_static_url decode url))"

definition reconstruct_mod :: "(str \<Rightarrow> str) \<Rightarrow> mod_entry \<Rightarrow> declared_mod" where
  "reconstruct_mod decode m = \<lparr>dm_filename = me_filename m, dm_default_enabled = me_default_enabled m,
     dm_source = source_decl_of decode (me_source m) (me_sha1 m), dm_display = me_display m,
     dm_slug = me_slug m, dm_pulled = False\<rparr>"

definition reconstruct_asset :: "(str \<Rightarrow> str) \<Rightarrow> asset_entry \<Rightarrow> declared_asset" where
  "reconstruct_asset decode a = \<lparr>da_dest = ae_dest a, da_required = ae_required a,
     da_source = source_decl_of decode (ae_source a) (ae_sha1 a), da_display = ae_display a\<rparr>"

definition reconstruct_config :: "(str \<Rightarrow> str) \<Rightarrow> pack_manifest \<Rightarrow> pack_summary \<Rightarrow> pack_config" where
  "reconstruct_config decode m s = \<lparr>
     cf_pack_id = ps_pack_id s, cf_display_name = ps_display_name s, cf_tagline = ps_tagline s,
     cf_minecraft_version = pm_minecraft m, cf_loader = pm_loader m, cf_java_major = pm_java_major m,
     cf_version = None, cf_tags = ps_tags s, cf_featured = ps_featured s,
     cf_mods = map (reconstruct_mod decode) (pm_mods m), cf_assets = map (reconstruct_asset decode) (pm_assets m),
     cf_auth = pm_auth m,
     cf_pack_meta = \<lparr>mt_icon_url = ps_icon_url s, mt_banner_url = ps_banner_url s,
       mt_gallery_urls = ps_gallery_urls s, mt_description_md = ps_description_md s\<rparr>,
     cf_owner = ps_owner s, cf_tier = ps_tier s, cf_visibility = ps_visibility s, cf_fork_of = ps_fork_of s\<rparr>"

definition revert_pack_config ::
  "('n, 'd) edit_env \<Rightarrow> caller \<Rightarrow> str \<Rightarrow> str \<Rightarrow> 'd panel \<Rightarrow> (api_error + str \<times> pack_config) \<times> 'd panel" where
  "revert_pack_config env who pack_id version st =
     (case gate st who pack_id Edit of
        Inl e \<Rightarrow> (Inl e, st)
      | Inr _ \<Rightarrow>
          (case load_manifest_version pack_id version (pn_fs st) of
             Inl e \<Rightarrow> (Inl e, st)
           | Inr manifest \<Rightarrow>
               (case load_pack_summary pack_id (pn_fs st) of
                  Inl e \<Rightarrow> (Inl e, st)
                | Inr summary \<Rightarrow>
                    (let cfg = reconstruct_config (ee_percent_decode env) manifest summary in
                     case store_edited_config env pack_id cfg (cl_login who) False (forget_doc pack_id st) of
                       (Inl e, st) \<Rightarrow> (Inl e, st)
                     | (Inr (cfg, r), st) \<Rightarrow>
                         (let st = audit env who ''pack.revert'' (Some pack_id) (Some version) st in
                          case checkpoint env pack_id cfg who (''revert to '' @ version) st of
                            (Inl e, st) \<Rightarrow> (Inl e, st)
                          | (Inr _, st) \<Rightarrow> (Inr (etag r, cfg), st))))))"

section \<open>Reading the history\<close>

record commit_log_entry =
  le_commit :: commit
  le_builds :: "str list"

definition default_log_page :: nat where
  "default_log_page = 100"

definition log_entry :: "builds_by_commit \<Rightarrow> commit \<Rightarrow> commit_log_entry" where
  "log_entry built c = \<lparr>le_commit = c, le_builds = (case map_of built (cm_id c) of Some bs \<Rightarrow> bs | None \<Rightarrow> [])\<rparr>"

definition list_commits ::
  "(str \<Rightarrow> str) \<Rightarrow> (str \<Rightarrow> str option) \<Rightarrow> caller \<Rightarrow> str \<Rightarrow> page_query \<Rightarrow> 'd panel \<Rightarrow>
     (api_error + commit_log_entry list \<times> str option) \<times> 'd panel" where
  "list_commits b64 unb64 who pack_id page st =
     (case gate st who pack_id View of
        Inl e \<Rightarrow> (Inl e, st)
      | Inr _ \<Rightarrow>
          (let after = Option.bind (page_cursor unb64 page) (\<lambda>parts. case parts of [] \<Rightarrow> None | p # _ \<Rightarrow> Some p);
               log = commit_log pack_id after (case probe page of Some n \<Rightarrow> n | None \<Rightarrow> default_log_page) (pn_fs st)
           in case builds_by_commit_of pack_id (pn_store st) of
                (built, store) \<Rightarrow>
                  (Inr (split_page b64 page (map (log_entry built) log) (\<lambda>r. [cm_id (le_commit r)])),
                   st\<lparr>pn_store := store\<rparr>)))"

record commit_status =
  cs_head :: "commit option"
  cs_uncommitted :: nat
  cs_changes :: "config_change list"
  cs_pending_authors :: "str list"

definition commit_status_of ::
  "('n, 'd) edit_env \<Rightarrow> caller \<Rightarrow> str \<Rightarrow> 'd panel \<Rightarrow> api_error + commit_status" where
  "commit_status_of env who pack_id st =
     (case gate st who pack_id View of
        Inl e \<Rightarrow> Inl e
      | Inr _ \<Rightarrow>
          (case load_pack_config pack_id (pn_fs st) of
             Inl e \<Rightarrow> Inl e
           | Inr live \<Rightarrow>
               (let fs = pn_fs st;
                    head_id = commit_head pack_id fs;
                    head = Option.bind head_id (\<lambda>i. case load_commit pack_id i fs of Inl _ \<Rightarrow> None | Inr c \<Rightarrow> Some c);
                    changes = (case head_id of
                        None \<Rightarrow> []
                      | Some i \<Rightarrow>
                          (if (case head of Some c \<Rightarrow> rev_of env live = cm_config_rev c | None \<Rightarrow> False) then []
                           else (case load_commit_config pack_id i fs of
                               Inr snapshot \<Rightarrow> diff_configs snapshot live
                             | Inl _ \<Rightarrow> [whole_config])))
                in Inr \<lparr>cs_head = head, cs_uncommitted = (if head_id = None then 1 else length changes),
                        cs_changes = changes, cs_pending_authors = pending_authors pack_id fs\<rparr>)))"

definition get_commit :: "caller \<Rightarrow> str \<Rightarrow> str \<Rightarrow> 'd panel \<Rightarrow> (api_error + commit_log_entry) \<times> 'd panel" where
  "get_commit who pack_id commit_id st =
     (case gate st who pack_id View of
        Inl e \<Rightarrow> (Inl e, st)
      | Inr _ \<Rightarrow>
          (case load_commit pack_id commit_id (pn_fs st) of
             Inl e \<Rightarrow> (Inl e, st)
           | Inr c \<Rightarrow> (case builds_by_commit_of pack_id (pn_store st) of
               (built, store) \<Rightarrow> (Inr (log_entry built c), st\<lparr>pn_store := store\<rparr>))))"

definition get_commit_config :: "caller \<Rightarrow> str \<Rightarrow> str \<Rightarrow> 'd panel \<Rightarrow> api_error + pack_config" where
  "get_commit_config who pack_id commit_id st =
     (case gate st who pack_id View of
        Inl e \<Rightarrow> Inl e | Inr _ \<Rightarrow> load_commit_config pack_id commit_id (pn_fs st))"

record commit_diff =
  cd_from :: "str option"
  cd_to :: str
  cd_changes :: "config_change list"

text \<open>The left side: the working config, a commit, the parent, or nothing.\<close>

definition diff_base :: "str \<Rightarrow> commit \<Rightarrow> str option \<Rightarrow> fs \<Rightarrow> api_error + (str \<times> pack_config) option" where
  "diff_base pack_id c against fs =
     (let named = (\<lambda>name r. case r of Inl e \<Rightarrow> Inl e | Inr cfg \<Rightarrow> Inr (Some (name, cfg))) in
      case against of
        Some other \<Rightarrow>
          if other = ''live'' then named other (load_pack_config pack_id fs)
          else named other (load_commit_config pack_id other fs)
      | None \<Rightarrow>
          (case cm_parent c of
             Some parent \<Rightarrow> named parent (load_commit_config pack_id parent fs)
           | None \<Rightarrow> Inr None))"

definition commit_diff_of ::
  "caller \<Rightarrow> str \<Rightarrow> str \<Rightarrow> str option \<Rightarrow> 'd panel \<Rightarrow> api_error + commit_diff" where
  "commit_diff_of who pack_id commit_id against st =
     (case gate st who pack_id View of
        Inl e \<Rightarrow> Inl e
      | Inr _ \<Rightarrow>
          (case load_commit_config pack_id commit_id (pn_fs st) of
             Inl e \<Rightarrow> Inl e
           | Inr target \<Rightarrow>
               (case load_commit pack_id commit_id (pn_fs st) of
                  Inl e \<Rightarrow> Inl e
                | Inr c \<Rightarrow>
                    (case diff_base pack_id c against (pn_fs st) of
                       Inl e \<Rightarrow> Inl e
                     | Inr base \<Rightarrow>
                         Inr \<lparr>cd_from = map_option fst base, cd_to = commit_id,
                              cd_changes = (case base of Some (_, b) \<Rightarrow> diff_configs b target
                                            | None \<Rightarrow> initial target)\<rparr>))))"

section \<open>The pack as a whole\<close>

definition duplicate_pack_as ::
  "caller \<Rightarrow> str \<Rightarrow> str \<Rightarrow> loader_spec option \<Rightarrow> 'd panel \<Rightarrow> (api_error + pack_config) \<times> 'd panel" where
  "duplicate_pack_as who pack_id target_id loader st =
     (case gate st who pack_id View of
        Inl e \<Rightarrow> (Inl e, st)
      | Inr _ \<Rightarrow>
          (case gate st who target_id Edit of
             Inl e \<Rightarrow> (Inl e, st)
           | Inr _ \<Rightarrow>
               (let owner = (case pack_namespace_uid target_id of Some uid \<Rightarrow> uid | None \<Rightarrow> cl_uid who)
                in case duplicate_pack pack_id target_id loader owner None (pn_fs st) of
                     (Inl e, fs) \<Rightarrow> (Inl e, set_fs fs st)
                   | (Inr cfg, fs) \<Rightarrow> (Inr cfg, emit (EvPack target_id ''created'') (set_fs fs st)))))"

text \<open>The id can be minted again: what was granted, blocked and said under it goes with the pack.\<close>

definition delete_pack_as ::
  "('n, 'd) edit_env \<Rightarrow> caller \<Rightarrow> str \<Rightarrow> 'd panel \<Rightarrow> (api_error + unit) \<times> 'd panel" where
  "delete_pack_as env who pack_id st =
     (case gate st who pack_id Own of
        Inl e \<Rightarrow> (Inl e, st)
      | Inr _ \<Rightarrow>
          (case delete_pack pack_id (pn_fs st) of
             (Inl e, fs) \<Rightarrow> (Inl e, set_fs fs st)
           | (Inr _, fs) \<Rightarrow>
               (let st = set_fs fs st;
                    st = st\<lparr>pn_acc := forget_pack_threads pack_id (forget_pack_blocks pack_id
                              (forget_pack_access pack_id (pn_acc st)))\<rparr>
                in (Inr (), audit env who ''pack.delete'' (Some pack_id) None (emit (EvPack pack_id ''deleted'') st)))))"

definition visibility_name :: "visibility \<Rightarrow> str" where
  "visibility_name v = (case v of Draft \<Rightarrow> ''Draft'' | Unlisted \<Rightarrow> ''Unlisted'' | Published \<Rightarrow> ''Published'')"

definition set_pack_visibility_as ::
  "('n, 'd) edit_env \<Rightarrow> caller \<Rightarrow> str \<Rightarrow> visibility \<Rightarrow> 'd panel \<Rightarrow> (api_error + unit) \<times> 'd panel" where
  "set_pack_visibility_as env who pack_id v st =
     (case gate st who pack_id Own of
        Inl e \<Rightarrow> (Inl e, st)
      | Inr _ \<Rightarrow>
          (case set_pack_visibility pack_id v (pn_fs st) of
             (Inl e, fs) \<Rightarrow> (Inl e, set_fs fs st)
           | (Inr _, fs) \<Rightarrow>
               (Inr (), audit env who ''pack.visibility'' (Some pack_id) (Some (visibility_name v))
                  (emit (EvPack pack_id ''visibility'') (set_fs fs st)))))"


section \<open>What a save leaves on disk\<close>

lemma config_off_commits: "\<not> prefix (commits_dir p) (authoring_path p ''config.json'')"
  by (auto simp: commits_dir_def authoring_path_def prefix_def)

lemma config_file:
  "file_at fs (authoring_path p ''config.json'') = Some (CConfig cfg) \<Longrightarrow> is_safe_id p \<Longrightarrow> load_pack_config p fs = Inr cfg"
  by (auto simp: load_pack_config_def fs_read_def file_at_def split: option.splits node.splits)

lemma saved_config_reads:
  assumes "save_pack_config p cfg fs = (Inr u, fs1)" "note_pending_author p who fs1 = (r, fs2)"
  shows "load_pack_config p fs2 = Inr cfg" "file_at fs2 (authoring_path p ''config.json'') = Some (CConfig cfg)"
proof -
  have safe: "is_safe_id p" and w: "atomic_write (authoring_path p ''config.json'') (CConfig cfg) fs = (Inr u, fs1)"
    using assms(1) by (auto simp: save_pack_config_def bad_request_def split: if_splits)
  have "touches (\<lambda>q. q = commits_dir p \<or> q = pending_file p) fs1 fs2"
    using assms(2)
    by (auto simp: note_pending_author_def Let_def intro: t_refl touches_mkdir touches_write touches_trans
        split: if_splits prod.splits sum.splits)
  then have "file_at fs2 (authoring_path p ''config.json'') = file_at fs1 (authoring_path p ''config.json'')"
    by (rule touches_file) (auto simp: commits_dir_def authoring_path_def prefix_def)
  also have "\<dots> = Some (CConfig cfg)" using atomic_write_ok(1) [OF w] by simp
  finally show at: "file_at fs2 (authoring_path p ''config.json'') = Some (CConfig cfg)" .
  then show "load_pack_config p fs2 = Inr cfg" using safe by (rule config_file)
qed

lemma config_keeps_commits:
  assumes "save_pack_config p cfg fs = (r, fs1)"
  shows "map_of fs1 (commits_dir p @ [name]) = map_of fs (commits_dir p @ [name])"
proof -
  have "subtree (commits_dir p) fs1 = subtree (commits_dir p) fs"
    using assms subtree_atomic_write [OF config_off_commits, of p "CConfig cfg" fs]
    by (auto simp: save_pack_config_def split: if_splits)
  moreover have "map_of (subtree (commits_dir p) f) (commits_dir p @ [name]) = map_of f (commits_dir p @ [name])" for f
    by (simp add: subtree_def map_of_keep)
  ultimately show ?thesis by metis
qed

lemma stored_history:
  assumes "history p fs" "save_pack_config p cfg fs = (r, fs1)" "note_pending_author p who fs1 = (r', fs2)"
  shows "history p fs2" "commit_head p fs2 = commit_head p fs" "load_commit p i fs2 = load_commit p i fs"
    "load_commit_config p i fs2 = load_commit_config p i fs"
proof -
  have same: "map_of fs1 (commits_dir p @ [name]) = map_of fs (commits_dir p @ [name])" for name
    by (rule config_keeps_commits [OF assms(2)])
  then have "\<forall>name. map_of fs1 (commits_dir p @ [name]) = map_of fs (commits_dir p @ [name])" by blast
  with assms(1) have h1: "history p fs1" by (rule history_elsewhere)
  then show h2: "history p fs2" using assms(3) by (rule history_note)
  note n = history_linked [OF assms(1)] history_linked [OF h1] history_linked [OF h2]
  have "files_in (commits_dir p) fs1 = files_in (commits_dir p) fs"
    by (rule ext) (simp add: files_in_def file_at_def same)
  moreover from note_pending_updates [OF assms(3)] n(2)
  have "files_in (commits_dir p) fs2 x = files_in (commits_dir p) fs1 x" if "x \<noteq> ''pending.json''" for x
    using that by (auto simp: fun_upd_apply)
  ultimately have files: "files_in (commits_dir p) fs2 x = files_in (commits_dir p) fs x" if "x \<noteq> ''pending.json''" for x
    using that by simp
  show "commit_head p fs2 = commit_head p fs"
    using n files [of "''HEAD''"] by (simp add: commit_head_def read_no_links)
  show "load_commit p i fs2 = load_commit p i fs"
  proof (cases "is_commit_id i")
    case True
    then have "i @ ''.json'' \<noteq> ''pending.json''" by (auto simp: is_commit_id_def dest: arg_cong [of _ _ length])
    from files [OF this] n show ?thesis by (simp add: load_commit_def read_no_links)
  qed (simp add: load_commit_def)
  show "load_commit_config p i fs2 = load_commit_config p i fs"
  proof (cases "is_commit_id i")
    case True
    then have "i @ ''.snapshot.json'' \<noteq> ''pending.json''" by (auto simp: is_commit_id_def dest: arg_cong [of _ _ length])
    from files [OF this] n show ?thesis by (simp add: load_commit_config_def read_no_links)
  qed (simp add: load_commit_config_def)
qed

lemma fill_mods_only: "\<exists>ms. fst (fill_dependencies up rg cached net cfg) = cfg\<lparr>cf_mods := ms\<rparr>"
proof -
  let ?st = "\<lparr>fl_resolver = \<lparr>rs_memo = [], rs_net = net, rs_fell_back = []\<rparr>, fl_read = []\<rparr>"
  obtain cfg1 n st1 where f: "fill_passes max_passes up rg cached cfg 0 ?st = (cfg1, n, st1)"
    by (metis prod.exhaust)
  obtain plan st2 where p: "full_plan up rg cfg1 st1 = (plan, st2)" by (cases "full_plan up rg cfg1 st1")
  from fill_passes_extends [of rg cached cfg max_passes up 0 ?st] f
  obtain ds where "cfg1 = cfg\<lparr>cf_mods := cf_mods cfg @ ds\<rparr>" by (auto simp: extends_def)
  moreover have "fst (fill_dependencies up rg cached net cfg) =
      prune_orphaned_pulled (apply_requires cfg1 (fp_requires plan))"
    by (simp add: fill_dependencies_def Let_def f p)
  moreover have "\<exists>ms. prune_orphaned_pulled c = c\<lparr>cf_mods := ms\<rparr>" "\<exists>ms. apply_requires c rs = c\<lparr>cf_mods := ms\<rparr>" for c rs
    by (auto simp: prune_orphaned_pulled_def apply_requires_def Let_def)
  then obtain ms1 ms2 where "prune_orphaned_pulled (apply_requires cfg1 (fp_requires plan)) =
      (apply_requires cfg1 (fp_requires plan))\<lparr>cf_mods := ms1\<rparr>"
    "apply_requires cfg1 (fp_requires plan) = cfg1\<lparr>cf_mods := ms2\<rparr>" by blast
  ultimately have "fst (fill_dependencies up rg cached net cfg) = cfg\<lparr>cf_mods := ms1\<rparr>" by simp
  then show ?thesis by blast
qed

lemma merge_mods_only: "\<exists>ms. merge_pulled saved cfg = cfg\<lparr>cf_mods := ms\<rparr>"
  by (auto simp: merge_pulled_def Let_def)

lemma set_fs_simps [simp]: "pn_fs (set_fs fs st) = fs" "pn_acc (set_fs fs st) = pn_acc st"
  "pn_docs (set_fs fs st) = pn_docs st"
  by (simp_all add: set_fs_def)

lemma emit_simps [simp]: "pn_store (emit e st) = pn_store st" "pn_acc (emit e st) = pn_acc st"
  "pn_docs (emit e st) = pn_docs st"
  by (simp_all add: emit_def)

lemma forget_doc_simps [simp]: "pn_store (forget_doc p st) = pn_store st" "pn_acc (forget_doc p st) = pn_acc st"
  by (simp_all add: forget_doc_def)

lemma audit_simps [simp]: "pn_store (audit env who a t d st) = pn_store st" "pn_docs (audit env who a t d st) = pn_docs st"
  by (simp_all add: audit_def)

lemma stored_edit:
  assumes "store_edited_config env p cfg by_login fill st = (Inr (cfg', r), st')"
  shows "\<exists>ms. cfg' = cfg\<lparr>cf_mods := ms\<rparr>" "\<not> fill \<Longrightarrow> cfg' = cfg" "r = rev_of env cfg'"
    "load_pack_config p (pn_fs st') = Inr cfg'" "pn_acc st' = pn_acc st" "is_safe_id p"
    "file_at (pn_fs st') (authoring_path p ''config.json'') = Some (CConfig cfg')"
    "history p (pn_fs st) \<Longrightarrow> history p (pn_fs st')"
    "history p (pn_fs st) \<Longrightarrow> commit_head p (pn_fs st') = commit_head p (pn_fs st)"
    "history p (pn_fs st) \<Longrightarrow> load_commit p i (pn_fs st') = load_commit p i (pn_fs st)"
proof -
  let ?cached = "case list_cache_inventory (ee_size env) (pn_fs st) of Inl _ \<Rightarrow> [] | Inr es \<Rightarrow> map iv_sha1 es"
  let ?filled = "if fill then fst (fill_dependencies (ee_upstream env) (ee_registry env) ?cached (ee_net env) cfg) else cfg"
  obtain fs1 where s: "save_pack_config p ?filled (pn_fs st) = (Inr (), fs1)"
    and c: "cfg' = ?filled" "r = rev_of env ?filled"
      "st' = emit (EvSaved p r by_login) (set_fs (snd (note_pending_author p by_login fs1)) st)"
    using assms by (auto simp: store_edited_config_def Let_def split: prod.splits sum.splits)
  obtain r2 fs2 where n: "note_pending_author p by_login fs1 = (r2, fs2)" by fastforce
  have fs: "pn_fs st' = fs2" "pn_acc st' = pn_acc st" using c n by simp_all
  show "\<exists>ms. cfg' = cfg\<lparr>cf_mods := ms\<rparr>"
    using fill_mods_only [of "ee_upstream env" "ee_registry env" ?cached "ee_net env" cfg] c(1)
    by (cases fill) (auto intro: exI [of _ "cf_mods cfg"])
  show "\<not> fill \<Longrightarrow> cfg' = cfg" "r = rev_of env cfg'" "pn_acc st' = pn_acc st" using c fs by auto
  show "load_pack_config p (pn_fs st') = Inr cfg'" "file_at (pn_fs st') (authoring_path p ''config.json'') = Some (CConfig cfg')"
    using saved_config_reads [OF s n] c fs by simp_all
  then show "is_safe_id p" by (auto simp: load_pack_config_def split: if_splits)
  show "history p (pn_fs st) \<Longrightarrow> history p (pn_fs st')"
    "history p (pn_fs st) \<Longrightarrow> commit_head p (pn_fs st') = commit_head p (pn_fs st)"
    "history p (pn_fs st) \<Longrightarrow> load_commit p i (pn_fs st') = load_commit p i (pn_fs st)"
    using stored_history [OF _ s n] fs by simp_all
qed


section \<open>What an edit may change\<close>

lemma put_inv:
  assumes "put_pack_config env who p if_match cfg st = (Inr (tag, cfg'), st')"
  obtains body fill r st1 where "cf_pack_id cfg = p" "gate st who p Edit = Inr ()" "duplicate_declaration cfg = None"
    "settle_config env who p (precondition_of if_match) cfg st = Inr (body, fill)"
    "store_edited_config env p body (cl_login who) fill (forget_doc p st) = (Inr (cfg', r), st1)"
    "tag = etag r" "st' = audit env who ''pack.config'' (Some p) (Some (show_nat (length (cf_mods cfg')) @ '' mods'')) st1"
  using assms
  by (auto simp: put_pack_config_def split: if_splits sum.splits option.splits prod.splits)

lemma settled_fields:
  assumes "settle_config env who p pre cfg st = Inr (body, fill)"
  shows "(\<exists>ms o' t v f. body = cfg\<lparr>cf_mods := ms, cf_owner := o', cf_tier := t, cf_visibility := v, cf_fork_of := f\<rparr>) \<and>
    (case load_pack_config p (pn_fs st) of
       Inr existing \<Rightarrow> check_precondition pre (Some (rev_of env existing)) p = Inr () \<and>
         cf_owner body = cf_owner existing \<and> cf_tier body = cf_tier existing \<and>
         cf_visibility body = cf_visibility existing \<and> cf_fork_of body = cf_fork_of existing
     | Inl _ \<Rightarrow> pre = None \<and> cf_fork_of body = None \<and>
         (case pack_namespace_uid p of
            Some uid \<Rightarrow> terms_accepted (cl_uid who) (pn_acc st) \<and> cf_owner body = uid \<and>
              cf_tier body = Community \<and> cf_visibility body = Draft
          | None \<Rightarrow> cf_owner body = cl_uid who \<and> cf_tier body = Official \<and> cf_visibility body = Published))"
proof (cases "load_pack_config p (pn_fs st)")
  case (Inl e)
  have pre: "check_precondition pre None p = Inr () \<Longrightarrow> pre = None"
    by (cases pre; cases "the pre") (simp_all add: check_precondition_def)
  have "\<exists>ms o' t v f. cfg\<lparr>cf_owner := a, cf_tier := b, cf_visibility := c, cf_fork_of := d\<rparr> =
      cfg\<lparr>cf_mods := ms, cf_owner := o', cf_tier := t, cf_visibility := v, cf_fork_of := f\<rparr>" for a b c d
    by (rule exI [of _ "cf_mods cfg"], rule exI [of _ a], rule exI [of _ b], rule exI [of _ c], rule exI [of _ d]) simp
  then show ?thesis
    using assms Inl pre
    by (auto simp: settle_config_def require_terms_def split: sum.splits option.splits if_splits)
next
  case (Inr existing)
  let ?c = "cfg\<lparr>cf_owner := cf_owner existing, cf_tier := cf_tier existing,
      cf_visibility := cf_visibility existing, cf_fork_of := cf_fork_of existing\<rparr>"
  obtain ms where ms: "merge_pulled existing ?c = ?c\<lparr>cf_mods := ms\<rparr>" using merge_mods_only by blast
  from assms Inr have "check_precondition pre (Some (rev_of env existing)) p = Inr ()" "body = ?c\<lparr>cf_mods := ms\<rparr>"
    by (auto simp: settle_config_def Let_def ms split: sum.splits)
  then show ?thesis using Inr by (auto intro!: exI [of _ ms] exI [of _ "cf_owner existing"] exI [of _ "cf_tier existing"]
      exI [of _ "cf_visibility existing"] exI [of _ "cf_fork_of existing"])
qed

text \<open>C26: 
  A save that goes through was allowed to edit the pack, and stores the body that was sent but for the rows
  the dependency fill manages and what the server owns: owner, tier, visibility and origin stay those of
  the stored config, and on a first save follow from the id alone, so that nobody publishes, promotes or
  takes over a pack by saving it. The answer carries the revision of what is now stored.
\<close>

theorem save_keeps_server_fields:
  assumes "put_pack_config env who p if_match cfg st = (Inr (tag, cfg'), st')"
  shows "gate st who p Edit = Inr () \<and> load_pack_config p (pn_fs st') = Inr cfg' \<and> tag = etag (rev_of env cfg') \<and>
    (\<exists>ms o' t v f. cfg' = cfg\<lparr>cf_mods := ms, cf_owner := o', cf_tier := t, cf_visibility := v, cf_fork_of := f\<rparr>) \<and>
    (case load_pack_config p (pn_fs st) of
       Inr existing \<Rightarrow> cf_owner cfg' = cf_owner existing \<and> cf_tier cfg' = cf_tier existing \<and>
         cf_visibility cfg' = cf_visibility existing \<and> cf_fork_of cfg' = cf_fork_of existing
     | Inl _ \<Rightarrow> cf_fork_of cfg' = None \<and>
         (case pack_namespace_uid p of
            Some uid \<Rightarrow> terms_accepted (cl_uid who) (pn_acc st) \<and> cf_owner cfg' = uid \<and>
              cf_tier cfg' = Community \<and> cf_visibility cfg' = Draft
          | None \<Rightarrow> cf_owner cfg' = cl_uid who \<and> cf_tier cfg' = Official \<and> cf_visibility cfg' = Published))"
  using assms
proof (cases rule: put_inv)
  case (1 body fill r st1)
  note stored = stored_edit [OF 1(5)]
  obtain ms where ms: "cfg' = body\<lparr>cf_mods := ms\<rparr>" using stored(1) by blast
  obtain ms' o' t v f where s: "body = cfg\<lparr>cf_mods := ms', cf_owner := o', cf_tier := t, cf_visibility := v, cf_fork_of := f\<rparr>"
    using settled_fields [OF 1(4)] by blast
  have shape: "\<exists>ms o' t v f. cfg' = cfg\<lparr>cf_mods := ms, cf_owner := o', cf_tier := t, cf_visibility := v, cf_fork_of := f\<rparr>"
    unfolding ms s by (intro exI [of _ ms] exI [of _ o'] exI [of _ t] exI [of _ v] exI [of _ f]) simp
  have fields: "cf_owner cfg' = cf_owner body" "cf_tier cfg' = cf_tier body"
    "cf_visibility cfg' = cf_visibility body" "cf_fork_of cfg' = cf_fork_of body" by (simp_all add: ms)
  have "load_pack_config p (pn_fs st') = Inr cfg'" "tag = etag (rev_of env cfg')"
    using stored(3,4) 1(6,7) by simp_all
  then show ?thesis
    using 1(2) shape settled_fields [OF 1(4)] unfolding fields by (auto split: sum.split option.split)
qed

lemma etag_condition:
  assumes "r \<noteq> []" "CHR 0x22 \<notin> set r"
  shows "precondition_of (Some (etag r)) = Some (Rev r)"
proof -
  have t: "trim (etag r) = etag r" by (simp add: trim_def etag_def is_space_def)
  have "dropWhile (\<lambda>c. c = CHR 0x22) (r @ [CHR 0x22]) = r @ [CHR 0x22]" using assms by (cases r) auto
  moreover have "dropWhile (\<lambda>c. c = CHR 0x22) (rev r) = rev r"
    using assms by (cases r rule: rev_cases) auto
  ultimately have "trim_quotes (etag r) = r" by (simp add: trim_quotes_def etag_def)
  moreover have "strip_prefix ''W/'' (etag r) = None" "etag r \<noteq> ''*''"
    by (simp_all add: etag_def strip_prefix_def starts_with_def)
  ultimately show ?thesis using assms(1) by (simp add: precondition_of_def t Let_def)
qed

text \<open>C25: 
  Of two saves that began from the same revision the second is refused: once the first has moved the
  authored content, a save that names the old revision changes nothing, whoever sends it; and where the
  caller may edit and the body is well formed, it is told that somebody saved in between.
\<close>

theorem lost_update_refused:
  assumes "put_pack_config env who1 p if_match cfg1 st = (Inr (tag1, cfg1'), st1)"
    and "rev_of env cfg1' \<noteq> r" "r \<noteq> []" "CHR 0x22 \<notin> set r"
  shows "\<exists>e. put_pack_config env who2 p (Some (etag r)) cfg2 st1 = (Inl e, st1) \<and>
    (cf_pack_id cfg2 \<noteq> p \<or> gate st1 who2 p Edit \<noteq> Inr () \<or> duplicate_declaration cfg2 \<noteq> None \<or>
     e = Conflict (saved_by_someone_else p r (rev_of env cfg1')))"
proof -
  have "load_pack_config p (pn_fs st1) = Inr cfg1'"
    using assms(1) by (cases rule: put_inv) (use stored_edit(4) in auto)
  then have "settle_config env who2 p (precondition_of (Some (etag r))) cfg2 st1 =
      Inl (Conflict (saved_by_someone_else p r (rev_of env cfg1')))"
    using assms(2-4) by (simp add: settle_config_def etag_condition check_precondition_def)
  then show ?thesis by (auto simp: put_pack_config_def split: sum.splits option.splits)
qed

text \<open>No condition is read from an empty tag.\<close>

lemma blank_if_match_is_no_condition: "precondition_of (Some (etag [])) = None"
  by (simp add: precondition_of_def etag_def trim_def is_space_def strip_prefix_def starts_with_def trim_quotes_def)


section \<open>History moves forward only\<close>

lemma told_commit:
  assumes "commit_and_tell env p cfg who message cs st = (Inr c, st')"
  shows "save_commit p c cfg (pn_fs st) = (Inr (), pn_fs st')" "cm_parent c = commit_head p (pn_fs st)"
    "cm_contributors c = cs" "cm_author c = cl_login who" "cm_message c = message"
    "cm_config_rev c = rev_of env cfg" "pn_acc st' = pn_acc st"
  using assms
  by (auto simp: commit_and_tell_def make_commit_def rev_of_def split: prod.splits sum.splits)

lemma committed_reads:
  assumes h: "history p (pn_fs st)" and c: "commit_and_tell env p cfg who message cs st = (Inr c, st')"
    and live: "file_at (pn_fs st) (authoring_path p ''config.json'') = Some (CConfig cfg)"
  shows "load_pack_config p (pn_fs st') = Inr cfg" "commit_head p (pn_fs st') = Some (cm_id c)"
    "load_commit p (cm_id c) (pn_fs st') = Inr c" "load_commit_config p (cm_id c) (pn_fs st') = Inr cfg"
    "pending_authors p (pn_fs st') = []"
proof -
  note s = told_commit(1) [OF c]
  note f = saved_files [OF h s]
  show "commit_head p (pn_fs st') = Some (cm_id c)" "load_commit p (cm_id c) (pn_fs st') = Inr c"
    "load_commit_config p (cm_id c) (pn_fs st') = Inr cfg" "pending_authors p (pn_fs st') = []"
    using f by (simp_all add: commit_head_def pending_authors_def load_commit_files load_config_files
        read_no_links commit_id_trim Let_def)
  have "run_effects (save_commit_effects p c cfg) (pn_fs st) = (Inr (), pn_fs st')"
    using s f(2,3) by (simp add: save_commit_def)
  then have t: "touches (\<lambda>q. prefix (commits_dir p) q) (pn_fs st) (pn_fs st')"
    by (rule touches_effects) (auto simp: save_commit_effects_def intro: touches_mkdir touches_write touches_remove_quiet)
  have off: "\<And>q. prefix (commits_dir p) q \<Longrightarrow> \<not> prefix q (authoring_path p ''config.json'')"
    using config_off_commits prefix_order.trans by blast
  have "file_at (pn_fs st') (authoring_path p ''config.json'') = file_at (pn_fs st) (authoring_path p ''config.json'')"
    by (rule touches_file [OF t off])
  with live f(2) show "load_pack_config p (pn_fs st') = Inr cfg" by (intro config_file) simp_all
qed

lemma clean_status:
  assumes "load_pack_config p fs = Inr cfg" "commit_head p fs = Some i" "load_commit p i fs = Inr c"
    and "cm_config_rev c = rev_of env cfg" "pending_authors p fs = []" "pn_fs st = fs"
  shows "commit_status_of env who p st = (case gate st who p View of Inl e \<Rightarrow> Inl e
    | Inr _ \<Rightarrow> Inr \<lparr>cs_head = Some c, cs_uncommitted = 0, cs_changes = [], cs_pending_authors = []\<rparr>)"
  using assms by (simp add: commit_status_of_def Let_def split: sum.split)

lemma signed_by_set: "set (signed_by login pending) = insert login (set pending)"
  and signed_by_distinct: "distinct (signed_by login pending)"
  and signed_by_first: "hd (signed_by login pending) = login"
proof -
  let ?add = "\<lambda>who cs. if who \<in> set cs then cs else cs @ [who]"
  have "set (fold ?add pending cs) = set cs \<union> set pending \<and> (distinct cs \<longrightarrow> distinct (fold ?add pending cs)) \<and>
      (cs \<noteq> [] \<longrightarrow> hd (fold ?add pending cs) = hd cs)" for cs
    by (induction pending arbitrary: cs) auto
  from this [of "[login]"] show "set (signed_by login pending) = insert login (set pending)"
    "distinct (signed_by login pending)" "hd (signed_by login pending) = login"
    by (auto simp: signed_by_def)
qed

text \<open>C27: 
  A checkpoint names its signer first and everybody whose saved work it takes in, once each; it records the
  config as it stands on top of the history there was, and afterwards nothing is uncommitted and nobody is
  waiting to be named.
\<close>

theorem checkpoint_takes_everything_in:
  assumes "history p (pn_fs st)" "create_commit env who p message st = (Inr c, st')"
    and "file_at (pn_fs st) (authoring_path p ''config.json'') = Some (CConfig cfg)"
  shows "cm_parent c = commit_head p (pn_fs st) \<and> cm_message c \<noteq> [] \<and>
    hd (cm_contributors c) = cl_login who \<and> distinct (cm_contributors c) \<and>
    set (cm_contributors c) = insert (cl_login who) (set (pending_authors p (pn_fs st))) \<and>
    load_commit_config p (cm_id c) (pn_fs st') = Inr cfg \<and>
    commit_status_of env reader p st' = (case gate st' reader p View of Inl e \<Rightarrow> Inl e
      | Inr _ \<Rightarrow> Inr \<lparr>cs_head = Some c, cs_uncommitted = 0, cs_changes = [], cs_pending_authors = []\<rparr>)"
proof -
  obtain live st1 where l: "load_pack_config p (pn_fs st) = Inr live" and m: "trim message \<noteq> []"
    and c: "commit_and_tell env p live who (trim message) (signed_by (cl_login who) (pending_authors p (pn_fs st))) st = (Inr c, st1)"
    and st': "pn_fs st' = pn_fs st1"
    using assms(2) by (auto simp: create_commit_def Let_def split: sum.splits if_splits prod.splits)
  from l have "is_safe_id p" by (auto simp: load_pack_config_def split: if_splits)
  with config_file [OF assms(3)] l have live: "live = cfg" by simp
  note t = told_commit [OF c] and r = committed_reads [OF assms(1) c [unfolded live] assms(3)]
  have "commit_status_of env reader p st' = (case gate st' reader p View of Inl e \<Rightarrow> Inl e
      | Inr _ \<Rightarrow> Inr \<lparr>cs_head = Some c, cs_uncommitted = 0, cs_changes = [], cs_pending_authors = []\<rparr>)"
    by (rule clean_status [OF r(1,2,3) _ r(5) st']) (simp add: t(6) live)
  then show ?thesis
    using t m r(4) by (simp add: st' signed_by_set signed_by_distinct signed_by_first)
qed



section \<open>A deleted pack\<close>

lemma gone_rows:
  "pack_access_level p v (forget_pack_threads p (forget_pack_blocks p (forget_pack_access p acc))) = None"
  "block_on p v (forget_pack_threads p (forget_pack_blocks p (forget_pack_access p acc))) = None"
  "t \<in> set (ac_threads (forget_pack_threads p (forget_pack_blocks p (forget_pack_access p acc)))) \<Longrightarrow>
     th_pack t \<noteq> p \<and> th_source_pack t \<noteq> Some p"
proof -
  have "find (\<lambda>r. pa_pack r = p \<and> pa_uid r = v) (filter (\<lambda>r. pa_pack r \<noteq> p) (ac_access acc)) = None"
    "find (\<lambda>r. pb_pack r = p \<and> pb_uid r = v) (filter (\<lambda>r. pb_pack r \<noteq> p) (ac_blocks acc)) = None"
    by (auto simp: find_None_iff)
  then show "pack_access_level p v (forget_pack_threads p (forget_pack_blocks p (forget_pack_access p acc))) = None"
    "block_on p v (forget_pack_threads p (forget_pack_blocks p (forget_pack_access p acc))) = None"
    by (simp_all add: forget_pack_threads_def drop_threads_def forget_pack_blocks_def forget_pack_access_def
        pack_access_level_def block_on_def Let_def)
qed (auto simp: forget_pack_threads_def drop_threads_def Let_def)


section \<open>On a concrete service\<close>

definition demo_hash :: "str \<Rightarrow> str" where
  "demo_hash s = replicate 39 CHR ''c'' @ [if even (length s) then CHR ''a'' else CHR ''b'']"

definition demo_edit :: "(unit, pack_config) edit_env" where
  "demo_edit = \<lparr>ee_upstream = offline, ee_net = (), ee_registry = empty_registry, ee_size = (\<lambda>_. 1), ee_sha1 = demo_hash,
     ee_json = cf_display_name, ee_now = ''now'', ee_clock = 500, ee_percent_decode = (\<lambda>s. s),
     ee_to_config = (\<lambda>d _. Inr d), ee_from_config = Inr, ee_apply = (\<lambda>d _. Inr d), ee_encode = (\<lambda>_. []),
     ee_base64 = (\<lambda>s. s)\<rparr>"

definition ada :: caller where
  "ada = \<lparr>cl_uid = 7, cl_login = ''ada'', cl_role = Admin\<rparr>"

definition demo_panel :: "pack_config panel" where
  "demo_panel = \<lparr>pn_store = \<lparr>st_fs = snd (save_pack_config ''p'' (sample_config []) two_commits), st_builds = []\<rparr>,
     pn_acc = demo_accounts, pn_docs = [], pn_tickets = [], pn_events = []\<rparr>"

lemma demo_history: "history ''p'' (pn_fs demo_panel)"
proof -
  obtain r fs1 where s: "save_pack_config ''p'' (sample_config []) two_commits = (r, fs1)" by fastforce
  have "\<forall>name. map_of fs1 (commits_dir ''p'' @ [name]) = map_of two_commits (commits_dir ''p'' @ [name])"
    using config_keeps_commits [OF s] by blast
  from history_elsewhere [OF history_two this] show ?thesis by (simp add: demo_panel_def s)
qed

definition renamed :: pack_config where
  "renamed = (sample_config [])\<lparr>cf_display_name := ''PQ'', cf_owner := 99, cf_visibility := Published\<rparr>"

lemma save_keeps_server_fields_witness:
  "\<exists>tag cfg' st'. put_pack_config demo_edit ada ''p'' None renamed demo_panel = (Inr (tag, cfg'), st') \<and>
     cf_owner cfg' = 1 \<and> cf_visibility cfg' = Draft"
proof -
  have "case fst (put_pack_config demo_edit ada ''p'' None renamed demo_panel) of Inr _ \<Rightarrow> True | Inl _ \<Rightarrow> False" by code_simp
  then obtain tag cfg' st' where r: "put_pack_config demo_edit ada ''p'' None renamed demo_panel = (Inr (tag, cfg'), st')"
    by (cases "put_pack_config demo_edit ada ''p'' None renamed demo_panel") (auto split: sum.splits)
  have "load_pack_config ''p'' (pn_fs demo_panel) = Inr (sample_config [])" by code_simp
  with save_keeps_server_fields [OF r] r show ?thesis by (auto simp: sample_config_def)
qed

lemma lost_update_refused_witness:
  "\<exists>st1 e x. put_pack_config demo_edit ada ''p'' (Some (etag (demo_hash ''P''))) renamed demo_panel = (Inr x, st1) \<and>
     put_pack_config demo_edit ada ''p'' (Some (etag (demo_hash ''P''))) renamed st1 = (Inl e, st1)"
proof -
  let ?put = "put_pack_config demo_edit ada ''p'' (Some (etag (demo_hash ''P''))) renamed demo_panel"
  have "case fst ?put of Inr (_, c) \<Rightarrow> rev_of demo_edit c \<noteq> demo_hash ''P'' | Inl _ \<Rightarrow> False" by code_simp
  then obtain tag c st1 where r: "?put = (Inr (tag, c), st1)" and moved: "rev_of demo_edit c \<noteq> demo_hash ''P''"
    by (cases ?put) (auto split: sum.splits)
  have "demo_hash ''P'' \<noteq> []" "CHR 0x22 \<notin> set (demo_hash ''P'')" by code_simp+
  from lost_update_refused [OF r moved this, of ada renamed] r show ?thesis by blast
qed

lemma checkpoint_takes_everything_in_witness:
  "\<exists>c st'. create_commit demo_edit ada ''p'' '' first '' demo_panel = (Inr c, st') \<and> hd (cm_contributors c) = ''ada''"
proof -
  let ?r = "create_commit demo_edit ada ''p'' '' first '' demo_panel"
  have "case fst ?r of Inr _ \<Rightarrow> True | Inl _ \<Rightarrow> False" by code_simp
  then obtain c st' where r: "?r = (Inr c, st')" by (cases ?r) (auto split: sum.splits)
  have "file_at (pn_fs demo_panel) (authoring_path ''p'' ''config.json'') = Some (CConfig (sample_config []))" by code_simp
  from checkpoint_takes_everything_in [OF demo_history r this] r show ?thesis by (auto simp: ada_def)
qed



text \<open>A document outlives the deletion of its pack: once a pack is made again under the id, the next edit to
  the old document writes what it remembers over the new config.\<close>

definition haunted :: "pack_config panel" where
  "haunted = snd (duplicate_pack_as ada ''q'' ''p'' None (snd (delete_pack_as demo_edit ada ''p''
     (demo_panel\<lparr>pn_docs := [(''p'', renamed)],
        pn_store := \<lparr>st_fs = snd (save_pack_config ''q'' ((sample_config [])\<lparr>cf_display_name := ''Q''\<rparr>) (pn_fs demo_panel)),
                     st_builds = []\<rparr>\<rparr>))))"

lemma deleted_document_comes_back:
  "map_option cf_display_name (case load_pack_config ''p'' (pn_fs haunted) of Inr c \<Rightarrow> Some c | Inl _ \<Rightarrow> None) = Some ''Q''"
  "map_option cf_display_name (case load_pack_config ''p'' (pn_fs (materialise demo_edit ''p'' ''ada'' haunted)) of
     Inr c \<Rightarrow> Some c | Inl _ \<Rightarrow> None) = Some ''PQ''"
  by code_simp+

text \<open>The document is a door without the check for rows declared twice.\<close>

lemma document_stores_duplicates:
  "duplicate_declaration (case load_pack_config ''p'' (pn_fs (materialise demo_edit ''p'' ''ada''
      (demo_panel\<lparr>pn_docs := [(''p'', (sample_config [])\<lparr>cf_assets :=
         [\<lparr>da_dest = ''a'', da_required = True, da_source = SmrtStatic ''x'', da_display = None\<rparr>,
          \<lparr>da_dest = ''a'', da_required = True, da_source = SmrtStatic ''y'', da_display = None\<rparr>]\<rparr>)]\<rparr>))) of
     Inr c \<Rightarrow> c | Inl _ \<Rightarrow> renamed) = Some (DupDest ''a'')"
  by code_simp

end
