(* ===== verification/Discussions.thy ===== *)
theory Discussions
  imports Pack_Edit
begin

text \<open>
  What people do around a pack over HTTP (the second half of \<open>src/src/http/admin.rs\<close>): letting somebody in and
  taking access away, stopping somebody from writing, opening issues and proposals, commenting and moderating,
  and merging what a fork offers. Every handler is one step on the service of Pack_Edit; merging is split where
  its own lock begins, since what came before the lock is not read again.
\<close>

section \<open>Access\<close>

definition set_acc :: "accounts \<Rightarrow> 'd panel \<Rightarrow> 'd panel" where
  "set_acc acc st = st\<lparr>pn_acc := acc\<rparr>"

definition list_access :: "caller \<Rightarrow> str \<Rightarrow> 'd panel \<Rightarrow> api_error + pack_grant list" where
  "list_access who pack_id st =
     (case gate st who pack_id View of Inl e \<Rightarrow> Inl e | Inr _ \<Rightarrow> Inr (list_pack_access pack_id (pn_acc st)))"

definition grant_access ::
  "('n, 'd) edit_env \<Rightarrow> caller \<Rightarrow> str \<Rightarrow> int \<Rightarrow> str \<Rightarrow> 'd panel \<Rightarrow> (api_error + unit) \<times> 'd panel" where
  "grant_access env who pack_id uid level_text st =
     (case gate st who pack_id Own of
        Inl e \<Rightarrow> (Inl e, st)
      | Inr _ \<Rightarrow>
          (case level_parse level_text of
             None \<Rightarrow> (Inl (BadRequest (''unknown level '' @ quoted level_text)), st)
           | Some level \<Rightarrow>
               if uid = cl_uid who
               then (Inl (BadRequest ''you already own this pack; a grant to yourself would say nothing''), st)
               else (case grant_pack_access pack_id uid level (cl_uid who) (ee_clock env) (pn_acc st) of
                   (Inl e, acc) \<Rightarrow> (Inl (BadRequest e), set_acc acc st)
                 | (Inr _, acc) \<Rightarrow>
                     (Inr (), emit (EvPack pack_id ''access'')
                        (audit env who ''pack.access.grant'' (Some pack_id)
                           (Some (show_int uid @ '' -> '' @ level_as_str level)) (set_acc acc st))))))"

definition revoke_access ::
  "('n, 'd) edit_env \<Rightarrow> caller \<Rightarrow> str \<Rightarrow> int \<Rightarrow> 'd panel \<Rightarrow> (api_error + unit) \<times> 'd panel" where
  "revoke_access env who pack_id uid st =
     (case gate st who pack_id Own of
        Inl e \<Rightarrow> (Inl e, st)
      | Inr _ \<Rightarrow>
          (case revoke_pack_access pack_id uid (pn_acc st) of
             (removed, acc) \<Rightarrow>
               (let st = set_acc (forget_notifications_about pack_id uid acc) st
                in (Inr (), if removed
                      then emit (EvPack pack_id ''access'')
                             (audit env who ''pack.access.revoke'' (Some pack_id) (Some (show_int uid)) st)
                      else st))))"

record stop_notice =
  sn_reason :: "str option"
  sn_at :: int
  sn_everywhere :: bool

record my_level_view =
  ml_level :: "pack_level option"
  ml_suspended :: "stop_notice option"

definition my_level :: "caller \<Rightarrow> str \<Rightarrow> 'd panel \<Rightarrow> my_level_view" where
  "my_level who pack_id st =
     (let acc = pn_acc st in
      \<lparr>ml_level = find (\<lambda>step. may (Some acc) who pack_id step) [Own, Edit, View],
       ml_suspended =
         (case suspension_of (cl_uid who) acc of
            Some s \<Rightarrow> Some \<lparr>sn_reason = sp_reason s, sn_at = sp_at s, sn_everywhere = True\<rparr>
          | None \<Rightarrow> map_option (\<lambda>b. \<lparr>sn_reason = bl_reason b, sn_at = bl_at b, sn_everywhere = False\<rparr>)
              (block_on pack_id (cl_uid who) acc))\<rparr>)"

section \<open>Stopping somebody\<close>

definition list_blocks :: "caller \<Rightarrow> str \<Rightarrow> 'd panel \<Rightarrow> api_error + pack_block list" where
  "list_blocks who pack_id st =
     (case gate st who pack_id Edit of Inl e \<Rightarrow> Inl e | Inr _ \<Rightarrow> Inr (list_pack_blocks pack_id (pn_acc st)))"

definition max_block_reason :: nat where
  "max_block_reason = 300"

text \<open>\<open>split_whitespace\<close>: the runs between blanks.\<close>

function split_whitespace :: "str \<Rightarrow> str list" where
  "split_whitespace [] = []"
| "split_whitespace (c # s) =
     (if is_space c then split_whitespace s
      else (c # takeWhile (\<lambda>d. \<not> is_space d) s) # split_whitespace (dropWhile (\<lambda>d. \<not> is_space d) s))"
  by pat_completeness auto

termination split_whitespace
  by (relation "measure length") (auto simp: le_imp_less_Suc length_dropWhile_le)

definition reason_too_long :: str where
  "reason_too_long = ''that reason is longer than '' @ show_nat max_block_reason @
     '' characters; the thread is where the long version goes''"

definition tidy_reason :: "str option \<Rightarrow> api_error + str option" where
  "tidy_reason raw =
     (case raw of
        None \<Rightarrow> Inr None
      | Some text \<Rightarrow>
          (let one_line = join '' '' (split_whitespace text)
           in if one_line = [] then Inr None
              else if length one_line > max_block_reason then Inl (BadRequest reason_too_long)
              else Inr (Some one_line)))"

definition keeps_this_pack :: str where
  "keeps_this_pack = ''that person keeps this pack; take their access away first''"

definition block_as ::
  "('n, 'd) edit_env \<Rightarrow> caller \<Rightarrow> str \<Rightarrow> int \<Rightarrow> str option \<Rightarrow> 'd panel \<Rightarrow> (api_error + unit) \<times> 'd panel" where
  "block_as env who pack_id uid reason st =
     (case gate st who pack_id Edit of
        Inl e \<Rightarrow> (Inl e, st)
      | Inr _ \<Rightarrow>
          if may_uid (Some (pn_acc st)) pack_id uid Edit then (Inl (BadRequest keeps_this_pack), st)
          else (case tidy_reason reason of
              Inl e \<Rightarrow> (Inl e, st)
            | Inr reason \<Rightarrow>
                (case block_from_pack pack_id uid reason (cl_uid who) (ee_clock env) (pn_acc st) of
                   (Inl e, acc) \<Rightarrow> (Inl (BadRequest e), set_acc acc st)
                 | (Inr _, acc) \<Rightarrow>
                     (Inr (), emit (EvPack pack_id ''access'')
                        (audit env who ''pack.block'' (Some pack_id)
                           (Some (case reason of Some r \<Rightarrow> show_int uid @ '': '' @ r | None \<Rightarrow> show_int uid))
                           (set_acc acc st))))))"

definition unblock_as ::
  "('n, 'd) edit_env \<Rightarrow> caller \<Rightarrow> str \<Rightarrow> int \<Rightarrow> 'd panel \<Rightarrow> (api_error + unit) \<times> 'd panel" where
  "unblock_as env who pack_id uid st =
     (case gate st who pack_id Edit of
        Inl e \<Rightarrow> (Inl e, st)
      | Inr _ \<Rightarrow>
          (case unblock_from_pack pack_id uid (pn_acc st) of
             (lifted, acc) \<Rightarrow>
               (Inr (), if lifted
                  then emit (EvPack pack_id ''access'')
                         (audit env who ''pack.unblock'' (Some pack_id) (Some (show_int uid)) (set_acc acc st))
                  else set_acc acc st)))"

definition blocked_text :: "str option \<Rightarrow> str" where
  "blocked_text reason = (case reason of
     Some r \<Rightarrow> ''writing here is suspended. reason: '' @ r | None \<Rightarrow> ''writing here is suspended'')"

definition not_silenced :: "'d panel \<Rightarrow> caller \<Rightarrow> str \<Rightarrow> api_error + unit" where
  "not_silenced st who pack_id =
     (case not_suspended (Some (pn_acc st)) who of
        Inl e \<Rightarrow> Inl e
      | Inr _ \<Rightarrow> (case block_on pack_id (cl_uid who) (pn_acc st) of
          None \<Rightarrow> Inr () | Some b \<Rightarrow> Inl (Refused (blocked_text (bl_reason b)))))"

definition comments_per_window :: nat where
  "comments_per_window = 20"

definition threads_per_window :: nat where
  "threads_per_window = 5"

definition rate_window :: int where
  "rate_window = 600"

definition slow_down :: str where
  "slow_down = ''that is a lot in a short time; give it a few minutes''"

definition within_rate :: "int \<Rightarrow> str \<Rightarrow> int \<Rightarrow> 'd panel \<Rightarrow> api_error + unit" where
  "within_rate now kind uid st =
     (let limit = (if kind = ''comments'' then comments_per_window else threads_per_window) in
      case recent_by kind uid (now - rate_window) (pn_acc st) of
        Inl e \<Rightarrow> Inl (Internal e)
      | Inr recent \<Rightarrow> if recent \<ge> limit then Inl (Conflict slow_down) else Inr ())"

section \<open>Telling people\<close>

definition keepers_of :: "str \<Rightarrow> accounts \<Rightarrow> int list" where
  "keepers_of pack_id acc =
     (case pack_namespace_uid pack_id of Some uid \<Rightarrow> [uid] | None \<Rightarrow> operator_uids acc) @
     map pg_uid (filter (\<lambda>g. pg_level g \<ge> Edit) (list_pack_access pack_id acc))"

definition voices_in :: "thread_row \<Rightarrow> accounts \<Rightarrow> int list" where
  "voices_in t acc = th_by t # speakers_on (th_id t) acc"

definition tell :: "int \<Rightarrow> int list \<Rightarrow> str \<Rightarrow> int \<Rightarrow> int \<Rightarrow> 'd panel \<Rightarrow> 'd panel" where
  "tell now uids kind thread_id actor st = set_acc (snd (notify uids kind thread_id actor now (pn_acc st))) st"

definition trimmed :: "str \<Rightarrow> str \<Rightarrow> api_error + str" where
  "trimmed value complaint = (if trim value = [] then Inl (BadRequest complaint) else Inr (trim value))"

section \<open>Opening a thread\<close>

definition is_published :: "str \<Rightarrow> 'd panel \<Rightarrow> bool" where
  "is_published pack_id st =
     (case load_pack_summary pack_id (pn_fs st) of Inr s \<Rightarrow> ps_visibility s = Published | Inl _ \<Rightarrow> False)"

definition load_thread :: "int \<Rightarrow> 'd panel \<Rightarrow> api_error + thread_view" where
  "load_thread i st = (case thread_by_id i (pn_acc st) of None \<Rightarrow> Inl NotFound | Some t \<Rightarrow> Inr t)"

definition may_read_threads :: "'d panel \<Rightarrow> caller \<Rightarrow> str \<Rightarrow> bool" where
  "may_read_threads st who pack_id \<longleftrightarrow> is_published pack_id st \<or> may (Some (pn_acc st)) who pack_id View"

definition open_thread_as ::
  "('n, 'd) edit_env \<Rightarrow> caller \<Rightarrow> str \<Rightarrow> str \<Rightarrow> str \<Rightarrow> str \<Rightarrow> (str \<times> str) option \<Rightarrow> 'd panel \<Rightarrow>
     (api_error + int) \<times> 'd panel" where
  "open_thread_as env who pack_id kind title body source st =
     (case open_thread pack_id kind title (trim body) (cl_uid who) source (ee_clock env) (pn_acc st) of
        (Inl e, acc) \<Rightarrow> (Inl (Internal e), set_acc acc st)
      | (Inr i, acc) \<Rightarrow>
          (let st = audit env who (''pack.'' @ kind @ ''.open'') (Some pack_id)
                      (Some (''#'' @ show_int i @ '' '' @ title)) (set_acc acc st);
               st = tell (ee_clock env) (keepers_of pack_id (pn_acc st)) ''opened'' i (cl_uid who) st
           in (Inr i, emit (EvPack pack_id ''thread'') st)))"

text \<open>Who may open a thread on a pack, and whether now.\<close>

definition may_open :: "('n, 'd) edit_env \<Rightarrow> caller \<Rightarrow> str \<Rightarrow> 'd panel \<Rightarrow> api_error + unit" where
  "may_open env who pack_id st =
     (case not_silenced st who pack_id of
        Inl e \<Rightarrow> Inl e | Inr _ \<Rightarrow> within_rate (ee_clock env) ''threads'' (cl_uid who) st)"

definition can_see :: "caller \<Rightarrow> str \<Rightarrow> 'd panel \<Rightarrow> api_error + unit" where
  "can_see who pack_id st = (if is_published pack_id st then Inr () else gate st who pack_id View)"

definition open_and_load ::
  "('n, 'd) edit_env \<Rightarrow> caller \<Rightarrow> str \<Rightarrow> str \<Rightarrow> str \<Rightarrow> str \<Rightarrow> (str \<times> str) option \<Rightarrow> 'd panel \<Rightarrow>
     (api_error + thread_view) \<times> 'd panel" where
  "open_and_load env who pack_id kind title body source st =
     (case open_thread_as env who pack_id kind title body source st of
        (Inl e, st) \<Rightarrow> (Inl e, st) | (Inr i, st) \<Rightarrow> (load_thread i st, st))"

definition open_issue ::
  "('n, 'd) edit_env \<Rightarrow> caller \<Rightarrow> str \<Rightarrow> str \<Rightarrow> str \<Rightarrow> 'd panel \<Rightarrow> (api_error + thread_view) \<times> 'd panel" where
  "open_issue env who pack_id title body st =
     (case can_see who pack_id st of
        Inl e \<Rightarrow> (Inl e, st)
      | Inr _ \<Rightarrow>
          (case may_open env who pack_id st of
             Inl e \<Rightarrow> (Inl e, st)
           | Inr _ \<Rightarrow>
               (case trimmed title ''an issue needs a title'' of
                  Inl e \<Rightarrow> (Inl e, st)
                | Inr title \<Rightarrow> open_and_load env who pack_id ''issue'' title body None st)))"

definition no_commits_yet :: str where
  "no_commits_yet = ''that pack has no commits yet, and a proposal offers one -- declare a checkpoint first''"

definition offered_commit :: "str \<Rightarrow> str option \<Rightarrow> fs \<Rightarrow> api_error + str" where
  "offered_commit source_pack source_commit fs =
     (case source_commit of
        Some i \<Rightarrow> (case load_commit source_pack i fs of Inl e \<Rightarrow> Inl e | Inr c \<Rightarrow> Inr (cm_id c))
      | None \<Rightarrow> (case commit_head source_pack fs of Some i \<Rightarrow> Inr i | None \<Rightarrow> Inl (Conflict no_commits_yet)))"

definition open_proposal ::
  "('n, 'd) edit_env \<Rightarrow> caller \<Rightarrow> str \<Rightarrow> str \<Rightarrow> str option \<Rightarrow> str \<Rightarrow> str \<Rightarrow> 'd panel \<Rightarrow>
     (api_error + thread_view) \<times> 'd panel" where
  "open_proposal env who pack_id source_pack source_commit title body st =
     (case gate st who source_pack Edit of
        Inl e \<Rightarrow> (Inl e, st)
      | Inr _ \<Rightarrow>
     (case can_see who pack_id st of
        Inl e \<Rightarrow> (Inl e, st)
      | Inr _ \<Rightarrow>
     if source_pack = pack_id then (Inl (BadRequest ''a pack cannot propose to itself; commit instead''), st) else
     (case may_open env who pack_id st of
        Inl e \<Rightarrow> (Inl e, st)
      | Inr _ \<Rightarrow>
     (case trimmed title ''a proposal needs a title'' of
        Inl e \<Rightarrow> (Inl e, st)
      | Inr title \<Rightarrow>
     (case offered_commit source_pack source_commit (pn_fs st) of
        Inl e \<Rightarrow> (Inl e, st)
      | Inr i \<Rightarrow> open_and_load env who pack_id ''proposal'' title body (Some (source_pack, i)) st)))))"

section \<open>Comments\<close>

definition max_comment :: nat where
  "max_comment = 4000"

definition checked_comment :: "str \<Rightarrow> api_error + str" where
  "checked_comment body =
     (case trimmed body ''an empty comment says nothing'' of
        Inl e \<Rightarrow> Inl e
      | Inr body \<Rightarrow> if length body > max_comment then Inl (BadRequest ''that comment is too long'') else Inr body)"

definition post_comment ::
  "('n, 'd) edit_env \<Rightarrow> caller \<Rightarrow> int \<Rightarrow> str \<Rightarrow> 'd panel \<Rightarrow> (api_error + comment_view) \<times> 'd panel" where
  "post_comment env who i body st =
     (case load_thread i st of
        Inl e \<Rightarrow> (Inl e, st)
      | Inr tv \<Rightarrow>
     (let t = tv_row tv in
      if \<not> may_read_threads st who (th_pack t) then (Inl Forbidden, st) else
     (case not_silenced st who (th_pack t) of
        Inl e \<Rightarrow> (Inl e, st)
      | Inr _ \<Rightarrow>
     (case within_rate (ee_clock env) ''comments'' (cl_uid who) st of
        Inl e \<Rightarrow> (Inl e, st)
      | Inr _ \<Rightarrow>
     (case checked_comment body of
        Inl e \<Rightarrow> (Inl e, st)
      | Inr body \<Rightarrow>
     (case comment i (cl_uid who) body (ee_clock env) (pn_acc st) of
        (Inl e, acc) \<Rightarrow> (Inl (Internal e), set_acc acc st)
      | (Inr cid, acc) \<Rightarrow>
          (let st = tell (ee_clock env) (voices_in t acc @ keepers_of (th_pack t) acc) ''comment'' i (cl_uid who)
                      (set_acc acc st);
               st = emit (EvPack (th_pack t) ''thread'') st
           in (case comment_by_id cid (pn_acc st) of None \<Rightarrow> Inl NotFound | Some c \<Rightarrow> Inr c, st))))))))"

definition moderate_comment ::
  "('n, 'd) edit_env \<Rightarrow> caller \<Rightarrow> int \<Rightarrow> bool \<Rightarrow> 'd panel \<Rightarrow> (api_error + unit) \<times> 'd panel" where
  "moderate_comment env who cid hidden st =
     (case thread_of_comment cid (pn_acc st) of
        None \<Rightarrow> (Inl NotFound, st)
      | Some i \<Rightarrow>
     (case load_thread i st of
        Inl e \<Rightarrow> (Inl e, st)
      | Inr tv \<Rightarrow>
     (let pack_id = th_pack (tv_row tv) in
      case gate st who pack_id Edit of
        Inl e \<Rightarrow> (Inl e, st)
      | Inr _ \<Rightarrow>
          (case set_comment_hidden cid hidden (cl_uid who) (ee_clock env) (pn_acc st) of
             (changed, acc) \<Rightarrow>
               if \<not> changed then (Inl NotFound, set_acc acc st)
               else (Inr (), emit (EvPack pack_id ''thread'')
                       (audit env who (if hidden then ''pack.comment.hide'' else ''pack.comment.show'') (Some pack_id)
                          (Some (''comment '' @ show_int cid)) (set_acc acc st)))))))"

section \<open>Settling a thread\<close>

text \<open>A merge up to its lock: what was offered, by a thread that was open when it was read.\<close>

definition merge_offer ::
  "caller \<Rightarrow> int \<Rightarrow> 'd panel \<Rightarrow> api_error + thread_row \<times> str \<times> pack_config" where
  "merge_offer who i st =
     (case load_thread i st of
        Inl e \<Rightarrow> Inl e
      | Inr tv \<Rightarrow>
     (let t = tv_row tv in
      case gate st who (th_pack t) Edit of
        Inl e \<Rightarrow> Inl e
      | Inr _ \<Rightarrow>
          if th_status t \<noteq> ''open'' then Inl (Conflict (''this proposal is already '' @ th_status t))
          else (case (th_source_pack t, th_source_commit t) of
              (Some source_pack, Some source_commit) \<Rightarrow>
                (case load_commit_config source_pack source_commit (pn_fs st) of
                   Inl e \<Rightarrow> Inl e | Inr offered \<Rightarrow> Inr (t, source_pack, offered))
            | _ \<Rightarrow> Inl (BadRequest ''this thread offers no state''))))"

definition merge_write ::
  "('n, 'd) edit_env \<Rightarrow> caller \<Rightarrow> thread_row \<Rightarrow> str \<Rightarrow> pack_config \<Rightarrow> str option \<Rightarrow> 'd panel \<Rightarrow>
     (api_error + commit) \<times> 'd panel" where
  "merge_write env who t source_pack offered message st =
     (case load_pack_config (th_pack t) (pn_fs st) of
        Inl e \<Rightarrow> (Inl e, st)
      | Inr current \<Rightarrow>
     (let merged = with_authored_from current offered in
      case duplicate_declaration merged of
        Some dup \<Rightarrow> (Inl (BadRequest (dup_text dup)), st)
      | None \<Rightarrow>
          (case store_edited_config env (th_pack t) merged (cl_login who) False (forget_doc (th_pack t) st) of
             (Inl e, st) \<Rightarrow> (Inl e, st)
           | (Inr (cfg, _), st) \<Rightarrow>
               checkpoint env (th_pack t) cfg who
                 (named_or message (''merge #'' @ show_int (th_id t) @ '' from '' @ source_pack)) st)))"

definition merge_settle ::
  "('n, 'd) edit_env \<Rightarrow> caller \<Rightarrow> thread_row \<Rightarrow> commit \<Rightarrow> 'd panel \<Rightarrow> (api_error + thread_view) \<times> 'd panel" where
  "merge_settle env who t commit st =
     (case settle_thread (th_id t) ''merged'' (cl_uid who) (Some (cm_id commit)) (ee_clock env) (pn_acc st) of
        (Inl e, acc) \<Rightarrow> (Inl (Internal e), set_acc acc st)
      | (Inr moved, acc) \<Rightarrow>
          if \<not> moved then (Inl (Conflict ''this proposal was already settled''), set_acc acc st)
          else
            (let st = audit env who ''pack.proposal.merge'' (Some (th_pack t))
                        (Some (''#'' @ show_int (th_id t) @ '' as '' @ cm_id commit)) (set_acc acc st);
                 st = tell (ee_clock env) (voices_in t (pn_acc st)) ''settled'' (th_id t) (cl_uid who) st;
                 st = emit (EvPack (th_pack t) ''thread'') st
             in (load_thread (th_id t) st, st)))"

definition merge_locked ::
  "('n, 'd) edit_env \<Rightarrow> caller \<Rightarrow> thread_row \<times> str \<times> pack_config \<Rightarrow> str option \<Rightarrow> 'd panel \<Rightarrow>
     (api_error + thread_view) \<times> 'd panel" where
  "merge_locked env who offer message st =
     (case offer of (t, source_pack, offered) \<Rightarrow>
        (case merge_write env who t source_pack offered message st of
           (Inl e, st) \<Rightarrow> (Inl e, st) | (Inr commit, st) \<Rightarrow> merge_settle env who t commit st))"

definition merge_proposal ::
  "('n, 'd) edit_env \<Rightarrow> caller \<Rightarrow> int \<Rightarrow> str option \<Rightarrow> 'd panel \<Rightarrow> (api_error + thread_view) \<times> 'd panel" where
  "merge_proposal env who i message st =
     (case merge_offer who i st of Inl e \<Rightarrow> (Inl e, st) | Inr offer \<Rightarrow> merge_locked env who offer message st)"

definition closing_status :: "str \<Rightarrow> bool \<Rightarrow> str" where
  "closing_status kind mine =
     (if kind = ''proposal'' then (if mine then ''withdrawn'' else ''declined'') else ''closed'')"

definition close_thread ::
  "('n, 'd) edit_env \<Rightarrow> caller \<Rightarrow> int \<Rightarrow> 'd panel \<Rightarrow> (api_error + thread_view) \<times> 'd panel" where
  "close_thread env who i st =
     (case load_thread i st of
        Inl e \<Rightarrow> (Inl e, st)
      | Inr tv \<Rightarrow>
     (let t = tv_row tv; mine = (th_by t = cl_uid who); status = closing_status (th_kind t) mine in
      case (if mine then Inr () else gate st who (th_pack t) Edit) of
        Inl e \<Rightarrow> (Inl e, st)
      | Inr _ \<Rightarrow>
          (case settle_thread i status (cl_uid who) None (ee_clock env) (pn_acc st) of
             (Inl e, acc) \<Rightarrow> (Inl (Internal e), set_acc acc st)
           | (Inr moved, acc) \<Rightarrow>
               if \<not> moved then (Inl (Conflict ''this thread was already settled''), set_acc acc st)
               else
                 (let st = audit env who (''pack.'' @ th_kind t @ ''.'' @ status) (Some (th_pack t))
                             (Some (''#'' @ show_int i)) (set_acc acc st);
                      st = tell (ee_clock env) (voices_in t (pn_acc st)) ''settled'' i (cl_uid who) st;
                      st = emit (EvPack (th_pack t) ''thread'') st
                  in (load_thread i st, st)))))"

definition only_issues_reopen :: str where
  "only_issues_reopen = ''only a closed issue reopens; a proposal is offered again as a new one''"

definition reopen_thread ::
  "('n, 'd) edit_env \<Rightarrow> caller \<Rightarrow> int \<Rightarrow> 'd panel \<Rightarrow> (api_error + thread_view) \<times> 'd panel" where
  "reopen_thread env who i st =
     (case load_thread i st of
        Inl e \<Rightarrow> (Inl e, st)
      | Inr tv \<Rightarrow>
     (let t = tv_row tv in
      case (if th_by t = cl_uid who then Inr () else gate st who (th_pack t) Edit) of
        Inl e \<Rightarrow> (Inl e, st)
      | Inr _ \<Rightarrow>
          (case reopen_issue i (pn_acc st) of
             (reopened, acc) \<Rightarrow>
               if \<not> reopened then (Inl (Conflict only_issues_reopen), set_acc acc st)
               else
                 (let st = set_acc acc st;
                      st = tell (ee_clock env) (voices_in t (pn_acc st)) ''settled'' i (cl_uid who) st;
                      st = emit (EvPack (th_pack t) ''thread'') st
                  in (load_thread i st, st)))))"

section \<open>Requests\<close>

text \<open>What a client may send to these handlers, and a run of them: each with its environment (clock, upstream)
  and its sender.\<close>

datatype request =
    RGrant str int str | RRevoke str int
  | RBlock str int "str option" | RUnblock str int
  | RIssue str str str | RProposal str str "str option" str str
  | RComment int str | RModerate int bool
  | RMerge int "str option" | RClose int | RReopen int

fun serve :: "('n, 'd) edit_env \<Rightarrow> caller \<Rightarrow> request \<Rightarrow> 'd panel \<Rightarrow> 'd panel" where
  "serve env who (RGrant p uid l) st = snd (grant_access env who p uid l st)"
| "serve env who (RRevoke p uid) st = snd (revoke_access env who p uid st)"
| "serve env who (RBlock p uid r) st = snd (block_as env who p uid r st)"
| "serve env who (RUnblock p uid) st = snd (unblock_as env who p uid st)"
| "serve env who (RIssue p title body) st = snd (open_issue env who p title body st)"
| "serve env who (RProposal p src c title body) st = snd (open_proposal env who p src c title body st)"
| "serve env who (RComment i body) st = snd (post_comment env who i body st)"
| "serve env who (RModerate i h) st = snd (moderate_comment env who i h st)"
| "serve env who (RMerge i m) st = snd (merge_proposal env who i m st)"
| "serve env who (RClose i) st = snd (close_thread env who i st)"
| "serve env who (RReopen i) st = snd (reopen_thread env who i st)"

fun serve_all :: "(('n, 'd) edit_env \<times> caller \<times> request) list \<Rightarrow> 'd panel \<Rightarrow> 'd panel" where
  "serve_all [] st = st"
| "serve_all ((env, who, req) # reqs) st = serve_all reqs (serve env who req st)"


section \<open>What a request leaves alone\<close>

lemma set_acc_simps [simp]: "pn_store (set_acc acc st) = pn_store st" "pn_acc (set_acc acc st) = acc"
  "pn_docs (set_acc acc st) = pn_docs st"
  by (simp_all add: set_acc_def)

lemma tell_simps [simp]: "pn_store (tell now us k i w st) = pn_store st"
  "pn_acc (tell now us k i w st) = snd (notify us k i w now (pn_acc st))"
  by (simp_all add: tell_def)

lemma audited [simp]: "pn_acc (audit env who a t d st) = record_audit (cl_uid who) (cl_login who) a t d (ee_clock env) (pn_acc st)"
  by (simp add: audit_def)

text \<open>Who spoke and when; who opened what and when.\<close>

definition spoken :: "accounts \<Rightarrow> (int \<times> int) list" where
  "spoken acc = map (\<lambda>c. (co_by c, co_created_at c)) (ac_comments acc)"

definition opened :: "accounts \<Rightarrow> (int \<times> int) list" where
  "opened acc = map (\<lambda>t. (th_by t, th_created_at t)) (ac_threads acc)"

text \<open>A change of the accounts by operations of the store that lets nobody say anything.\<close>

definition quiet :: "accounts \<Rightarrow> accounts \<Rightarrow> bool" where
  "quiet acc acc' \<longleftrightarrow> acc_step\<^sup>*\<^sup>* acc acc' \<and> spoken acc' = spoken acc \<and> opened acc' = opened acc"

lemma quiet_refl [intro!, simp]: "quiet acc acc"
  by (simp add: quiet_def)

lemma quiet_trans: "quiet a b \<Longrightarrow> quiet b c \<Longrightarrow> quiet a c"
  by (auto simp: quiet_def)

lemma quiet_step: "acc_step acc acc' \<Longrightarrow> spoken acc' = spoken acc \<Longrightarrow> opened acc' = opened acc \<Longrightarrow> quiet acc acc'"
  by (auto simp: quiet_def)

lemma quiet_ops:
  "quiet acc (snd (grant_pack_access p u l w now acc))" "quiet acc (snd (revoke_pack_access p u acc))"
  "quiet acc (forget_notifications_about p u acc)" "quiet acc (snd (block_from_pack p u r w now acc))"
  "quiet acc (snd (unblock_from_pack p u acc))" "quiet acc (record_audit w login a t d now acc)"
  "quiet acc (snd (notify us k i w now acc))"
  by (intro quiet_step acc_step.intros;
      simp add: spoken_def opened_def grant_pack_access_def revoke_pack_access_def forget_notifications_about_def
        block_from_pack_def unblock_from_pack_def record_audit_def notify_def Let_def)+

lemma quiet_hide: "quiet acc (snd (set_comment_hidden i h w now acc))"
proof (rule quiet_step [OF s_hide])
  have "(\<lambda>c. (co_by c, co_created_at c)) \<circ> hidden_row i h w now = (\<lambda>c. (co_by c, co_created_at c))"
    by (rule ext) (simp add: hidden_row_def)
  then show "spoken (snd (set_comment_hidden i h w now acc)) = spoken acc"
    by (simp add: spoken_def set_comment_hidden_def)
qed (simp add: opened_def set_comment_hidden_def)

lemma quiet_change:
  assumes "\<And>t. th_by (f t) = th_by t \<and> th_created_at (f t) = th_created_at t"
  shows "spoken (snd (change_threads which f acc)) = spoken acc" "opened (snd (change_threads which f acc)) = opened acc"
  using assms by (simp_all add: spoken_def opened_def change_threads_def)

lemma quiet_settle: "quiet acc (snd (settle_thread i status w m now acc))"
proof (rule quiet_step [OF s_settle])
  let ?f = "\<lambda>t. t\<lparr>th_status := status, th_decided_at := Some now, th_decided_by := Some w, th_merged_commit := m\<rparr>"
  have "snd (settle_thread i status w m now acc) = acc \<or> snd (settle_thread i status w m now acc) =
      snd (change_threads (\<lambda>t. th_id t = i \<and> th_status t = ''open'') ?f acc)"
    by (simp add: settle_thread_def split_def del: insert_iff)
  then show "spoken (snd (settle_thread i status w m now acc)) = spoken acc"
    "opened (snd (settle_thread i status w m now acc)) = opened acc"
    using quiet_change [of ?f "\<lambda>t. th_id t = i \<and> th_status t = ''open''" acc] by auto
qed

lemma quiet_reopen: "quiet acc (snd (reopen_issue i acc))"
  by (intro quiet_step s_reopen) (simp_all add: reopen_issue_def quiet_change)

lemmas quiet_all = quiet_ops quiet_hide quiet_settle quiet_reopen

lemma quiet_result: "f acc = (r, acc') \<Longrightarrow> quiet acc (snd (f acc)) \<Longrightarrow> quiet acc acc'"
  by simp

lemma quiet_audit: "quiet acc a \<Longrightarrow> quiet acc (record_audit w login x t d now a)"
  and quiet_tell: "quiet acc a \<Longrightarrow> quiet acc (snd (notify us k i w now a))"
  by (auto intro: quiet_trans quiet_ops)

lemma quiet_store_edit: "pn_acc (snd (store_edited_config env p cfg by_login fill st)) = pn_acc st"
  by (simp add: store_edited_config_def Let_def split: prod.split sum.split)

lemma quiet_checkpoint: "pn_acc (snd (checkpoint env p cfg who message st)) = pn_acc st"
  by (simp add: checkpoint_def commit_and_tell_def split: prod.split sum.split)

lemma quiet_merge_write: "pn_acc (snd (merge_write env who t source_pack offered message st)) = pn_acc st"
proof -
  have "pn_acc (snd (case store_edited_config env p m l False (forget_doc p st) of
      (Inl e, st) \<Rightarrow> (Inl e, st) | (Inr (cfg, _), st) \<Rightarrow> checkpoint env p cfg who msg st)) = pn_acc st" for p m l msg
    using quiet_store_edit [of env p m l False "forget_doc p st"]
    by (auto simp: quiet_checkpoint split: prod.split sum.split)
  then show ?thesis by (simp add: merge_write_def Let_def split: sum.split option.split)
qed

lemma quiet_grant: "quiet (pn_acc st) (pn_acc (snd (grant_access env who p uid l st)))"
  by (auto simp: grant_access_def split: sum.split option.split prod.split intro!: quiet_audit
      intro: quiet_result [where f = "grant_pack_access _ _ _ _ _", OF _ quiet_ops(1)])

lemma quiet_revoke: "quiet (pn_acc st) (pn_acc (snd (revoke_access env who p uid st)))"
proof -
  have "quiet (pn_acc st) (forget_notifications_about p uid (snd (revoke_pack_access p uid (pn_acc st))))"
    by (blast intro: quiet_trans quiet_ops)
  then show ?thesis
    by (auto simp: revoke_access_def Let_def split_def split: sum.split intro!: quiet_audit)
qed

lemma quiet_block: "quiet (pn_acc st) (pn_acc (snd (block_as env who p uid r st)))"
  by (auto simp: block_as_def split: sum.split option.split prod.split intro!: quiet_audit
      intro: quiet_result [where f = "block_from_pack _ _ _ _ _", OF _ quiet_ops(4)])

lemma quiet_unblock: "quiet (pn_acc st) (pn_acc (snd (unblock_as env who p uid st)))"
  by (auto simp: unblock_as_def split_def split: sum.split intro!: quiet_audit quiet_ops)

lemma quiet_moderate: "quiet (pn_acc st) (pn_acc (snd (moderate_comment env who c h st)))"
  by (auto simp: moderate_comment_def Let_def split_def split: sum.split option.split intro!: quiet_audit quiet_hide)

lemma settled_result: "settle_thread i status w m now acc = (r, acc') \<Longrightarrow> quiet acc acc'"
  by (rule quiet_result [OF _ quiet_settle])

lemma quiet_close: "quiet (pn_acc st) (pn_acc (snd (close_thread env who i st)))"
  by (auto simp: close_thread_def Let_def split: sum.split prod.split intro!: quiet_tell quiet_audit dest: settled_result)

lemma quiet_reopen_thread: "quiet (pn_acc st) (pn_acc (snd (reopen_thread env who i st)))"
  by (auto simp: reopen_thread_def Let_def split_def split: sum.split intro: quiet_trans quiet_reopen quiet_ops)

lemma quiet_merge_settle: "quiet (pn_acc st) (pn_acc (snd (merge_settle env who t c st)))"
  by (auto simp: merge_settle_def Let_def split: sum.split prod.split intro!: quiet_tell quiet_audit dest: settled_result)

lemma quiet_merge: "quiet (pn_acc st) (pn_acc (snd (merge_proposal env who i message st)))"
proof -
  have "quiet (pn_acc st) (pn_acc (snd (merge_locked env who offer message st)))" for offer
  proof (cases offer)
    case (fields t source_pack offered)
    obtain r st1 where w: "merge_write env who t source_pack offered message st = (r, st1)" by fastforce
    with quiet_merge_write [of env who t source_pack offered message st] have "pn_acc st1 = pn_acc st" by simp
    then show ?thesis using quiet_merge_settle [of st1 env who t]
      by (cases r) (simp_all add: merge_locked_def fields w)
  qed
  then show ?thesis by (simp add: merge_proposal_def split: sum.split)
qed

section \<open>Who says something\<close>

text \<open>A request lets its sender say one thing, or nobody anything; and then the sender was not over the limit.\<close>

lemma commented:
  assumes "comment i who body now acc = (Inr c, acc')"
  shows "acc_step acc acc'" "spoken acc' = spoken acc @ [(who, now)]" "opened acc' = opened acc"
  using assms s_comment [of acc i who body now]
  by (auto simp: comment_def spoken_def opened_def Let_def split: if_splits)

lemma comment_refused: "comment i who body now acc = (Inl e, acc') \<Longrightarrow> acc' = acc"
  by (auto simp: comment_def Let_def split: if_splits)

lemma opened_one:
  assumes "open_thread p kind title body who source now acc = (Inr c, acc')"
  shows "acc_step acc acc'" "spoken acc' = spoken acc" "opened acc' = opened acc @ [(who, now)]"
  using assms s_open [of acc p kind title body who source now]
  by (auto simp: open_thread_def spoken_def opened_def Let_def split: if_splits)

lemma open_refused: "open_thread p kind title body who source now acc = (Inl e, acc') \<Longrightarrow> acc' = acc"
  by (auto simp: open_thread_def Let_def split: if_splits)

definition since :: "int \<Rightarrow> int \<Rightarrow> (int \<times> int) list \<Rightarrow> nat" where
  "since who after said = length (filter (\<lambda>(w, at). w = who \<and> at > after) said)"

lemma rate_comments: "within_rate now ''comments'' who st = Inr () \<longleftrightarrow>
    since who (now - rate_window) (spoken (pn_acc st)) < comments_per_window"
  by (simp add: within_rate_def recent_by_def since_def spoken_def Let_def filter_map o_def)

lemma rate_threads: "within_rate now ''threads'' who st = Inr () \<longleftrightarrow>
    since who (now - rate_window) (opened (pn_acc st)) < threads_per_window"
  by (simp add: within_rate_def recent_by_def since_def opened_def Let_def filter_map o_def)

lemma comment_effect:
  obtains "quiet (pn_acc st) (pn_acc (snd (post_comment env who i body st)))"
  | acc where "acc_step (pn_acc st) acc" "quiet acc (pn_acc (snd (post_comment env who i body st)))"
      "spoken acc = spoken (pn_acc st) @ [(cl_uid who, ee_clock env)]" "opened acc = opened (pn_acc st)"
      "since (cl_uid who) (ee_clock env - rate_window) (spoken (pn_acc st)) < comments_per_window"
proof (cases "\<exists>c acc. comment i (cl_uid who) (trim body) (ee_clock env) (pn_acc st) = (Inr c, acc) \<and>
    within_rate (ee_clock env) ''comments'' (cl_uid who) st = Inr () \<and>
    quiet acc (pn_acc (snd (post_comment env who i body st)))")
  case True
  then show thesis using that(2) commented rate_comments by metis
next
  case False
  have "quiet (pn_acc st) (pn_acc (snd (post_comment env who i body st)))"
    using False
    by (auto simp: post_comment_def Let_def checked_comment_def trimmed_def split: sum.splits prod.splits if_splits
        intro!: quiet_tell dest: comment_refused)
  then show thesis by (rule that(1))
qed


text \<open>What the accounts may look like after one request: as they were, up to silent operations, or with one
  thing more that was said.\<close>

definition said_one :: "(accounts \<Rightarrow> (int \<times> int) list) \<Rightarrow> (accounts \<Rightarrow> (int \<times> int) list) \<Rightarrow> nat \<Rightarrow> int \<Rightarrow> int \<Rightarrow>
    accounts \<Rightarrow> accounts \<Rightarrow> bool" where
  "said_one f g limit who now acc acc' \<longleftrightarrow> since who (now - rate_window) (f acc) < limit \<and>
     (\<exists>mid. acc_step acc mid \<and> f mid = f acc @ [(who, now)] \<and> g mid = g acc \<and> quiet mid acc')"

definition one_request :: "int \<Rightarrow> int \<Rightarrow> accounts \<Rightarrow> accounts \<Rightarrow> bool" where
  "one_request who now acc acc' \<longleftrightarrow> quiet acc acc' \<or>
     said_one spoken opened comments_per_window who now acc acc' \<or> said_one opened spoken threads_per_window who now acc acc'"

lemma comment_one: "one_request (cl_uid who) (ee_clock env) (pn_acc st) (pn_acc (snd (post_comment env who i body st)))"
  by (rule comment_effect [of st env who i body]) (auto simp: one_request_def said_one_def)

lemma open_one:
  assumes "within_rate (ee_clock env) ''threads'' (cl_uid who) st = Inr ()"
  shows "one_request (cl_uid who) (ee_clock env) (pn_acc st)
    (pn_acc (snd (open_and_load env who p kind title body source st)))"
proof (cases "open_thread p kind title (trim body) (cl_uid who) source (ee_clock env) (pn_acc st)")
  case (Pair r acc)
  show ?thesis
  proof (cases r)
    case (Inl e)
    then show ?thesis
      using Pair open_refused [of p kind title "trim body" "cl_uid who" source "ee_clock env" "pn_acc st"]
      by (simp add: open_and_load_def open_thread_as_def one_request_def)
  next
    case (Inr i)
    note o = opened_one [OF Pair [unfolded Inr]]
    have "quiet acc (pn_acc (snd (open_and_load env who p kind title body source st)))"
      using Pair Inr by (auto simp: open_and_load_def open_thread_as_def Let_def intro!: quiet_tell quiet_audit)
    then show ?thesis using o assms [unfolded rate_threads] by (auto simp: one_request_def said_one_def)
  qed
qed

lemma may_open_rate: "may_open env who p st = Inr () \<Longrightarrow> within_rate (ee_clock env) ''threads'' (cl_uid who) st = Inr ()"
  by (simp add: may_open_def split: sum.splits)

lemma unit_sum: "(case (r :: 'e + unit) of Inl e \<Rightarrow> f e | Inr _ \<Rightarrow> g) = (if r = Inr () then g else f (projl r))"
  by (cases r) simp_all

lemma issue_one: "one_request (cl_uid who) (ee_clock env) (pn_acc st) (pn_acc (snd (open_issue env who p title body st)))"
  using open_one [OF may_open_rate, of env who p st]
  by (auto simp: open_issue_def unit_sum one_request_def split: sum.split)

lemma proposal_one:
  "one_request (cl_uid who) (ee_clock env) (pn_acc st) (pn_acc (snd (open_proposal env who p src c title body st)))"
  using open_one [OF may_open_rate, of env who p st]
  by (auto simp: open_proposal_def unit_sum one_request_def split: sum.split)

lemma quiet_one: "quiet acc acc' \<Longrightarrow> one_request who now acc acc'"
  by (simp add: one_request_def)

lemma serve_one: "one_request (cl_uid who) (ee_clock env) (pn_acc st) (pn_acc (serve env who req st))"
  by (cases req) (simp_all add: quiet_one quiet_grant quiet_revoke quiet_block quiet_unblock issue_one proposal_one comment_one
      quiet_moderate quiet_merge quiet_close quiet_reopen_thread)

lemma serve_steps: "acc_step\<^sup>*\<^sup>* (pn_acc st) (pn_acc (serve env who req st))"
  using serve_one [of who env st req]
  by (auto simp: one_request_def said_one_def quiet_def intro: converse_rtranclp_into_rtranclp)

lemma serve_all_steps: "acc_step\<^sup>*\<^sup>* (pn_acc st) (pn_acc (serve_all reqs st))"
  by (induction reqs st rule: serve_all.induct) (auto intro: rtranclp_trans serve_steps)

section \<open>Nobody floods a discussion\<close>

definition within :: "int \<Rightarrow> int \<Rightarrow> (int \<times> int) list \<Rightarrow> nat" where
  "within who a said = length (filter (\<lambda>(w, at). w = who \<and> a < at \<and> at \<le> a + rate_window) said)"

definition paced :: "(int \<times> int) list \<Rightarrow> nat \<Rightarrow> bool" where
  "paced said limit \<longleftrightarrow> (\<forall>who a. within who a said \<le> limit)"

lemma within_since: "now \<le> a + rate_window \<Longrightarrow> within who a said \<le> since who (now - rate_window) said"
proof (induction said)
  case (Cons x said)
  then show ?case by (cases x) (auto simp: within_def since_def)
qed (simp add: within_def)

lemma paced_snoc:
  assumes "paced said limit" "since who (now - rate_window) said < limit"
  shows "paced (said @ [(who, now)]) limit"
  unfolding paced_def
proof (intro allI)
  fix w a
  show "within w a (said @ [(who, now)]) \<le> limit"
  proof (cases "w = who \<and> a < now \<and> now \<le> a + rate_window")
    case True
    then have "within w a (said @ [(who, now)]) = Suc (within who a said)" by (auto simp: within_def)
    with True assms(2) within_since [of now a who said] show ?thesis by simp
  next
    case False
    then have "within w a (said @ [(who, now)]) = within w a said" by (auto simp: within_def)
    with assms(1) show ?thesis by (simp add: paced_def)
  qed
qed

lemma serve_paced:
  assumes "paced (spoken (pn_acc st)) comments_per_window" "paced (opened (pn_acc st)) threads_per_window"
  shows "paced (spoken (pn_acc (serve env who req st))) comments_per_window"
    "paced (opened (pn_acc (serve env who req st))) threads_per_window"
  using serve_one [of who env st req] paced_snoc assms
  unfolding one_request_def said_one_def quiet_def by metis+



section \<open>Who may still write\<close>

text \<open>C32: 
  Somebody who was stopped on a pack, or a plain account stopped everywhere, writes nothing about it: no issue,
  no proposal and no comment, whatever level they hold; the request is refused and nothing is stored.
\<close>

theorem silenced_write_nothing:
  assumes "cl_role who = Member \<and> suspension_of (cl_uid who) (pn_acc st) \<noteq> None \<or> block_on p (cl_uid who) (pn_acc st) \<noteq> None"
    and "thread_by_id i (pn_acc st) = Some tv" "th_pack (tv_row tv) = p"
  shows "(\<exists>e. open_issue env who p title body st = (Inl e, st)) \<and>
    (\<exists>e. open_proposal env who p src c title body st = (Inl e, st)) \<and>
    (\<exists>e. post_comment env who i text st = (Inl e, st))"
proof (intro conjI)
  have "not_silenced st who p \<noteq> Inr ()"
    using assms(1) by (auto simp: not_silenced_def not_suspended_def split: option.splits sum.splits if_splits)
  then obtain e where e: "not_silenced st who p = Inl e" by (cases "not_silenced st who p") simp_all
  then have m: "may_open env who p st = Inl e" by (simp add: may_open_def)
  show "\<exists>e. open_issue env who p title body st = (Inl e, st)"
    by (cases "can_see who p st") (simp_all add: open_issue_def m)
  show "\<exists>e. open_proposal env who p src c title body st = (Inl e, st)"
    by (cases "gate st who src Edit"; cases "can_see who p st") (simp_all add: open_proposal_def m)
  show "\<exists>e. post_comment env who i text st = (Inl e, st)"
    using assms(2,3) e by (simp add: post_comment_def load_thread_def Let_def)
qed

lemma may_level: "may (Some acc) who p need \<longleftrightarrow>
    \<not> (need \<noteq> View \<and> cl_role who = Member \<and> suspension_of (cl_uid who) acc \<noteq> None) \<and>
    (inherent_level who p \<noteq> None \<or> (\<exists>l. pack_access_level p (cl_uid who) acc = Some l \<and> need \<le> l))"
  by (cases need) (auto simp: may_def authorize_cases level_order split: option.split)

lemma may_lower: "may (Some acc) who p need \<Longrightarrow> low \<le> need \<Longrightarrow> may (Some acc) who p low"
  unfolding may_level by (cases low; cases need) (auto simp: level_order less_eq_pack_level_def)

text \<open>C33: 
  What a client is told about its level is what the gate does: the caller may do exactly what is at or below
  the level named. And it is told of a stop exactly when one would refuse its next comment, except that an
  operator is not held to the suspension it is told of.
\<close>

theorem my_level_is_the_gate:
  "{need. may (Some (pn_acc st)) who p need} = {need. \<exists>l. ml_level (my_level who p st) = Some l \<and> need \<le> l} \<and>
   (not_silenced st who p = Inr () \<longleftrightarrow> block_on p (cl_uid who) (pn_acc st) = None \<and>
      (cl_role who \<ge> Admin \<or> ml_suspended (my_level who p st) = None))"
proof
  let ?may = "may (Some (pn_acc st)) who p"
  have level: "ml_level (my_level who p st) = (if ?may Own then Some Own else if ?may Edit then Some Edit
      else if ?may View then Some View else None)"
    by (simp add: my_level_def Let_def)
  have down: "?may Own \<Longrightarrow> ?may Edit" "?may Edit \<Longrightarrow> ?may View"
    using may_lower [of "pn_acc st" who p Own Edit] may_lower [of "pn_acc st" who p Edit View]
    by (simp_all add: level_order)
  have "?may need \<longleftrightarrow> (\<exists>l. (if ?may Own then Some Own else if ?may Edit then Some Edit
      else if ?may View then Some View else None) = Some l \<and> need \<le> l)" for need
    using down by (cases need; cases "?may Own"; cases "?may Edit"; cases "?may View") (simp_all add: less_eq_pack_level_def)
  then show "{need. ?may need} = {need. \<exists>l. ml_level (my_level who p st) = Some l \<and> need \<le> l}"
    unfolding level by blast
  show "not_silenced st who p = Inr () \<longleftrightarrow> block_on p (cl_uid who) (pn_acc st) = None \<and>
      (cl_role who \<ge> Admin \<or> ml_suspended (my_level who p st) = None)"
    by (auto simp: not_silenced_def not_suspended_def my_level_def Let_def split: option.splits if_splits)
qed

lemma identity_uid: "identity_of uid acc = Some who \<Longrightarrow> cl_uid who = uid"
  by (auto simp: identity_of_def caller_of_def find_Some_iff)

lemma operator_identity:
  assumes "users_ok (ac_users acc)" "uid \<in> set (operator_uids acc)"
  obtains who where "identity_of uid acc = Some who" "cl_role who \<ge> Admin"
proof -
  obtain u where u: "u \<in> set (ac_users acc)" "us_uid u = uid" "us_role u = ''admin'' \<or> us_role u = ''debug''"
    using assms(2) by (auto simp: operator_uids_def)
  with users_uid_unique [OF assms(1) u(1)] have "identity_of uid acc = Some (caller_of u)" by (simp add: identity_of_def)
  moreover have "cl_role (caller_of u) \<ge> Admin"
    using u(3) by (auto simp: caller_of_def role_from_db_def less_eq_role_def)
  ultimately show thesis by (rule that)
qed

lemma granted_edit:
  assumes "access_ok (ac_access acc)" "g \<in> set (list_pack_access p acc)" "pg_level g \<ge> Edit"
  shows "\<exists>l. pack_access_level p (pg_uid g) acc = Some l \<and> Edit \<le> l"
proof -
  obtain r where r: "r \<in> set (ac_access acc)" "pa_pack r = p" "pa_uid r = pg_uid g" "pg_level g = level_or_view (pa_level r)"
    using assms(2) by (auto simp: list_pack_access_def)
  have "distinct (map (\<lambda>r. (pa_pack r, pa_uid r)) (ac_access acc))" using assms(1) by (simp add: access_ok_def)
  from find_unique [OF this r(1)] r have "find (\<lambda>s. pa_pack s = p \<and> pa_uid s = pg_uid g) (ac_access acc) = Some r" by simp
  then show ?thesis using assms(3) r(4)
    by (auto simp: pack_access_level_def level_or_view_def level_order split: option.splits)
qed

text \<open>C34: 
  Whoever is told about a pack as its keeper may act on it: unless they are suspended, the gate lets each of
  them edit it, so that nobody is told of a discussion they cannot close.
\<close>

theorem keepers_may_act:
  assumes "acc_ok acc" "uid \<in> set (keepers_of p acc)" "suspension_of uid acc = None"
  shows "may_uid (Some acc) p uid Edit"
proof -
  let ?who = "case identity_of uid acc of Some who \<Rightarrow> who | None \<Rightarrow> \<lparr>cl_uid = uid, cl_login = [], cl_role = Member\<rparr>"
  have w: "cl_uid ?who = uid" by (auto dest: identity_uid split: option.split)
  have ok: "users_ok (ac_users acc)" "access_ok (ac_access acc)" using assms(1) by (simp_all add: acc_ok_def)
  from assms(2) consider "pack_namespace_uid p = Some uid" | "uid \<in> set (operator_uids acc)"
    | g where "g \<in> set (list_pack_access p acc)" "pg_level g \<ge> Edit" "pg_uid g = uid"
    by (auto simp: keepers_of_def split: option.splits)
  then have "inherent_level ?who p \<noteq> None \<or> (\<exists>l. pack_access_level p uid acc = Some l \<and> Edit \<le> l)"
  proof cases
    case 1
    then show ?thesis by (simp add: inherent_level_def w)
  next
    case 2
    then show ?thesis by (rule operator_identity [OF ok(1)]) (simp add: inherent_level_def)
  next
    case 3
    with granted_edit [OF ok(2) 3(1,2)] show ?thesis by simp
  qed
  then show ?thesis using assms(3) by (simp add: may_uid_def may_level w)
qed


section \<open>What a merge lands\<close>

lemma merge_offer_inv:
  assumes "merge_offer who i st = Inr (t, src, offered)"
  obtains srcc where "find (\<lambda>t. th_id t = i) (ac_threads (pn_acc st)) = Some t" "gate st who (th_pack t) Edit = Inr ()"
    "th_status t = ''open''" "th_source_pack t = Some src" "th_source_commit t = Some srcc"
    "load_commit_config src srcc (pn_fs st) = Inr offered"
  using assms
  by (auto simp: merge_offer_def load_thread_def thread_by_id_def thread_from_row_def Let_def
      split: sum.splits option.splits if_splits)

lemma merge_write_inv:
  assumes "merge_write env who t src offered message st = (Inr c, st')"
  obtains current cfg r st1 msg where "load_pack_config (th_pack t) (pn_fs st) = Inr current"
    "duplicate_declaration (with_authored_from current offered) = None"
    "store_edited_config env (th_pack t) (with_authored_from current offered) (cl_login who) False
       (forget_doc (th_pack t) st) = (Inr (cfg, r), st1)"
    "commit_and_tell env (th_pack t) cfg who msg [cl_login who] st1 = (Inr c, st')"
  using assms
  by (auto simp: merge_write_def checkpoint_def Let_def split: sum.splits prod.splits option.splits)

lemma settled_row:
  assumes "settle_thread i status w m now acc = (Inr True, acc')" "find (\<lambda>t. th_id t = i) (ac_threads acc) = Some t"
    and "th_status t = ''open''"
  shows "find (\<lambda>t. th_id t = i) (ac_threads acc') =
    Some (t\<lparr>th_status := status, th_decided_at := Some now, th_decided_by := Some w, th_merged_commit := m\<rparr>)"
proof -
  let ?g = "\<lambda>t :: thread_row. if th_id t = i \<and> th_status t = ''open'' then
      t\<lparr>th_status := status, th_decided_at := Some now, th_decided_by := Some w, th_merged_commit := m\<rparr> else t"
  have "ac_threads acc' = map ?g (ac_threads acc)"
    using assms(1) by (auto simp: settle_thread_def change_threads_def split: if_splits prod.splits)
  moreover have "find (\<lambda>t. th_id t = i) (map ?g rows) = map_option ?g (find (\<lambda>t. th_id t = i) rows)" for rows
    by (induction rows) auto
  ultimately have "find (\<lambda>t. th_id t = i) (ac_threads acc') = map_option ?g (Some t)"
    by (simp only: assms(2))
  moreover have "th_id t = i" using assms(2) by (auto simp: find_Some_iff)
  ultimately show ?thesis using assms(3) by simp
qed

lemma threads_kept [simp]: "ac_threads (record_audit u l a t d now acc) = ac_threads acc"
  "ac_threads (snd (notify us k i w now acc)) = ac_threads acc"
  by (simp_all add: record_audit_def quiet_steps)

lemma tell_fs [simp]: "pn_fs (tell now us k i w st) = pn_fs st" "pn_fs (set_acc acc st) = pn_fs st"
  "pn_fs (audit env who a t d st) = pn_fs st" "pn_fs (emit e st) = pn_fs st"
  by simp_all

text \<open>C31: 
  A merge that goes through was allowed by the pack it lands in and took an open offer. The config becomes what
  the commit offered, as authored, under the owner, tier, visibility and origin the pack had; it declares
  nothing twice; it is a new commit on top of the history of the pack, by whoever merged; and the thread is
  settled as merged by them, naming that commit.
\<close>

theorem merge_lands_the_offer:
  assumes "thread_by_id i (pn_acc st) = Some tv" "p = th_pack (tv_row tv)" "history p (pn_fs st)"
    and "merge_proposal env who i message st = (Inr tv', st')"
  shows "gate st who p Edit = Inr () \<and> th_status (tv_row tv) = ''open'' \<and>
    (\<exists>src srcc offered current merged c.
      th_source_pack (tv_row tv) = Some src \<and> th_source_commit (tv_row tv) = Some srcc \<and>
      load_commit_config src srcc (pn_fs st) = Inr offered \<and> load_pack_config p (pn_fs st) = Inr current \<and>
      merged = offered\<lparr>cf_pack_id := cf_pack_id current, cf_owner := cf_owner current, cf_tier := cf_tier current,
        cf_visibility := cf_visibility current, cf_fork_of := cf_fork_of current\<rparr> \<and>
      duplicate_declaration merged = None \<and> load_pack_config p (pn_fs st') = Inr merged \<and>
      cm_parent c = commit_head p (pn_fs st) \<and> cm_author c = cl_login who \<and>
      commit_head p (pn_fs st') = Some (cm_id c) \<and> load_commit p (cm_id c) (pn_fs st') = Inr c \<and>
      load_commit_config p (cm_id c) (pn_fs st') = Inr merged \<and>
      tv_row tv' = (tv_row tv)\<lparr>th_status := ''merged'', th_decided_at := Some (ee_clock env),
        th_decided_by := Some (cl_uid who), th_merged_commit := Some (cm_id c)\<rparr>)"
proof -
  obtain t src offered where o: "merge_offer who i st = Inr (t, src, offered)"
    and l: "merge_locked env who (t, src, offered) message st = (Inr tv', st')"
    using assms(4) by (auto simp: merge_proposal_def split: sum.splits)
  obtain srcc where t: "find (\<lambda>t. th_id t = i) (ac_threads (pn_acc st)) = Some t" "gate st who (th_pack t) Edit = Inr ()"
    "th_status t = ''open''" "th_source_pack t = Some src" "th_source_commit t = Some srcc"
    "load_commit_config src srcc (pn_fs st) = Inr offered"
    by (rule merge_offer_inv [OF o])
  have tv: "tv_row tv = t" using assms(1) t(1) by (auto simp: thread_by_id_def thread_from_row_def)
  have p: "p = th_pack t" and i: "th_id t = i" using assms(2) tv t(1) by (auto simp: find_Some_iff)
  obtain c st1 where w: "merge_write env who t src offered message st = (Inr c, st1)"
    and s: "merge_settle env who t c st1 = (Inr tv', st')"
    using l by (auto simp: merge_locked_def split: sum.splits prod.splits)
  obtain current cfg r st2 msg where m: "load_pack_config p (pn_fs st) = Inr current"
    "duplicate_declaration (with_authored_from current offered) = None"
    "store_edited_config env p (with_authored_from current offered) (cl_login who) False (forget_doc p st) = (Inr (cfg, r), st2)"
    "commit_and_tell env p cfg who msg [cl_login who] st2 = (Inr c, st1)"
    using merge_write_inv [OF w] unfolding p [symmetric] by blast
  note e = stored_edit [OF m(3), simplified]
  note g = told_commit [OF m(4)] and rd = committed_reads [OF e(8) [OF assms(3)] m(4) e(7)]
  have acc: "pn_acc st1 = pn_acc st" using quiet_merge_write [of env who t src offered message st] w by simp
  obtain acc where a: "settle_thread i ''merged'' (cl_uid who) (Some (cm_id c)) (ee_clock env) (pn_acc st) = (Inr True, acc)"
    and st': "pn_fs st' = pn_fs st1" "ac_threads (pn_acc st') = ac_threads acc" "load_thread i st' = Inr tv'"
    using s by (auto simp: merge_settle_def i acc Let_def split: sum.splits prod.splits if_splits)
  have row: "tv_row tv' = t\<lparr>th_status := ''merged'', th_decided_at := Some (ee_clock env), th_decided_by := Some (cl_uid who),
      th_merged_commit := Some (cm_id c)\<rparr>"
    using st'(2,3) settled_row [OF a t(1,3)] by (auto simp: load_thread_def thread_by_id_def thread_from_row_def)
  have cfg: "cfg = with_authored_from current offered" using e(2) .
  have parent: "cm_parent c = commit_head p (pn_fs st)" using g(2) e(9) [OF assms(3)] by simp
  show ?thesis
    unfolding tv st'(1)
    by (intro conjI exI [of _ src] exI [of _ srcc] exI [of _ offered] exI [of _ current] exI [of _ cfg] exI [of _ c])
      (use t m(1,2) parent g(4) rd(1-4) row in \<open>simp_all add: p [symmetric] cfg with_authored_from_def\<close>)
qed


section \<open>On a concrete service\<close>

definition offered_panel :: "pack_config panel" where
  "offered_panel = set_acc (snd (open_thread ''p'' ''proposal'' ''t'' [] 8 (Some (''p'', cm_id first_commit)) 100
     (pn_acc demo_panel))) demo_panel"

definition told_off :: "pack_config panel" where
  "told_off = set_acc (snd (block_from_pack ''p'' 8 (Some ''spam'') 7 200 (pn_acc offered_panel))) offered_panel"


lemma silenced_write_nothing_witness:
  "\<exists>e. post_comment demo_edit bob 1 ''hello'' told_off = (Inl e, told_off)"
proof -
  have "(case block_on ''p'' (cl_uid bob) (pn_acc told_off) of None \<Rightarrow> False | Some _ \<Rightarrow> True)" by code_simp
  then have b: "block_on ''p'' (cl_uid bob) (pn_acc told_off) \<noteq> None" by (simp split: option.splits)
  have "(case thread_by_id 1 (pn_acc told_off) of None \<Rightarrow> False | Some tv \<Rightarrow> th_pack (tv_row tv) = ''p'')" by code_simp
  then obtain tv where "thread_by_id 1 (pn_acc told_off) = Some tv" "th_pack (tv_row tv) = ''p''" by (auto split: option.splits)
  with b show ?thesis
    using silenced_write_nothing [of bob told_off "''p''" 1 tv demo_edit "[]" "[]" "''q''" None "''hello''"] by simp
qed

lemma keepers_may_act_witness: "may_uid (Some demo_accounts) ''p'' 7 Edit"
proof -
  have "7 \<in> set (keepers_of ''p'' demo_accounts)" "suspension_of 7 demo_accounts = None" by code_simp+
  from keepers_may_act [OF demo_accounts_ok this] show ?thesis .
qed

lemma merge_lands_the_offer_witness:
  "(case merge_proposal demo_edit ada 1 None offered_panel of (Inr tv, st) \<Rightarrow>
      th_status (tv_row tv) = ''merged'' \<and> load_pack_config ''p'' (pn_fs st) = load_commit_config ''p'' (cm_id first_commit) (pn_fs demo_panel)
    | _ \<Rightarrow> False)"
proof -
  let ?r = "merge_proposal demo_edit ada 1 None offered_panel"
  have "(case fst ?r of Inr _ \<Rightarrow> True | Inl _ \<Rightarrow> False)" by code_simp
  then obtain tv' where r: "?r = (Inr tv', snd ?r)" by (cases ?r) (auto split: sum.splits)
  have "(case thread_by_id 1 (pn_acc offered_panel) of None \<Rightarrow> False | Some tv \<Rightarrow> ''p'' = th_pack (tv_row tv))" by code_simp
  then obtain tv where t: "thread_by_id 1 (pn_acc offered_panel) = Some tv" "''p'' = th_pack (tv_row tv)" by (auto split: option.splits)
  have "history ''p'' (pn_fs offered_panel)" using demo_history by (simp add: offered_panel_def)
  from merge_lands_the_offer [OF t this r] have "th_status (tv_row tv') = ''merged''" by auto
  moreover have "load_pack_config ''p'' (pn_fs (snd ?r)) = load_commit_config ''p'' (cm_id first_commit) (pn_fs demo_panel)" by code_simp
  ultimately show ?thesis by (subst r) simp
qed

text \<open>
  Somebody who keeps a pack cannot be blocked from it, unless they are suspended: the refusal asks what they may
  do, and a suspended keeper may do nothing.
\<close>

definition keeper_bob :: "pack_config panel" where
  "keeper_bob = snd (grant_access demo_edit ada ''p'' 8 ''own'' demo_panel)"

definition suspended_bob :: "pack_config panel" where
  "suspended_bob = set_acc (snd (suspend_account 8 None 7 100 (pn_acc keeper_bob))) keeper_bob"

lemma suspended_keeper_can_be_blocked:
  "fst (block_as demo_edit ada ''p'' 8 None keeper_bob) = Inl (BadRequest keeps_this_pack)"
  "fst (block_as demo_edit ada ''p'' 8 None suspended_bob) = Inr ()"
  by code_simp+

text \<open>A suspension does not keep somebody from settling and reopening what they opened.\<close>

lemma suspended_author_still_closes:
  "(case close_thread demo_edit bob 1 (set_acc (snd (suspend_account 8 None 7 100 (pn_acc offered_panel))) offered_panel) of
      (Inr tv, _) \<Rightarrow> th_status (tv_row tv) = ''withdrawn'' | _ \<Rightarrow> False)"
  by code_simp

text \<open>A proposal withdrawn between the check of a merge and its lock lands all the same, and whoever merged is told
  that it did not.\<close>

lemma withdrawn_offer_lands:
  "(case merge_offer ada 1 offered_panel of Inl _ \<Rightarrow> False
    | Inr offer \<Rightarrow>
       (case merge_locked demo_edit ada offer None (snd (close_thread demo_edit bob 1 offered_panel)) of
          (Inl (Conflict _), st) \<Rightarrow> commit_head ''p'' (pn_fs st) \<noteq> commit_head ''p'' (pn_fs offered_panel) \<and>
            (case thread_by_id 1 (pn_acc st) of Some tv \<Rightarrow> th_status (tv_row tv) = ''withdrawn'' | None \<Rightarrow> False)
        | _ \<Rightarrow> False))"
  by code_simp

text \<open>Somebody whose access was taken away hears of the discussions they spoke in all the same.\<close>

lemma revoked_voice_is_told:
  "(let st = snd (post_comment demo_edit ada 1 ''secret'' (snd (revoke_access demo_edit ada ''p'' 8
               (snd (post_comment demo_edit bob 1 ''hi'' (snd (grant_access demo_edit ada ''p'' 8 ''view'' offered_panel))))))) in
    may (Some (pn_acc st)) bob ''p'' View = False \<and> map nv_title (notifications_for 8 True None None (pn_acc st)) = [''t''])"
  by code_simp

end
