(* ===== verification/Uploads.thy ===== *)
theory Uploads
  imports Discussions Enrich
begin

text \<open>
  How bytes get into the cache over HTTP, and who decides (\<open>src/src/http/member.rs\<close> and the operator half of
  \<open>src/src/http/admin.rs\<close>): a member's upload with its two gates, the moderators' queue, the operators' own
  ingest, deletion and takedown, what an operator does to an account, and forks. The upstream's answers are
  parameters. The route guards (\<open>require_auth\<close>, \<open>require_session\<close>) are those of Access.
\<close>

section \<open>Uploading a jar\<close>

record upload_env =
  ue_tools :: jar_tools
  ue_on_modrinth :: "str \<Rightarrow> str + bool"
  ue_project_loaders :: "str \<Rightarrow> str \<Rightarrow> str + str list list"
  ue_fetch :: "str \<Rightarrow> str + str"

definition extract_upload_facts :: "jar_tools \<Rightarrow> str \<Rightarrow> (str \<times> str \<times> str) option" where
  "extract_upload_facts jt body =
     (case jar_loader jt body of
        None \<Rightarrow> None
      | Some loader \<Rightarrow>
          (let mcmod = (case read_mcmod_info jt body of Inr r \<Rightarrow> r | Inl _ \<Rightarrow> None);
               meta = read_mod_meta jt body;
               declared = opt_filter (\<lambda>s. s \<noteq> []) (map_option mi_modid mcmod);
               declared_mc = Option.bind mcmod (\<lambda>i. clean_mc_version (mi_mcversion i))
           in case (if declared \<noteq> None then declared else mm_modid meta) of
                None \<Rightarrow> None
              | Some modid \<Rightarrow>
                  (case (if declared_mc \<noteq> None then declared_mc else mm_mc meta) of
                     None \<Rightarrow> None | Some mc \<Rightarrow> Some (modid, loader, mc))))"

definition covered_text :: "str \<Rightarrow> str \<Rightarrow> str \<Rightarrow> str" where
  "covered_text modid loader mc =
     ''Modrinth already carries '' @ modid @ '' for Minecraft '' @ mc @ '' ('' @ loader @
     '') -- add it via the Modrinth picker, not a self-hosted upload''"

definition modrinth_covers_upload :: "upload_env \<Rightarrow> registry \<Rightarrow> str \<Rightarrow> api_error + str option" where
  "modrinth_covers_upload ue rg body =
     (case extract_upload_facts (ue_tools ue) body of
        None \<Rightarrow> Inr None
      | Some (modid, loader, mc) \<Rightarrow>
          (case Option.bind (mod_id_for_alias rg ''modid'' modid) (modrinth_id_for_mod rg) of
             None \<Rightarrow> Inr None
           | Some project \<Rightarrow>
               (case ue_project_loaders ue project mc of
                  Inl e \<Rightarrow> Inl (Internal e)
                | Inr versions \<Rightarrow>
                    if list_ex (list_ex (\<lambda>l. to_lower l = to_lower loader)) versions
                    then Inr (Some (covered_text modid loader mc)) else Inr None)))"

definition on_modrinth_text :: str where
  "on_modrinth_text = ''this jar is on Modrinth -- add it via the Modrinth picker, not a self-hosted upload''"

text \<open>The gates of an upload: who may force, and what the upstream already carries.\<close>

definition upload_gates :: "upload_env \<Rightarrow> registry \<Rightarrow> role \<Rightarrow> bool \<Rightarrow> str \<Rightarrow> str \<Rightarrow> api_error + unit" where
  "upload_gates ue rg role force sha body =
     (case ue_on_modrinth ue sha of
        Inl e \<Rightarrow> Inl (Internal e)
      | Inr known \<Rightarrow>
          if known then Inl (BadRequest on_modrinth_text)
          else if force \<and> role < Debug then Inl Forbidden
          else if force \<and> role \<ge> Debug then Inr ()
          else (case modrinth_covers_upload ue rg body of
              Inl e \<Rightarrow> Inl e
            | Inr (Some reason) \<Rightarrow> Inl (BadRequest reason)
            | Inr None \<Rightarrow> Inr ()))"

definition upload_jar ::
  "('n, 'd) edit_env \<Rightarrow> upload_env \<Rightarrow> caller \<Rightarrow> str \<Rightarrow> str \<Rightarrow> str option \<Rightarrow> bool \<Rightarrow> str \<Rightarrow> 'd panel \<Rightarrow>
     (api_error + upload_row) \<times> 'd panel" where
  "upload_jar env ue who pack_id filename maintainer force body st =
     (case gate st who pack_id Edit of
        Inl e \<Rightarrow> (Inl e, st)
      | Inr _ \<Rightarrow>
     (let sha = ee_sha1 env body; forcing = (force \<and> cl_role who \<ge> Debug) in
      case upload_gates ue (ee_registry env) (cl_role who) force sha body of
        Inl e \<Rightarrow> (Inl e, st)
      | Inr _ \<Rightarrow>
     (case stage_upload (ee_sha1 env) sha body (pn_fs st) of
        (Inl e, fs) \<Rightarrow> (Inl e, set_fs fs st)
      | (Inr _, fs) \<Rightarrow>
     (case enqueue_upload (cl_uid who) pack_id filename sha (int (length body))
              (opt_filter (\<lambda>s. trim s \<noteq> []) maintainer) (ee_clock env) (pn_acc st) of
        (i, acc) \<Rightarrow>
          (let st = set_acc acc (set_fs fs st);
               st = (if forcing then audit env who ''upload.force'' (Some sha) (Some pack_id) st else st);
               st = emit (EvModeration ''queued'') st
           in (case get_upload i (pn_acc st) of None \<Rightarrow> Inl NotFound | Some row \<Rightarrow> Inr row, st))))))"

definition my_uploads :: "caller \<Rightarrow> 'd panel \<Rightarrow> upload_row list" where
  "my_uploads who st = list_user_uploads (cl_uid who) (pn_acc st)"

section \<open>The queue\<close>

definition list_uploads :: "'d panel \<Rightarrow> upload_row list" where
  "list_uploads st = list_pending_uploads (pn_acc st)"

definition approve_upload ::
  "('n, 'd) edit_env \<Rightarrow> caller \<Rightarrow> int \<Rightarrow> 'd panel \<Rightarrow> (api_error + unit) \<times> 'd panel" where
  "approve_upload env who i st =
     (case get_upload i (pn_acc st) of
        None \<Rightarrow> (Inl NotFound, st)
      | Some upload \<Rightarrow>
          (case promote_upload (ee_sha1 env) (up_sha1 upload) (pn_fs st) of
             (Inl e, fs) \<Rightarrow> (Inl e, set_fs fs st)
           | (Inr _, fs) \<Rightarrow>
               (case set_upload_status i ''approved'' None (Some (cl_uid who)) (ee_clock env) (pn_acc st) of
                  (Inl e, acc) \<Rightarrow> (Inl (Internal e), set_acc acc (set_fs fs st))
                | (Inr _, acc) \<Rightarrow>
                    (Inr (), audit env who ''upload.approve'' (Some (up_sha1 upload)) (Some (up_pack upload))
                       (emit (EvModeration ''decided'') (emit EvPoke (set_acc acc (set_fs fs st))))))))"

definition reject_upload ::
  "('n, 'd) edit_env \<Rightarrow> caller \<Rightarrow> int \<Rightarrow> str option \<Rightarrow> 'd panel \<Rightarrow> (api_error + unit) \<times> 'd panel" where
  "reject_upload env who i note st =
     (case get_upload i (pn_acc st) of
        None \<Rightarrow> (Inl NotFound, st)
      | Some upload \<Rightarrow>
          (case discard_upload (up_sha1 upload) (pn_fs st) of
             (Inl e, fs) \<Rightarrow> (Inl e, set_fs fs st)
           | (Inr _, fs) \<Rightarrow>
               (case set_upload_status i ''rejected'' note (Some (cl_uid who)) (ee_clock env) (pn_acc st) of
                  (Inl e, acc) \<Rightarrow> (Inl (Internal e), set_acc acc (set_fs fs st))
                | (Inr _, acc) \<Rightarrow>
                    (Inr (), audit env who ''upload.reject'' (Some (up_sha1 upload)) note
                       (emit (EvModeration ''decided'') (set_acc acc (set_fs fs st)))))))"

section \<open>The operators' own doors\<close>

definition on_jar ::
  "str \<Rightarrow> str \<Rightarrow> (str \<Rightarrow> api_error + 'a) \<Rightarrow> api_error + 'a" where
  "on_jar pfx filename k =
     (case strip_suffix ''.jar'' filename of
        None \<Rightarrow> Inl (BadRequest ''cache path must end in .jar'')
      | Some sha \<Rightarrow>
          if \<not> starts_with sha pfx then Inl (BadRequest ''prefix does not match sha1'') else k sha)"

definition put_cache_jar ::
  "('n, 'd) edit_env \<Rightarrow> str \<Rightarrow> str \<Rightarrow> str \<Rightarrow> 'd panel \<Rightarrow> (api_error + str \<times> nat) \<times> 'd panel" where
  "put_cache_jar env pfx filename body st =
     (case on_jar pfx filename Inr of
        Inl e \<Rightarrow> (Inl e, st)
      | Inr sha \<Rightarrow>
          (case save_cache_jar (ee_sha1 env) sha body (pn_fs st) of
             (Inl e, fs) \<Rightarrow> (Inl e, set_fs fs st)
           | (Inr _, fs) \<Rightarrow> (Inr (sha, length body), emit EvPoke (set_fs fs st))))"

definition delete_cache_jar_as ::
  "('n, 'd) edit_env \<Rightarrow> caller \<Rightarrow> str \<Rightarrow> str \<Rightarrow> 'd panel \<Rightarrow> (api_error + unit) \<times> 'd panel" where
  "delete_cache_jar_as env who pfx filename st =
     (case on_jar pfx filename Inr of
        Inl e \<Rightarrow> (Inl e, st)
      | Inr sha \<Rightarrow>
          (case delete_cache_jar sha (pn_fs st) of
             (Inl e, fs) \<Rightarrow> (Inl e, set_fs fs st)
           | (Inr _, fs) \<Rightarrow> (Inr (), audit env who ''cache.delete'' (Some sha) None (emit EvPoke (set_fs fs st)))))"

definition takedown_jar ::
  "('n, 'd) edit_env \<Rightarrow> caller \<Rightarrow> str \<Rightarrow> 'd panel \<Rightarrow> (api_error + unit) \<times> 'd panel" where
  "takedown_jar env who sha st =
     (case takedown sha (pn_fs st) of
        (Inl e, fs) \<Rightarrow> (Inl e, set_fs fs st)
      | (Inr _, fs) \<Rightarrow> (Inr (), audit env who ''cache.takedown'' (Some sha) None (emit EvPoke (set_fs fs st))))"

definition restore_jar ::
  "('n, 'd) edit_env \<Rightarrow> caller \<Rightarrow> str \<Rightarrow> 'd panel \<Rightarrow> (api_error + unit) \<times> 'd panel" where
  "restore_jar env who sha st =
     (case restore sha (pn_fs st) of
        (Inl e, fs) \<Rightarrow> (Inl e, set_fs fs st)
      | (Inr _, fs) \<Rightarrow> (Inr (), audit env who ''cache.restore'' (Some sha) None (emit EvPoke (set_fs fs st))))"

section \<open>A release asset of GitHub\<close>

definition safe_seg :: "str \<Rightarrow> bool" where
  "safe_seg s \<longleftrightarrow> s \<noteq> [] \<and> list_all (\<lambda>c. is_alnum c \<or> c \<in> set ''._-+'') s"

text \<open>A control character: one byte below a blank, DEL, or U+0080 to U+009F in their two bytes.\<close>

fun has_control :: "str \<Rightarrow> bool" where
  "has_control (c # d # s) \<longleftrightarrow> (of_char c :: nat) < 32 \<or> c = CHR 0x7F \<or>
     c = CHR 0xC2 \<and> 128 \<le> (of_char d :: nat) \<and> (of_char d :: nat) < 160 \<or> has_control (d # s)"
| "has_control [c] \<longleftrightarrow> (of_char c :: nat) < 32 \<or> c = CHR 0x7F"
| "has_control [] \<longleftrightarrow> False"

definition safe_path_seg :: "str \<Rightarrow> bool" where
  "safe_path_seg s \<longleftrightarrow> s \<noteq> [] \<and> s \<noteq> ''.'' \<and> s \<noteq> ''..'' \<and> CHR ''/'' \<notin> set s \<and> CHR 0x5C \<notin> set s \<and> \<not> has_control s"

definition encoded_chars :: str where
  "encoded_chars = '' #%<>?[]^{|}/&=+'' @ [CHR 0x22, CHR 0x5C, CHR 0x60]"

definition hex_upper :: "nat \<Rightarrow> char" where
  "hex_upper n = ''0123456789ABCDEF'' ! n"

definition enc_char :: "char \<Rightarrow> str" where
  "enc_char c = (let n = (of_char c :: nat) in
     if n < 32 \<or> n \<ge> 127 \<or> c \<in> set encoded_chars then [CHR ''%'', hex_upper (n div 16), hex_upper (n mod 16)] else [c])"

definition enc_seg :: "str \<Rightarrow> str" where
  "enc_seg s = concat (map enc_char s)"

function trim_start_matches :: "str \<Rightarrow> str \<Rightarrow> str" where
  "trim_start_matches p s =
     (if p = [] then s else case strip_prefix p s of Some r \<Rightarrow> trim_start_matches p r | None \<Rightarrow> s)"
  by pat_completeness auto

termination trim_start_matches
  by (relation "measure (\<lambda>(_, s). length s)") (auto simp: strip_prefix_Some)

declare trim_start_matches.simps [simp del]

definition trim_end_matches :: "str \<Rightarrow> str \<Rightarrow> str" where
  "trim_end_matches p s = rev (trim_start_matches (rev p) (rev s))"

definition github_repo :: "str \<Rightarrow> str" where
  "github_repo s =
     trim_end_matches ''.git'' (trim_end_matches ''/''
       (trim_start_matches ''github.com/'' (trim_start_matches ''http://'' (trim_start_matches ''https://'' (trim s)))))"

definition github_asset_url :: "str \<Rightarrow> str \<Rightarrow> str \<Rightarrow> str option" where
  "github_asset_url repo_in tag_in asset_in =
     (let repo = github_repo repo_in; tag = trim tag_in; asset = trim asset_in in
      if \<not> (length (filter (\<lambda>c. c = CHR ''/'') repo) = 1 \<and> list_all safe_seg (split_on CHR ''/'' repo)) \<or>
         \<not> safe_path_seg tag \<or> \<not> safe_path_seg asset then None
      else Some (''https://github.com/'' @ repo @ ''/releases/download/'' @ enc_seg tag @ ''/'' @ enc_seg asset))"

definition bad_release_text :: str where
  "bad_release_text = ''repo must be owner/name (a github.com URL is ok); tag and asset must each be a single path segment''"

definition ingest_github ::
  "('n, 'd) edit_env \<Rightarrow> upload_env \<Rightarrow> str \<Rightarrow> str \<Rightarrow> str \<Rightarrow> 'd panel \<Rightarrow> (api_error + str \<times> nat) \<times> 'd panel" where
  "ingest_github env ue repo tag asset st =
     (case github_asset_url repo tag asset of
        None \<Rightarrow> (Inl (BadRequest bad_release_text), st)
      | Some url \<Rightarrow>
          (case ue_fetch ue url of
             Inl e \<Rightarrow> (Inl (Internal e), st)
           | Inr got \<Rightarrow>
               (let sha = ee_sha1 env got in
                case save_cache_jar (ee_sha1 env) sha got (pn_fs st) of
                  (Inl e, fs) \<Rightarrow> (Inl e, set_fs fs st)
                | (Inr _, fs) \<Rightarrow> (Inr (sha, length got), emit EvPoke (set_fs fs st)))))"

section \<open>Accounts and forks\<close>

definition runs_the_mirror :: str where
  "runs_the_mirror = ''that account runs the mirror; take the rung away first''"

definition suspend_account_as ::
  "('n, 'd) edit_env \<Rightarrow> caller \<Rightarrow> int \<Rightarrow> str option \<Rightarrow> 'd panel \<Rightarrow> (api_error + unit) \<times> 'd panel" where
  "suspend_account_as env who uid reason st =
     (if uid = cl_uid who then (Inl (BadRequest ''suspending yourself would say nothing''), st)
      else case tidy_reason reason of
        Inl e \<Rightarrow> (Inl e, st)
      | Inr reason \<Rightarrow>
          if (case identity_of uid (pn_acc st) of Some i \<Rightarrow> cl_role i \<ge> Admin | None \<Rightarrow> False)
          then (Inl (BadRequest runs_the_mirror), st)
          else (case suspend_account uid reason (cl_uid who) (ee_clock env) (pn_acc st) of
              (Inl e, acc) \<Rightarrow> (Inl (BadRequest e), set_acc acc st)
            | (Inr _, acc) \<Rightarrow> (Inr (), audit env who ''account.suspend'' (Some (show_int uid)) reason (set_acc acc st))))"

definition lift_suspension_as ::
  "('n, 'd) edit_env \<Rightarrow> caller \<Rightarrow> int \<Rightarrow> 'd panel \<Rightarrow> (api_error + unit) \<times> 'd panel" where
  "lift_suspension_as env who uid st =
     (case lift_suspension uid (pn_acc st) of
        (lifted, acc) \<Rightarrow> (Inr (), if lifted then audit env who ''account.unsuspend'' (Some (show_int uid)) None (set_acc acc st)
                               else set_acc acc st))"

definition set_user_role ::
  "('n, 'd) edit_env \<Rightarrow> caller \<Rightarrow> int \<Rightarrow> str \<Rightarrow> 'd panel \<Rightarrow> (api_error + unit) \<times> 'd panel" where
  "set_user_role env who uid role st =
     (case set_role uid role (pn_acc st) of
        (Inl e, acc) \<Rightarrow> (Inl (BadRequest e), set_acc acc st)
      | (Inr _, acc) \<Rightarrow> (Inr (), audit env who ''role.set'' (Some (show_int uid)) (Some role) (set_acc acc st)))"

definition fork_pack ::
  "caller \<Rightarrow> str \<Rightarrow> str \<Rightarrow> 'd panel \<Rightarrow> (api_error + pack_config) \<times> 'd panel" where
  "fork_pack who source name st =
     (case not_suspended (Some (pn_acc st)) who of
        Inl e \<Rightarrow> (Inl e, st)
      | Inr _ \<Rightarrow>
     (case require_terms (Some (pn_acc st)) (cl_uid who) of
        Inl e \<Rightarrow> (Inl e, st)
      | Inr _ \<Rightarrow>
     (case can_see who source st of
        Inl e \<Rightarrow> (Inl e, st)
      | Inr _ \<Rightarrow>
     (let target = ''u/'' @ show_int (cl_uid who) @ ''/'' @ name in
      case duplicate_pack source target None (cl_uid who) (Some source) (pn_fs st) of
        (Inl e, fs) \<Rightarrow> (Inl e, set_fs fs st)
      | (Inr cfg, fs) \<Rightarrow> (Inr cfg, emit (EvPack target ''created'') (set_fs fs st))))))"

definition accept_terms_as :: "('n, 'd) edit_env \<Rightarrow> caller \<Rightarrow> 'd panel \<Rightarrow> 'd panel" where
  "accept_terms_as env who st = set_acc (accept_terms (cl_uid who) (ee_clock env) (pn_acc st)) st"

definition my_packs :: "caller \<Rightarrow> 'd panel \<Rightarrow> pack_summary list" where
  "my_packs who st = filter (\<lambda>s. owns_or_admin who (ps_owner s)) (list_pack_summaries (pn_fs st))"

definition my_authoring :: "caller \<Rightarrow> 'd panel \<Rightarrow> str list" where
  "my_authoring who st = filter_may (Some (pn_acc st)) who (list_authoring_packs (pn_fs st)) View"


section \<open>What an upload leaves behind\<close>

lemma cache_staged [simp]: "good_sha sha \<Longrightarrow> cache_path s \<noteq> staged_upload_path sha"
  by (simp add: staged_path cache_path_def)

text \<open>C35: 
  An upload that is taken in was allowed by the pack, is not a file the upstream serves, and is either not
  covered by the upstream or forced by a debug account, which leaves a trail. It waits for a moderator: its row
  is in the queue as pending, under the hash of its bytes, its bytes are staged under that name, and no jar of
  the cache is added, removed or changed.
\<close>

theorem upload_waits_for_a_moderator:
  assumes "upload_jar env ue who p filename maintainer force body st = (Inr row, st')"
  shows "gate st who p Edit = Inr () \<and> ue_on_modrinth ue (ee_sha1 env body) = Inr False \<and>
    (if force then cl_role who = Debug \<and> (\<exists>r \<in> set (ac_audit (pn_acc st')). ar_action r = ''upload.force'' \<and>
        ar_actor_uid r = cl_uid who \<and> ar_target r = Some (ee_sha1 env body))
     else modrinth_covers_upload ue (ee_registry env) body = Inr None) \<and>
    up_status row = ''pending'' \<and> up_uploader row = cl_uid who \<and> up_pack row = p \<and> up_filename row = filename \<and>
    up_sha1 row = ee_sha1 env body \<and> row \<in> set (list_uploads st') \<and> row \<in> set (my_uploads who st') \<and>
    file_at (pn_fs st') (staged_upload_path (ee_sha1 env body)) = Some (CBytes body) \<and>
    file_at (pn_fs st') (cache_path s) = file_at (pn_fs st) (cache_path s)"
proof -
  let ?sha = "ee_sha1 env body"
  have forced: "force \<Longrightarrow> cl_role who \<ge> Debug" if "upload_gates ue rg (cl_role who) force sha body = Inr ()" for rg sha
    using that by (auto simp: upload_gates_def less_eq_role_def less_role_def split: sum.splits if_splits)
  obtain fs i acc where g: "gate st who p Edit = Inr ()" "upload_gates ue (ee_registry env) (cl_role who) force ?sha body = Inr ()"
    and s: "stage_upload (ee_sha1 env) ?sha body (pn_fs st) = (Inr (), fs)"
    and q: "enqueue_upload (cl_uid who) p filename ?sha (int (length body)) (opt_filter (\<lambda>s. trim s \<noteq> []) maintainer)
        (ee_clock env) (pn_acc st) = (i, acc)"
    and st': "st' = emit (EvModeration ''queued'') (let st = set_acc acc (set_fs fs st) in
        if force \<and> cl_role who \<ge> Debug then audit env who ''upload.force'' (Some ?sha) (Some p) st else st)"
    and row: "get_upload i (pn_acc st') = Some row"
    using assms by (auto simp: upload_jar_def Let_def split: sum.splits prod.splits option.splits)
  have sha: "good_sha ?sha" and w: "atomic_write (staged_upload_path ?sha) (CBytes body) (pn_fs st) = (Inr (), fs)"
    using s by (auto simp: stage_upload_def bad_request_def split: if_splits)
  have fs': "pn_fs st' = fs" by (simp add: st' Let_def)
  have ups: "ac_uploads (pn_acc st') = ac_uploads acc" by (simp add: st' Let_def record_audit_def)
  define new where "new = \<lparr>up_id = i, up_uploader = cl_uid who, up_pack = p, up_filename = filename, up_sha1 = ?sha,
      up_size_bytes = int (length body), up_status = ''pending'', up_note = None, up_created_at = ee_clock env,
      up_decided_at = None, up_upstream = opt_filter (\<lambda>s. trim s \<noteq> []) maintainer, up_decided_by = None\<rparr>"
  have n: "ac_uploads acc = ac_uploads (pn_acc st) @ [new]" "i = next_rowid up_id (ac_uploads (pn_acc st))"
    using q by (auto simp: enqueue_upload_def Let_def new_def)
  have "find (\<lambda>u. up_id u = i) (ac_uploads (pn_acc st)) = None"
    unfolding find_None_iff n(2) using next_rowid_gt [where key = up_id] by (metis less_irrefl)
  then have r: "row = new" using row by (simp add: get_upload_def ups n(1) find_append new_def)
  have queued: "row \<in> set (list_uploads st')" "row \<in> set (my_uploads who st')"
    by (simp_all add: list_uploads_def list_pending_uploads_def my_uploads_def list_user_uploads_def ups n(1) r)
      (simp_all add: new_def)
  have trail: "force \<Longrightarrow> \<exists>r \<in> set (ac_audit (pn_acc st')). ar_action r = ''upload.force'' \<and> ar_actor_uid r = cl_uid who \<and>
      ar_target r = Some ?sha"
    using forced [OF g(2)] by (simp add: st' Let_def record_audit_def)
  have "force \<Longrightarrow> cl_role who = Debug" using forced [OF g(2)] by (cases "cl_role who") (simp_all add: less_eq_role_def)
  moreover have "ue_on_modrinth ue ?sha = Inr False" "\<not> force \<Longrightarrow> modrinth_covers_upload ue (ee_registry env) body = Inr None"
    using g(2) by (auto simp: upload_gates_def split: sum.splits if_splits option.splits)
  moreover have "file_at fs (staged_upload_path ?sha) = Some (CBytes body)" using atomic_write_ok(1) [OF w] by simp
  moreover have "file_at fs (cache_path s) = file_at (pn_fs st) (cache_path s)"
    using atomic_write_ok(1) [OF w, of "cache_path s"] sha by simp
  ultimately show ?thesis using g(1) queued trail unfolding fs' r by (simp add: new_def)
qed


section \<open>What an approval serves\<close>

lemma staged_removed:
  "good_sha sha \<Longrightarrow> file_at (remove_file_quiet (staged_upload_path sha) fs) (cache_path s) = file_at fs (cache_path s)"
  "good_sha sha \<Longrightarrow> file_at (remove_file_quiet (staged_upload_path sha) fs) removed_path = file_at fs removed_path"
  by (simp_all add: remove_file_quiet_file staged_path cache_path_def removed_path_def)

lemma jar_name: "strip_suffix ''.jar'' (sha @ ''.jar'') = Some sha"
  by (simp add: strip_suffix_def ends_with_def)

lemma shard_path: "good_sha sha \<Longrightarrow> cache_jar_path (take 2 sha) sha = Some (cache_path sha)"
  by (auto simp: cache_jar_path_def cache_path_in good_sha_def is_hex_def starts_with_def list_all_iff dest: in_set_takeD)

lemma promoted:
  assumes "links_in_packs fs" "map_of fs (cache_path sha) \<noteq> Some Dir" "promote_upload hash sha fs = (Inr (), fs')"
  shows "\<exists>c. get_cache_jar (take 2 sha) (sha @ ''.jar'') fs' = Inr c" "links_in_packs fs'" "good_sha sha"
proof -
  obtain bytes fs1 where s: "save_cache_jar hash sha bytes fs = (Inr (), fs1)"
    and fs': "fs' = remove_file_quiet (staged_upload_path sha) fs1"
    using assms(3) by (auto simp: promote_upload_def split: option.splits sum.splits prod.splits)
  have g: "good_sha sha" and r: "\<not> is_sha1_removed sha fs"
    and w: "fs_exists fs (cache_path sha) \<and> fs1 = fs \<or> atomic_write (cache_path sha) (CBytes bytes) fs = (Inr (), fs1)"
    using s by (auto simp: save_cache_jar_def bad_request_def cache_path_in split: if_splits)
  then show "good_sha sha" by blast
  have l1: "links_in_packs fs1" using w assms(1) links_in_packs_mono links_write by blast
  then show l: "links_in_packs fs'"
    unfolding fs' by (rule links_in_packs_mono [OF links_remove_quiet])
  have "file_at fs1 removed_path = file_at fs removed_path"
    using w atomic_write_ok(1) [of "cache_path sha" "CBytes bytes" fs "()" fs1 removed_path] by auto
  then have "file_at fs' removed_path = file_at fs removed_path" by (simp add: fs' staged_removed g)
  then have "is_sha1_removed sha fs' = is_sha1_removed sha fs"
    using l assms(1) by (simp add: is_sha1_removed_def read_text_def removed_read)
  moreover have "file_at fs' (cache_path sha) = file_at fs1 (cache_path sha)" by (simp add: fs' staged_removed g)
  moreover have "\<exists>c. file_at fs1 (cache_path sha) = Some c"
    using w
  proof
    assume "fs_exists fs (cache_path sha) \<and> fs1 = fs"
    moreover have "map_of fs (cache_path sha) \<noteq> Some (Link t)" for t
      using assms(1) by (auto simp: links_in_packs_def links_def cache_path_def)
    ultimately show ?thesis using assms(2) by (auto simp: fs_exists_def file_at_def split: option.splits node.splits)
  next
    assume "atomic_write (cache_path sha) (CBytes bytes) fs = (Inr (), fs1)"
    then show ?thesis using atomic_write_ok(1) by simp
  qed
  ultimately show "\<exists>c. get_cache_jar (take 2 sha) (sha @ ''.jar'') fs' = Inr c"
    using r l by (auto simp: get_cache_jar_def jar_name shard_path [OF g] cache_read)
qed



section \<open>What may be fetched from GitHub\<close>

lemma enc_char_plain: "d \<in> set (enc_char c) \<Longrightarrow> d \<notin> set ''/?# '' \<and> d \<noteq> CHR 0x5C"
proof -
  have h: "hex_upper (n mod 16) \<notin> set ''/?# '' \<and> hex_upper (n mod 16) \<noteq> CHR 0x5C" for n
  proof -
    have "\<forall>k \<in> {0 ..< 16}. hex_upper k \<notin> set ''/?# '' \<and> hex_upper k \<noteq> CHR 0x5C" by code_simp
    then show ?thesis by (rule bspec) simp
  qed
  assume d: "d \<in> set (enc_char c)"
  show ?thesis
  proof (cases "(of_char c :: nat) < 32 \<or> (of_char c :: nat) \<ge> 127 \<or> c \<in> set encoded_chars")
    case True
    have "(of_char c :: nat) div 16 = ((of_char c :: nat) div 16) mod 16"
      by (cases c) (simp add: of_char_def)
    with d True consider "d = CHR ''%''" | "d = hex_upper (((of_char c :: nat) div 16) mod 16)" | "d = hex_upper ((of_char c :: nat) mod 16)"
      by (auto simp: enc_char_def Let_def)
    then show ?thesis by cases (use h in simp_all)
  next
    case False
    with d have "d = c" "c \<notin> set encoded_chars" by (auto simp: enc_char_def Let_def)
    then show ?thesis by (auto simp: encoded_chars_def)
  qed
qed

lemma enc_seg_plain: "d \<in> set (enc_seg s) \<Longrightarrow> d \<notin> set ''/?# '' \<and> d \<noteq> CHR 0x5C"
  by (auto simp: enc_seg_def dest: enc_char_plain)

lemma enc_char_nonempty [simp]: "enc_char c \<noteq> []"
  by (simp add: enc_char_def Let_def)

lemma enc_seg_same: "CHR ''%'' \<notin> set (enc_seg s) \<Longrightarrow> enc_seg s = s"
  by (induction s) (auto simp: enc_seg_def enc_char_def Let_def split: if_splits)

lemma enc_seg_dots: "safe_path_seg s \<Longrightarrow> enc_seg s \<notin> {[], ''.'', ''..''}"
proof
  assume safe: "safe_path_seg s" and bad: "enc_seg s \<in> {[], ''.'', ''..''}"
  from bad have "CHR ''%'' \<notin> set (enc_seg s)" by auto
  from enc_seg_same [OF this] bad have "s \<in> {[], ''.'', ''..''}" by simp
  with safe show False by (auto simp: safe_path_seg_def)
qed

lemma two_segments:
  assumes "length (filter (\<lambda>c. c = CHR ''/'') s) = 1"
  obtains a b where "s = a @ CHR ''/'' # b" "CHR ''/'' \<notin> set a" "CHR ''/'' \<notin> set b"
proof -
  have "CHR ''/'' \<in> set s"
  proof (rule ccontr)
    assume "CHR ''/'' \<notin> set s"
    then have "filter (\<lambda>c. c = CHR ''/'') s = []" by (auto simp: filter_empty_conv)
    with assms show False by simp
  qed
  then obtain a b where s: "s = a @ CHR ''/'' # b" "CHR ''/'' \<notin> set a" using split_list_first by metis
  then have "filter (\<lambda>c. c = CHR ''/'') b = []" using assms by auto
  then have "CHR ''/'' \<notin> set b" by (auto simp: filter_empty_conv)
  with s show thesis by (rule that)
qed

lemma split_plain: "c \<notin> set a \<Longrightarrow> split_on c (a @ c # b) = a # split_on c b" "c \<notin> set a \<Longrightarrow> split_on c a = [a]"
  by (induction a) (auto split: list.splits)


text \<open>The owner and the name may themselves be steps up: the path then resolves to another one on the same host.\<close>

lemma repo_may_step_up:
  "github_asset_url ''../..'' ''v1'' ''a.jar'' = Some ''https://github.com/../../releases/download/v1/a.jar''"
  by code_simp

section \<open>A fork is the draft of whoever forked\<close>

lemma show_int_parses: "0 \<le> uid \<Longrightarrow> uid < 2 ^ 63 \<Longrightarrow> parse_i64 (show_int uid) = Some uid"
proof -
  assume u: "0 \<le> uid" "uid < 2 ^ 63"
  let ?s = "show_nat (nat uid)"
  have "\<not> starts_with ?s ''-''" "\<not> starts_with ?s ''+''"
    using show_nat_digits [of "nat uid"] show_nat_nonempty [of "nat uid"]
    by (cases ?s; auto simp: starts_with_def is_digit_def)+
  then show ?thesis using u by (simp add: parse_i64_def show_int_def Let_def)
qed

lemma show_int_no_slash: "CHR ''/'' \<notin> set (show_int uid)"
proof -
  have "CHR ''/'' \<notin> set (show_nat n)" for n
    using show_nat_digits [of n] by (auto simp: list_all_iff is_digit_def dest: bspec)
  then show ?thesis by (simp add: show_int_def)
qed

lemma own_namespace:
  "0 \<le> uid \<Longrightarrow> uid < 2 ^ 63 \<Longrightarrow> pack_namespace_uid (''u/'' @ show_int uid @ ''/'' @ name) = Some uid"
proof -
  assume u: "0 \<le> uid" "uid < 2 ^ 63"
  have "strip_prefix ''u/'' (''u/'' @ show_int uid @ ''/'' @ name) = Some (show_int uid @ CHR ''/'' # name)"
    by (simp only: strip_prefix_append) simp
  moreover have "split2 CHR ''/'' (show_int uid @ CHR ''/'' # name) = (show_int uid, Some name)"
    using show_int_no_slash by (simp add: split2_Some)
  ultimately show ?thesis using show_int_parses [OF u] by (simp add: pack_namespace_uid_def)
qed


text \<open>C38: 
  A fork takes somebody who is not suspended, has accepted the rules and may see the source, or finds it
  published. It is a community draft in their own namespace that declares what the source declares and names
  where it came from; and they may do anything to it, unless suspended later.
\<close>

theorem fork_is_own_draft:
  assumes "fork_pack who source name st = (Inr cfg, st')" "0 \<le> cl_uid who" "cl_uid who < 2 ^ 63"
  shows "not_suspended (Some (pn_acc st)) who = Inr () \<and> terms_accepted (cl_uid who) (pn_acc st) \<and>
    (is_published source st \<or> may (Some (pn_acc st)) who source View) \<and>
    (\<exists>src. load_pack_config source (pn_fs st) = Inr src \<and>
      cfg = src\<lparr>cf_pack_id := ''u/'' @ show_int (cl_uid who) @ ''/'' @ name, cf_owner := cl_uid who,
        cf_tier := Community, cf_visibility := Draft, cf_fork_of := Some source\<rparr>) \<and>
    load_pack_config (cf_pack_id cfg) (pn_fs st') = Inr cfg \<and> may (Some (pn_acc st')) who (cf_pack_id cfg) Own"
proof -
  let ?target = "''u/'' @ show_int (cl_uid who) @ ''/'' @ name"
  obtain fs where g: "not_suspended (Some (pn_acc st)) who = Inr ()" "require_terms (Some (pn_acc st)) (cl_uid who) = Inr ()"
      "can_see who source st = Inr ()"
    and d: "duplicate_pack source ?target None (cl_uid who) (Some source) (pn_fs st) = (Inr cfg, fs)"
    and st': "pn_fs st' = fs" "pn_acc st' = pn_acc st"
    using assms(1) by (auto simp: fork_pack_def Let_def split: sum.splits prod.splits)
  obtain src rels fs1 where src: "load_pack_config source (pn_fs st) = Inr src"
    and cfg: "cfg = duplicated src ?target None (cl_uid who) (Some source)"
    and s: "save_pack_config ?target cfg fs1 = (Inr (), fs)"
    using d by (auto simp: duplicate_pack_def Let_def split: if_splits sum.splits prod.splits)
  have tier: "starts_with ?target ''u/''" by (simp add: starts_with_def)
  have shape: "cfg = src\<lparr>cf_pack_id := ?target, cf_owner := cl_uid who, cf_tier := Community, cf_visibility := Draft,
      cf_fork_of := Some source\<rparr>"
    unfolding cfg duplicated_def using tier by simp
  then have id: "cf_pack_id cfg = ?target" by simp
  have "load_pack_config ?target fs = Inr cfg"
    using s by (auto simp: save_pack_config_def bad_request_def intro!: config_file dest!: atomic_write_ok(1) split: if_splits)
  moreover have "may (Some (pn_acc st')) who ?target Own"
    using g(1) own_namespace [OF assms(2,3), of name]
    by (auto simp: may_level st'(2) inherent_level_def not_suspended_def split: option.splits if_splits)
  moreover have "is_published source st \<or> may (Some (pn_acc st)) who source View"
    using g(3) by (simp add: can_see_def may_def split: if_splits)
  moreover have "terms_accepted (cl_uid who) (pn_acc st)" using g(2) by (simp add: require_terms_def split: if_splits)
  ultimately show ?thesis using g(1) src shape unfolding id st'(1) by blast
qed

section \<open>On a concrete service\<close>

definition no_tools :: jar_tools where
  "no_tools = \<lparr>jt_unzip = (\<lambda>_. None), jt_utf8 = Some, jt_utf8_lossy = (\<lambda>s. s), jt_toml = (\<lambda>_. None),
     jt_fabric = (\<lambda>_. None), jt_mod_array = (\<lambda>_. None), jt_mod_list = (\<lambda>_. None)\<rparr>"

definition demo_upload :: upload_env where
  "demo_upload = \<lparr>ue_tools = no_tools, ue_on_modrinth = (\<lambda>_. Inr False), ue_project_loaders = (\<lambda>_ _. Inr []),
     ue_fetch = Inr\<rparr>"

definition uploaded :: "pack_config panel" where
  "uploaded = snd (upload_jar demo_edit demo_upload ada ''p'' ''a.jar'' None False ''ab'' demo_panel)"

lemma upload_waits_for_a_moderator_witness:
  "file_at (pn_fs uploaded) (staged_upload_path (demo_hash ''ab'')) = Some (CBytes ''ab'')"
proof -
  let ?r = "upload_jar demo_edit demo_upload ada ''p'' ''a.jar'' None False ''ab'' demo_panel"
  have "(case fst ?r of Inr _ \<Rightarrow> True | Inl _ \<Rightarrow> False)" by code_simp
  then obtain row where "?r = (Inr row, snd ?r)" by (cases ?r) (auto split: sum.splits)
  from upload_waits_for_a_moderator [OF this] show ?thesis by (simp add: uploaded_def demo_edit_def)
qed



lemma fork_is_own_draft_witness:
  "may (Some (pn_acc (snd (fork_pack ada ''p'' ''mine'' (accept_terms_as demo_edit ada demo_panel))))) ada ''u/7/mine'' Own"
proof -
  let ?r = "fork_pack ada ''p'' ''mine'' (accept_terms_as demo_edit ada demo_panel)"
  have "(case fst ?r of Inr cfg \<Rightarrow> cf_pack_id cfg = ''u/7/mine'' | Inl _ \<Rightarrow> False)" by code_simp
  then obtain cfg where r: "?r = (Inr cfg, snd ?r)" "cf_pack_id cfg = ''u/7/mine''" by (cases ?r) (auto split: sum.splits)
  have "0 \<le> cl_uid ada" "cl_uid ada < 2 ^ 63" by (simp_all add: ada_def)
  from fork_is_own_draft [OF r(1) this] r(2) show ?thesis by simp
qed

text \<open>
  Two uploads of one jar share the staged file: when one is rejected the other can no longer be approved, and
  stays in the queue. And a decided upload is decided again: one that was approved can be marked rejected while
  the jar is still served.
\<close>

lemma shared_staging:
  "(let st = snd (upload_jar demo_edit demo_upload ada ''p'' ''b.jar'' None False ''ab'' uploaded);
        st = snd (reject_upload demo_edit ada 1 None st)
    in fst (approve_upload demo_edit ada 2 st) = Inl NotFound \<and> map up_id (list_uploads st) = [2])"
  by code_simp

lemma decided_again:
  "(let st = snd (reject_upload demo_edit ada 1 None (snd (approve_upload demo_edit ada 1 uploaded)))
    in map up_status (my_uploads ada st) = [''rejected''] \<and> has_cache_jar (demo_hash ''ab'') (pn_fs st))"
  by code_simp

end
