(* ===== verification/Public_Reads.thy ===== *)
theory Public_Reads
  imports Uploads Manifest_Diff
begin

text \<open>
  What anybody may read (\<open>src/src/http/public.rs\<close>): the catalog and the community listing, the manifests and
  their diffs, static files and icons, discussions, and the personal feed. A draft is read by whoever may see
  the pack and by nobody else. Serving a file (ranges, conditions) is the file service's; here a read answers
  the whole content.
\<close>

section \<open>The gate of a read\<close>

record read_env =
  re_auth :: auth_config
  re_headers :: auth_headers
  re_now :: int
  re_registry :: registry
  re_b64 :: "str \<Rightarrow> str"
  re_unb64 :: "str \<Rightarrow> str option"

definition optional_identity :: "read_env \<Rightarrow> 'd panel \<Rightarrow> caller option \<times> 'd panel" where
  "optional_identity env st =
     (case resolve_identity (re_auth env) (re_headers env) (re_now env) (Some (pn_acc st)) of
        (who, db) \<Rightarrow> (who, case db of Some acc \<Rightarrow> set_acc acc st | None \<Rightarrow> st))"

definition gate_summary :: "read_env \<Rightarrow> str \<Rightarrow> pack_summary \<Rightarrow> 'd panel \<Rightarrow> (api_error + unit) \<times> 'd panel" where
  "gate_summary env pack_id summary st =
     (if ps_visibility summary \<noteq> Draft then (Inr (), st)
      else case optional_identity env st of
        (Some who, st) \<Rightarrow> (if may (Some (pn_acc st)) who pack_id View then Inr () else Inl NotFound, st)
      | (None, st) \<Rightarrow> (Inl NotFound, st))"

definition gate_pack_read :: "read_env \<Rightarrow> str \<Rightarrow> 'd panel \<Rightarrow> (api_error + unit) \<times> 'd panel" where
  "gate_pack_read env pack_id st =
     (case load_pack_summary pack_id (pn_fs st) of
        Inl e \<Rightarrow> (Inl e, st) | Inr summary \<Rightarrow> gate_summary env pack_id summary st)"

definition gated :: "read_env \<Rightarrow> str \<Rightarrow> ('d panel \<Rightarrow> api_error + 'a) \<Rightarrow> 'd panel \<Rightarrow> (api_error + 'a) \<times> 'd panel" where
  "gated env pack_id k st =
     (case gate_pack_read env pack_id st of (Inl e, st) \<Rightarrow> (Inl e, st) | (Inr _, st) \<Rightarrow> (k st, st))"

section \<open>Packs\<close>

definition enrich_latest_build :: "fs \<Rightarrow> pack_summary \<Rightarrow> pack_summary" where
  "enrich_latest_build fs s =
     (case latest_build_info (ps_pack_id s) fs of
        Inr (Some info) \<Rightarrow> s\<lparr>ps_latest_built_at := Some (bi_date_published info), ps_latest_channel := Some (bi_version_type info)\<rparr>
      | _ \<Rightarrow> s)"

definition list_packs :: "'d panel \<Rightarrow> pack_summary list" where
  "list_packs st = map (enrich_latest_build (pn_fs st))
     (filter (\<lambda>s. ps_tier s = Official \<and> ps_visibility s = Published) (list_pack_summaries (pn_fs st)))"

definition byline :: "accounts \<Rightarrow> int \<Rightarrow> str" where
  "byline acc uid = (case find (\<lambda>u. uv_uid u = uid) (rev (list_users acc)) of
     Some u \<Rightarrow> uv_login u | None \<Rightarrow> ''uid '' @ show_int uid)"

definition list_community :: "'d panel \<Rightarrow> (pack_summary \<times> str) list" where
  "list_community st = map (\<lambda>s. (enrich_latest_build (pn_fs st) s, byline (pn_acc st) (ps_owner s)))
     (filter (\<lambda>s. ps_tier s = Community \<and> ps_visibility s = Published) (list_pack_summaries (pn_fs st)))"

definition get_pack_summary :: "read_env \<Rightarrow> str \<Rightarrow> 'd panel \<Rightarrow> (api_error + pack_summary) \<times> 'd panel" where
  "get_pack_summary env pack_id st =
     (case load_pack_summary pack_id (pn_fs st) of
        Inl e \<Rightarrow> (Inl e, st)
      | Inr summary \<Rightarrow>
          (case gate_summary env pack_id summary st of
             (Inl e, st) \<Rightarrow> (Inl e, st) | (Inr _, st) \<Rightarrow> (Inr (enrich_latest_build (pn_fs st) summary), st)))"

definition get_latest_manifest :: "read_env \<Rightarrow> str \<Rightarrow> 'd panel \<Rightarrow> (api_error + pack_manifest) \<times> 'd panel" where
  "get_latest_manifest env pack_id = gated env pack_id (\<lambda>st. load_latest_manifest pack_id (pn_fs st))"

definition get_manifest_version :: "read_env \<Rightarrow> str \<Rightarrow> str \<Rightarrow> 'd panel \<Rightarrow> (api_error + pack_manifest) \<times> 'd panel" where
  "get_manifest_version env pack_id version = gated env pack_id (\<lambda>st. load_manifest_version pack_id version (pn_fs st))"

record manifest_versions_listing =
  ml_pack_id :: str
  ml_latest :: "str option"
  ml_builds :: "manifest_build_info list"

definition list_versions ::
  "read_env \<Rightarrow> str \<Rightarrow> 'd panel \<Rightarrow> (api_error + manifest_versions_listing) \<times> 'd panel" where
  "list_versions env pack_id = gated env pack_id (\<lambda>st.
     case list_manifest_builds pack_id (pn_fs st) of
       Inl e \<Rightarrow> Inl e
     | Inr builds \<Rightarrow> (case latest_manifest_version pack_id (pn_fs st) of
         Inl e \<Rightarrow> Inl e | Inr latest \<Rightarrow> Inr \<lparr>ml_pack_id = pack_id, ml_latest = latest, ml_builds = builds\<rparr>))"

definition version_label_for_sha1 :: "registry \<Rightarrow> str \<Rightarrow> str option" where
  "version_label_for_sha1 rg sha =
     opt_filter (\<lambda>v. v \<noteq> ''unknown'') (map_option mv_version (find (\<lambda>v. mv_sha1 v = sha) (rg_versions rg)))"

definition label_update :: "registry \<Rightarrow> diff_update \<Rightarrow> diff_update" where
  "label_update rg u =
     (let label = (\<lambda>sha. if sha = [] then None else version_label_for_sha1 rg sha)
      in u\<lparr>du_version_from := label (du_sha1_from u), du_version_to := label (du_sha1_to u)\<rparr>)"

definition label_diff :: "registry \<Rightarrow> pack_diff \<Rightarrow> pack_diff" where
  "label_diff rg d =
     (if list_all (\<lambda>u. du_sha1_from u = [] \<and> du_sha1_to u = []) (pd_mods_updated d) then d
      else d\<lparr>pd_mods_updated := map (label_update rg) (pd_mods_updated d)\<rparr>)"

definition get_pack_diff ::
  "read_env \<Rightarrow> str \<Rightarrow> str \<Rightarrow> str option \<Rightarrow> 'd panel \<Rightarrow> (api_error + pack_diff) \<times> 'd panel" where
  "get_pack_diff env pack_id v_from v_to = gated env pack_id (\<lambda>st.
     case load_manifest_version pack_id v_from (pn_fs st) of
       Inl e \<Rightarrow> Inl e
     | Inr a \<Rightarrow>
         (case (case v_to of Some v \<Rightarrow> load_manifest_version pack_id v (pn_fs st) | None \<Rightarrow> load_latest_manifest pack_id (pn_fs st)) of
            Inl e \<Rightarrow> Inl e | Inr b \<Rightarrow> Inr (label_diff (re_registry env) (diff_manifests a b))))"

definition served_type :: "str \<Rightarrow> str" where
  "served_type rel_path =
     (let ext = last (split_on CHR ''.'' (to_lower rel_path)) in
      if ext = ''png'' then ''image/png''
      else if ext = ''jpg'' \<or> ext = ''jpeg'' then ''image/jpeg''
      else if ext = ''gif'' then ''image/gif''
      else if ext = ''webp'' then ''image/webp''
      else if ext = ''svg'' then ''image/svg+xml''
      else if ext = ''zip'' then ''application/zip''
      else if ext = ''json'' then ''application/json''
      else if ext = ''toml'' then ''application/toml''
      else if ext \<in> set [''txt'', ''cfg'', ''properties''] then ''text/plain; charset=utf-8''
      else if ext = ''md'' then ''text/markdown; charset=utf-8''
      else ''application/octet-stream'')"

definition get_pack_static :: "read_env \<Rightarrow> str \<Rightarrow> str \<Rightarrow> 'd panel \<Rightarrow> (api_error + content \<times> str) \<times> 'd panel" where
  "get_pack_static env pack_id rel_path = gated env pack_id (\<lambda>st.
     case static_path pack_id rel_path of
       Inl e \<Rightarrow> Inl e
     | Inr p \<Rightarrow> (case fs_read (pn_fs st) p of None \<Rightarrow> Inl NotFound | Some c \<Rightarrow> Inr (c, served_type rel_path)))"

section \<open>Discussions\<close>

definition public_threads ::
  "read_env \<Rightarrow> str \<Rightarrow> str option \<Rightarrow> bool \<Rightarrow> page_query \<Rightarrow> 'd panel \<Rightarrow>
     (api_error + thread_view list \<times> str option) \<times> 'd panel" where
  "public_threads env pack_id kind every q = gated env pack_id (\<lambda>st.
     let after = Option.bind (page_cursor (re_unb64 env) q) (\<lambda>parts. case parts of
            [at, i] \<Rightarrow> Option.bind (parse_i64 at) (\<lambda>at. map_option (Pair at) (parse_i64 i))
          | _ \<Rightarrow> None)
     in Inr (split_page (re_b64 env) q (threads_for pack_id kind (\<not> every) after (probe q) (pn_acc st))
          (\<lambda>t. [show_int (th_created_at (tv_row t)), show_int (th_id (tv_row t))])))"

definition public_thread ::
  "read_env \<Rightarrow> int \<Rightarrow> page_query \<Rightarrow> 'd panel \<Rightarrow>
     (api_error + thread_view \<times> comment_view list \<times> str option) \<times> 'd panel" where
  "public_thread env i q st =
     (case load_thread i st of
        Inl e \<Rightarrow> (Inl e, st)
      | Inr tv \<Rightarrow> gated env (th_pack (tv_row tv)) (\<lambda>st.
          let after = Option.bind (page_cursor (re_unb64 env) q) (\<lambda>parts. case parts of [] \<Rightarrow> None | p # _ \<Rightarrow> parse_i64 p)
          in Inr (tv, split_page (re_b64 env) q (comments_on i after (probe q) (pn_acc st)) (\<lambda>c. [show_int (cv_id c)]))) st)"

definition public_thread_diff :: "read_env \<Rightarrow> int \<Rightarrow> 'd panel \<Rightarrow> (api_error + commit_diff) \<times> 'd panel" where
  "public_thread_diff env i st =
     (case load_thread i st of
        Inl e \<Rightarrow> (Inl e, st)
      | Inr tv \<Rightarrow>
          (let t = tv_row tv in gated env (th_pack t) (\<lambda>st.
             case (th_source_pack t, th_source_commit t) of
               (Some source_pack, Some source_commit) \<Rightarrow>
                 (case load_commit_config source_pack source_commit (pn_fs st) of
                    Inl e \<Rightarrow> Inl e
                  | Inr offered \<Rightarrow> (case load_pack_config (th_pack t) (pn_fs st) of
                      Inl e \<Rightarrow> Inl e
                    | Inr current \<Rightarrow> Inr \<lparr>cd_from = Some (th_pack t), cd_to = source_commit,
                                       cd_changes = diff_configs current offered\<rparr>))
             | _ \<Rightarrow> Inl (BadRequest ''this thread offers no state'')) st))"

section \<open>The feed\<close>

text \<open>\<open>str::replace\<close> of one character.\<close>

definition replace_char :: "char \<Rightarrow> str \<Rightarrow> str \<Rightarrow> str" where
  "replace_char c r s = concat (map (\<lambda>d. if d = c then r else [d]) s)"

definition xml :: "str \<Rightarrow> str" where
  "xml raw = replace_char CHR 0x27 ''&apos;'' (replace_char CHR 0x22 ''&quot;'' (replace_char CHR ''>'' ''&gt;''
     (replace_char CHR ''<'' ''&lt;'' (replace_char CHR ''&'' ''&amp;'' raw))))"

definition feed_actor :: "notification_view \<Rightarrow> str" where
  "feed_actor row = (case nv_actor_login row of Some login \<Rightarrow> login
     | None \<Rightarrow> if nt_actor (nv_row row) = 0 then ''the operator'' else ''somebody'')"

definition feed_what :: "notification_view \<Rightarrow> str" where
  "feed_what row =
     (let kind = nt_kind (nv_row row) in
      if kind = ''comment'' then feed_actor row @ '' said something''
      else if kind = ''opened'' then feed_actor row @ '' opened this on '' @ nv_pack row
      else feed_actor row @ '' marked it '' @ nv_status row)"

definition attr :: "str \<Rightarrow> str \<Rightarrow> str" where
  "attr name v = '' '' @ name @ ''='' @ [CHR 0x22] @ v @ [CHR 0x22]"

definition line :: "str \<Rightarrow> str" where
  "line s = s @ [CHR 0x0A]"

definition feed_entry :: "(int \<Rightarrow> str) \<Rightarrow> str \<Rightarrow> notification_view \<Rightarrow> str" where
  "feed_entry stamp base row =
     line ''  <entry>'' @
     line (''    <title>'' @ xml (nv_title row) @ ''</title>'') @
     line (''    <link'' @ attr ''rel'' ''alternate'' @
       attr ''href'' (xml (base @ ''/thread/'' @ show_int (nt_thread (nv_row row)))) @ ''/>'') @
     line (''    <id>tag:smrt,2026:notification:'' @ show_int (nt_id (nv_row row)) @ ''</id>'') @
     line (''    <updated>'' @ stamp (nt_created_at (nv_row row)) @ ''</updated>'') @
     line (''    <summary>'' @ xml (feed_what row) @ ''</summary>'') @
     line ''  </entry>''"

definition atom_feed :: "(int \<Rightarrow> str) \<Rightarrow> str \<Rightarrow> str \<Rightarrow> int \<Rightarrow> notification_view list \<Rightarrow> str" where
  "atom_feed stamp base login uid rows =
     line (''<?xml'' @ attr ''version'' ''1.0'' @ attr ''encoding'' ''utf-8'' @ ''?>'') @
     line (''<feed'' @ attr ''xmlns'' ''http://www.w3.org/2005/Atom'' @ ''>'') @
     line (''  <title>smrt: '' @ xml login @ ''</title>'') @
     line (''  <id>tag:smrt,2026:notifications:'' @ show_int uid @ ''</id>'') @
     line (''  <link'' @ attr ''rel'' ''alternate'' @ attr ''href'' (xml base @ ''/profile'') @ ''/>'') @
     line (''  <updated>'' @ stamp (case rows of [] \<Rightarrow> 0 | r # _ \<Rightarrow> nt_created_at (nv_row r)) @ ''</updated>'') @
     concat (map (feed_entry stamp base) rows) @
     line ''</feed>''"

definition personal_feed :: "(int \<Rightarrow> str) \<Rightarrow> str \<Rightarrow> str \<Rightarrow> 'd panel \<Rightarrow> api_error + str" where
  "personal_feed stamp mirror_base key st =
     (case uid_for_feed_key key (pn_acc st) of
        None \<Rightarrow> Inl NotFound
      | Some uid \<Rightarrow>
          (let rows = notifications_for uid False None (Some 50) (pn_acc st);
               login = (case identity_of uid (pn_acc st) of Some i \<Rightarrow> cl_login i | None \<Rightarrow> ''you'')
           in Inr (atom_feed stamp (trim_end_slash mirror_base) login uid rows)))"

section \<open>Icons\<close>

definition get_cache_icon :: "jar_tools \<Rightarrow> str \<Rightarrow> fs \<Rightarrow> (api_error + content \<times> str) \<times> fs" where
  "get_cache_icon jt sha fs =
     (if length sha \<noteq> 40 \<or> \<not> list_all is_hexdigit sha then (Inl (BadRequest ''sha1 must be 40 hex chars''), fs)
      else case read_cached_icon sha fs of
        IconImage img ct \<Rightarrow> (Inr (img, ct), fs)
      | IconAbsent \<Rightarrow> (Inl NotFound, fs)
      | IconUnknown \<Rightarrow>
          (case cache_jar_path (take 2 sha) sha of
             None \<Rightarrow> (Inl (BadRequest ''invalid sha1''), fs)
           | Some path \<Rightarrow>
               (case read_text fs path of
                  None \<Rightarrow> (Inl NotFound, fs)
                | Some jar \<Rightarrow>
                    (case jar_icon jt jar of
                       Inl e \<Rightarrow> (Inl (Internal e), fs)
                     | Inr icon \<Rightarrow>
                         (case icon of Some (img, ct) \<Rightarrow> Inr (CBytes img, ct) | None \<Rightarrow> Inl NotFound, store_icon sha icon fs)))))"

section \<open>Drafts stay private\<close>

lemma gate_denies:
  assumes "load_pack_summary p (pn_fs st) = Inr s" "ps_visibility s = Draft"
    and "optional_identity env st = (who, st1)" "who = None \<or> \<not> may (Some (pn_acc st1)) (the who) p View"
  shows "gate_summary env p s st = (Inl NotFound, st1)" "gate_pack_read env p st = (Inl NotFound, st1)"
    "gated env p k st = (Inl NotFound, st1)"
  using assms by (auto simp: gate_pack_read_def gate_summary_def gated_def split: option.split)

text \<open>C39: 
  A draft is as good as absent to whoever may not see the pack: its card, its builds, what is between them, its
  static files, its threads, and what a thread offers it, are each answered as not found, which is what is
  answered for a pack that was never there. And neither listing names a pack that is not published.
\<close>

theorem drafts_stay_private:
  assumes "load_pack_summary p (pn_fs st) = Inr s" "ps_visibility s = Draft"
    and "optional_identity env st = (who, st1)" "who = None \<or> \<not> may (Some (pn_acc st1)) (the who) p View"
  shows "get_pack_summary env p st = (Inl NotFound, st1) \<and> get_latest_manifest env p st = (Inl NotFound, st1) \<and>
    get_manifest_version env p v st = (Inl NotFound, st1) \<and> list_versions env p st = (Inl NotFound, st1) \<and>
    get_pack_diff env p v w st = (Inl NotFound, st1) \<and> get_pack_static env p rel st = (Inl NotFound, st1) \<and>
    public_threads env p kind every q st = (Inl NotFound, st1) \<and>
    (\<forall>tv \<in> set_option (thread_by_id i (pn_acc st)). th_pack (tv_row tv) = p \<longrightarrow>
      public_thread env i q st = (Inl NotFound, st1) \<and> public_thread_diff env i st = (Inl NotFound, st1)) \<and>
    list_all (\<lambda>s. ps_visibility s = Published) (list_packs st @ map fst (list_community st))"
proof -
  note g = gate_denies [OF assms]
  have "ps_visibility (enrich_latest_build fs x) = ps_visibility x" for fs x
    by (simp add: enrich_latest_build_def split: sum.split option.split)
  then have "list_all (\<lambda>s. ps_visibility s = Published) (list_packs st @ map fst (list_community st))"
    by (auto simp: list_packs_def list_community_def list_all_iff)
  then show ?thesis
    using assms(1) g(1) by (auto simp: get_pack_summary_def get_latest_manifest_def get_manifest_version_def list_versions_def
        get_pack_diff_def get_pack_static_def public_threads_def public_thread_def public_thread_diff_def load_thread_def
        Let_def g(3))
qed

section \<open>What is typed stays text\<close>

definition xml_char :: "char \<Rightarrow> str" where
  "xml_char c = (if c = CHR ''&'' then ''&amp;'' else if c = CHR ''<'' then ''&lt;'' else if c = CHR ''>'' then ''&gt;''
     else if c = CHR 0x22 then ''&quot;'' else if c = CHR 0x27 then ''&apos;'' else [c])"

lemma replace_append: "replace_char c r (s @ t) = replace_char c r s @ replace_char c r t"
  by (simp add: replace_char_def)

lemma xml_Cons: "xml (c # s) = xml_char c @ xml s"
proof -
  have "xml (c # s) = xml [c] @ xml s"
    unfolding xml_def by (simp only: replace_append [symmetric]) (simp add: replace_char_def)
  moreover have "xml [c] = xml_char c" by (simp add: xml_def xml_char_def replace_char_def)
  ultimately show ?thesis by simp
qed

lemma xml_Nil [simp]: "xml [] = []"
  by (simp add: xml_def replace_char_def)

text \<open>A reader of the five entities.\<close>

definition entities :: "(str \<times> char) list" where
  "entities = [(''&amp;'', CHR ''&''), (''&lt;'', CHR ''<''), (''&gt;'', CHR ''>''), (''&quot;'', CHR 0x22), (''&apos;'', CHR 0x27)]"

function read_text_node :: "str \<Rightarrow> str option" where
  "read_text_node [] = Some []"
| "read_text_node (c # s) =
     (if c = CHR ''&'' then
        (case find (\<lambda>(e, _). starts_with (c # s) e) entities of
           None \<Rightarrow> None
         | Some (e, d) \<Rightarrow> map_option (Cons d) (read_text_node (drop (length e - 1) s)))
      else if c = CHR ''<'' then None
      else map_option (Cons c) (read_text_node s))"
  by pat_completeness auto

termination read_text_node
  by (relation "measure length") auto

lemma read_entity:
  assumes "(e, d) \<in> set entities"
  shows "read_text_node (e @ t) = map_option (Cons d) (read_text_node t)"
  using assms by (auto simp: entities_def starts_with_def)

text \<open>C40: 
  A reader of XML text gets back exactly what somebody typed, whatever they typed, also where the text stands
  in an attribute: nothing typed opens a tag, ends an attribute or forges an entity.
\<close>

theorem feed_text_reads_back:
  "read_text_node (xml s) = Some s \<and> set (xml s) \<inter> {CHR ''<'', CHR ''>'', CHR 0x22, CHR 0x27} = {}"
proof (induction s)
  case (Cons c s)
  have "read_text_node (xml_char c @ t) = map_option (Cons c) (read_text_node t)" for t
  proof (cases "(xml_char c, c) \<in> set entities")
    case True
    then show ?thesis by (rule read_entity)
  next
    case False
    then have "xml_char c = [c]" "c \<noteq> CHR ''&''" "c \<noteq> CHR ''<''"
      by (auto simp: xml_char_def entities_def split: if_splits)
    then show ?thesis by simp
  qed
  moreover have "set (xml_char c) \<inter> {CHR ''<'', CHR ''>'', CHR 0x22, CHR 0x27} = {}"
    by (auto simp: xml_char_def)
  ultimately show ?case using Cons by (auto simp: xml_Cons)
qed simp


section \<open>On a concrete service\<close>

definition nobody :: read_env where
  "nobody = \<lparr>re_auth = demo_auth, re_headers = \<lparr>ah_authorization = None, ah_cookie = None\<rparr>, re_now = 500,
     re_registry = empty_registry, re_b64 = (\<lambda>s. s), re_unb64 = Some\<rparr>"

definition draft_card :: pack_summary where
  "draft_card = \<lparr>ps_pack_id = ''p'', ps_display_name = ''P'', ps_tagline = [], ps_minecraft_version = ''1.12.2'',
     ps_latest_pack_version = ''1.0'', ps_tags = [], ps_featured = False, ps_icon_url = None, ps_banner_url = None,
     ps_gallery_urls = [], ps_description_md = None, ps_owner = 7, ps_tier = Official, ps_visibility = Draft,
     ps_fork_of = None, ps_latest_built_at = None, ps_latest_channel = None\<rparr>"

definition draft_panel :: "pack_config panel" where
  "draft_panel = set_fs (snd (save_pack_summary draft_card drafted)) demo_panel"

lemma drafts_stay_private_witness: "get_latest_manifest nobody ''p'' draft_panel = (Inl NotFound, draft_panel)"
proof -
  have "(case load_pack_summary ''p'' (pn_fs draft_panel) of Inr s \<Rightarrow> ps_visibility s = Draft | Inl _ \<Rightarrow> False)" by code_simp
  then obtain s where "load_pack_summary ''p'' (pn_fs draft_panel) = Inr s" "ps_visibility s = Draft" by (auto split: sum.splits)
  moreover have "optional_identity nobody draft_panel = (None, draft_panel)"
    by (simp add: optional_identity_def resolve_identity_def nobody_def cookie_value_def set_acc_def)
  ultimately show ?thesis
    using drafts_stay_private [of "''p''" draft_panel s nobody None draft_panel] by simp
qed

end
