(* ===== verification/Spec2Isabelle.thy ===== *)
theory Spec2Isabelle
  imports Smrt_Prelude Closure_Loop Version_Order Pack_Version Semver Side_Axes Wire_Model
    Manifest_Diff Registry_Model Classify Required Paths Sources Build Placement Resolve Gate
    Fill_Plan Depfill Config_Diff File_System Disk_Frame Commits Store_Packs Pack_Copy Store_Cache
    Paging Jar_Meta Enrich Loader_Window Jobs Accounts Access Publish Pack_Edit Discussions Uploads Public_Reads
begin

text \<open>
  A verification library of the SMRT mirror (\<open>src/src\<close>, Rust): the server that stores modpacks,
  knows what every mod jar is and needs, and builds the manifests a launcher installs from.

  \<^bold>\<open>The program.\<close> A curator edits a pack's config (\<open>PackConfig\<close>). A save fills in missing
  dependencies (\<open>authoring/depfill.rs\<close>), a commit freezes the config (\<open>authoring/commits.rs\<close>), and a
  build job (\<open>jobs.rs\<close>) resolves every declared source to a file (\<open>authoring/sources.rs\<close>), resolves
  the placed mods against the relations in the registry (\<open>authoring/resolve.rs\<close>), asks the gate
  (\<open>authoring/gate.rs\<close>), derives which entries are required and which version the build gets
  (\<open>authoring/build.rs\<close>) and publishes the manifest through the storage layer (\<open>storage.rs\<close>).

  \<^bold>\<open>Ground.\<close>
  \<^item> \<open>Smrt_Prelude\<close>: strings, sorted maps and sets as the Rust standard library has them;
  \<^item> \<open>Closure_Loop\<close>: the pop-and-push work list that the derivation, the loader chain and the pruning
    run. Its fuel is the size of the finite universe the loop can visit; the locale proves that this
    is enough and that the result is the reachable set.

  \<^bold>\<open>Domain\<close> (\<open>src/src/domain\<close>).
  \<^item> \<open>Pack_Version\<close>, \<open>Version_Order\<close>: \<open>version.rs\<close>; \<open>Side_Axes\<close>: \<open>side.rs\<close>; \<open>Wire_Model\<close>: the records of
    \<open>manifest.rs\<close> and \<open>pack.rs\<close> with the edit projection, the merge of a proposal and the duplicate
    check; \<open>Manifest_Diff\<close>: \<open>diff.rs\<close>.

  \<^bold>\<open>Registry\<close> (\<open>src/src/registry\<close>).
  \<^item> \<open>Semver\<close>: \<open>semver.rs\<close>; \<open>Registry_Model\<close>: the tables as lists of rows and the read queries as
    functions on them (\<open>model.rs\<close>, \<open>queries.rs\<close>); \<open>Classify\<close>: \<open>classify.rs\<close>.

  \<^bold>\<open>Authoring\<close> (\<open>src/src/authoring\<close>).
  \<^item> \<open>Sources\<close>: \<open>sources.rs\<close>; \<open>Required\<close>, \<open>Build\<close>: \<open>build.rs\<close>; \<open>Placement\<close>, \<open>Resolve\<close>, \<open>Fill_Plan\<close>:
    \<open>resolve.rs\<close>; \<open>Gate\<close>: \<open>gate.rs\<close>; \<open>Depfill\<close>: \<open>depfill.rs\<close>; \<open>Config_Diff\<close>: \<open>configdiff.rs\<close>.

  \<^bold>\<open>Storage\<close> (\<open>storage.rs\<close>).
  \<^item> \<open>Paths\<close>: the validators and the layout; \<open>File_System\<close>: the disk and the effects on it,
    with every write a rename over the target, so that an operation is a list of file operations and
    a crash is a prefix of it; \<open>Disk_Frame\<close>: what a write below one directory leaves alone;
  \<^item> \<open>Commits\<close>: commit objects (\<open>commits.rs\<close>) and their storage, with the histories that saving builds;
  \<^item> \<open>Store_Packs\<close>: summaries, manifests, configs, static files, servers; \<open>Pack_Copy\<close>: the walk over
    the static files (its fuel is the number of entries on the disk, one visit each) and duplication;
  \<^item> \<open>Store_Cache\<close>: the jars under their hashes, the takedown list, staged uploads and the inventory.

  \<^bold>\<open>HTTP\<close> (\<open>src/src/http\<close>).
  \<^item> \<open>Paging\<close>: \<open>page.rs\<close>, with a locale of what a listing owes a pager, interpreted on the history of a
    pack and on the cache inventory.

  A file holds what its bytes decode to, so serde and the JSON text are not modelled; the hash, the
  clock, base64, the upstream client and the jar reader are parameters.
\<close>

end
